(* ===== verification/WivOS_Prelude.thy ===== *)
theory WivOS_Prelude
  imports Main "HOL-Library.Word"
begin

text \<open>
  Shared vocabulary of the development: how the C code may fail to return (type \<open>stuck\<close>), the
  sequencing operator for code that may get stuck (\<open>bindr\<close>), pointer dereferencing over an explicit
  store (\<open>deref\<close>), the constants every component uses (page size, rounding macros) and the generic
  lemmas on lists, functions and words that the component theories rely on.
\<close>

unbundle bit_operations_syntax

named_theorems exec_simps \<open>equations that run a piece of possibly stuck code\<close>
named_theorems page_simps \<open>arithmetic of page numbers, page addresses and page offsets\<close>

section \<open>Code that may not return\<close>

text \<open>
  A C function of the kernel can fail to return in five ways that its source shows: it loads or
  stores through a null pointer, it touches memory that is not the object it expects, it enters one
  of the kernel's deliberate \<^verbatim>\<open>while(1);\<close> loops (or another loop that never ends), it spins on a lock
  nobody will release, or it divides by zero.
\<close>

datatype stuck = NullDeref | WildAccess | HaltLoop | LockHeld | DivideError

type_synonym 'a exec = "stuck + 'a"

definition bindr :: "'a exec \<Rightarrow> ('a \<Rightarrow> 'b exec) \<Rightarrow> 'b exec" where
  "bindr m f = (case m of Inl e \<Rightarrow> Inl e | Inr x \<Rightarrow> f x)"

lemma bindr_Inl [simp, exec_simps]: "bindr (Inl e) f = Inl e"
  by (simp add: bindr_def)

lemma bindr_Inr [simp, exec_simps]: "bindr (Inr x) f = f x"
  by (simp add: bindr_def)

lemma bindr_eq_Inr_conv: "bindr m f = Inr y \<longleftrightarrow> (\<exists>x. m = Inr x \<and> f x = Inr y)"
  by (cases m) simp_all

lemma bindr_eq_InrE [elim!]:
  assumes "bindr m f = Inr y"
  obtains x where "m = Inr x" "f x = Inr y"
  using assms by (auto simp: bindr_eq_Inr_conv)

lemma bindr_assoc: "bindr (bindr m f) g = bindr m (\<lambda>x. bindr (f x) g)"
  by (cases m) simp_all

lemma bindr_cong [fundef_cong]:
  "m = m' \<Longrightarrow> (\<And>x. m' = Inr x \<Longrightarrow> f x = f' x) \<Longrightarrow> bindr m f = bindr m' f'"
  by (cases m') simp_all

section \<open>Pointers\<close>

text \<open>A pointer into a typed store is an optional address; \<open>None\<close> is \<^verbatim>\<open>NULL\<close>.\<close>

definition deref :: "('a \<rightharpoonup> 'v) \<Rightarrow> 'a option \<Rightarrow> 'v exec" where
  "deref m p = (case p of
      None \<Rightarrow> Inl NullDeref
    | Some a \<Rightarrow> (case m a of None \<Rightarrow> Inl WildAccess | Some v \<Rightarrow> Inr v))"

lemma deref_None [simp, exec_simps]: "deref m None = Inl NullDeref"
  by (simp add: deref_def)

lemma deref_Some [simp, exec_simps]: "m a = Some v \<Longrightarrow> deref m (Some a) = Inr v"
  by (simp add: deref_def)

lemma deref_wild [simp, exec_simps]: "m a = None \<Longrightarrow> deref m (Some a) = Inl WildAccess"
  by (simp add: deref_def)

lemma deref_eq_Inr_conv: "deref m p = Inr v \<longleftrightarrow> (\<exists>a. p = Some a \<and> m a = Some v)"
  by (auto simp: deref_def split: option.splits)

text \<open>
  Stores whose pointers are the 64-bit addresses the heap hands out: address 0 is \<^verbatim>\<open>NULL\<close>, and an
  address without an object of the expected type is a wild access.
\<close>

definition load :: "(64 word \<rightharpoonup> 'v) \<Rightarrow> 64 word \<Rightarrow> 'v exec" where
  "load m p = (if p = 0 then Inl NullDeref
     else case m p of None \<Rightarrow> Inl WildAccess | Some v \<Rightarrow> Inr v)"

definition modify :: "64 word \<Rightarrow> ('v \<Rightarrow> 'v) \<Rightarrow> (64 word \<rightharpoonup> 'v) \<Rightarrow> (64 word \<rightharpoonup> 'v) exec" where
  "modify p f m = bindr (load m p) (\<lambda>v. Inr (m(p \<mapsto> f v)))"

lemma load_null [simp, exec_simps]: "load m 0 = Inl NullDeref"
  by (simp add: load_def)

lemma load_Some [simp, exec_simps]: "p \<noteq> 0 \<Longrightarrow> m p = Some v \<Longrightarrow> load m p = Inr v"
  by (simp add: load_def)

lemma load_eq_Inr: "load m p = Inr v \<longleftrightarrow> p \<noteq> 0 \<and> m p = Some v"
  by (auto simp: load_def split: option.splits)

lemma modify_Some [simp, exec_simps]: "p \<noteq> 0 \<Longrightarrow> m p = Some v \<Longrightarrow> modify p f m = Inr (m(p \<mapsto> f v))"
  by (simp add: modify_def)

text \<open>A loop that does not terminate is \<open>None\<close>; the call around it then never returns.\<close>

definition run_loop :: "'a exec option \<Rightarrow> 'a exec" where
  "run_loop r = (case r of None \<Rightarrow> Inl HaltLoop | Some x \<Rightarrow> x)"

lemma run_loop_Some [simp, exec_simps]: "run_loop (Some x) = x"
  by (simp add: run_loop_def)

lemma run_loop_None [simp, exec_simps]: "run_loop None = Inl HaltLoop"
  by (simp add: run_loop_def)

text \<open>A \<^verbatim>\<open>for\<close> loop over \<open>n\<close> consecutive indices whose body may get stuck.\<close>

fun for_exec :: "nat \<Rightarrow> nat \<Rightarrow> (nat \<Rightarrow> 's \<Rightarrow> 's exec) \<Rightarrow> 's \<Rightarrow> 's exec" where
  "for_exec i 0 f s = Inr s"
| "for_exec i (Suc n) f s = bindr (f i s) (for_exec (Suc i) n f)"

lemma for_exec_invariant:
  assumes "for_exec i n f s = Inr t" "P i s"
    and "\<And>j s t. i \<le> j \<Longrightarrow> j < i + n \<Longrightarrow> P j s \<Longrightarrow> f j s = Inr t \<Longrightarrow> P (Suc j) t"
  shows "P (i + n) t"
  using assms
proof (induction n arbitrary: i s)
  case (Suc n)
  from Suc.prems(1) obtain u where u: "f i s = Inr u" "for_exec (Suc i) n f u = Inr t"
    by auto
  have "P (Suc i) u"
    using Suc.prems(2,3) u(1) by simp
  then have "P (Suc i + n) t"
    using Suc.prems(3) by (intro Suc.IH [OF u(2)]) auto
  then show ?case by simp
qed simp

section \<open>Kernel-wide constants and macros\<close>

type_synonym u8 = "8 word"
type_synonym u16 = "16 word"
type_synonym u32 = "32 word"
type_synonym u64 = "64 word"

abbreviation PAGE_SIZE :: nat where
  "PAGE_SIZE \<equiv> 4096"

definition ROUND_UP :: "nat \<Rightarrow> nat \<Rightarrow> nat" where
  "ROUND_UP n s = ((n + s - 1) div s) * s"

definition ROUND_DOWN :: "nat \<Rightarrow> nat \<Rightarrow> nat" where
  "ROUND_DOWN n s = (n div s) * s"

text \<open>The same macro where the code computes it in 64 bits, wrap-around included.\<close>

definition ROUND_UP64 :: "u64 \<Rightarrow> u64 \<Rightarrow> u64" where
  "ROUND_UP64 n s = ((n + s - 1) div s) * s"

lemma ROUND_UP_ge: "0 < s \<Longrightarrow> n \<le> ROUND_UP n s"
proof -
  assume s: "0 < s"
  define q where "q = n + s - 1"
  have "q = q div s * s + q mod s"
    by simp
  moreover have "q mod s < s"
    using s by simp
  moreover have "q + 1 = n + s"
    using s by (simp add: q_def)
  ultimately have "n \<le> q div s * s"
    by linarith
  then show ?thesis by (simp add: ROUND_UP_def q_def)
qed

lemma ROUND_UP_less: "0 < s \<Longrightarrow> ROUND_UP n s < n + s"
proof -
  assume s: "0 < s"
  have "ROUND_UP n s \<le> n + s - 1"
    by (simp add: ROUND_UP_def)
  with s show ?thesis by simp
qed

lemma div_ceil_aligned:
  assumes "0 < s" "(n :: nat) mod s = 0"
  shows "(n + (s - 1)) div s = n div s"
proof (rule div_nat_eqI)
  have n: "s * (n div s) = n"
    using assms(2) by (metis add.right_neutral mult_div_mod_eq)
  then show "s * (n div s) \<le> n + (s - 1)" by simp
  show "n + (s - 1) < s * Suc (n div s)"
    using assms(1) by (simp add: n)
qed

lemma div_ceil_unaligned:
  assumes "0 < s" "(n :: nat) mod s \<noteq> 0"
  shows "(n + (s - 1)) div s = n div s + 1"
proof (rule div_nat_eqI)
  have n: "s * (n div s) + n mod s = n" "n mod s < s"
    using assms(1) by simp_all
  then show "s * (n div s + 1) \<le> n + (s - 1)"
    using assms by (simp only: distrib_left mult_1_right, linarith?)
  show "n + (s - 1) < s * Suc (n div s + 1)"
    using n assms by (simp only: mult_Suc_right distrib_left mult_1_right, linarith?)
qed

lemma ROUND_UP_dvd [simp]: "s dvd ROUND_UP n s"
  by (simp add: ROUND_UP_def)

lemma ROUND_UP_mono: "m \<le> n \<Longrightarrow> ROUND_UP m s \<le> ROUND_UP n s"
  by (simp add: ROUND_UP_def div_le_mono)

lemma ROUND_UP_0 [simp]: "0 < s \<Longrightarrow> ROUND_UP 0 s = 0"
  by (simp add: ROUND_UP_def)

lemma ROUND_UP_eq_0_iff: "0 < s \<Longrightarrow> ROUND_UP n s = 0 \<longleftrightarrow> n = 0"
  using ROUND_UP_ge [of s n] by auto

lemma ROUND_DOWN_le: "ROUND_DOWN n s \<le> n"
  by (simp add: ROUND_DOWN_def)

section \<open>Generic facts\<close>

lemma fun_upd_swap: "a \<noteq> b \<Longrightarrow> f(a := x, b := y) = f(b := y, a := x)"
  by (rule fun_upd_twist)

lemma unat_of_nat_u64 [simp]: "n < 18446744073709551616 \<Longrightarrow> unat (of_nat n :: u64) = n"
  by (simp add: unat_of_nat take_bit_eq_mod)

lemma unat_u64_less [simp]: "unat (w :: u64) < 18446744073709551616"
  by (rule order_less_le_trans [OF unsigned_less]) simp

lemma unat_u32_less: "unat (w :: u32) < 4294967296"
  by (rule order_less_le_trans [OF unsigned_less]) simp

lemma unat_u16_less: "unat (w :: u16) < 65536"
  by (rule order_less_le_trans [OF unsigned_less]) simp

lemma unat_u8_lt: "unat (w :: u8) < 256"
  by (rule order_less_le_trans [OF unsigned_less]) simp

lemma ROUND_UP64_page:
  assumes "unat (n :: u64) \<le> 18446744073709547520"
  shows "unat (ROUND_UP64 n 4096) = ROUND_UP (unat n) 4096"
proof -
  have "n + 4096 - 1 = of_nat (unat n + 4095)"
    by simp
  moreover have "unat (of_nat (unat n + 4095) :: u64) = unat n + 4095"
    using assms by (intro unat_of_nat_u64) simp
  ultimately have "unat (n + 4096 - 1) = unat n + 4095"
    by (simp only:)
  then have "(n + 4096 - 1) div 4096 * 4096 = of_nat ((unat n + 4095) div 4096 * 4096)"
    by (simp add: word_arith_nat_div)
  moreover have "(unat n + 4095) div 4096 * 4096 < 18446744073709551616"
    using assms by linarith
  ultimately show ?thesis
    by (simp add: ROUND_UP64_def ROUND_UP_def del: of_nat_mult)
qed

end
