(* ===== verification/Spinlock.thy ===== *)
theory Spinlock
  imports WivOS_Prelude
begin

text \<open>
  The spinlock of \<^verbatim>\<open>kernel/utils/spinlock.h\<close>. The lock word is free when its bit 0 is set;
  \<^verbatim>\<open>spinlock_try_lock\<close> is one atomic \<^verbatim>\<open>lock btrw $0\<close> and \<^verbatim>\<open>spinlock_unlock\<close> one \<^verbatim>\<open>lock btsw $0\<close>.
  The first part gives the operations as functions on the structure, the second part runs any number
  of processors over one lock as a step relation and shows mutual exclusion, the third part gives the
  view the other components use: between two atomic sections of one processor the lock is either free
  and taken, or the code never returns.
\<close>

section \<open>The lock structure and its atomic operations\<close>

record last_acquirer_t =
  la_file :: string
  la_func :: string
  la_line :: int

record spinlock_t =
  sl_lock :: u32
  sl_last_acquirer :: last_acquirer_t

definition DEADLOCK_MAX_ITER :: nat where
  "DEADLOCK_MAX_ITER = 0x4000000"

text \<open>\<^verbatim>\<open>lock btrw $0, m\<close>: the carry flag gets bit 0, which is then cleared.\<close>

definition lock_btrw0 :: "u32 \<Rightarrow> bool \<times> u32" where
  "lock_btrw0 w = (bit w 0, unset_bit 0 w)"

text \<open>\<^verbatim>\<open>lock btsw $0, m\<close>: bit 0 is set.\<close>

definition lock_btsw0 :: "u32 \<Rightarrow> u32" where
  "lock_btsw0 w = set_bit 0 w"

definition INIT_SPINLOCK :: spinlock_t where
  "INIT_SPINLOCK = \<lparr>sl_lock = 1,
     sl_last_acquirer = \<lparr>la_file = ''N/A'', la_func = ''N/A'', la_line = 0\<rparr>\<rparr>"

definition spinlock_try_lock :: "last_acquirer_t \<Rightarrow> spinlock_t \<Rightarrow> bool \<times> spinlock_t" where
  "spinlock_try_lock site l =
     (let (ret, w) = lock_btrw0 (sl_lock l); l1 = l\<lparr>sl_lock := w\<rparr>
      in (ret, if ret then l1\<lparr>sl_last_acquirer := site\<rparr> else l1))"

definition spinlock_unlock :: "spinlock_t \<Rightarrow> spinlock_t" where
  "spinlock_unlock l = l\<lparr>sl_lock := lock_btsw0 (sl_lock l)\<rparr>"

definition lock_free :: "spinlock_t \<Rightarrow> bool" where
  "lock_free l \<longleftrightarrow> bit (sl_lock l) 0"

lemma bit_unset_bit0 [simp]: "\<not> bit (unset_bit 0 (w :: u32)) 0"
  by (simp add: bit_unset_bit_iff)

lemma bit_set_bit0 [simp]: "bit (set_bit 0 (w :: u32)) 0"
  by (simp add: bit_set_bit_iff)

lemma unset_bit0_idem: "\<not> bit (w :: u32) 0 \<Longrightarrow> unset_bit 0 w = w"
  by (rule bit_word_eqI) (metis bit_unset_bit_iff)

lemma lock_free_INIT [simp]: "lock_free INIT_SPINLOCK"
  by (simp add: lock_free_def INIT_SPINLOCK_def)

lemma lock_free_unlock [simp]: "lock_free (spinlock_unlock l)"
  by (simp add: lock_free_def spinlock_unlock_def lock_btsw0_def)

lemma try_lock_result: "fst (spinlock_try_lock site l) = lock_free l"
  by (simp add: spinlock_try_lock_def lock_btrw0_def lock_free_def Let_def)

lemma try_lock_taken [simp]: "\<not> lock_free (snd (spinlock_try_lock site l))"
  by (simp add: spinlock_try_lock_def lock_btrw0_def lock_free_def Let_def)

lemma try_lock_held: "\<not> lock_free l \<Longrightarrow> spinlock_try_lock site l = (False, l)"
  by (simp add: spinlock_try_lock_def lock_btrw0_def lock_free_def Let_def unset_bit0_idem)

section \<open>Processors contending for one lock\<close>

text \<open>
  Where a processor stands in \<^verbatim>\<open>spinlock_lock\<close>: outside, in the bounded \<^verbatim>\<open>for\<close> loop at iteration
  \<open>k\<close>, or past it (holding the lock). After \<^verbatim>\<open>DEADLOCK_MAX_ITER\<close> failures \<^verbatim>\<open>deadlock_detect\<close> reports
  and control goes back to \<^verbatim>\<open>retry\<close>. Only the lock instructions touch the lock word, and each is one
  step, because each carries the \<^verbatim>\<open>lock\<close> prefix.
\<close>

datatype cpu_pc = Outside | Spinning nat | Inside

record spin_sys =
  ss_lock :: spinlock_t
  ss_pc :: "nat \<Rightarrow> cpu_pc"
  ss_reports :: nat

definition spin_init :: spin_sys where
  "spin_init = \<lparr>ss_lock = INIT_SPINLOCK, ss_pc = (\<lambda>_. Outside), ss_reports = 0\<rparr>"

inductive spin_step :: "spin_sys \<Rightarrow> spin_sys \<Rightarrow> bool" where
  spin_enter: "ss_pc s i = Outside \<Longrightarrow>
     spin_step s (s\<lparr>ss_pc := (ss_pc s)(i := Spinning 0)\<rparr>)"
| spin_acquire: "ss_pc s i = Spinning k \<Longrightarrow> k < DEADLOCK_MAX_ITER \<Longrightarrow>
     spinlock_try_lock site (ss_lock s) = (True, l) \<Longrightarrow>
     spin_step s (s\<lparr>ss_lock := l, ss_pc := (ss_pc s)(i := Inside)\<rparr>)"
| spin_fail: "ss_pc s i = Spinning k \<Longrightarrow> k < DEADLOCK_MAX_ITER \<Longrightarrow>
     spinlock_try_lock site (ss_lock s) = (False, l) \<Longrightarrow>
     spin_step s (s\<lparr>ss_lock := l, ss_pc := (ss_pc s)(i := Spinning (Suc k))\<rparr>)"
| spin_report: "ss_pc s i = Spinning k \<Longrightarrow> \<not> k < DEADLOCK_MAX_ITER \<Longrightarrow>
     spin_step s (s\<lparr>ss_pc := (ss_pc s)(i := Spinning 0), ss_reports := Suc (ss_reports s)\<rparr>)"
| spin_release: "ss_pc s i = Inside \<Longrightarrow>
     spin_step s (s\<lparr>ss_lock := spinlock_unlock (ss_lock s), ss_pc := (ss_pc s)(i := Outside)\<rparr>)"

inductive spin_reachable :: "spin_sys \<Rightarrow> bool" where
  spin_start: "spin_reachable spin_init"
| spin_more: "spin_reachable s \<Longrightarrow> spin_step s t \<Longrightarrow> spin_reachable t"

text \<open>The lock is free exactly when no processor is inside, and at most one is inside.\<close>

definition spin_inv :: "spin_sys \<Rightarrow> bool" where
  "spin_inv s \<longleftrightarrow>
     (lock_free (ss_lock s) \<longleftrightarrow> (\<forall>i. ss_pc s i \<noteq> Inside)) \<and>
     (\<forall>i j. ss_pc s i = Inside \<longrightarrow> ss_pc s j = Inside \<longrightarrow> i = j)"

lemma spin_inv_init: "spin_inv spin_init"
  by (simp add: spin_inv_def spin_init_def)

lemma try_lock_TrueD:
  "spinlock_try_lock site l = (True, l') \<Longrightarrow> lock_free l \<and> \<not> lock_free l'"
  by (metis fst_conv snd_conv try_lock_result try_lock_taken)

lemma try_lock_FalseD:
  "spinlock_try_lock site l = (False, l') \<Longrightarrow> \<not> lock_free l \<and> l' = l"
  by (metis fst_conv snd_conv try_lock_result try_lock_held)

lemma spin_step_inv: "spin_step s t \<Longrightarrow> spin_inv s \<Longrightarrow> spin_inv t"
proof (induction rule: spin_step.induct)
  case (spin_acquire s i k site l)
  from spin_acquire.hyps(3) have "lock_free (ss_lock s)" "\<not> lock_free l"
    by (auto dest: try_lock_TrueD)
  with spin_acquire.prems show ?case
    by (auto simp: spin_inv_def)
next
  case (spin_fail s i k site l)
  from spin_fail.hyps(3) have "l = ss_lock s"
    by (auto dest: try_lock_FalseD)
  moreover have "((ss_pc s)(i := Spinning (Suc k))) j = Inside \<longleftrightarrow> ss_pc s j = Inside" for j
    using spin_fail.hyps(1) by simp
  ultimately show ?case
    using spin_fail.prems by (simp add: spin_inv_def)
next
  case (spin_release s i)
  then have "\<forall>j. ss_pc s j = Inside \<longrightarrow> j = i"
    by (auto simp: spin_inv_def)
  then show ?case
    by (auto simp: spin_inv_def)
next
  case (spin_report s i k)
  have "((ss_pc s)(i := Spinning 0)) j = Inside \<longleftrightarrow> ss_pc s j = Inside" for j
    using spin_report.hyps(1) by simp
  then show ?case
    using spin_report.prems by (simp add: spin_inv_def)
next
  case (spin_enter s i)
  have "((ss_pc s)(i := Spinning 0)) j = Inside \<longleftrightarrow> ss_pc s j = Inside" for j
    using spin_enter.hyps by simp
  then show ?case
    using spin_enter.prems by (simp add: spin_inv_def)
qed

lemma spin_reachable_inv: "spin_reachable s \<Longrightarrow> spin_inv s"
  by (induction rule: spin_reachable.induct) (auto intro: spin_inv_init spin_step_inv)

lemma spin_can_acquire:
  assumes "lock_free (ss_lock s)" "ss_pc s i = Spinning k" "k < DEADLOCK_MAX_ITER"
  shows "\<exists>t. spin_step s t \<and> ss_pc t i = Inside"
proof -
  obtain l where "spinlock_try_lock (sl_last_acquirer (ss_lock s)) (ss_lock s) = (True, l)"
    using try_lock_result assms(1) by (metis (full_types) prod.collapse)
  from spin_acquire [OF assms(2,3) this] show ?thesis by fastforce
qed

text \<open>
  C30. However many processors contend for one spinlock, in every reachable state at most one of them is
  between \<^verbatim>\<open>spinlock_lock\<close> and \<^verbatim>\<open>spinlock_unlock\<close>; the lock word says free exactly when none is, and then
  every processor still spinning in the \<^verbatim>\<open>for\<close> loop can take the lock with its next instruction.
\<close>

theorem spinlock_mutual_exclusion:
  assumes "spin_reachable s"
  shows "(\<forall>i j. ss_pc s i = Inside \<and> ss_pc s j = Inside \<longrightarrow> i = j) \<and>
    (lock_free (ss_lock s) \<longleftrightarrow> (\<forall>i. ss_pc s i \<noteq> Inside)) \<and>
    ((\<forall>i. ss_pc s i \<noteq> Inside) \<longrightarrow> (\<forall>i k. ss_pc s i = Spinning k \<and> k < DEADLOCK_MAX_ITER \<longrightarrow>
       (\<exists>t. spin_step s t \<and> ss_pc t i = Inside)))"
  using spin_reachable_inv [OF assms] spin_can_acquire [of s] by (auto simp: spin_inv_def)

theorem spinlock_mutual_exclusion_witness:
  "\<exists>s. spin_reachable s \<and> ss_pc s 0 = Inside \<and> ss_pc s 1 = Spinning 0 \<and> \<not> lock_free (ss_lock s) \<and>
     (\<forall>j. ss_pc s j = Inside \<longrightarrow> j = 0)"
proof -
  let ?a = "spin_init\<lparr>ss_pc := (ss_pc spin_init)(0 := Spinning 0)\<rparr>"
  let ?b = "?a\<lparr>ss_pc := (ss_pc ?a)(1 := Spinning 0)\<rparr>"
  let ?l = "\<lparr>sl_lock = 0, sl_last_acquirer = \<lparr>la_file = ''f'', la_func = ''g'', la_line = 1\<rparr>\<rparr>"
  let ?c = "?b\<lparr>ss_lock := ?l, ss_pc := (ss_pc ?b)(0 := Inside)\<rparr>"
  have "spin_reachable ?a"
    by (rule spin_more [OF spin_start spin_enter]) (simp add: spin_init_def)
  then have "spin_reachable ?b"
    by (rule spin_more [OF _ spin_enter]) (simp add: spin_init_def)
  have "spinlock_try_lock (sl_last_acquirer ?l) (ss_lock ?b) = (True, ?l)"
    by (simp add: spin_init_def INIT_SPINLOCK_def spinlock_try_lock_def lock_btrw0_def unset_bit_def)
  from spin_acquire [OF _ _ this, of 0 0] have "spin_step ?b ?c"
    by (simp add: spin_init_def DEADLOCK_MAX_ITER_def)
  with \<open>spin_reachable ?b\<close> have "spin_reachable ?c"
    by (rule spin_more)
  moreover have pc: "ss_pc ?c 0 = Inside" "ss_pc ?c 1 = Spinning 0" by simp_all
  ultimately show ?thesis
    using spinlock_mutual_exclusion [of ?c] by metis
qed

section \<open>Locks inside the other components\<close>

text \<open>
  The other components run one kernel call at a time, so no other processor can release a lock the
  call finds taken: \<^verbatim>\<open>spinlock_lock\<close> on a free lock takes it, on a held one it spins for ever. The
  debug field \<^verbatim>\<open>last_acquirer\<close> is only printed; the components keep the lock word's bit as a bool.
\<close>

type_synonym lock = bool

abbreviation (input) UNLOCKED :: lock where
  "UNLOCKED \<equiv> True"

definition spin_acquire_exec :: "lock \<Rightarrow> lock exec" where
  "spin_acquire_exec free = (if free then Inr False else Inl LockHeld)"

lemma spin_acquire_free [simp, exec_simps]: "spin_acquire_exec True = Inr False"
  by (simp add: spin_acquire_exec_def)

lemma spin_acquire_held [simp, exec_simps]: "spin_acquire_exec False = Inl LockHeld"
  by (simp add: spin_acquire_exec_def)

lemma spin_acquire_eq_Inr [simp]: "spin_acquire_exec l = Inr l' \<longleftrightarrow> l \<and> \<not> l'"
  by (auto simp: spin_acquire_exec_def)

lemma spin_acquire_exec_try:
  "spin_acquire_exec (lock_free l) =
     (if fst (spinlock_try_lock site l)
      then Inr (lock_free (snd (spinlock_try_lock site l))) else Inl LockHeld)"
  by (simp add: try_lock_result spin_acquire_exec_def)

section \<open>Atomic counters\<close>

text \<open>
  \<^verbatim>\<open>locked_inc\<close> and \<^verbatim>\<open>locked_dec\<close> are \<^verbatim>\<open>lock incw\<close> and \<^verbatim>\<open>lock decw\<close>: they change the low 16 bits of
  the 32-bit cell they are applied to, without a carry into the upper half, and their value is the
  processor's not-zero flag. \<^verbatim>\<open>locked_read\<close> adds 0 and returns the whole cell, \<^verbatim>\<open>locked_write\<close>
  exchanges it and returns the old value.
\<close>

definition locked_inc :: "u32 \<Rightarrow> bool \<times> u32" where
  "locked_inc w = (let n = take_bit 16 (w + 1) in (n \<noteq> 0, (w AND 0xFFFF0000) OR n))"

definition locked_dec :: "u32 \<Rightarrow> bool \<times> u32" where
  "locked_dec w = (let n = take_bit 16 (w - 1) in (n \<noteq> 0, (w AND 0xFFFF0000) OR n))"

definition locked_read :: "u32 \<Rightarrow> u32" where
  "locked_read w = w"

definition locked_write :: "u32 \<Rightarrow> u32 \<Rightarrow> u32 \<times> u32" where
  "locked_write old value = (old, value)"

end
