(* ===== verification/ByteMem.thy ===== *)
theory ByteMem
  imports WivOS_Prelude
begin

text \<open>
  Byte-addressed memory and the \<^verbatim>\<open>mem*\<close> routines of \<^verbatim>\<open>kernel/utils/string.c\<close>. Memory is a total
  function from addresses (naturals: the routines are only ever run on objects that do not wrap
  around the end of the address space) to bytes; each routine is the loop of its C text and is shown
  equal to a one-line description of what it leaves in memory. Little-endian loads and stores of
  \<open>k\<close>-byte integers are given with their round trip, for the kernel structures that live in memory.
\<close>

unbundle bit_operations_syntax

type_synonym bytes = "nat \<Rightarrow> u8"

section \<open>memset, memcpy, memcpy64, memmove, memcmp\<close>

function memset_loop :: "bytes \<Rightarrow> nat \<Rightarrow> u8 \<Rightarrow> nat \<Rightarrow> nat \<Rightarrow> bytes" where
  "memset_loop m p c n i = (if i < n then memset_loop (m(p + i := c)) p c n (Suc i) else m)"
  by pat_completeness auto
termination
  by (relation "measure (\<lambda>(m, p, c, n, i). n - i)") auto

definition memset :: "bytes \<Rightarrow> nat \<Rightarrow> u32 \<Rightarrow> nat \<Rightarrow> bytes" where
  "memset m s c n = memset_loop m s (ucast c) n 0"

fun memcpy :: "bytes \<Rightarrow> nat \<Rightarrow> nat \<Rightarrow> nat \<Rightarrow> bytes" where
  "memcpy m dest source 0 = m"
| "memcpy m dest source (Suc n) = memcpy (m(dest := m source)) (Suc dest) (Suc source) n"

function memmove_up :: "bytes \<Rightarrow> nat \<Rightarrow> nat \<Rightarrow> nat \<Rightarrow> nat \<Rightarrow> bytes" where
  "memmove_up m dest src n i =
     (if i < n then memmove_up (m(dest + i := m (src + i))) dest src n (Suc i) else m)"
  by pat_completeness auto
termination
  by (relation "measure (\<lambda>(m, d, s, n, i). n - i)") auto

function memmove_down :: "bytes \<Rightarrow> nat \<Rightarrow> nat \<Rightarrow> nat \<Rightarrow> nat \<Rightarrow> bytes" where
  "memmove_down m dest src n i =
     (if i < n then memmove_down (m(dest + (n - i - 1) := m (src + (n - i - 1)))) dest src n (Suc i)
      else m)"
  by pat_completeness auto
termination
  by (relation "measure (\<lambda>(m, d, s, n, i). n - i)") auto

definition memmove :: "bytes \<Rightarrow> nat \<Rightarrow> nat \<Rightarrow> nat \<Rightarrow> bytes" where
  "memmove m dest src n =
     (if src > dest then memmove_up m dest src n 0
      else if src < dest then memmove_down m dest src n 0
      else m)"

fun memcmp :: "bytes \<Rightarrow> nat \<Rightarrow> nat \<Rightarrow> nat \<Rightarrow> int" where
  "memcmp m s1 s2 0 = 0"
| "memcmp m s1 s2 (Suc n) =
     (let a = m s1; b = m s2 in
      if a = b then memcmp m (Suc s1) (Suc s2) n
      else if a < b then -1
      else if a > b then 1
      else memcmp m (Suc s1) (Suc s2) n)"

declare memset_loop.simps [simp del] memmove_up.simps [simp del] memmove_down.simps [simp del]

text \<open>What each routine leaves in memory.\<close>

definition blit :: "bytes \<Rightarrow> nat \<Rightarrow> nat \<Rightarrow> nat \<Rightarrow> bytes" where
  "blit m dest src n = (\<lambda>a. if dest \<le> a \<and> a < dest + n then m (src + (a - dest)) else m a)"

lemma memset_loop_eq:
  "i \<le> n \<Longrightarrow> memset_loop m p c n i = (\<lambda>a. if p + i \<le> a \<and> a < p + n then c else m a)"
proof (induction m p c n i rule: memset_loop.induct)
  case (1 m p c n i)
  show ?case
  proof (cases "i < n")
    case True
    then have "memset_loop m p c n i =
        (\<lambda>a. if p + Suc i \<le> a \<and> a < p + n then c else (m(p + i := c)) a)"
      using "1.IH" by (subst memset_loop.simps) (simp add: fun_upd_def)
    also have "\<dots> = (\<lambda>a. if p + i \<le> a \<and> a < p + n then c else m a)"
      using True by (auto simp: fun_eq_iff)
    finally show ?thesis .
  next
    case False
    with "1.prems" show ?thesis by (subst memset_loop.simps) (auto simp: fun_eq_iff)
  qed
qed

lemma memset_eq: "memset m p c n = (\<lambda>a. if p \<le> a \<and> a < p + n then ucast c else m a)"
  by (simp add: memset_def memset_loop_eq)

lemma memset_zero: "memset m p 0 n = (\<lambda>a. if p \<le> a \<and> a < p + n then 0 else m a)"
  by (simp add: memset_eq cong: if_cong)

lemma memcpy_eq:
  "dest \<le> src \<or> src + n \<le> dest \<Longrightarrow> memcpy m dest src n = blit m dest src n"
proof (induction n arbitrary: m dest src)
  case 0
  then show ?case by (auto simp: blit_def fun_eq_iff)
next
  case (Suc n)
  have "memcpy (m(dest := m src)) (Suc dest) (Suc src) n
      = blit (m(dest := m src)) (Suc dest) (Suc src) n"
    using Suc.prems by (intro Suc.IH) auto
  also have "\<dots> = blit m dest src (Suc n)"
  proof
    fix a
    show "blit (m(dest := m src)) (Suc dest) (Suc src) n a = blit m dest src (Suc n) a"
    proof (cases "Suc dest \<le> a \<and> a < Suc dest + n")
      case True
      then have "Suc src + (a - Suc dest) = src + (a - dest)" by arith
      moreover have "src + (a - dest) \<noteq> dest" using True Suc.prems by auto
      ultimately show ?thesis using True by (simp add: blit_def)
    next
      case False
      then show ?thesis by (auto simp: blit_def)
    qed
  qed
  finally show ?case by simp
qed

lemma memmove_up_eq:
  assumes "dest < src" "i \<le> n"
  shows "memmove_up m dest src n i =
    (\<lambda>a. if dest + i \<le> a \<and> a < dest + n then m (src + (a - dest)) else m a)"
  using assms
proof (induction m dest src n i rule: memmove_up.induct)
  case (1 m dest src n i)
  show ?case
  proof (cases "i < n")
    case True
    let ?m = "m(dest + i := m (src + i))"
    have "memmove_up m dest src n i =
        (\<lambda>a. if dest + Suc i \<le> a \<and> a < dest + n then ?m (src + (a - dest)) else ?m a)"
      using "1" True by (subst memmove_up.simps) (simp add: fun_upd_def)
    also have "\<dots> = (\<lambda>a. if dest + i \<le> a \<and> a < dest + n then m (src + (a - dest)) else m a)"
      using True "1.prems" by (auto simp: fun_eq_iff)
    finally show ?thesis .
  next
    case False
    with "1.prems" show ?thesis by (subst memmove_up.simps) (auto simp: fun_eq_iff)
  qed
qed

lemma memmove_down_eq:
  assumes "src < dest" "i \<le> n"
  shows "memmove_down m dest src n i =
    (\<lambda>a. if dest \<le> a \<and> a < dest + (n - i) then m (src + (a - dest)) else m a)"
  using assms
proof (induction m dest src n i rule: memmove_down.induct)
  case (1 m dest src n i)
  show ?case
  proof (cases "i < n")
    case True
    let ?k = "n - i - 1"
    let ?m = "m(dest + ?k := m (src + ?k))"
    have "memmove_down m dest src n i =
        (\<lambda>a. if dest \<le> a \<and> a < dest + (n - Suc i) then ?m (src + (a - dest)) else ?m a)"
      using "1" True by (subst memmove_down.simps) (simp add: fun_upd_def)
    also have "\<dots> = (\<lambda>a. if dest \<le> a \<and> a < dest + (n - i) then m (src + (a - dest)) else m a)"
    proof
      fix a
      consider "a = dest + ?k" | "dest \<le> a" "a < dest + ?k" | "a < dest \<or> dest + ?k < a"
        by linarith
      then show "(if dest \<le> a \<and> a < dest + (n - Suc i) then ?m (src + (a - dest)) else ?m a)
          = (if dest \<le> a \<and> a < dest + (n - i) then m (src + (a - dest)) else m a)"
        using True "1.prems" by cases auto
    qed
    finally show ?thesis .
  next
    case False
    with "1.prems" show ?thesis by (subst memmove_down.simps) (auto simp: fun_eq_iff)
  qed
qed

lemma memmove_blit: "memmove m dest src n = blit m dest src n"
proof -
  consider "dest < src" | "src < dest" | "src = dest" by linarith
  then show ?thesis
  proof cases
    case 1
    then show ?thesis by (simp add: memmove_def memmove_up_eq blit_def)
  next
    case 2
    then show ?thesis by (simp add: memmove_def memmove_down_eq blit_def)
  next
    case 3
    then show ?thesis by (auto simp: memmove_def blit_def fun_eq_iff)
  qed
qed

definition bytes_at :: "bytes \<Rightarrow> nat \<Rightarrow> nat \<Rightarrow> u8 list" where
  "bytes_at m a n = map (\<lambda>i. m (a + i)) [0..<n]"

lemma length_bytes_at [simp]: "length (bytes_at m a n) = n"
  by (simp add: bytes_at_def)

lemma nth_bytes_at [simp]: "i < n \<Longrightarrow> bytes_at m a n ! i = m (a + i)"
  by (simp add: bytes_at_def)

lemma bytes_at_0 [simp]: "bytes_at m a 0 = []"
  by (simp add: bytes_at_def)

lemma bytes_at_Suc: "bytes_at m a (Suc n) = m a # bytes_at m (Suc a) n"
  by (rule nth_equalityI) (auto simp: nth_Cons split: nat.splits)

lemma bytes_at_add: "bytes_at m a (j + k) = bytes_at m a j @ bytes_at m (a + j) k"
  by (rule nth_equalityI) (auto simp: nth_append)

lemma bytes_at_cong:
  "(\<And>x. a \<le> x \<Longrightarrow> x < a + n \<Longrightarrow> m x = m' x) \<Longrightarrow> bytes_at m a n = bytes_at m' a n"
  by (simp add: bytes_at_def)

lemma bytes_at_blit_dest: "bytes_at (blit m d s n) d n = bytes_at m s n"
  by (rule nth_equalityI) (auto simp: blit_def)

lemma memcmp_eq_0_iff: "memcmp m s1 s2 n = 0 \<longleftrightarrow> bytes_at m s1 n = bytes_at m s2 n"
  by (induction n arbitrary: s1 s2) (auto simp: bytes_at_Suc Let_def)

section \<open>Little-endian integers in memory\<close>

fun read_le :: "bytes \<Rightarrow> nat \<Rightarrow> nat \<Rightarrow> u64" where
  "read_le m a 0 = 0"
| "read_le m a (Suc k) = ucast (m a) OR push_bit 8 (read_le m (Suc a) k)"

fun write_le :: "bytes \<Rightarrow> nat \<Rightarrow> nat \<Rightarrow> u64 \<Rightarrow> bytes" where
  "write_le m a 0 v = m"
| "write_le m a (Suc k) v = write_le (m(a := ucast v)) (Suc a) k (drop_bit 8 v)"

lemma write_le_outside: "x < a \<or> a + k \<le> x \<Longrightarrow> write_le m a k v x = m x"
  by (induction m a k v rule: write_le.induct) auto

lemma write_le_apply:
  "write_le m a k v x = (if a \<le> x \<and> x < a + k then ucast (drop_bit (8 * (x - a)) v) else m x)"
proof (induction k arbitrary: m a v)
  case (Suc k)
  have "drop_bit (8 * (x - Suc a)) (drop_bit 8 v) = drop_bit (8 * (x - a)) v" if "Suc a \<le> x"
  proof -
    have "8 * (x - a) = 8 * (x - Suc a) + 8"
      using that by simp
    then show ?thesis by simp
  qed
  with Suc.IH show ?case by auto
qed auto

lemma write_le_twice: "write_le (write_le m a k v) a k w = write_le m a k w"
  by (rule ext) (simp add: write_le_apply)

lemma read_le_cong: "(\<And>x. a \<le> x \<Longrightarrow> x < a + k \<Longrightarrow> m x = m' x) \<Longrightarrow> read_le m a k = read_le m' a k"
proof (induction k arbitrary: a)
  case (Suc k)
  have "read_le m (Suc a) k = read_le m' (Suc a) k"
    using Suc.prems by (intro Suc.IH) auto
  with Suc.prems [of a] show ?case by simp
qed simp

lemma take_bit_split8: "ucast (ucast (v :: u64) :: u8) OR push_bit 8 (take_bit k (drop_bit 8 v))
    = take_bit (8 + k) v"
  by (rule bit_word_eqI) (auto simp: bit_or_iff bit_push_bit_iff bit_take_bit_iff bit_ucast_iff
      bit_drop_bit_eq)

lemma read_write_le: "read_le (write_le m a k v) a k = take_bit (8 * k) v"
proof (induction k arbitrary: m a v)
  case 0
  then show ?case by simp
next
  case (Suc k)
  have "write_le (m(a := ucast v)) (Suc a) k (drop_bit 8 v) a = ucast v"
    by (simp add: write_le_outside)
  moreover have "read_le (write_le (m(a := ucast v)) (Suc a) k (drop_bit 8 v)) (Suc a) k
      = take_bit (8 * k) (drop_bit 8 v)"
    by (rule Suc.IH)
  ultimately show ?case
    using take_bit_split8 [of v "8 * k"] by simp
qed

definition read64 :: "bytes \<Rightarrow> nat \<Rightarrow> u64" where
  "read64 m a = read_le m a 8"

definition write64 :: "bytes \<Rightarrow> nat \<Rightarrow> u64 \<Rightarrow> bytes" where
  "write64 m a v = write_le m a 8 v"

lemma read_write64 [simp]: "read64 (write64 m a v) a = v"
  by (simp add: read64_def write64_def read_write_le take_bit_word_eq_self)

lemma read_write64_other [simp]:
  assumes "b + 8 \<le> a \<or> a + 8 \<le> b"
  shows "read64 (write64 m a v) b = read64 m b"
  unfolding read64_def write64_def
proof (rule read_le_cong)
  fix x
  assume "b \<le> x" "x < b + 8"
  with assms show "write_le m a 8 v x = m x"
    by (intro write_le_outside) linarith
qed

lemma write64_outside: "x < a \<or> a + 8 \<le> x \<Longrightarrow> write64 m a v x = m x"
  by (simp add: write64_def write_le_outside)

lemma write64_twice_outside:
  assumes "x < a \<or> a + 16 \<le> x"
  shows "write64 (write64 m a v) (a + 8) w x = m x"
proof -
  have "write64 (write64 m a v) (a + 8) w x = write64 m a v x"
    using assms by (intro write64_outside) linarith
  also have "\<dots> = m x"
    using assms by (intro write64_outside) linarith
  finally show ?thesis .
qed

lemma read64_cong: "(\<And>x. a \<le> x \<Longrightarrow> x < a + 8 \<Longrightarrow> m x = m' x) \<Longrightarrow> read64 m a = read64 m' a"
  unfolding read64_def by (rule read_le_cong)

lemma read_le_zero: "(\<And>x. a \<le> x \<Longrightarrow> x < a + k \<Longrightarrow> m x = 0) \<Longrightarrow> read_le m a k = 0"
proof (induction k arbitrary: a)
  case (Suc k)
  have "read_le m (Suc a) k = 0"
    using Suc.prems by (intro Suc.IH) auto
  with Suc.prems [of a] show ?case by simp
qed simp

text \<open>\<^verbatim>\<open>memcpy64\<close> copies whole 64-bit words, \<open>n div 8\<close> of them.\<close>

function memcpy64_loop :: "bytes \<Rightarrow> nat \<Rightarrow> nat \<Rightarrow> nat \<Rightarrow> nat \<Rightarrow> bytes" where
  "memcpy64_loop m dest src w i =
     (if i < w then memcpy64_loop (write64 m (dest + 8 * i) (read64 m (src + 8 * i))) dest src w (Suc i)
      else m)"
  by pat_completeness auto
termination
  by (relation "measure (\<lambda>(m, d, s, n, i). n - i)") auto

definition memcpy64 :: "bytes \<Rightarrow> nat \<Rightarrow> nat \<Rightarrow> nat \<Rightarrow> bytes" where
  "memcpy64 m dest src n = memcpy64_loop m dest src (n div 8) 0"

declare memcpy64_loop.simps [simp del]

end
