(* ===== verification/Pmm.thy ===== *)
theory Pmm
  imports Spinlock ByteMem
begin

text \<open>
  The physical page allocator, \<^verbatim>\<open>kernel/mem/pmm.c\<close>. Its state is the bitmap (bit \<open>i\<close> set: page \<open>i\<close>
  is in use), the number of pages it covers, a free-page counter and the lock. The bitmap is the
  memory behind the pointer \<^verbatim>\<open>PmmBitmap\<close> seen as bits, so it has bits beyond \<^verbatim>\<open>PmmLength\<close> as well:
  the C code never compares \<^verbatim>\<open>index + count\<close> with the length. \<^verbatim>\<open>pmm_alloc_advanced\<close> is shown to be a
  first-fit search, \<^verbatim>\<open>pmm_free\<close> its inverse, and \<^verbatim>\<open>pmm_init\<close> to free exactly the usable regions and
  one page more.
\<close>

section \<open>State\<close>

definition MEM_PHYS_OFFSET :: u64 where
  "MEM_PHYS_OFFSET = 0xFFFF800000000000"

record limine_memmap_entry_t =
  me_base :: u64
  me_length :: u64
  me_type :: u64

definition LIMINE_MEMMAP_USABLE :: u64 where
  "LIMINE_MEMMAP_USABLE = 0"

definition LIMINE_MEMMAP_KERNEL_AND_MODULES :: u64 where
  "LIMINE_MEMMAP_KERNEL_AND_MODULES = 6"

record pmm_state =
  PmmBitmap :: "nat \<Rightarrow> bool"
  PmmLength :: nat
  PmmFreePages :: u64
  PmmLock :: lock

section \<open>The bitmap loops\<close>

fun is_bitmap_page_free :: "(nat \<Rightarrow> bool) \<Rightarrow> nat \<Rightarrow> nat \<Rightarrow> bool" where
  "is_bitmap_page_free b index 0 = True"
| "is_bitmap_page_free b index (Suc count) =
     (if b index then False else is_bitmap_page_free b (Suc index) count)"

fun set_bits_from :: "(nat \<Rightarrow> bool) \<Rightarrow> nat \<Rightarrow> nat \<Rightarrow> (nat \<Rightarrow> bool)" where
  "set_bits_from b i 0 = b"
| "set_bits_from b i (Suc n) = set_bits_from (b(i := True)) (Suc i) n"

fun reset_bits_from :: "(nat \<Rightarrow> bool) \<Rightarrow> nat \<Rightarrow> nat \<Rightarrow> (nat \<Rightarrow> bool)" where
  "reset_bits_from b index 0 = b"
| "reset_bits_from b index (Suc count) = reset_bits_from (b(index := False)) (Suc index) count"

text \<open>
  The search loop of \<^verbatim>\<open>pmm_alloc_advanced\<close>. With alignment 0 a busy first candidate makes the loop
  spin on the same index for ever.
\<close>

function pmm_search :: "(nat \<Rightarrow> bool) \<Rightarrow> nat \<Rightarrow> nat \<Rightarrow> nat \<Rightarrow> nat \<Rightarrow> nat option exec" where
  "pmm_search b len index count alignment =
     (if index < len then
        if \<not> is_bitmap_page_free b index count then
          if alignment = 0 then Inl HaltLoop
          else pmm_search b len (index + alignment) count alignment
        else Inr (Some index)
      else Inr None)"
  by pat_completeness auto
termination
  by (relation "measure (\<lambda>(b, len, index, count, alignment). len - index)") auto

declare pmm_search.simps [simp del]

section \<open>Allocation and release\<close>

definition pmm_alloc_advanced :: "nat \<Rightarrow> nat \<Rightarrow> pmm_state \<Rightarrow> (u64 \<times> pmm_state) exec" where
  "pmm_alloc_advanced count alignment s =
     bindr (spin_acquire_exec (PmmLock s)) (\<lambda>_.
     bindr (pmm_search (PmmBitmap s) (PmmLength s) 0 count alignment) (\<lambda>found.
       case found of
         Some index \<Rightarrow>
           Inr (of_nat (index * PAGE_SIZE),
                s\<lparr>PmmFreePages := (if PmmFreePages s \<noteq> 0 then PmmFreePages s - of_nat count
                                   else PmmFreePages s),
                  PmmBitmap := set_bits_from (PmmBitmap s) index count,
                  PmmLock := UNLOCKED\<rparr>)
       | None \<Rightarrow> Inr (0, s\<lparr>PmmLock := UNLOCKED\<rparr>)))"

definition pmm_free :: "u64 \<Rightarrow> nat \<Rightarrow> pmm_state \<Rightarrow> pmm_state exec" where
  "pmm_free addr count s =
     (if addr \<ge> MEM_PHYS_OFFSET then Inl HaltLoop
      else bindr (spin_acquire_exec (PmmLock s)) (\<lambda>_.
        Inr (s\<lparr>PmmFreePages := PmmFreePages s + of_nat count,
               PmmBitmap := reset_bits_from (PmmBitmap s) (unat (addr div 4096)) count,
               PmmLock := UNLOCKED\<rparr>)))"

text \<open>
  \<^verbatim>\<open>pmm_alloc\<close> also clears the pages it got, through the direct map; the physical address is the
  index into memory. It clears whatever \<^verbatim>\<open>pmm_alloc_advanced\<close> returned, \<^verbatim>\<open>NULL\<close> included.
\<close>

record kmem =
  km_pmm :: pmm_state
  km_mem :: bytes

definition pmm_alloc :: "nat \<Rightarrow> kmem \<Rightarrow> (u64 \<times> kmem) exec" where
  "pmm_alloc count k =
     bindr (pmm_alloc_advanced count 1 (km_pmm k)) (\<lambda>(addr, p).
       Inr (addr, k\<lparr>km_pmm := p, km_mem := memset (km_mem k) (unat addr) 0 (PAGE_SIZE * count mod 2 ^ 64)\<rparr>))"

section \<open>Initialisation\<close>

text \<open>First pass over the memory map: pick the region that holds the bitmap.\<close>

fun pmm_choose :: "limine_memmap_entry_t list \<Rightarrow> u64 \<times> u64 \<times> u64 \<Rightarrow> u64 \<times> u64 \<times> u64" where
  "pmm_choose [] (bitmap, len, maxBase) = (bitmap, len, maxBase)"
| "pmm_choose (entry # entries) (bitmap, len, maxBase) =
     pmm_choose entries
       (if me_type entry = LIMINE_MEMMAP_USABLE \<and> me_base entry > bitmap then
          let newLength = (me_base entry + me_length entry + 4096 - 1) div 4096 in
          if me_length entry > newLength then (me_base entry, newLength, me_base entry)
          else (bitmap, len, maxBase)
        else (bitmap, len, maxBase))"

text \<open>Second pass: release the usable regions, keeping the bitmap's own pages.\<close>

fun pmm_free_usable :: "limine_memmap_entry_t list \<Rightarrow> u64 \<Rightarrow> pmm_state \<Rightarrow> pmm_state exec" where
  "pmm_free_usable [] maxBase s = Inr s"
| "pmm_free_usable (entry # entries) maxBase s =
     (if me_type entry = LIMINE_MEMMAP_USABLE \<and> me_base entry \<le> maxBase then
        bindr (if me_base entry = maxBase
               then pmm_free (me_base entry +
                        of_nat (((PmmLength s div 8 + PAGE_SIZE - 1) div PAGE_SIZE) * PAGE_SIZE))
                      (unat (me_length entry div 4096 - of_nat ((PmmLength s div 8) div PAGE_SIZE))) s
               else pmm_free (me_base entry) (unat (me_length entry div 4096)) s)
          (pmm_free_usable entries maxBase)
      else pmm_free_usable entries maxBase s)"

text \<open>The bits of the memory the bitmap is placed on, before \<^verbatim>\<open>memset(PmmBitmap, 0xFF, PmmLength / 8)\<close>.\<close>

definition bitmap_of_mem :: "bytes \<Rightarrow> nat \<Rightarrow> (nat \<Rightarrow> bool)" where
  "bitmap_of_mem m base = (\<lambda>i. bit (m (base + i div 8)) (i mod 8))"

definition pmm_init :: "limine_memmap_entry_t list \<Rightarrow> bytes \<Rightarrow> pmm_state exec" where
  "pmm_init entries m =
     (let (bitmap, len, maxBase) = pmm_choose entries (0, 0, 0) in
      if bitmap = 0 then Inl HaltLoop
      else
        let m' = memset m (unat bitmap) 0xFF (unat len div 8);
            s = \<lparr>PmmBitmap = bitmap_of_mem m' (unat bitmap), PmmLength = unat len,
                 PmmFreePages = 0, PmmLock = UNLOCKED\<rparr>
        in bindr (pmm_free_usable entries maxBase s) (\<lambda>s.
             Inr (s\<lparr>PmmBitmap := (PmmBitmap s)(0x1000 div PAGE_SIZE := True,
                                               0x2000 div PAGE_SIZE := True)\<rparr>)))"

section \<open>Closed forms of the loops\<close>

lemma is_bitmap_page_free_iff:
  "is_bitmap_page_free b i n \<longleftrightarrow> (\<forall>k. i \<le> k \<and> k < i + n \<longrightarrow> \<not> b k)"
proof (induction n arbitrary: i)
  case (Suc n)
  then show ?case
    by (auto simp: less_Suc_eq_le Suc_le_eq) (metis le_neq_implies_less)
qed auto

lemma set_bits_from_eq: "set_bits_from b i n = (\<lambda>k. (i \<le> k \<and> k < i + n) \<or> b k)"
  by (induction n arbitrary: b i) (auto simp: fun_eq_iff)

lemma reset_bits_from_eq: "reset_bits_from b i n = (\<lambda>k. \<not> (i \<le> k \<and> k < i + n) \<and> b k)"
  by (induction n arbitrary: b i) (auto simp: fun_eq_iff)

lemma pmm_search_cases:
  assumes "0 < al"
  obtains (fits) k where "pmm_search b len i n al = Inr (Some (i + k * al))" "i + k * al < len"
      "is_bitmap_page_free b (i + k * al) n" "\<forall>j<k. \<not> is_bitmap_page_free b (i + j * al) n"
  | (full) "pmm_search b len i n al = Inr None"
      "\<forall>j. i + j * al < len \<longrightarrow> \<not> is_bitmap_page_free b (i + j * al) n"
proof -
  have "(\<exists>k. pmm_search b len i n al = Inr (Some (i + k * al)) \<and> i + k * al < len \<and>
          is_bitmap_page_free b (i + k * al) n \<and> (\<forall>j<k. \<not> is_bitmap_page_free b (i + j * al) n)) \<or>
        (pmm_search b len i n al = Inr None \<and>
          (\<forall>j. i + j * al < len \<longrightarrow> \<not> is_bitmap_page_free b (i + j * al) n))"
    using assms
  proof (induction b len i n al rule: pmm_search.induct)
    case (1 b len i n al)
    show ?case
    proof (cases "i < len \<and> \<not> is_bitmap_page_free b i n")
      case True
      then have eq: "pmm_search b len i n al = pmm_search b len (i + al) n al"
        using "1.prems" by (subst pmm_search.simps) simp
      have shift: "(\<forall>j<Suc k. \<not> is_bitmap_page_free b (i + j * al) n)
          \<longleftrightarrow> (\<forall>j<k. \<not> is_bitmap_page_free b (i + al + j * al) n)" for k
        using True by (auto simp: All_less_Suc2 add.assoc)
      consider k where "pmm_search b len (i + al) n al = Inr (Some (i + al + k * al))"
          "i + al + k * al < len" "is_bitmap_page_free b (i + al + k * al) n"
          "\<forall>j<k. \<not> is_bitmap_page_free b (i + al + j * al) n"
        | "pmm_search b len (i + al) n al = Inr None"
          "\<forall>j. i + al + j * al < len \<longrightarrow> \<not> is_bitmap_page_free b (i + al + j * al) n"
        using "1.IH" True "1.prems" by auto
      then show ?thesis
      proof cases
        case 1
        then show ?thesis
          using eq shift [of k] by (intro disjI1 exI [of _ "Suc k"]) (simp add: add.assoc)
      next
        case 2
        have "\<not> is_bitmap_page_free b (i + j * al) n" if "i + j * al < len" for j
          using that 2(2) True by (cases j) (auto simp: add.assoc)
        with 2(1) eq show ?thesis by simp
      qed
    next
      case False
      then show ?thesis
        by (subst (1 2) pmm_search.simps) (auto intro!: exI [of _ 0])
    qed
  qed
  then show thesis using fits full by blast
qed

lemma pmm_free_eq:
  assumes "PmmLock s" "addr < MEM_PHYS_OFFSET"
  shows "pmm_free addr count s =
    Inr (s\<lparr>PmmFreePages := PmmFreePages s + of_nat count,
           PmmBitmap := (\<lambda>k. \<not> (unat addr div 4096 \<le> k \<and> k < unat addr div 4096 + count) \<and> PmmBitmap s k)\<rparr>)"
  using assms by (simp add: pmm_free_def reset_bits_from_eq unat_div_distrib not_le)

section \<open>Allocation is first fit and release undoes it\<close>

lemma page_addr_less: "i * 4096 < 18446603336221196288 \<Longrightarrow> (of_nat (i * 4096) :: u64) < MEM_PHYS_OFFSET"
  by (simp add: word_less_nat_alt MEM_PHYS_OFFSET_def del: of_nat_mult)

lemma page_addr_index [page_simps]:
  "i * 4096 < 18446744073709551616 \<Longrightarrow> unat (of_nat (i * 4096) :: u64) div 4096 = i"
  by (simp del: of_nat_mult)

text \<open>
  C1. Under a free lock and a non-zero alignment, \<^verbatim>\<open>pmm_alloc_advanced\<close> returns. Either it hands out
  the pages \<open>i, \<dots>, i + count - 1\<close> where \<open>i\<close> is the least multiple of the alignment below
  \<^verbatim>\<open>PmmLength\<close> at which \<open>count\<close> consecutive pages are free, marks exactly these pages used and releases
  the lock; or no such \<open>i\<close> exists, it returns \<^verbatim>\<open>NULL\<close> and nothing has changed.
\<close>

theorem pmm_alloc_advanced_first_fit:
  assumes "PmmLock s" "0 < alignment"
  shows "(\<exists>i s'. pmm_alloc_advanced count alignment s = Inr (of_nat (i * PAGE_SIZE), s') \<and>
            alignment dvd i \<and> i < PmmLength s \<and>
            (\<forall>k. i \<le> k \<and> k < i + count \<longrightarrow> \<not> PmmBitmap s k) \<and>
            (\<forall>j<i. alignment dvd j \<longrightarrow> (\<exists>k. j \<le> k \<and> k < j + count \<and> PmmBitmap s k)) \<and>
            (\<forall>k. PmmBitmap s' k \<longleftrightarrow> PmmBitmap s k \<or> (i \<le> k \<and> k < i + count)) \<and>
            PmmLength s' = PmmLength s \<and> PmmLock s') \<or>
         (pmm_alloc_advanced count alignment s = Inr (0, s) \<and>
            (\<forall>j<PmmLength s. alignment dvd j \<longrightarrow> (\<exists>k. j \<le> k \<and> k < j + count \<and> PmmBitmap s k)))"
  using assms(2)
proof (cases rule: pmm_search_cases [of alignment "PmmBitmap s" "PmmLength s" 0 count])
  case (fits k)
  have "\<exists>x. j \<le> x \<and> x < j + count \<and> PmmBitmap s x" if "j < k * alignment" "alignment dvd j" for j
  proof -
    from that(2) obtain m where m: "j = m * alignment"
      by (metis dvd_def mult.commute)
    with that(1) fits(4) have "\<not> is_bitmap_page_free (PmmBitmap s) j count"
      by auto
    then show ?thesis by (auto simp: is_bitmap_page_free_iff)
  qed
  with fits assms show ?thesis
    by (intro disjI1 exI [of _ "k * alignment"])
      (auto simp: pmm_alloc_advanced_def set_bits_from_eq is_bitmap_page_free_iff)
next
  case full
  have "\<exists>x. j \<le> x \<and> x < j + count \<and> PmmBitmap s x" if "j < PmmLength s" "alignment dvd j" for j
  proof -
    from that(2) obtain m where m: "j = m * alignment"
      by (metis dvd_def mult.commute)
    with that(1) full(2) have "\<not> is_bitmap_page_free (PmmBitmap s) j count"
      by auto
    then show ?thesis by (auto simp: is_bitmap_page_free_iff)
  qed
  with full assms show ?thesis
    by (auto simp: pmm_alloc_advanced_def)
qed

theorem pmm_alloc_advanced_first_fit_witness:
  "let s = \<lparr>PmmBitmap = (\<lambda>k. k < 3 \<or> k = 5), PmmLength = 16, PmmFreePages = 12, PmmLock = True\<rparr>
   in \<exists>i s'. pmm_alloc_advanced 2 2 s = Inr (of_nat (i * PAGE_SIZE), s') \<and> i < 16"
proof -
  let ?s = "\<lparr>PmmBitmap = (\<lambda>k. k < 3 \<or> k = 5), PmmLength = 16, PmmFreePages = 12, PmmLock = True\<rparr>"
  have "\<not> (\<forall>j<PmmLength ?s. 2 dvd j \<longrightarrow> (\<exists>k. j \<le> k \<and> k < j + 2 \<and> PmmBitmap ?s k))"
    by (auto intro!: exI [of _ 6])
  then show ?thesis
    using pmm_alloc_advanced_first_fit [of ?s 2 2] by (simp add: Let_def) blast
qed

lemma pmm_alloc_advanced_nonnull:
  assumes "pmm_alloc_advanced count alignment s = Inr (addr, s')" "addr \<noteq> 0"
  obtains i where "addr = of_nat (i * 4096)" "i < PmmLength s" "PmmLock s"
    "\<forall>k. i \<le> k \<and> k < i + count \<longrightarrow> \<not> PmmBitmap s k"
    "PmmBitmap s' = (\<lambda>k. (i \<le> k \<and> k < i + count) \<or> PmmBitmap s k)"
    "PmmLength s' = PmmLength s" "PmmLock s'"
proof -
  from assms(1) have l: "PmmLock s"
    by (auto simp: pmm_alloc_advanced_def)
  from assms l obtain i where
    i: "pmm_search (PmmBitmap s) (PmmLength s) 0 count alignment = Inr (Some i)"
    and s': "addr = of_nat (i * 4096)" "PmmBitmap s' = set_bits_from (PmmBitmap s) i count"
      "PmmLength s' = PmmLength s" "PmmLock s'"
    by (auto simp: pmm_alloc_advanced_def split: option.splits)
  have "x < PmmLength s \<and> is_bitmap_page_free (PmmBitmap s) x count"
    if "pmm_search (PmmBitmap s) (PmmLength s) j count alignment = Inr (Some x)" for j x
    using that
  proof (induction "PmmBitmap s" "PmmLength s" j count alignment rule: pmm_search.induct)
    case (1 j count alignment)
    then show ?case
      using pmm_search.simps [of "PmmBitmap s" "PmmLength s" j count alignment]
      by (auto split: if_splits)
  qed
  from this [OF i] s' l show thesis
    by (intro that [of i]) (auto simp: is_bitmap_page_free_iff set_bits_from_eq)
qed

text \<open>
  C25. Whatever \<^verbatim>\<open>pmm_alloc_advanced\<close> hands out, giving it back with \<^verbatim>\<open>pmm_free\<close> and the same count
  restores the bitmap bit for bit, provided the bitmap covers less than the lower half of the address
  space (the addresses \<^verbatim>\<open>pmm_free\<close> accepts).
\<close>

theorem pmm_alloc_free_roundtrip:
  assumes "pmm_alloc_advanced count alignment s = Inr (addr, s')" "addr \<noteq> 0"
    and "PmmLength s * PAGE_SIZE \<le> unat MEM_PHYS_OFFSET"
  shows "\<exists>s''. pmm_free addr count s' = Inr s'' \<and> PmmBitmap s'' = PmmBitmap s \<and> PmmLock s''"
proof -
  from assms(1,2) obtain i where i: "addr = of_nat (i * 4096)" "i < PmmLength s"
    "\<forall>k. i \<le> k \<and> k < i + count \<longrightarrow> \<not> PmmBitmap s k" "PmmLock s'"
    "PmmBitmap s' = (\<lambda>k. (i \<le> k \<and> k < i + count) \<or> PmmBitmap s k)"
    by (rule pmm_alloc_advanced_nonnull) blast
  have lim: "i * 4096 < 18446603336221196288"
    using i(2) assms(3) by (simp add: MEM_PHYS_OFFSET_def)
  then have "addr < MEM_PHYS_OFFSET" "unat addr div 4096 = i"
    using page_addr_less [OF lim] page_addr_index [of i] unfolding i(1) by simp_all
  with i show ?thesis
    by (auto simp: pmm_free_eq fun_eq_iff)
qed

theorem pmm_alloc_free_roundtrip_witness:
  "let s = \<lparr>PmmBitmap = (\<lambda>k. k < 3), PmmLength = 16, PmmFreePages = 13, PmmLock = True\<rparr>;
       s' = s\<lparr>PmmFreePages := 11, PmmBitmap := (\<lambda>k. (3 \<le> k \<and> k < 5) \<or> k < 3)\<rparr>
   in \<exists>s''. pmm_free (of_nat (3 * 4096)) 2 s' = Inr s'' \<and> PmmBitmap s'' = PmmBitmap s \<and> PmmLock s''"
proof -
  let ?s = "\<lparr>PmmBitmap = (\<lambda>k. k < 3), PmmLength = 16, PmmFreePages = 13, PmmLock = True\<rparr>"
  let ?s' = "?s\<lparr>PmmFreePages := 11, PmmBitmap := (\<lambda>k. (3 \<le> k \<and> k < 5) \<or> k < 3)\<rparr>"
  have free: "is_bitmap_page_free (\<lambda>k. k < 3) i 2 = (3 \<le> i)" for i
    by (auto simp: is_bitmap_page_free_iff not_less)
  have "pmm_search (\<lambda>k. k < 3) 16 0 2 1 = Inr (Some 3)"
    by (simp add: pmm_search.simps free)
  then have "pmm_alloc_advanced 2 1 ?s = Inr (of_nat (3 * 4096), ?s')"
    by (simp add: pmm_alloc_advanced_def set_bits_from_eq)
  from pmm_alloc_free_roundtrip [OF this] show ?thesis
    by (simp add: Let_def MEM_PHYS_OFFSET_def)
qed

section \<open>What initialisation leaves free\<close>

text \<open>
  What the boot protocol documents of the usable entries: page-aligned, and inside physical memory
  (whose 64-bit addresses are below \<open>2 ^ 47\<close>, the size of the direct map).
\<close>

definition memmap_ok :: "limine_memmap_entry_t list \<Rightarrow> bool" where
  "memmap_ok entries \<longleftrightarrow> (\<forall>e\<in>set entries. me_type e = LIMINE_MEMMAP_USABLE \<longrightarrow>
     unat (me_base e) mod 4096 = 0 \<and> unat (me_length e) mod 4096 = 0 \<and>
     unat (me_base e) + unat (me_length e) \<le> 140737488355328)"

definition first_page :: "limine_memmap_entry_t \<Rightarrow> nat" where
  "first_page e = unat (me_base e) div 4096"

definition end_page :: "limine_memmap_entry_t \<Rightarrow> nat" where
  "end_page e = (unat (me_base e) + unat (me_length e)) div 4096"

definition bitmap_pages :: "nat \<Rightarrow> nat" where
  "bitmap_pages len = (len div 8 + PAGE_SIZE - 1) div PAGE_SIZE"

text \<open>The pages the second pass releases for one entry.\<close>

definition released :: "nat \<Rightarrow> u64 \<Rightarrow> limine_memmap_entry_t \<Rightarrow> nat \<Rightarrow> bool" where
  "released len maxBase e k \<longleftrightarrow>
     (if me_base e = maxBase
      then first_page e + bitmap_pages len \<le> k \<and>
           k < end_page e + (bitmap_pages len - (len div 8) div PAGE_SIZE)
      else first_page e \<le> k \<and> k < end_page e)"

lemma pmm_choose_cases:
  assumes "pmm_choose entries (bm, l, mb) = (bitmap, len, maxBase)"
  shows "(bitmap, len, maxBase) = (bm, l, mb) \<or>
    (\<exists>e\<in>set entries. me_type e = LIMINE_MEMMAP_USABLE \<and> bitmap = me_base e \<and> maxBase = me_base e \<and>
       len = (me_base e + me_length e + 4096 - 1) div 4096 \<and> me_length e > len)"
  using assms
  by (induction entries "(bm, l, mb)" arbitrary: bm l mb rule: pmm_choose.induct)
    (fastforce simp: Let_def split: if_splits)+

lemma end_page_eq:
  assumes "unat (me_base e) mod 4096 = 0"
  shows "end_page e = first_page e + unat (me_length e) div 4096"
  using assms by (metis end_page_def first_page_def div_add1_eq div_less add.right_neutral
      add_0 mod_div_trivial)

definition bitmap_fits :: "limine_memmap_entry_t list \<Rightarrow> u64 \<Rightarrow> nat \<Rightarrow> bool" where
  "bitmap_fits entries maxBase len \<longleftrightarrow> len \<le> 68719476736 \<and>
     (\<forall>e\<in>set entries. me_type e = LIMINE_MEMMAP_USABLE \<longrightarrow> me_base e = maxBase \<longrightarrow> len \<le> unat (me_length e))"

lemma pmm_free_entry:
  assumes e: "unat (me_base e) mod 4096 = 0" "unat (me_base e) + unat (me_length e) \<le> 140737488355328"
    and len: "PmmLength s \<le> 68719476736" "me_base e = maxBase \<longrightarrow> PmmLength s \<le> unat (me_length e)"
    and "PmmLock s"
  shows "\<exists>f. (if me_base e = maxBase
       then pmm_free (me_base e +
                of_nat (((PmmLength s div 8 + PAGE_SIZE - 1) div PAGE_SIZE) * PAGE_SIZE))
              (unat (me_length e div 4096 - of_nat ((PmmLength s div 8) div PAGE_SIZE))) s
       else pmm_free (me_base e) (unat (me_length e div 4096)) s)
    = Inr (s\<lparr>PmmFreePages := f,
             PmmBitmap := (\<lambda>k. \<not> released (PmmLength s) maxBase e k \<and> PmmBitmap s k)\<rparr>)"
proof (cases "me_base e = maxBase")
  case True
  let ?q = "(PmmLength s div 8) div 4096"
  let ?bp = "bitmap_pages (PmmLength s)"
  have bp: "?q \<le> ?bp" "?bp * 4096 \<le> PmmLength s div 8 + 4095"
    by (auto simp: bitmap_pages_def div_le_mono)
  have u: "unat (me_base e + of_nat (?bp * 4096)) = unat (me_base e) + ?bp * 4096"
    using e(2) len(1) bp(2) by (simp add: unat_word_ariths del: of_nat_mult)
  have lt: "me_base e + of_nat (?bp * 4096) < MEM_PHYS_OFFSET"
    using e(2) len(1) bp(2) by (simp add: word_less_nat_alt u MEM_PHYS_OFFSET_def del: of_nat_mult)
  have idx: "unat (me_base e + of_nat (?bp * 4096)) div 4096 = first_page e + ?bp"
    by (simp add: u first_page_def del: of_nat_mult)
  have q: "?q \<le> unat (me_length e) div 4096" "?q < 18446744073709551616"
    using len True by (auto intro!: div_le_mono)
  have cnt: "unat (me_length e div 4096 - of_nat ?q) = unat (me_length e) div 4096 - ?q"
    using q by (subst unat_sub) (simp_all add: word_le_nat_alt unat_div_distrib)
  have "first_page e + ?bp + (unat (me_length e) div 4096 - ?q) = end_page e + (?bp - ?q)"
    using q bp(1) end_page_eq [OF e(1)] by (simp add: ac_simps)
  then have "pmm_free (me_base e + of_nat (?bp * 4096)) (unat (me_length e div 4096 - of_nat ?q)) s
      = Inr (s\<lparr>PmmFreePages := PmmFreePages s + of_nat (unat (me_length e div 4096 - of_nat ?q)),
               PmmBitmap := (\<lambda>k. \<not> released (PmmLength s) maxBase e k \<and> PmmBitmap s k)\<rparr>)"
    unfolding pmm_free_eq [OF \<open>PmmLock s\<close> lt] idx cnt using True by (simp add: released_def)
  then show ?thesis
    unfolding bitmap_pages_def [symmetric] using True by (metis (no_types))
next
  case False
  have "me_base e < MEM_PHYS_OFFSET"
    using e(2) by (simp add: word_less_nat_alt MEM_PHYS_OFFSET_def)
  from pmm_free_eq [OF \<open>PmmLock s\<close> this] False show ?thesis
    by (auto simp: released_def end_page_eq [OF e(1)] first_page_def unat_div_distrib)
qed

lemma pmm_free_usable_bits:
  assumes "memmap_ok entries" "bitmap_fits entries maxBase (PmmLength s)" "PmmLock s"
  shows "\<exists>s'. pmm_free_usable entries maxBase s = Inr s' \<and> PmmLength s' = PmmLength s \<and> PmmLock s' \<and>
    (\<forall>k. PmmBitmap s' k \<longleftrightarrow> PmmBitmap s k \<and>
       \<not> (\<exists>e\<in>set entries. me_type e = LIMINE_MEMMAP_USABLE \<and> me_base e \<le> maxBase \<and>
            released (PmmLength s) maxBase e k))"
  using assms
proof (induction entries arbitrary: s)
  case Nil
  then show ?case by simp
next
  case (Cons e entries)
  have rest: "memmap_ok entries" "bitmap_fits entries maxBase (PmmLength s)"
    using Cons.prems by (auto simp: memmap_ok_def bitmap_fits_def)
  show ?case
  proof (cases "me_type e = LIMINE_MEMMAP_USABLE \<and> me_base e \<le> maxBase")
    case True
    obtain f where f: "(if me_base e = maxBase
       then pmm_free (me_base e +
                of_nat (((PmmLength s div 8 + PAGE_SIZE - 1) div PAGE_SIZE) * PAGE_SIZE))
              (unat (me_length e div 4096 - of_nat ((PmmLength s div 8) div PAGE_SIZE))) s
       else pmm_free (me_base e) (unat (me_length e div 4096)) s)
      = Inr (s\<lparr>PmmFreePages := f,
             PmmBitmap := (\<lambda>k. \<not> released (PmmLength s) maxBase e k \<and> PmmBitmap s k)\<rparr>)"
      using pmm_free_entry [of e s maxBase] Cons.prems True
      by (auto simp: memmap_ok_def bitmap_fits_def)
    let ?s = "s\<lparr>PmmFreePages := f,
                PmmBitmap := (\<lambda>k. \<not> released (PmmLength s) maxBase e k \<and> PmmBitmap s k)\<rparr>"
    have "pmm_free_usable (e # entries) maxBase s = pmm_free_usable entries maxBase ?s"
      unfolding pmm_free_usable.simps f using True by simp
    moreover have "bitmap_fits entries maxBase (PmmLength ?s)" "PmmLock ?s"
      using rest Cons.prems by simp_all
    ultimately show ?thesis
      using Cons.IH [OF rest(1), of ?s] True by auto
  next
    case False
    then show ?thesis
      using Cons.IH [OF rest Cons.prems(3)] by auto
  qed
qed

lemma bitmap_of_memset:
  "i < 8 * n \<Longrightarrow> bitmap_of_mem (memset m a 0xFF n) a i"
proof -
  assume i: "i < 8 * n"
  have "bit (0xFF :: u8) (i mod 8)"
  proof -
    have "i mod 8 < 8" by simp
    then have "i mod 8 \<in> {0, 1, 2, 3, 4, 5, 6, 7}" by auto
    then show ?thesis by auto
  qed
  with i show ?thesis
    by (auto simp: bitmap_of_mem_def memset_eq less_mult_imp_div_less mult.commute)
qed

lemma pmm_choose_fits:
  assumes "memmap_ok entries" "pmm_choose entries (0, 0, 0) = (bitmap, len, maxBase)" "bitmap \<noteq> 0"
  obtains e where "e \<in> set entries" "me_type e = LIMINE_MEMMAP_USABLE" "bitmap = me_base e"
    "maxBase = me_base e" "unat len = end_page e" "unat len \<le> unat (me_length e)"
    "unat len \<le> 68719476736"
proof -
  from pmm_choose_cases [OF assms(2)] assms(3) obtain e where
    e: "e \<in> set entries" "me_type e = LIMINE_MEMMAP_USABLE" "bitmap = me_base e" "maxBase = me_base e"
      "len = (me_base e + me_length e + 4096 - 1) div 4096" "me_length e > len"
    by auto
  have ok: "unat (me_base e) mod 4096 = 0" "unat (me_length e) mod 4096 = 0"
      "unat (me_base e) + unat (me_length e) \<le> 140737488355328"
    using assms(1) e(1,2) by (auto simp: memmap_ok_def)
  have "me_base e + me_length e + 4096 - 1 = me_base e + me_length e + 4095"
    by simp
  then have "unat (me_base e + me_length e + 4096 - 1) = unat (me_base e) + unat (me_length e) + 4095"
    using ok(3) by (simp add: unat_word_ariths)
  then have "unat len = (unat (me_base e) + unat (me_length e) + 4095) div 4096"
    by (simp add: e(5) unat_div_distrib)
  moreover have "(unat (me_base e) + unat (me_length e)) mod 4096 = 0"
    using ok(1,2) by (simp add: mod_eq_0_iff_dvd)
  ultimately have "unat len = end_page e"
    using div_ceil_aligned [of 4096] by (simp add: end_page_def)
  moreover have "end_page e \<le> 68719476736"
    using ok(3) unfolding end_page_def by linarith
  ultimately show thesis
    using e by (intro that [of e]) (simp_all add: word_less_nat_alt)
qed

text \<open>Entries at the same base are the same entry: usable regions do not overlap.\<close>

definition memmap_distinct :: "limine_memmap_entry_t list \<Rightarrow> bool" where
  "memmap_distinct entries \<longleftrightarrow> (\<forall>e\<in>set entries. \<forall>e'\<in>set entries.
     me_type e = LIMINE_MEMMAP_USABLE \<longrightarrow> me_type e' = LIMINE_MEMMAP_USABLE \<longrightarrow>
     me_base e = me_base e' \<longrightarrow> e = e')"

lemma pmm_init_bits:
  assumes "memmap_ok entries" "memmap_distinct entries"
    and "pmm_choose entries (0, 0, 0) = (bitmap, len, maxBase)" "bitmap \<noteq> 0"
  shows "\<exists>s. pmm_init entries m = Inr s \<and> PmmLength s = unat len \<and> PmmLock s \<and>
    (\<forall>k. PmmBitmap s k \<longleftrightarrow> k = 1 \<or> k = 2 \<or>
       (bitmap_of_mem (memset m (unat bitmap) 0xFF (unat len div 8)) (unat bitmap) k \<and>
        \<not> (\<exists>e\<in>set entries. me_type e = LIMINE_MEMMAP_USABLE \<and> me_base e \<le> maxBase \<and>
             released (unat len) maxBase e k)))"
proof -
  obtain c where c: "c \<in> set entries" "me_type c = LIMINE_MEMMAP_USABLE" "maxBase = me_base c"
      "unat len \<le> unat (me_length c)" "unat len \<le> 68719476736"
    using pmm_choose_fits [OF assms(1,3,4)] by metis
  have "bitmap_fits entries maxBase (unat len)"
    using assms(2) c unfolding bitmap_fits_def memmap_distinct_def by metis
  then show ?thesis
    using pmm_free_usable_bits [OF assms(1), of maxBase "\<lparr>PmmBitmap = bitmap_of_mem
        (memset m (unat bitmap) 0xFF (unat len div 8)) (unat bitmap), PmmLength = unat len,
        PmmFreePages = 0, PmmLock = UNLOCKED\<rparr>"] assms(3,4)
    by (auto simp: pmm_init_def Let_def)
qed

lemma bitmap_of_memset_outside:
  "8 * n \<le> i \<Longrightarrow> bitmap_of_mem (memset m a v n) a i = bitmap_of_mem m a i"
  using div_le_mono [of "8 * n" i 8] by (simp add: bitmap_of_mem_def memset_eq not_less)



text \<open>
  C36. The region that holds the bitmap is released from the first page after the bitmap with a page
  count that subtracts the bitmap's size rounded \<^emph>\<open>down\<close>: whenever the bitmap does not fill whole pages,
  the page just past the end of that region (which no memory map entry vouches for) is marked free
  as well. For that region the end page is \<^verbatim>\<open>PmmLength\<close>, a page outside the bitmap.
\<close>

theorem pmm_init_frees_page_past_region:
  assumes "memmap_ok entries" "memmap_distinct entries"
    and "pmm_choose entries (0, 0, 0) = (bitmap, len, maxBase)" "bitmap \<noteq> 0"
    and "(unat len div 8) mod PAGE_SIZE \<noteq> 0" "2 < unat len"
  shows "\<exists>s e. pmm_init entries m = Inr s \<and> e \<in> set entries \<and> me_base e = bitmap \<and>
    end_page e = PmmLength s \<and> \<not> PmmBitmap s (PmmLength s)"
proof -
  obtain c where c: "c \<in> set entries" "me_type c = LIMINE_MEMMAP_USABLE" "bitmap = me_base c"
      "maxBase = me_base c" "unat len = end_page c" "unat len \<le> unat (me_length c)"
    using pmm_choose_fits [OF assms(1,3,4)] by metis
  have al: "unat (me_base c) mod 4096 = 0"
    using assms(1) c(1,2) by (auto simp: memmap_ok_def)
  have "bitmap_pages (unat len) = unat len div 8 div 4096 + 1"
    using div_ceil_unaligned [of 4096 "unat len div 8"] assms(5) by (simp add: bitmap_pages_def add.commute)
  moreover have "unat len div 8 div 4096 + 1 \<le> unat (me_length c) div 4096"
  proof -
    have "unat len div 8 div 4096 + 1 \<le> (unat (me_length c) + 4095) div 4096"
      using c(6) assms(5,6) by linarith
    moreover have "unat (me_length c) mod 4096 = 0"
      using assms(1) c(1,2) by (auto simp: memmap_ok_def)
    ultimately show ?thesis
      using div_ceil_aligned [of 4096 "unat (me_length c)"] by simp
  qed
  ultimately have "released (unat len) maxBase c (unat len)"
    using c(4,5) end_page_eq [OF al] by (simp add: released_def)
  moreover obtain s where "pmm_init entries m = Inr s" "PmmLength s = unat len"
    "\<And>k. PmmBitmap s k \<longleftrightarrow> k = 1 \<or> k = 2 \<or>
       (bitmap_of_mem (memset m (unat bitmap) 0xFF (unat len div 8)) (unat bitmap) k \<and>
        \<not> (\<exists>e\<in>set entries. me_type e = LIMINE_MEMMAP_USABLE \<and> me_base e \<le> maxBase \<and>
             released (unat len) maxBase e k))"
    using pmm_init_bits [OF assms(1-4)] by blast
  ultimately show ?thesis
    using c assms(6) by (intro exI [of _ s] exI [of _ c]) auto
qed

theorem pmm_init_frees_page_past_region_witness:
  "\<exists>s. pmm_init [\<lparr>me_base = 0x100000, me_length = 0x100000, me_type = 0\<rparr>] (\<lambda>_. 0) = Inr s \<and>
     \<not> PmmBitmap s (PmmLength s)"
proof -
  let ?es = "[\<lparr>me_base = 0x100000, me_length = 0x100000, me_type = 0\<rparr>]"
  have "memmap_ok ?es" "memmap_distinct ?es"
    by (simp_all add: memmap_ok_def memmap_distinct_def)
  moreover have "pmm_choose ?es (0, 0, 0) = (0x100000, 512, 0x100000)"
    by (simp add: LIMINE_MEMMAP_USABLE_def Let_def)
  ultimately show ?thesis
    using pmm_init_frees_page_past_region [of ?es "0x100000" 512 "0x100000" "\<lambda>_. 0"] by auto
qed

end
