(* ===== verification/Kmalloc.thy ===== *)
theory Kmalloc
  imports Pmm
begin

text \<open>
  The kernel heap, \<^verbatim>\<open>kernel/utils/kmalloc.c\<close>: every block is a run of whole pages from \<^verbatim>\<open>pmm_alloc\<close>, whose
  first page holds the header (\<^verbatim>\<open>pages\<close>, \<^verbatim>\<open>size\<close>) and whose remaining pages are the caller's. The header
  is read and written in memory through the direct map at \<^verbatim>\<open>MEM_PHYS_OFFSET\<close>. The invariant
  \<open>heap_inv\<close> says which blocks are live; every operation is shown to keep it, and the locale
  \<open>heap_allocator\<close> states the part of it that the clients of the heap rely on. The invariant bounds the used pages from
  below only; that the pages of a released block are free again is stated on the page bitmap.
\<close>

section \<open>Operations\<close>

text \<open>A direct-map pointer as an index into physical memory.\<close>

definition phys_of :: "u64 \<Rightarrow> nat" where
  "phys_of p = unat (p - MEM_PHYS_OFFSET)"

definition kmalloc :: "u64 \<Rightarrow> kmem \<Rightarrow> (u64 \<times> kmem) exec" where
  "kmalloc sz k =
     (let pageCount = unat sz div PAGE_SIZE + (if unat sz mod PAGE_SIZE \<noteq> 0 then 1 else 0) in
      bindr (pmm_alloc (pageCount + 1) k) (\<lambda>(retAddr, k).
        if retAddr = 0 then Inr (0, k)
        else
          let header = retAddr + MEM_PHYS_OFFSET;
              m1 = write64 (km_mem k) (phys_of header) (of_nat pageCount);
              m2 = write64 m1 (phys_of header + 8) sz
          in Inr (header + 4096, k\<lparr>km_mem := m2\<rparr>)))"

definition kfree :: "u64 \<Rightarrow> kmem \<Rightarrow> kmem exec" where
  "kfree addr k =
     (let header = addr - 4096;
          pages = read64 (km_mem k) (phys_of header)
      in bindr (pmm_free (header - MEM_PHYS_OFFSET) (unat (pages + 1)) (km_pmm k)) (\<lambda>p.
           Inr (k\<lparr>km_pmm := p\<rparr>)))"

definition krealloc :: "u64 \<Rightarrow> u64 \<Rightarrow> kmem \<Rightarrow> (u64 \<times> kmem) exec" where
  "krealloc addr sz k =
     (if addr = 0 then kmalloc sz k
      else if sz = 0 then bindr (kfree addr k) (\<lambda>k. Inr (0, k))
      else
        let header = addr - 4096;
            hsize = read64 (km_mem k) (phys_of header + 8)
        in if ROUND_UP64 hsize 4096 = ROUND_UP64 sz 4096
           then Inr (addr, k\<lparr>km_mem := write64 (km_mem k) (phys_of header + 8) sz\<rparr>)
           else bindr (kmalloc sz k) (\<lambda>(newAddr, k).
             if newAddr = 0 then Inr (0, k)
             else
               let hsize = read64 (km_mem k) (phys_of header + 8);
                   n = (if hsize > sz then sz else hsize)
               in bindr (kfree addr (k\<lparr>km_mem :=
                      memcpy (km_mem k) (phys_of newAddr) (phys_of addr) (unat n)\<rparr>)) (\<lambda>k.
                    Inr (newAddr, k))))"

definition kcalloc :: "u64 \<Rightarrow> u64 \<Rightarrow> kmem \<Rightarrow> (u64 \<times> kmem) exec" where
  "kcalloc num nsize k =
     (if num = 0 \<or> nsize = 0 then Inr (0, k)
      else
        let sz = num * nsize in
        if nsize \<noteq> sz div num then Inr (0, k)
        else bindr (kmalloc sz k) (\<lambda>(addr, k).
          if addr = 0 then Inr (0, k)
          else Inr (addr, k\<lparr>km_mem := memset (km_mem k) (phys_of addr) 0 (unat sz)\<rparr>)))"

section \<open>Block addresses\<close>

text \<open>The pointer handed out for the block whose header is page \<open>i\<close>.\<close>

definition block_addr :: "nat \<Rightarrow> u64" where
  "block_addr i = of_nat (i * PAGE_SIZE) + MEM_PHYS_OFFSET + 4096"

lemma block_addr_header [page_simps]: "block_addr i - 4096 - MEM_PHYS_OFFSET = of_nat (i * 4096)"
  by (simp add: block_addr_def)

lemma phys_of_page [page_simps]: "i < 34359738368 \<Longrightarrow> phys_of (of_nat (i * 4096) + MEM_PHYS_OFFSET) = i * 4096"
  by (simp add: phys_of_def del: of_nat_mult)

lemma phys_of_header [page_simps]: "i < 34359738368 \<Longrightarrow> phys_of (block_addr i - 4096) = i * 4096"
  by (simp add: phys_of_def block_addr_def del: of_nat_mult)

lemma phys_of_block [page_simps]: "i < 34359738368 \<Longrightarrow> phys_of (block_addr i) = (i + 1) * 4096"
proof -
  assume i: "i < 34359738368"
  have "block_addr i - MEM_PHYS_OFFSET = of_nat ((i + 1) * 4096)"
    by (simp add: block_addr_def algebra_simps)
  then show ?thesis
    using i by (simp add: phys_of_def del: of_nat_mult of_nat_add)
qed

lemma block_addr_inject:
  "i < 34359738368 \<Longrightarrow> j < 34359738368 \<Longrightarrow> block_addr i = block_addr j \<Longrightarrow> i = j"
  by (metis phys_of_header mult_right_cancel zero_neq_numeral)

lemma block_addr_nonnull: "i < 34359738367 \<Longrightarrow> block_addr i \<noteq> 0"
proof
  assume i: "i < 34359738367" and "block_addr i = 0"
  then have "phys_of (block_addr i) = 140737488355328"
    by (simp add: phys_of_def MEM_PHYS_OFFSET_def)
  with phys_of_block [of i] i show False by simp
qed

section \<open>The heap invariant\<close>

text \<open>
  A live block is a pair of its header page and its number of pages (header included). Live blocks
  are marked used in the page bitmap, carry their page count and a byte size that needs exactly
  these pages in their header, and do not overlap; page 0 is never handed out (the code could not
  tell its address from \<^verbatim>\<open>NULL\<close>).
\<close>

definition size_pages :: "nat \<Rightarrow> nat" where
  "size_pages n = n div PAGE_SIZE + (if n mod PAGE_SIZE \<noteq> 0 then 1 else 0)"

definition block_size :: "kmem \<Rightarrow> nat \<Rightarrow> nat" where
  "block_size k i = unat (read64 (km_mem k) (i * PAGE_SIZE + 8))"

definition block_ok :: "kmem \<Rightarrow> nat \<times> nat \<Rightarrow> bool" where
  "block_ok k b \<longleftrightarrow> (case b of (i, n) \<Rightarrow>
     0 < i \<and> 0 < n \<and> i + n < 34359738368 \<and>
     (\<forall>j. i \<le> j \<and> j < i + n \<longrightarrow> PmmBitmap (km_pmm k) j) \<and>
     read64 (km_mem k) (i * PAGE_SIZE) = of_nat (n - 1) \<and>
     n = size_pages (block_size k i) + 1)"

definition blocks_disjoint :: "(nat \<times> nat) set \<Rightarrow> bool" where
  "blocks_disjoint B \<longleftrightarrow> (\<forall>(i, n)\<in>B. \<forall>(j, m)\<in>B. (i, n) \<noteq> (j, m) \<longrightarrow> i + n \<le> j \<or> j + m \<le> i)"

definition heap_inv :: "kmem \<Rightarrow> (nat \<times> nat) set \<Rightarrow> bool" where
  "heap_inv k B \<longleftrightarrow> PmmLock (km_pmm k) \<and> PmmBitmap (km_pmm k) 0 \<and>
     PmmLength (km_pmm k) \<le> 17179869184 \<and> (\<forall>b\<in>B. block_ok k b) \<and> blocks_disjoint B"

text \<open>The bytes of a block, header page included.\<close>

definition block_bytes :: "nat \<times> nat \<Rightarrow> nat set" where
  "block_bytes b = {fst b * PAGE_SIZE ..< (fst b + snd b) * PAGE_SIZE}"

lemma block_okD:
  assumes "block_ok k (i, n)"
  shows "0 < i" "0 < n" "i + n < 34359738368" "i < 34359738367"
    "\<And>j. i \<le> j \<Longrightarrow> j < i + n \<Longrightarrow> PmmBitmap (km_pmm k) j"
    "read64 (km_mem k) (i * 4096) = of_nat (n - 1)" "n = size_pages (block_size k i) + 1"
  using assms by (auto simp: block_ok_def)

lemma heap_inv_block: "heap_inv k B \<Longrightarrow> b \<in> B \<Longrightarrow> block_ok k b"
  by (simp add: heap_inv_def)

lemma heap_inv_bounds:
  assumes "heap_inv k B" "b \<in> B"
  shows "0 < fst b" "fst b < 34359738367" "0 < snd b"
  using heap_inv_block [OF assms] by (cases b; simp add: block_ok_def)+

lemma heap_inv_apart:
  "heap_inv k B \<Longrightarrow> b \<in> B \<Longrightarrow> c \<in> B \<Longrightarrow> b \<noteq> c \<Longrightarrow> block_bytes b \<inter> block_bytes c = {}"
  by (fastforce simp: heap_inv_def blocks_disjoint_def block_bytes_def)

lemma size_pages_ROUND_UP: "ROUND_UP n 4096 = size_pages n * 4096"
  using div_ceil_aligned [of 4096 n] div_ceil_unaligned [of 4096 n]
  by (auto simp: ROUND_UP_def size_pages_def add.commute)

lemma size_pages_ge: "n \<le> size_pages n * 4096"
  using ROUND_UP_ge [of 4096 n] by (simp add: size_pages_ROUND_UP)

lemma size_pages_le: "n \<le> 35184372088832 \<Longrightarrow> size_pages n \<le> 8589934592"
  using ROUND_UP_mono [of n 35184372088832 4096] by (simp add: size_pages_ROUND_UP size_pages_def)

text \<open>A block's state only depends on its bitmap bits and its first sixteen bytes.\<close>

lemma block_ok_cong:
  assumes "block_ok k (i, n)"
    and "\<And>j. i \<le> j \<Longrightarrow> j < i + n \<Longrightarrow> PmmBitmap (km_pmm k') j"
    and "\<And>x. x \<in> block_bytes (i, n) \<Longrightarrow> km_mem k' x = km_mem k x"
  shows "block_ok k' (i, n)" "block_size k' i = block_size k i"
proof -
  have "0 < n" using assms(1) by (simp add: block_ok_def)
  then have mem: "km_mem k' x = km_mem k x" if "i * 4096 \<le> x" "x < i * 4096 + 16" for x
    using that by (intro assms(3)) (cases n, auto simp: block_bytes_def)
  have "read64 (km_mem k') (i * 4096) = read64 (km_mem k) (i * 4096)"
    "read64 (km_mem k') (i * 4096 + 8) = read64 (km_mem k) (i * 4096 + 8)"
    by (intro read64_cong mem; simp)+
  with assms(1,2) show "block_ok k' (i, n)" "block_size k' i = block_size k i"
    by (auto simp: block_ok_def block_size_def)
qed

section \<open>kmalloc and kfree keep the invariant\<close>

lemma pmm_alloc_total:
  assumes "PmmLock (km_pmm k)"
  shows "\<exists>a k'. pmm_alloc count k = Inr (a, k')"
proof (rule pmm_search_cases [of 1 "PmmBitmap (km_pmm k)" "PmmLength (km_pmm k)" 0 count])
  show "(0 :: nat) < 1" by simp
qed (use assms in \<open>auto simp: pmm_alloc_def pmm_alloc_advanced_def\<close>)

lemma kmalloc_returns:
  assumes "PmmLock (km_pmm k)"
  shows "\<exists>p k'. kmalloc sz k = Inr (p, k')"
  using pmm_alloc_total [OF assms, of "size_pages (unat sz) + 1"]
  by (auto simp: kmalloc_def Let_def size_pages_def)

lemma kmalloc_total:
  assumes "heap_inv k B"
  shows "\<exists>p k'. kmalloc sz k = Inr (p, k')"
  using assms by (intro kmalloc_returns) (simp add: heap_inv_def)

text \<open>Whether it succeeds or not, an allocation leaves the page allocator unlocked.\<close>

lemma kmalloc_unlocked: "kmalloc sz k = Inr (p, k') \<Longrightarrow> PmmLock (km_pmm k')"
  by (auto simp: kmalloc_def pmm_alloc_def pmm_alloc_advanced_def Let_def split: if_splits option.splits)

lemma kmalloc_nonnullE:
  assumes "heap_inv k B" "kmalloc sz k = Inr (p, k')" "p \<noteq> 0" "unat sz \<le> 35184372088832"
  obtains i where "p = block_addr i" "0 < i" "i < 17179869184" "PmmLock (km_pmm k')"
    "PmmLength (km_pmm k') = PmmLength (km_pmm k)"
    "\<forall>j. i \<le> j \<and> j < i + (size_pages (unat sz) + 1) \<longrightarrow> \<not> PmmBitmap (km_pmm k) j"
    "PmmBitmap (km_pmm k') = (\<lambda>j. (i \<le> j \<and> j < i + (size_pages (unat sz) + 1)) \<or> PmmBitmap (km_pmm k) j)"
    "km_mem k' = write64 (write64 (memset (km_mem k) (i * 4096) 0 ((size_pages (unat sz) + 1) * 4096))
        (i * 4096) (of_nat (size_pages (unat sz)))) (i * 4096 + 8) sz"
proof -
  let ?n = "size_pages (unat sz) + 1"
  have n: "?n * 4096 < 2 ^ 64"
    using size_pages_le [OF assms(4)] by simp
  from assms(2) obtain addr q where q: "pmm_alloc_advanced ?n 1 (km_pmm k) = Inr (addr, q)"
    and r: "(p, k') = (if addr = 0 then (0, k\<lparr>km_pmm := q, km_mem := memset (km_mem k) (unat addr) 0 (?n * 4096)\<rparr>)
      else (addr + MEM_PHYS_OFFSET + 4096, k\<lparr>km_pmm := q, km_mem :=
        write64 (write64 (memset (km_mem k) (unat addr) 0 (?n * 4096)) (phys_of (addr + MEM_PHYS_OFFSET))
          (of_nat (size_pages (unat sz)))) (phys_of (addr + MEM_PHYS_OFFSET) + 8) sz\<rparr>))"
    using n by (auto simp: kmalloc_def pmm_alloc_def Let_def size_pages_def mult.commute split: if_splits)
  from r assms(3) have "addr \<noteq> 0" by auto
  with q obtain i where i: "addr = of_nat (i * 4096)" "i < PmmLength (km_pmm k)"
      "\<forall>j. i \<le> j \<and> j < i + ?n \<longrightarrow> \<not> PmmBitmap (km_pmm k) j"
      "PmmBitmap q = (\<lambda>j. (i \<le> j \<and> j < i + ?n) \<or> PmmBitmap (km_pmm k) j)"
      "PmmLength q = PmmLength (km_pmm k)" "PmmLock q"
    by (rule pmm_alloc_advanced_nonnull) blast
  have "i < 17179869184"
    using i(2) assms(1) by (simp add: heap_inv_def)
  moreover have "0 < i"
    using \<open>addr \<noteq> 0\<close> i(1) by (cases i) auto
  moreover have "p = block_addr i"
    using r \<open>addr \<noteq> 0\<close> i(1) by (simp add: block_addr_def)
  moreover have "unat addr = i * 4096" "phys_of (addr + MEM_PHYS_OFFSET) = i * 4096"
    using i(1) \<open>i < 17179869184\<close> phys_of_page [of i] by (simp_all del: of_nat_mult)
  ultimately show thesis
    using r i \<open>addr \<noteq> 0\<close> by (intro that [of i]) auto
qed

lemma kmalloc_fresh:
  assumes "heap_inv k B" "kmalloc sz k = Inr (p, k')" "p \<noteq> 0" "unat sz \<le> 35184372088832"
  obtains i where "p = block_addr i" "(i, size_pages (unat sz) + 1) \<notin> B"
    "heap_inv k' (insert (i, size_pages (unat sz) + 1) B)" "block_size k' i = unat sz"
    "\<forall>c\<in>B. block_bytes (i, size_pages (unat sz) + 1) \<inter> block_bytes c = {}"
    "\<forall>x. x \<notin> block_bytes (i, size_pages (unat sz) + 1) \<longrightarrow> km_mem k' x = km_mem k x"
    "\<forall>x. (i + 1) * 4096 \<le> x \<and> x < (i + 1) * 4096 + unat sz \<longrightarrow> km_mem k' x = 0"
proof -
  let ?n = "size_pages (unat sz) + 1"
  from assms obtain i where i: "p = block_addr i" "0 < i" "i < 17179869184" "PmmLock (km_pmm k')"
    "PmmLength (km_pmm k') = PmmLength (km_pmm k)"
    "\<forall>j. i \<le> j \<and> j < i + ?n \<longrightarrow> \<not> PmmBitmap (km_pmm k) j"
    "PmmBitmap (km_pmm k') = (\<lambda>j. (i \<le> j \<and> j < i + ?n) \<or> PmmBitmap (km_pmm k) j)"
    "km_mem k' = write64 (write64 (memset (km_mem k) (i * 4096) 0 (?n * 4096))
        (i * 4096) (of_nat (size_pages (unat sz)))) (i * 4096 + 8) sz"
    by (rule kmalloc_nonnullE)
  have apart: "i + ?n \<le> j \<or> j + m \<le> i" if "(j, m) \<in> B" for j m
  proof (rule ccontr)
    assume "\<not> (i + ?n \<le> j \<or> j + m \<le> i)"
    then have "i \<le> max i j" "max i j < i + ?n" "j \<le> max i j" "max i j < j + m"
      using block_okD(2) [OF heap_inv_block [OF assms(1) that]] by auto
    with block_okD(5) [OF heap_inv_block [OF assms(1) that]] i(6) show False by blast
  qed
  have disj: "block_bytes (i, ?n) \<inter> block_bytes c = {}" if "c \<in> B" for c
    using apart [of "fst c" "snd c"] that by (fastforce simp: block_bytes_def)
  have out: "km_mem k' x = km_mem k x" if "x \<notin> block_bytes (i, ?n)" for x
  proof -
    have "\<not> (i * 4096 \<le> x \<and> x < i * 4096 + ?n * 4096)" "x < i * 4096 \<or> i * 4096 + 16 \<le> x"
      using that by (auto simp: block_bytes_def)
    then show ?thesis
      by (simp only: i(8) write64_twice_outside memset_eq if_False)
  qed
  have "block_ok k' (j, m)" if "(j, m) \<in> B" for j m
  proof (rule block_ok_cong(1) [OF heap_inv_block [OF assms(1) that]])
    show "PmmBitmap (km_pmm k') x" if "j \<le> x" "x < j + m" for x
      using block_okD(5) [OF heap_inv_block [OF assms(1) \<open>(j, m) \<in> B\<close>] that] by (simp add: i(7))
    show "km_mem k' x = km_mem k x" if "x \<in> block_bytes (j, m)" for x
      using disj [OF \<open>(j, m) \<in> B\<close>] that by (intro out) blast
  qed
  moreover have "block_size k' i = unat sz"
    by (simp add: block_size_def i(8))
  moreover have "block_ok k' (i, ?n)"
    using i(2,3) size_pages_le [OF assms(4)] \<open>block_size k' i = unat sz\<close>
    by (simp add: block_ok_def i(7,8))
  moreover have "blocks_disjoint (insert (i, ?n) B)"
    using assms(1) apart by (fastforce simp: heap_inv_def blocks_disjoint_def)
  ultimately have "heap_inv k' (insert (i, ?n) B)"
    using assms(1) i(4,5,7) by (auto simp: heap_inv_def)
  moreover have "(i, ?n) \<notin> B"
    using disj [of "(i, ?n)"] by (auto simp: block_bytes_def)
  moreover have "km_mem k' x = 0" if "(i + 1) * 4096 \<le> x" "x < (i + 1) * 4096 + unat sz" for x
    unfolding i(8) using that size_pages_ge [of "unat sz"]
    by (subst write64_twice_outside) (auto simp: memset_eq)
  ultimately show thesis
    using i(1) disj out \<open>block_size k' i = unat sz\<close> by (intro that [of i]) auto
qed

lemma kfree_ok:
  assumes "heap_inv k B" "(i, n) \<in> B"
  shows "\<exists>k'. kfree (block_addr i) k = Inr k' \<and> heap_inv k' (B - {(i, n)}) \<and> km_mem k' = km_mem k \<and>
    PmmBitmap (km_pmm k') = (\<lambda>j. \<not> (i \<le> j \<and> j < i + n) \<and> PmmBitmap (km_pmm k) j)"
proof -
  note b = block_okD [OF heap_inv_block [OF assms]]
  have lim: "unat (of_nat (i * 4096) :: u64) = i * 4096" "(of_nat (i * 4096) :: u64) < MEM_PHYS_OFFSET"
    using b(4) page_addr_less [of i] by (simp_all del: of_nat_mult)
  have cnt: "unat (of_nat (n - 1) + 1 :: u64) = n"
  proof -
    have "of_nat (n - 1) + 1 = (of_nat n :: u64)"
      using b(2) by (metis Suc_pred' add.commute of_nat_Suc)
    with b(3) show ?thesis by simp
  qed
  have "kfree (block_addr i) k = Inr (k\<lparr>km_pmm := (km_pmm k)\<lparr>PmmFreePages := PmmFreePages (km_pmm k) + of_nat n,
      PmmBitmap := (\<lambda>j. \<not> (i \<le> j \<and> j < i + n) \<and> PmmBitmap (km_pmm k) j)\<rparr>\<rparr>)"
    (is "_ = Inr ?k'")
    using assms(1) lim cnt b(4,6)
    by (simp add: kfree_def block_addr_header phys_of_header pmm_free_eq heap_inv_def del: of_nat_mult)
  moreover have "block_ok ?k' (j, m)" if "(j, m) \<in> B - {(i, n)}" for j m
  proof -
    have "j + m \<le> i \<or> i + n \<le> j"
      using that assms by (fastforce simp: heap_inv_def blocks_disjoint_def)
    then show ?thesis
      using that heap_inv_block [OF assms(1), of "(j, m)"] by (auto simp: block_ok_def block_size_def)
  qed
  ultimately show ?thesis
    using assms(1) b(1) by (fastforce simp: heap_inv_def blocks_disjoint_def)
qed

lemma heap_inv_mem_cong:
  assumes "heap_inv k B"
    and "\<And>i n x. (i, n) \<in> B \<Longrightarrow> i * 4096 \<le> x \<Longrightarrow> x < i * 4096 + 16 \<Longrightarrow> m x = km_mem k x"
  shows "heap_inv (k\<lparr>km_mem := m\<rparr>) B" "\<And>i n. (i, n) \<in> B \<Longrightarrow> block_size (k\<lparr>km_mem := m\<rparr>) i = block_size k i"
proof -
  have rd: "read64 m (i * 4096) = read64 (km_mem k) (i * 4096)"
    "read64 m (i * 4096 + 8) = read64 (km_mem k) (i * 4096 + 8)" if "(i, n) \<in> B" for i n
    by (rule read64_cong, rule assms(2) [OF that]; simp)+
  then have "block_ok (k\<lparr>km_mem := m\<rparr>) b" if "b \<in> B" for b
    using heap_inv_block [OF assms(1) that] that by (cases b) (auto simp: block_ok_def block_size_def)
  with assms(1) show "heap_inv (k\<lparr>km_mem := m\<rparr>) B"
    by (simp add: heap_inv_def)
  show "block_size (k\<lparr>km_mem := m\<rparr>) i = block_size k i" if "(i, n) \<in> B" for i n
    using rd(2) [OF that] by (simp add: block_size_def)
qed

lemma heap_inv_separate:
  assumes "heap_inv k B" "(i, n) \<in> B" "(j, m) \<in> B" "(i, n) \<noteq> (j, m)"
  shows "(i + n) * 4096 \<le> j * 4096 \<or> (j + m) * 4096 \<le> i * 4096"
  using assms by (fastforce simp: heap_inv_def blocks_disjoint_def)

lemma block_size_fits:
  assumes "heap_inv k B" "(i, n) \<in> B"
  shows "(i + 1) * 4096 + block_size k i \<le> (i + n) * 4096"
  using block_okD(7) [OF heap_inv_block [OF assms]] size_pages_ge [of "block_size k i"] by simp

section \<open>krealloc\<close>

text \<open>The branch that changes the size in place: the new size needs as many pages as the old one.\<close>

lemma krealloc_in_place:
  assumes "heap_inv k B" "(i, n) \<in> B" "size_pages (unat sz) + 1 = n"
  shows "heap_inv (k\<lparr>km_mem := write64 (km_mem k) (i * 4096 + 8) sz\<rparr>) B"
    "block_size (k\<lparr>km_mem := write64 (km_mem k) (i * 4096 + 8) sz\<rparr>) i = unat sz"
proof -
  let ?k = "k\<lparr>km_mem := write64 (km_mem k) (i * 4096 + 8) sz\<rparr>"
  show sz: "block_size ?k i = unat sz"
    by (simp add: block_size_def)
  have "block_ok ?k (j, m)" if "(j, m) \<in> B" for j m
  proof (cases "(j, m) = (i, n)")
    case True
    with heap_inv_block [OF assms(1,2)] assms(3) sz show ?thesis
      by (auto simp: block_ok_def)
  next
    case False
    have "0 < m" "0 < n"
      using heap_inv_bounds(3) [OF assms(1) that] heap_inv_bounds(3) [OF assms(1,2)] by simp_all
    moreover have "(i + n) * 4096 \<le> j * 4096 \<or> (j + m) * 4096 \<le> i * 4096"
      using heap_inv_separate [OF assms(1,2) that] False by auto
    ultimately have "i * 4096 + 16 \<le> j * 4096 \<or> j * 4096 + 16 \<le> i * 4096"
      by (cases m; cases n) auto
    then have "read64 (km_mem ?k) (j * 4096) = read64 (km_mem k) (j * 4096)"
      "read64 (km_mem ?k) (j * 4096 + 8) = read64 (km_mem k) (j * 4096 + 8)"
      by auto
    with heap_inv_block [OF assms(1) that] show ?thesis
      by (auto simp: block_ok_def block_size_def)
  qed
  with assms(1) show "heap_inv ?k B"
    by (auto simp: heap_inv_def)
qed

lemma heap_size_bound:
  assumes "heap_inv k B" "(i, n) \<in> B"
  shows "block_size k i < 140737488355328"
proof -
  have "i + n \<le> 34359738367"
    using block_okD(3) [OF heap_inv_block [OF assms]] by simp
  then have "(i + n) * 4096 \<le> 34359738367 * 4096"
    by (rule mult_le_mono1)
  then show ?thesis
    using block_size_fits [OF assms] by simp
qed

lemma same_pages_iff:
  assumes "unat a < 140737488355328" "unat b \<le> 35184372088832"
  shows "ROUND_UP64 a 4096 = ROUND_UP64 b 4096 \<longleftrightarrow> size_pages (unat a) = size_pages (unat b)"
proof -
  have "unat (ROUND_UP64 a 4096) = size_pages (unat a) * 4096"
    "unat (ROUND_UP64 b 4096) = size_pages (unat b) * 4096"
    using assms by (simp_all add: ROUND_UP64_page size_pages_ROUND_UP)
  then show ?thesis
    by (metis mult_right_cancel unsigned_word_eqI zero_neq_numeral)
qed

text \<open>The branch that moves the block: allocate, copy the common prefix, release the old block.\<close>

lemma krealloc_moved:
  assumes "heap_inv k B" "(i, n) \<in> B" "kmalloc sz k = Inr (p, k1)" "p \<noteq> 0" "unat sz \<le> 35184372088832"
    and c: "c = min (block_size k i) (unat sz)"
  obtains j m k' where "p = block_addr j" "j < 34359738368" "block_size k1 i = block_size k i"
    "kfree (block_addr i) (k1\<lparr>km_mem := memcpy (km_mem k1) ((j + 1) * 4096) ((i + 1) * 4096) c\<rparr>) = Inr k'"
    "heap_inv k' (insert (j, m) (B - {(i, n)}))" "block_size k' j = unat sz"
    "bytes_at (km_mem k') ((j + 1) * 4096) c = bytes_at (km_mem k) ((i + 1) * 4096) c"
    "\<forall>b\<in>B. \<forall>x\<in>block_bytes b. km_mem k' x = km_mem k x" "(j, m) \<notin> B"
proof -
  let ?m = "size_pages (unat sz) + 1"
  from assms(1,3-5) obtain j where j: "p = block_addr j" "(j, ?m) \<notin> B" "heap_inv k1 (insert (j, ?m) B)"
    "block_size k1 j = unat sz" "\<forall>c\<in>B. block_bytes (j, ?m) \<inter> block_bytes c = {}"
    "\<forall>x. x \<notin> block_bytes (j, ?m) \<longrightarrow> km_mem k1 x = km_mem k x"
    by (rule kmalloc_fresh) blast
  let ?mem = "blit (km_mem k1) ((j + 1) * 4096) ((i + 1) * 4096) c"
  let ?k2 = "k1\<lparr>km_mem := ?mem\<rparr>"
  have "(i, n) \<noteq> (j, ?m)" using assms(2) j(2) by metis
  then have sep: "(i + n) * 4096 \<le> j * 4096 \<or> (j + ?m) * 4096 \<le> i * 4096"
    using heap_inv_separate [OF j(3), of i n j ?m] assms(2) by blast
  have fit: "(i + 1) * 4096 + c \<le> (i + n) * 4096" "(j + 1) * 4096 + c \<le> (j + ?m) * 4096"
    using block_size_fits [OF assms(1,2)] block_size_fits [OF j(3), of j ?m] j(4) by (auto simp: c)
  have dest: "x \<in> block_bytes (j, ?m)" if "(j + 1) * 4096 \<le> x" "x < (j + 1) * 4096 + c" for x
    using that fit(2) unfolding block_bytes_def by simp
  have cpy: "memcpy (km_mem k1) ((j + 1) * 4096) ((i + 1) * 4096) c = ?mem"
    using sep fit by (intro memcpy_eq) (auto simp: distrib_right)
  have old: "?mem x = km_mem k x" if "b \<in> B" "x \<in> block_bytes b" for b x
  proof -
    have "x \<notin> block_bytes (j, ?m)" using that j(5) by blast
    then show ?thesis using j(6) dest [of x] by (auto simp: blit_def)
  qed
  have hdr: "?mem x = km_mem k1 x" if "(a, q) \<in> insert (j, ?m) B" "a * 4096 \<le> x" "x < a * 4096 + 16" for a q x
  proof (cases "(a, q) = (j, ?m)")
    case True
    then show ?thesis using that by (auto simp: blit_def)
  next
    case False
    then have "(a, q) \<in> B" "0 < q" using that heap_inv_bounds(3) [OF j(3) that(1)] by auto
    then have "x \<in> block_bytes (a, q)" using that by (cases q) (auto simp: block_bytes_def)
    with \<open>(a, q) \<in> B\<close> j(5,6) have "km_mem k1 x = km_mem k x" by blast
    with old [OF \<open>(a, q) \<in> B\<close> \<open>x \<in> block_bytes (a, q)\<close>] show ?thesis by simp
  qed
  have inv2: "heap_inv ?k2 (insert (j, ?m) B)"
    by (rule heap_inv_mem_cong(1) [OF j(3)]) (erule (2) hdr)
  have size2: "block_size ?k2 j = block_size k1 j"
    by (rule heap_inv_mem_cong(2) [OF j(3), of _ j ?m], erule (2) hdr) simp
  obtain k' where k': "kfree (block_addr i) ?k2 = Inr k'" "heap_inv k' (insert (j, ?m) B - {(i, n)})"
    "km_mem k' = ?mem"
    using kfree_ok [OF inv2, of i n] assms(2) by auto
  have "insert (j, ?m) B - {(i, n)} = insert (j, ?m) (B - {(i, n)})"
    using \<open>(i, n) \<noteq> (j, ?m)\<close> by auto
  moreover have "block_size k1 i = block_size k i"
  proof (rule block_ok_cong(2) [OF heap_inv_block [OF assms(1,2)]])
    show "PmmBitmap (km_pmm k1) x" if "i \<le> x" "x < i + n" for x
      using block_okD(5) [OF heap_inv_block [OF j(3)], of i n x] assms(2) that by auto
  qed (use j(5,6) assms(2) in blast)
  moreover have "block_size k' j = unat sz"
    using size2 j(4) by (simp add: block_size_def k'(3))
  moreover have "bytes_at ?mem ((j + 1) * 4096) c = bytes_at (km_mem k) ((i + 1) * 4096) c"
  proof -
    have "km_mem k1 x = km_mem k x" if "(i + 1) * 4096 \<le> x" "x < (i + 1) * 4096 + c" for x
    proof -
      have "x \<in> block_bytes (i, n)" using that fit(1) unfolding block_bytes_def by simp
      with j(5,6) assms(2) show ?thesis by blast
    qed
    then show ?thesis by (simp only: bytes_at_blit_dest) (rule bytes_at_cong)
  qed
  moreover have "j < 34359738368" using heap_inv_bounds(2) [OF j(3), of "(j, ?m)"] by simp
  ultimately show thesis
    using j(1,2) k' cpy old by (intro that [of j k' ?m]) auto
qed

section \<open>What clients of the heap rely on\<close>

text \<open>
  The allocator interface: \<open>inv s B\<close> says the blocks \<open>B\<close> are live, \<open>ptr\<close> is the pointer the client
  holds for a block, \<open>region\<close> the bytes that belong to it and \<open>peek\<close> the contents of memory. The law
  for a failed allocation is missing on purpose: \<^verbatim>\<open>pmm_alloc\<close> clears low memory when it fails.
\<close>

locale heap_allocator =
  fixes alloc :: "u64 \<Rightarrow> 's \<Rightarrow> (u64 \<times> 's) exec"
    and free :: "u64 \<Rightarrow> 's \<Rightarrow> 's exec"
    and inv :: "'s \<Rightarrow> 'b set \<Rightarrow> bool"
    and ptr :: "'b \<Rightarrow> u64"
    and region :: "'b \<Rightarrow> nat set"
    and peek :: "'s \<Rightarrow> nat \<Rightarrow> u8"
    and limit :: nat
  assumes alloc_total: "inv s B \<Longrightarrow> \<exists>p s'. alloc n s = Inr (p, s')"
    and alloc_fresh: "inv s B \<Longrightarrow> alloc n s = Inr (p, s') \<Longrightarrow> p \<noteq> 0 \<Longrightarrow> unat n \<le> limit \<Longrightarrow>
      \<exists>b. b \<notin> B \<and> ptr b = p \<and> inv s' (insert b B) \<and> (\<forall>c\<in>B. region b \<inter> region c = {}) \<and>
        (\<forall>x. x \<notin> region b \<longrightarrow> peek s' x = peek s x)"
    and free_live: "inv s B \<Longrightarrow> b \<in> B \<Longrightarrow>
      \<exists>s'. free (ptr b) s = Inr s' \<and> inv s' (B - {b}) \<and> peek s' = peek s"
    and ptr_inj: "inv s B \<Longrightarrow> b \<in> B \<Longrightarrow> c \<in> B \<Longrightarrow> ptr b = ptr c \<Longrightarrow> b = c"
    and ptr_nonnull: "inv s B \<Longrightarrow> b \<in> B \<Longrightarrow> ptr b \<noteq> 0"
begin

lemma alloc_new_pointer:
  assumes "inv s B" "alloc n s = Inr (p, s')" "p \<noteq> 0" "unat n \<le> limit"
  obtains b where "b \<notin> B" "ptr b = p" "inv s' (insert b B)" "p \<notin> ptr ` B"
    "\<forall>c\<in>B. \<forall>x\<in>region c. peek s' x = peek s x"
proof -
  obtain b where b: "b \<notin> B" "ptr b = p" "inv s' (insert b B)" "\<forall>c\<in>B. region b \<inter> region c = {}"
    "\<forall>x. x \<notin> region b \<longrightarrow> peek s' x = peek s x"
    using alloc_fresh [OF assms] by blast
  have "p \<notin> ptr ` B"
  proof
    assume "p \<in> ptr ` B"
    then obtain c where "c \<in> B" "ptr c = p" by auto
    with b(1,2) ptr_inj [OF b(3), of b c] show False by auto
  qed
  with b show thesis by (intro that [of b]) auto
qed

lemma alloc_then_free:
  assumes "inv s B" "alloc n s = Inr (p, s')" "p \<noteq> 0" "unat n \<le> limit"
  shows "\<exists>s''. free p s' = Inr s'' \<and> inv s'' B \<and> (\<forall>c\<in>B. \<forall>x\<in>region c. peek s'' x = peek s x)"
proof -
  obtain b where "b \<notin> B" "ptr b = p" "inv s' (insert b B)"
    "\<forall>c\<in>B. \<forall>x\<in>region c. peek s' x = peek s x"
    using alloc_new_pointer [OF assms] by metis
  with free_live [of s' "insert b B" b] show ?thesis by auto
qed

end

text \<open>
  A weaker interface is enough for components that keep typed objects on the heap and only need
  their addresses to be fresh: \<open>owns s P\<close> says that the pointers \<open>P\<close> are live.
\<close>

locale block_pool =
  fixes alloc :: "u64 \<Rightarrow> 's \<Rightarrow> (u64 \<times> 's) exec"
    and free :: "u64 \<Rightarrow> 's \<Rightarrow> 's exec"
    and owns :: "'s \<Rightarrow> u64 set \<Rightarrow> bool"
    and limit :: nat
  assumes pool_total: "owns s P \<Longrightarrow> \<exists>p s'. alloc n s = Inr (p, s')"
    and pool_fresh: "owns s P \<Longrightarrow> alloc n s = Inr (p, s') \<Longrightarrow> p \<noteq> 0 \<Longrightarrow> unat n \<le> limit \<Longrightarrow>
      p \<notin> P \<and> owns s' (insert p P)"
    and pool_free: "owns s P \<Longrightarrow> p \<in> P \<Longrightarrow> \<exists>s'. free p s = Inr s' \<and> owns s' (P - {p})"
    and pool_nonnull: "owns s P \<Longrightarrow> p \<in> P \<Longrightarrow> p \<noteq> 0"
begin

text \<open>An allocation either yields a fresh pointer or fails; both cases as an elimination rule.\<close>

lemma pool_allocE:
  assumes "owns s P" "unat n \<le> limit"
  obtains (oom) s' where "alloc n s = Inr (0, s')"
  | (fresh) p s' where "alloc n s = Inr (p, s')" "p \<noteq> 0" "p \<notin> P" "owns s' (insert p P)"
  using pool_total [OF assms(1)] pool_fresh [OF assms(1) _ _ assms(2)] by metis

end

sublocale heap_allocator \<subseteq> pool: block_pool alloc free "\<lambda>s P. \<exists>B. inv s B \<and> P \<subseteq> ptr ` B" limit
proof
  fix s P n assume "\<exists>B. inv s B \<and> P \<subseteq> ptr ` B"
  then show "\<exists>p s'. alloc n s = Inr (p, s')" using alloc_total by blast
next
  fix s P n p s'
  assume "\<exists>B. inv s B \<and> P \<subseteq> ptr ` B" and a: "alloc n s = Inr (p, s')" "p \<noteq> 0" "unat n \<le> limit"
  then obtain B where B: "inv s B" "P \<subseteq> ptr ` B" by blast
  obtain b where "ptr b = p" "inv s' (insert b B)" "p \<notin> ptr ` B"
    using alloc_new_pointer [OF B(1) a] by metis
  with B(2) show "p \<notin> P \<and> (\<exists>B. inv s' B \<and> insert p P \<subseteq> ptr ` B)" by blast
next
  fix s P p assume "\<exists>B. inv s B \<and> P \<subseteq> ptr ` B" "p \<in> P"
  then obtain B b where B: "inv s B" "P \<subseteq> ptr ` B" "b \<in> B" "ptr b = p" by blast
  from free_live [OF B(1,3)] obtain s' where "free p s = Inr s'" "inv s' (B - {b})"
    using B(4) by blast
  moreover have "P - {p} \<subseteq> ptr ` (B - {b})" using B by blast
  ultimately show "\<exists>s'. free p s = Inr s' \<and> (\<exists>B. inv s' B \<and> P - {p} \<subseteq> ptr ` B)" by blast
next
  fix s P p assume "\<exists>B. inv s B \<and> P \<subseteq> ptr ` B" "p \<in> P"
  then obtain B b where "inv s B" "b \<in> B" "ptr b = p" by blast
  then show "p \<noteq> 0" using ptr_nonnull by metis
qed

interpretation kheap: heap_allocator kmalloc kfree heap_inv "\<lambda>b. block_addr (fst b)" block_bytes
  km_mem 35184372088832
proof
  fix k B sz show "heap_inv k B \<Longrightarrow> \<exists>p k'. kmalloc sz k = Inr (p, k')"
    by (rule kmalloc_total)
next
  fix k B sz p k'
  assume "heap_inv k B" "kmalloc sz k = Inr (p, k')" "p \<noteq> 0" "unat sz \<le> 35184372088832"
  then show "\<exists>b. b \<notin> B \<and> block_addr (fst b) = p \<and> heap_inv k' (insert b B) \<and>
      (\<forall>c\<in>B. block_bytes b \<inter> block_bytes c = {}) \<and> (\<forall>x. x \<notin> block_bytes b \<longrightarrow> km_mem k' x = km_mem k x)"
    by (rule kmalloc_fresh) (metis fst_conv)
next
  fix k B and b :: "nat \<times> nat" assume "heap_inv k B" "b \<in> B"
  then show "\<exists>k'. kfree (block_addr (fst b)) k = Inr k' \<and> heap_inv k' (B - {b}) \<and> km_mem k' = km_mem k"
    using kfree_ok [of k B "fst b" "snd b"] by auto
next
  fix k B and b c :: "nat \<times> nat"
  assume h: "heap_inv k B" "b \<in> B" "c \<in> B" "block_addr (fst b) = block_addr (fst c)"
  note bounds = heap_inv_bounds [OF h(1,2)] heap_inv_bounds [OF h(1,3)]
  have "fst b = fst c"
    by (rule block_addr_inject [OF _ _ h(4)]) (use bounds in simp_all)
  with bounds have "fst b * 4096 \<in> block_bytes b \<inter> block_bytes c"
    by (auto simp: block_bytes_def)
  with heap_inv_apart [OF h(1-3)] show "b = c" by blast
next
  fix k B and b :: "nat \<times> nat" assume "heap_inv k B" "b \<in> B"
  then show "block_addr (fst b) \<noteq> 0"
    by (intro block_addr_nonnull heap_inv_bounds(2))
qed

definition heap_owns :: "kmem \<Rightarrow> u64 set \<Rightarrow> bool" where
  "heap_owns k P \<longleftrightarrow> (\<exists>B. heap_inv k B \<and> P \<subseteq> (\<lambda>b. block_addr (fst b)) ` B)"

interpretation kpool: block_pool kmalloc kfree heap_owns 35184372088832
  unfolding heap_owns_def by (rule kheap.pool.block_pool_axioms)

section \<open>Correctness of the heap\<close>

lemma kmalloc_null_full:
  assumes "heap_inv k B" "kmalloc sz k = Inr (0, k')" "j < PmmLength (km_pmm k)"
    and "unat sz \<le> 35184372088832"
  shows "\<exists>x. j \<le> x \<and> x < j + (size_pages (unat sz) + 1) \<and> PmmBitmap (km_pmm k) x"
proof (rule pmm_search_cases [of 1 "PmmBitmap (km_pmm k)" "PmmLength (km_pmm k)" 0 "size_pages (unat sz) + 1"])
  show "(0 :: nat) < 1" by simp
next
  fix i
  let ?n = "size_pages (unat sz) + 1"
  assume i: "pmm_search (PmmBitmap (km_pmm k)) (PmmLength (km_pmm k)) 0 ?n 1 = Inr (Some (0 + i * 1))"
    "0 + i * 1 < PmmLength (km_pmm k)" "is_bitmap_page_free (PmmBitmap (km_pmm k)) (0 + i * 1) ?n"
  have "i < 17179869184" using i(2) assms(1) by (simp add: heap_inv_def)
  have "i \<noteq> 0"
    using i(3) assms(1) by (cases i) (auto simp: heap_inv_def)
  have "(of_nat (i * 4096) :: u64) \<noteq> 0" "block_addr i \<noteq> 0"
  proof -
    have "unat (of_nat (i * 4096) :: u64) \<noteq> 0"
      using \<open>i < 17179869184\<close> \<open>i \<noteq> 0\<close> by (simp del: of_nat_mult)
    then show "(of_nat (i * 4096) :: u64) \<noteq> 0" by (metis unsigned_0)
    show "block_addr i \<noteq> 0"
      using \<open>i < 17179869184\<close> by (intro block_addr_nonnull) simp
  qed
  moreover have "PmmLock (km_pmm k)" using assms(1) by (simp add: heap_inv_def)
  ultimately have False
    using assms(2) i(1)
    by (auto simp: kmalloc_def pmm_alloc_def pmm_alloc_advanced_def Let_def size_pages_def block_addr_def
        split: if_splits)
  then show ?thesis ..
qed (use assms(3) in \<open>auto simp: is_bitmap_page_free_iff\<close>)

text \<open>
  C4. On a heap that satisfies its invariant, \<^verbatim>\<open>kmalloc\<close> always returns. It returns \<^verbatim>\<open>NULL\<close> only when no
  run of free pages is long enough for the header page and the data; otherwise it returns a new
  block that overlaps no live block, whose header records the requested size, whose data bytes are
  all zero, and every byte of memory outside the block is unchanged.
\<close>

theorem kmalloc_fresh_block:
  assumes "heap_inv k B" "unat sz \<le> 35184372088832"
  shows "\<exists>p k'. kmalloc sz k = Inr (p, k') \<and>
    (if p = 0
     then (\<forall>j<PmmLength (km_pmm k). \<exists>x. j \<le> x \<and> x < j + (size_pages (unat sz) + 1) \<and> PmmBitmap (km_pmm k) x)
     else \<exists>i n. p = block_addr i \<and> (i, n) \<notin> B \<and> heap_inv k' (insert (i, n) B) \<and>
            block_size k' i = unat sz \<and> (\<forall>c\<in>B. block_bytes (i, n) \<inter> block_bytes c = {}) \<and>
            (\<forall>x. x \<notin> block_bytes (i, n) \<longrightarrow> km_mem k' x = km_mem k x) \<and>
            bytes_at (km_mem k') (phys_of p) (unat sz) = replicate (unat sz) 0)"
proof -
  obtain p k' where r: "kmalloc sz k = Inr (p, k')"
    using kmalloc_total [OF assms(1)] by blast
  show ?thesis
  proof (cases "p = 0")
    case True
    with r kmalloc_null_full [OF assms(1) _ _ assms(2)] show ?thesis by auto
  next
    case False
    from assms(1) r False assms(2) obtain i where i: "p = block_addr i"
      "heap_inv k' (insert (i, size_pages (unat sz) + 1) B)" "(i, size_pages (unat sz) + 1) \<notin> B"
      "block_size k' i = unat sz" "\<forall>c\<in>B. block_bytes (i, size_pages (unat sz) + 1) \<inter> block_bytes c = {}"
      "\<forall>x. x \<notin> block_bytes (i, size_pages (unat sz) + 1) \<longrightarrow> km_mem k' x = km_mem k x"
      "\<forall>x. (i + 1) * 4096 \<le> x \<and> x < (i + 1) * 4096 + unat sz \<longrightarrow> km_mem k' x = 0"
      by (rule kmalloc_fresh) blast
    have "i < 34359738368"
      using heap_inv_bounds(2) [OF i(2), of "(i, size_pages (unat sz) + 1)"] by simp
    then have "bytes_at (km_mem k') (phys_of p) (unat sz) = replicate (unat sz) 0"
      using i(7) by (intro nth_equalityI) (simp_all add: i(1) phys_of_block)
    with i(1-6) have "\<exists>i n. p = block_addr i \<and> (i, n) \<notin> B \<and> heap_inv k' (insert (i, n) B) \<and>
        block_size k' i = unat sz \<and> (\<forall>c\<in>B. block_bytes (i, n) \<inter> block_bytes c = {}) \<and>
        (\<forall>x. x \<notin> block_bytes (i, n) \<longrightarrow> km_mem k' x = km_mem k x) \<and>
        bytes_at (km_mem k') (phys_of p) (unat sz) = replicate (unat sz) 0"
      by blast
    with r False show ?thesis by simp
  qed
qed

definition small_heap :: kmem where
  "small_heap = \<lparr>km_pmm = \<lparr>PmmBitmap = (\<lambda>j. j < 3), PmmLength = 64, PmmFreePages = 61, PmmLock = True\<rparr>,
                 km_mem = (\<lambda>_. 0)\<rparr>"

lemma small_heap_inv: "heap_inv small_heap {}"
  by (simp add: small_heap_def heap_inv_def blocks_disjoint_def)

theorem kmalloc_fresh_block_witness:
  "\<exists>p k' i n. kmalloc 100 small_heap = Inr (p, k') \<and> p = block_addr i \<and> heap_inv k' {(i, n)} \<and>
     block_size k' i = 100 \<and> bytes_at (km_mem k') (phys_of p) 100 = replicate 100 0"
proof -
  have pages: "size_pages (unat (100 :: u64)) = 1"
    by (simp add: size_pages_def)
  have u: "unat (100 :: u64) = 100" "(100 :: nat) \<le> 35184372088832" by simp_all
  have roomy: "\<not> (\<forall>j<PmmLength (km_pmm small_heap).
      \<exists>x. j \<le> x \<and> x < j + (1 + 1) \<and> PmmBitmap (km_pmm small_heap) x)"
    by (auto simp: small_heap_def intro!: exI [of _ 3])
  obtain p k' where r: "kmalloc 100 small_heap = Inr (p, k')"
    and c: "if p = 0 then (\<forall>j<PmmLength (km_pmm small_heap).
        \<exists>x. j \<le> x \<and> x < j + (1 + 1) \<and> PmmBitmap (km_pmm small_heap) x)
      else \<exists>i n. p = block_addr i \<and> (i, n) \<notin> {} \<and> heap_inv k' {(i, n)} \<and> block_size k' i = 100 \<and>
        (\<forall>c\<in>{}. block_bytes (i, n) \<inter> block_bytes c = {}) \<and>
        (\<forall>x. x \<notin> block_bytes (i, n) \<longrightarrow> km_mem k' x = km_mem small_heap x) \<and>
        bytes_at (km_mem k') (phys_of p) 100 = replicate 100 0"
    using kmalloc_fresh_block [OF small_heap_inv, of 100] unfolding pages unfolding u(1) using u(2) by blast
  show ?thesis
  proof (cases "p = 0")
    case True
    with c roomy show ?thesis by simp
  next
    case False
    with c have "\<exists>i n. p = block_addr i \<and> heap_inv k' {(i, n)} \<and> block_size k' i = 100 \<and>
        bytes_at (km_mem k') (phys_of p) 100 = replicate 100 0"
      by (simp only: if_False) blast
    with r show ?thesis by blast
  qed
qed

text \<open>
  The pages of a block, header page included, are those the allocation has marked: taking their marks away gives the
  bitmap from before.
\<close>

lemma kmalloc_unmark:
  assumes "heap_inv k B" "kmalloc sz k = Inr (block_addr i, k')" "unat sz \<le> 35184372088832" "i < 34359738367"
  shows "(\<lambda>j. \<not> (i \<le> j \<and> j < i + (size_pages (unat sz) + 1)) \<and> PmmBitmap (km_pmm k') j) = PmmBitmap (km_pmm k)"
proof -
  have "block_addr i \<noteq> 0"
    using assms(4) by (rule block_addr_nonnull)
  from assms(1,2) this assms(3) obtain j where j: "block_addr i = block_addr j" "j < 17179869184"
      "\<forall>x. j \<le> x \<and> x < j + (size_pages (unat sz) + 1) \<longrightarrow> \<not> PmmBitmap (km_pmm k) x"
      "PmmBitmap (km_pmm k') = (\<lambda>x. (j \<le> x \<and> x < j + (size_pages (unat sz) + 1)) \<or> PmmBitmap (km_pmm k) x)"
    by (rule kmalloc_nonnullE)
  have "i = j"
    by (rule block_addr_inject [OF _ _ j(1)]) (use assms(4) j(2) in simp_all)
  then show ?thesis
    using j(3) by (auto simp: j(4) fun_eq_iff)
qed

text \<open>
  C22. Whatever \<^verbatim>\<open>kmalloc\<close> hands out can be given back with \<^verbatim>\<open>kfree\<close>: the release returns, the page bitmap is bit
  for bit the one from before the allocation, so that exactly the pages of the block are free again, the blocks that
  were live before are live, and no byte of them has changed.
\<close>

theorem kmalloc_kfree_roundtrip:
  assumes "heap_inv k B" "kmalloc sz k = Inr (p, k')" "p \<noteq> 0" "unat sz \<le> 35184372088832"
  shows "\<exists>k''. kfree p k' = Inr k'' \<and> PmmBitmap (km_pmm k'') = PmmBitmap (km_pmm k) \<and> heap_inv k'' B \<and>
    (\<forall>c\<in>B. \<forall>x\<in>block_bytes c. km_mem k'' x = km_mem k x)"
proof -
  let ?n = "size_pages (unat sz) + 1"
  from assms obtain i where i: "p = block_addr i" "heap_inv k' (insert (i, ?n) B)"
    by (rule kmalloc_fresh) blast
  obtain k'' where k'': "kfree p k' = Inr k''"
      "PmmBitmap (km_pmm k'') = (\<lambda>j. \<not> (i \<le> j \<and> j < i + ?n) \<and> PmmBitmap (km_pmm k') j)"
    using kfree_ok [OF i(2) insertI1] i(1) by blast
  have "i < 34359738367"
    using heap_inv_bounds(2) [OF i(2) insertI1] by simp
  then have "PmmBitmap (km_pmm k'') = PmmBitmap (km_pmm k)"
    using kmalloc_unmark [OF assms(1) _ assms(4), of i k'] assms(2) i(1) k''(2) by simp
  then show ?thesis
    using kheap.alloc_then_free [OF assms] k''(1) by auto
qed

lemma small_heap_kmalloc:
  obtains p k' where "kmalloc 100 small_heap = Inr (p, k')" "p \<noteq> 0"
proof -
  obtain p k' where r: "kmalloc 100 small_heap = Inr (p, k')"
    using kmalloc_total [OF small_heap_inv] by blast
  have "p \<noteq> 0"
    using kmalloc_null_full [OF small_heap_inv, of 100 k' 3] r by (auto simp: small_heap_def size_pages_def)
  with r show thesis by (rule that)
qed

theorem kmalloc_kfree_roundtrip_witness:
  "\<exists>p k' k''. kmalloc 100 small_heap = Inr (p, k') \<and> kfree p k' = Inr k'' \<and>
     PmmBitmap (km_pmm k'') = PmmBitmap (km_pmm small_heap)"
proof -
  obtain p k' where "kmalloc 100 small_heap = Inr (p, k')" "p \<noteq> 0"
    by (rule small_heap_kmalloc)
  with kmalloc_kfree_roundtrip [OF small_heap_inv this] show ?thesis by auto
qed

lemma krealloc_spec:
  assumes "heap_inv k B" "(i, n) \<in> B" "sz \<noteq> 0" "unat sz \<le> 35184372088832"
  shows "\<exists>p k'. krealloc (block_addr i) sz k = Inr (p, k') \<and> (p \<noteq> 0 \<longrightarrow>
    (\<exists>j m. p = block_addr j \<and> (j, m) \<notin> B - {(i, n)} \<and> heap_inv k' (insert (j, m) (B - {(i, n)})) \<and> block_size k' j = unat sz \<and>
       bytes_at (km_mem k') (phys_of p) (min (block_size k i) (unat sz)) =
       bytes_at (km_mem k) (phys_of (block_addr i)) (min (block_size k i) (unat sz)) \<and>
       (\<forall>b\<in>B - {(i, n)}. \<forall>x\<in>block_bytes b. km_mem k' x = km_mem k x)))"
proof -
  let ?c = "min (block_size k i) (unat sz)"
  have i: "i < 34359738367" "block_addr i \<noteq> 0"
    using heap_inv_bounds(2) [OF assms(1,2)] by (simp_all add: block_addr_nonnull)
  have hsz: "unat (read64 (km_mem k) (i * 4096 + 8)) = block_size k i"
    by (simp add: block_size_def)
  show ?thesis
  proof (cases "size_pages (block_size k i) = size_pages (unat sz)")
    case True
    let ?k = "k\<lparr>km_mem := write64 (km_mem k) (i * 4096 + 8) sz\<rparr>"
    have "n = size_pages (unat sz) + 1"
      using block_okD(7) [OF heap_inv_block [OF assms(1,2)]] True by simp
    then have inv: "heap_inv ?k B" "block_size ?k i = unat sz"
      using krealloc_in_place [OF assms(1,2)] by simp_all
    have "krealloc (block_addr i) sz k = Inr (block_addr i, ?k)"
      using i assms(3) True same_pages_iff [of "read64 (km_mem k) (i * 4096 + 8)" sz]
        heap_size_bound [OF assms(1,2)] assms(4)
      by (simp add: krealloc_def Let_def phys_of_header hsz)
    moreover have same: "km_mem ?k x = km_mem k x" if "x < i * 4096 + 8 \<or> i * 4096 + 16 \<le> x" for x
    proof -
      have "write64 (km_mem k) (i * 4096 + 8) sz x = km_mem k x"
        using that by (intro write64_outside) linarith
      then show ?thesis by simp
    qed
    moreover have "km_mem ?k x = km_mem k x" if b: "b \<in> B - {(i, n)}" "x \<in> block_bytes b" for b x
    proof (rule same)
      have "x \<notin> block_bytes (i, n)"
        using heap_inv_apart [OF assms(1), of b "(i, n)"] b assms(2) by blast
      then show "x < i * 4096 + 8 \<or> i * 4096 + 16 \<le> x"
        using heap_inv_bounds(3) [OF assms(1,2)] by (cases n) (auto simp: block_bytes_def)
    qed
    moreover have "bytes_at (km_mem ?k) (phys_of (block_addr i)) ?c = bytes_at (km_mem k) (phys_of (block_addr i)) ?c"
      using i(1) by (intro bytes_at_cong same) (simp add: phys_of_block)
    ultimately show ?thesis
      using inv assms(2) by (metis Diff_iff insertI1 insert_Diff)
  next
    case False
    have ne: "ROUND_UP64 (read64 (km_mem k) (i * 4096 + 8)) 4096 \<noteq> ROUND_UP64 sz 4096"
      using False same_pages_iff [of "read64 (km_mem k) (i * 4096 + 8)" sz]
        heap_size_bound [OF assms(1,2)] assms(4) by (simp add: hsz)
    obtain p k1 where r: "kmalloc sz k = Inr (p, k1)"
      using kmalloc_total [OF assms(1)] by blast
    show ?thesis
    proof (cases "p = 0")
      case True
      with r ne i assms(3) show ?thesis
        by (simp add: krealloc_def Let_def phys_of_header)
    next
      case p: False
      from krealloc_moved [OF assms(1,2) r p assms(4) refl] obtain j m k' where
        j: "p = block_addr j" "j < 34359738368" "block_size k1 i = block_size k i"
        "kfree (block_addr i) (k1\<lparr>km_mem := memcpy (km_mem k1) ((j + 1) * 4096) ((i + 1) * 4096) ?c\<rparr>) = Inr k'"
        "heap_inv k' (insert (j, m) (B - {(i, n)}))" "block_size k' j = unat sz"
        "bytes_at (km_mem k') ((j + 1) * 4096) ?c = bytes_at (km_mem k) ((i + 1) * 4096) ?c"
        "\<forall>b\<in>B. \<forall>x\<in>block_bytes b. km_mem k' x = km_mem k x" "(j, m) \<notin> B"
        by metis
      have "unat (if read64 (km_mem k1) (i * 4096 + 8) > sz then sz
          else read64 (km_mem k1) (i * 4096 + 8)) = ?c"
        using j(3) by (auto simp: block_size_def word_less_nat_alt)
      then have "krealloc (block_addr i) sz k = Inr (p, k')"
        using r ne i assms(3) p j(1,2,4) by (simp add: krealloc_def Let_def phys_of_header phys_of_block)
      moreover have "bytes_at (km_mem k') (phys_of p) ?c = bytes_at (km_mem k) (phys_of (block_addr i)) ?c"
        using j(1,2,7) i(1) by (simp add: phys_of_block)
      ultimately show ?thesis
        using j(1,5,6,8,9) by blast
    qed
  qed
qed

text \<open>
  When \<^verbatim>\<open>krealloc\<close> has no block to give, neither has \<^verbatim>\<open>kmalloc\<close>; the contents of memory do not matter for that.
\<close>

lemma krealloc_null_kmalloc:
  "krealloc p sz k = Inr (0, k') \<Longrightarrow> p \<noteq> 0 \<Longrightarrow> sz \<noteq> 0 \<Longrightarrow> \<exists>k1. kmalloc sz k = Inr (0, k1)"
  by (auto simp: krealloc_def Let_def bindr_def split: if_splits sum.splits)

lemma kmalloc_null_mem: "kmalloc sz (k\<lparr>km_mem := m\<rparr>) = Inr (0, k1) \<Longrightarrow> \<exists>k2. kmalloc sz k = Inr (0, k2)"
  by (auto simp: kmalloc_def pmm_alloc_def Let_def bindr_def split: if_splits sum.splits)

text \<open>
  C6. \<^verbatim>\<open>krealloc\<close> on a live block and a non-zero size returns, and unless it returns \<^verbatim>\<open>NULL\<close>, the block it
  returns has the new size, replaces the old one among the live blocks, starts with the same bytes
  as the old block (up to the smaller of the two sizes), and no other live block is touched.
\<close>

theorem krealloc_keeps_contents:
  assumes "heap_inv k B" "(i, n) \<in> B" "sz \<noteq> 0" "unat sz \<le> 35184372088832"
  shows "\<exists>p k'. krealloc (block_addr i) sz k = Inr (p, k') \<and> (p \<noteq> 0 \<longrightarrow>
    (\<exists>j m. p = block_addr j \<and> heap_inv k' (insert (j, m) (B - {(i, n)})) \<and> block_size k' j = unat sz \<and>
       bytes_at (km_mem k') (phys_of p) (min (block_size k i) (unat sz)) =
       bytes_at (km_mem k) (phys_of (block_addr i)) (min (block_size k i) (unat sz)) \<and>
       (\<forall>b\<in>B - {(i, n)}. \<forall>x\<in>block_bytes b. km_mem k' x = km_mem k x)))"
  using krealloc_spec [OF assms] by blast

text \<open>A live block of 100 bytes on the small heap.\<close>

lemma small_heap_block:
  obtains k i n where "heap_inv k {(i, n)}" "block_size k i = 100"
proof -
  obtain p k' where r: "kmalloc 100 small_heap = Inr (p, k')" "p \<noteq> 0"
    by (rule small_heap_kmalloc)
  show thesis
    by (rule kmalloc_fresh [OF small_heap_inv r]) (use that in \<open>auto simp: size_pages_def\<close>)
qed

theorem krealloc_keeps_contents_witness:
  "\<exists>k i n p k'. heap_inv k {(i, n)} \<and> block_size k i = 100 \<and>
     krealloc (block_addr i) 200 k = Inr (p, k') \<and> (p \<noteq> 0 \<longrightarrow>
       bytes_at (km_mem k') (phys_of p) 100 = bytes_at (km_mem k) (phys_of (block_addr i)) 100)"
proof -
  obtain k i n where k: "heap_inv k {(i, n)}" "block_size k i = 100"
    by (rule small_heap_block)
  then have "\<exists>p k'. krealloc (block_addr i) 200 k = Inr (p, k') \<and> (p \<noteq> 0 \<longrightarrow>
       bytes_at (km_mem k') (phys_of p) 100 = bytes_at (km_mem k) (phys_of (block_addr i)) 100)"
    using krealloc_keeps_contents [OF k(1), of i n 200] by auto
  with k show ?thesis by blast
qed

lemma mult_overflow_iff:
  fixes a b :: u64
  assumes "a \<noteq> 0"
  shows "b = (a * b) div a \<longleftrightarrow> unat a * unat b < 2 ^ 64"
proof
  assume fits: "unat a * unat b < 2 ^ 64"
  then have "unat (a * b) = unat a * unat b"
    by (simp add: unat_word_ariths)
  moreover have "unat a \<noteq> 0" using assms by (simp add: unat_eq_zero)
  ultimately have "unat ((a * b) div a) = unat b"
    by (simp add: unat_div_distrib)
  then show "b = (a * b) div a" by (metis unsigned_word_eqI)
next
  assume eq: "b = (a * b) div a"
  have "unat b = unat (a * b) div unat a"
    by (subst eq) (simp add: unat_div_distrib)
  then have "unat a * unat b \<le> unat (a * b)"
    by simp
  then show "unat a * unat b < 2 ^ 64"
    using unat_u64_less [of "a * b"] by (simp del: unat_u64_less)
qed

text \<open>
  C32. \<^verbatim>\<open>kcalloc\<close> refuses exactly the requests whose byte count is zero or does not fit in 64 bits: it
  returns \<^verbatim>\<open>NULL\<close> and changes nothing. For every other request it behaves as \<^verbatim>\<open>kmalloc\<close> of the product,
  whose mathematical value the 64-bit multiplication has then computed, with the data bytes cleared.
\<close>

theorem kcalloc_checks_overflow:
  shows "kcalloc num nsize k =
    (if unat num * unat nsize = 0 \<or> 2 ^ 64 \<le> unat num * unat nsize then Inr (0, k)
     else bindr (kmalloc (of_nat (unat num * unat nsize)) k) (\<lambda>(addr, k').
       if addr = 0 then Inr (0, k')
       else Inr (addr, k'\<lparr>km_mem :=
         (\<lambda>x. if phys_of addr \<le> x \<and> x < phys_of addr + unat num * unat nsize then 0 else km_mem k' x)\<rparr>)))"
proof (cases "num = 0 \<or> nsize = 0")
  case True
  then show ?thesis by (auto simp: kcalloc_def)
next
  case False
  then have z: "unat num * unat nsize \<noteq> 0"
    by (simp add: unat_eq_zero)
  have "(of_nat (unat num * unat nsize) :: u64) = num * nsize"
    by simp
  moreover have "unat num * unat nsize < 2 ^ 64 \<Longrightarrow> unat (num * nsize) = unat num * unat nsize"
    by (simp add: unat_word_ariths)
  ultimately show ?thesis
    using False z mult_overflow_iff [of num nsize]
    by (auto simp: kcalloc_def Let_def memset_zero not_le intro!: bindr_cong)
qed

text \<open>
  C39. An allocation that fails destroys memory: \<^verbatim>\<open>pmm_alloc\<close> clears the pages at the address it was
  given without looking at it, so when no run of \<open>count\<close> free pages exists (and the lock is free),
  it returns \<^verbatim>\<open>NULL\<close> with the first \<open>count\<close> pages of physical memory set to zero, whoever owns them.
\<close>

theorem pmm_alloc_failure_clears_low_memory:
  assumes "PmmLock (km_pmm k)" "PAGE_SIZE * count < 2 ^ 64"
    and "\<forall>j<PmmLength (km_pmm k). \<exists>x. j \<le> x \<and> x < j + count \<and> PmmBitmap (km_pmm k) x"
  shows "\<exists>k'. pmm_alloc count k = Inr (0, k') \<and>
    (\<forall>x. km_mem k' x = (if x < PAGE_SIZE * count then 0 else km_mem k x))"
proof (rule pmm_search_cases [of 1 "PmmBitmap (km_pmm k)" "PmmLength (km_pmm k)" 0 count])
  show "(0 :: nat) < 1" by simp
next
  fix i
  assume "0 + i * 1 < PmmLength (km_pmm k)" "is_bitmap_page_free (PmmBitmap (km_pmm k)) (0 + i * 1) count"
  with assms(3) show ?thesis by (auto simp: is_bitmap_page_free_iff)
qed (use assms(1,2) in \<open>auto simp: pmm_alloc_def pmm_alloc_advanced_def memset_eq\<close>)

theorem pmm_alloc_failure_clears_low_memory_witness:
  "\<exists>k'. pmm_alloc 62 (small_heap\<lparr>km_mem := (\<lambda>_. 7), km_pmm := (km_pmm small_heap)\<lparr>PmmBitmap := (\<lambda>_. True)\<rparr>\<rparr>)
     = Inr (0, k') \<and> km_mem k' 4096 = 0"
  using pmm_alloc_failure_clears_low_memory [of
      "small_heap\<lparr>km_mem := (\<lambda>_. 7), km_pmm := (km_pmm small_heap)\<lparr>PmmBitmap := (\<lambda>_. True)\<rparr>\<rparr>" 62]
  by (fastforce simp: small_heap_def)

section \<open>Heaps with room\<close>

text \<open>
  A heap whose pages from \<open>j\<close> on are all free: an allocation succeeds there and, being first fit,
  uses up at most the pages it needs from that tail.
\<close>

definition heap_tail :: "kmem \<Rightarrow> nat \<Rightarrow> bool" where
  "heap_tail k j \<longleftrightarrow> (\<exists>B. heap_inv k B) \<and> j < PmmLength (km_pmm k) \<and> (\<forall>x\<ge>j. \<not> PmmBitmap (km_pmm k) x)"

lemma kmalloc_tail:
  assumes t: "heap_tail k j" and sz: "unat sz \<le> 35184372088832"
  obtains p k' where "kmalloc sz k = Inr (p, k')" "p \<noteq> 0"
    "j + (size_pages (unat sz) + 1) < PmmLength (km_pmm k) \<Longrightarrow> heap_tail k' (j + (size_pages (unat sz) + 1))"
    "PmmLength (km_pmm k') = PmmLength (km_pmm k)"
proof -
  let ?n = "size_pages (unat sz) + 1"
  from t obtain B where B: "heap_inv k B" by (auto simp: heap_tail_def)
  obtain p k' where r: "kmalloc sz k = Inr (p, k')" using kmalloc_total [OF B] by blast
  have p: "p \<noteq> 0"
  proof
    assume "p = 0"
    with kmalloc_null_full [OF B _ _ sz, of k' j] r t show False by (auto simp: heap_tail_def)
  qed
  from B r p sz obtain i where i: "i < 17179869184" "p = block_addr i" "PmmLength (km_pmm k') = PmmLength (km_pmm k)"
    "PmmBitmap (km_pmm k') = (\<lambda>x. (i \<le> x \<and> x < i + ?n) \<or> PmmBitmap (km_pmm k) x)"
    by (rule kmalloc_nonnullE) blast
  have "i \<le> j"
  proof (rule pmm_search_cases [of 1 "PmmBitmap (km_pmm k)" "PmmLength (km_pmm k)" 0 ?n])
    fix m
    assume m: "pmm_search (PmmBitmap (km_pmm k)) (PmmLength (km_pmm k)) 0 ?n 1 = Inr (Some (0 + m * 1))"
      "0 + m * 1 < PmmLength (km_pmm k)" "\<forall>j<m. \<not> is_bitmap_page_free (PmmBitmap (km_pmm k)) (0 + j * 1) ?n"
    have "is_bitmap_page_free (PmmBitmap (km_pmm k)) j ?n"
      using t by (auto simp: heap_tail_def is_bitmap_page_free_iff)
    then have "m \<le> j" using m(3) by (metis add_0 mult.right_neutral not_le)
    have lock: "PmmLock (km_pmm k)" "m < 17179869184" using B m(2) by (auto simp: heap_inv_def)
    have "p = block_addr m \<or> p = 0"
      using r m(1) lock(1)
      by (auto simp: kmalloc_def pmm_alloc_def pmm_alloc_advanced_def Let_def size_pages_def block_addr_def split: if_splits)
    with p i(1,2) lock(2) have "i = m" using block_addr_inject [of i m] by simp
    with \<open>m \<le> j\<close> show ?thesis by simp
  next
    assume "\<forall>m. 0 + m * 1 < PmmLength (km_pmm k) \<longrightarrow> \<not> is_bitmap_page_free (PmmBitmap (km_pmm k)) (0 + m * 1) ?n"
    with t show ?thesis by (auto simp: heap_tail_def is_bitmap_page_free_iff)
  qed simp
  have "\<exists>B'. heap_inv k' B'" using kmalloc_fresh [OF B r p sz] by metis
  with \<open>i \<le> j\<close> i t have "heap_tail k' (j + ?n)" if "j + ?n < PmmLength (km_pmm k)"
    using that unfolding heap_tail_def by auto
  then show thesis by (rule that [OF r p _ i(3)])
qed

end
