(* ===== verification/Lists.thy ===== *)
theory Lists
  imports Kmalloc
begin

text \<open>
  The doubly linked lists of \<^verbatim>\<open>kernel/utils/lists.c\<close>. A list header and its nodes are objects on the
  kernel heap: every node is allocated with \<^verbatim>\<open>kmalloc\<close> and released with \<^verbatim>\<open>kfree\<close>, and the typed
  stores \<open>lh_lists\<close> and \<open>lh_nodes\<close> hold the objects at the addresses the heap handed out. The
  invariant \<open>lheap_wf\<close> relates the stores to one abstract sequence per list; each operation is
  shown to return and to act on the sequence of its own list only.
\<close>

section \<open>Data\<close>

record list_node_t =
  n_value :: u64
  n_previous :: u64
  n_next :: u64

record list_t =
  l_length :: u64
  l_root :: u64
  l_tail :: u64
  l_lock :: lock

record lheap =
  lh_k :: kmem
  lh_lists :: "u64 \<rightharpoonup> list_t"
  lh_nodes :: "u64 \<rightharpoonup> list_node_t"

section \<open>Accesses through list and node pointers\<close>

definition set_list :: "u64 \<Rightarrow> (list_t \<Rightarrow> list_t) \<Rightarrow> 'x lheap_scheme \<Rightarrow> 'x lheap_scheme exec" where
  "set_list l f h = bindr (modify l f (lh_lists h)) (\<lambda>m. Inr (h\<lparr>lh_lists := m\<rparr>))"

definition set_node :: "u64 \<Rightarrow> (list_node_t \<Rightarrow> list_node_t) \<Rightarrow> 'x lheap_scheme \<Rightarrow> 'x lheap_scheme exec" where
  "set_node n f h = bindr (modify n f (lh_nodes h)) (\<lambda>m. Inr (h\<lparr>lh_nodes := m\<rparr>))"

definition list_lock :: "u64 \<Rightarrow> 'x lheap_scheme \<Rightarrow> 'x lheap_scheme exec" where
  "list_lock l h = bindr (load (lh_lists h) l) (\<lambda>L.
     bindr (spin_acquire_exec (l_lock L)) (\<lambda>b. set_list l (\<lambda>L. L\<lparr>l_lock := b\<rparr>) h))"

definition list_unlock :: "u64 \<Rightarrow> 'x lheap_scheme \<Rightarrow> 'x lheap_scheme exec" where
  "list_unlock l h = set_list l (\<lambda>L. L\<lparr>l_lock := UNLOCKED\<rparr>) h"

text \<open>\<^verbatim>\<open>kmalloc(sizeof(list_node_t))\<close> and the three stores into the new node.\<close>

definition new_node :: "list_node_t \<Rightarrow> 'x lheap_scheme \<Rightarrow> (u64 \<times> 'x lheap_scheme) exec" where
  "new_node v h = bindr (kmalloc 24 (lh_k h)) (\<lambda>(p, k).
     if p = 0 then Inl NullDeref
     else Inr (p, h\<lparr>lh_k := k, lh_nodes := (lh_nodes h)(p \<mapsto> v)\<rparr>))"

definition free_node :: "u64 \<Rightarrow> 'x lheap_scheme \<Rightarrow> 'x lheap_scheme exec" where
  "free_node p h = bindr (kfree p (lh_k h)) (\<lambda>k.
     Inr (h\<lparr>lh_k := k, lh_nodes := (lh_nodes h)(p := None)\<rparr>))"

section \<open>Operations\<close>

definition list_create :: "'x lheap_scheme \<Rightarrow> (u64 \<times> 'x lheap_scheme) exec" where
  "list_create h = bindr (kmalloc 56 (lh_k h)) (\<lambda>(l, k).
     if l = 0 then Inl NullDeref
     else Inr (l, h\<lparr>lh_k := k, lh_lists := (lh_lists h)(l \<mapsto>
            \<lparr>l_length = 0, l_root = 0, l_tail = 0, l_lock = UNLOCKED\<rparr>)\<rparr>))"

partial_function (option) list_destroy_loop :: "u64 \<Rightarrow> 'x lheap_scheme \<Rightarrow> 'x lheap_scheme exec option" where
  "list_destroy_loop node h =
     (if node = 0 then Some (Inr h)
      else case load (lh_nodes h) node of
        Inl e \<Rightarrow> Some (Inl e)
      | Inr N \<Rightarrow> (case free_node node h of
          Inl e \<Rightarrow> Some (Inl e)
        | Inr h' \<Rightarrow> list_destroy_loop (n_next N) h'))"

definition list_destroy :: "u64 \<Rightarrow> 'x lheap_scheme \<Rightarrow> 'x lheap_scheme exec" where
  "list_destroy l h = bindr (load (lh_lists h) l) (\<lambda>L.
     bindr (run_loop (list_destroy_loop (l_root L) h)) (\<lambda>h.
     bindr (kfree l (lh_k h)) (\<lambda>k.
       Inr (h\<lparr>lh_k := k, lh_lists := (lh_lists h)(l := None)\<rparr>))))"

definition list_destroy_node :: "u64 \<Rightarrow> 'x lheap_scheme \<Rightarrow> 'x lheap_scheme exec" where
  "list_destroy_node node h = free_node node h"

definition list_push_before :: "u64 \<Rightarrow> u64 \<Rightarrow> u64 \<Rightarrow> 'x lheap_scheme \<Rightarrow> (u64 \<times> 'x lheap_scheme) exec" where
  "list_push_before l lastNode val h =
     bindr (list_lock l h) (\<lambda>h.
     bindr (load (lh_lists h) l) (\<lambda>L.
     bindr (new_node \<lparr>n_value = val, n_previous = l_tail L, n_next = lastNode\<rparr> h) (\<lambda>(node, h).
     bindr (if l_tail L = lastNode
            then bindr (set_node node (\<lambda>N. N\<lparr>n_previous := 0\<rparr>) h)
                   (set_list l (\<lambda>L. L\<lparr>l_tail := node\<rparr>))
            else Inr h) (\<lambda>h.
     bindr (set_node lastNode (\<lambda>N. N\<lparr>n_previous := node\<rparr>) h) (\<lambda>h.
     bindr (set_list l (\<lambda>L. L\<lparr>l_length := l_length L + 1\<rparr>) h) (\<lambda>h.
     bindr (list_unlock l h) (\<lambda>h. Inr (node, h))))))))"

definition list_push_back :: "u64 \<Rightarrow> u64 \<Rightarrow> 'x lheap_scheme \<Rightarrow> (u64 \<times> 'x lheap_scheme) exec" where
  "list_push_back l val h =
     bindr (list_lock l h) (\<lambda>h.
     bindr (load (lh_lists h) l) (\<lambda>L.
     bindr (new_node \<lparr>n_value = val, n_previous = l_tail L, n_next = 0\<rparr> h) (\<lambda>(node, h).
     bindr (if l_tail L \<noteq> 0 then set_node (l_tail L) (\<lambda>N. N\<lparr>n_next := node\<rparr>) h else Inr h) (\<lambda>h.
     bindr (set_list l (\<lambda>L. L\<lparr>l_tail := node\<rparr>) h) (\<lambda>h.
     bindr (set_list l (\<lambda>L. if l_root L = 0 then L\<lparr>l_root := node\<rparr> else L) h) (\<lambda>h.
     bindr (set_list l (\<lambda>L. L\<lparr>l_length := l_length L + 1\<rparr>) h) (\<lambda>h.
     bindr (list_unlock l h) (\<lambda>h. Inr (node, h)))))))))"

definition list_push_front :: "u64 \<Rightarrow> u64 \<Rightarrow> 'x lheap_scheme \<Rightarrow> (u64 \<times> 'x lheap_scheme) exec" where
  "list_push_front l val h =
     bindr (list_lock l h) (\<lambda>h.
     bindr (load (lh_lists h) l) (\<lambda>L.
     bindr (new_node \<lparr>n_value = val, n_previous = 0, n_next = l_root L\<rparr> h) (\<lambda>(node, h).
     bindr (if l_root L \<noteq> 0 then set_node (l_root L) (\<lambda>N. N\<lparr>n_previous := node\<rparr>) h
            else set_list l (\<lambda>L. L\<lparr>l_tail := node\<rparr>) h) (\<lambda>h.
     bindr (set_list l (\<lambda>L. L\<lparr>l_root := node\<rparr>) h) (\<lambda>h.
     bindr (set_list l (\<lambda>L. L\<lparr>l_length := l_length L + 1\<rparr>) h) (\<lambda>h.
     bindr (list_unlock l h) (\<lambda>h. Inr (node, h))))))))"

text \<open>The part \<^verbatim>\<open>list_remove_back\<close> and \<^verbatim>\<open>list_pop\<close> share: unlink the tail.\<close>

definition unlink_tail :: "u64 \<Rightarrow> list_node_t \<Rightarrow> 'x lheap_scheme \<Rightarrow> 'x lheap_scheme exec" where
  "unlink_tail l N h =
     bindr (set_list l (\<lambda>L. L\<lparr>l_tail := n_previous N\<rparr>) h) (\<lambda>h.
       if n_previous N \<noteq> 0 then set_node (n_previous N) (\<lambda>N. N\<lparr>n_next := 0\<rparr>) h
       else set_list l (\<lambda>L. L\<lparr>l_root := 0\<rparr>) h)"

definition list_remove_back :: "u64 \<Rightarrow> 'x lheap_scheme \<Rightarrow> (u64 \<times> 'x lheap_scheme) exec" where
  "list_remove_back l h =
     bindr (list_lock l h) (\<lambda>h.
     bindr (load (lh_lists h) l) (\<lambda>L.
     if l_tail L = 0 then bindr (list_unlock l h) (\<lambda>h. Inr (0, h))
     else
       bindr (load (lh_nodes h) (l_tail L)) (\<lambda>N.
       bindr (unlink_tail l N h) (\<lambda>h.
       bindr (free_node (l_tail L) h) (\<lambda>h.
       bindr (set_list l (\<lambda>L. L\<lparr>l_length := l_length L - 1\<rparr>) h) (\<lambda>h.
       bindr (list_unlock l h) (\<lambda>h. Inr (n_value N, h))))))))"

definition list_remove_front :: "u64 \<Rightarrow> 'x lheap_scheme \<Rightarrow> (u64 \<times> 'x lheap_scheme) exec" where
  "list_remove_front l h =
     bindr (list_lock l h) (\<lambda>h.
     bindr (load (lh_lists h) l) (\<lambda>L.
     if l_root L = 0 then bindr (list_unlock l h) (\<lambda>h. Inr (0, h))
     else
       bindr (load (lh_nodes h) (l_root L)) (\<lambda>N.
       bindr (set_list l (\<lambda>L. L\<lparr>l_root := n_next N\<rparr>) h) (\<lambda>h.
       bindr (if n_next N \<noteq> 0 then set_node (n_next N) (\<lambda>N. N\<lparr>n_previous := 0\<rparr>) h
              else set_list l (\<lambda>L. L\<lparr>l_tail := 0\<rparr>) h) (\<lambda>h.
       bindr (free_node (l_root L) h) (\<lambda>h.
       bindr (set_list l (\<lambda>L. L\<lparr>l_length := l_length L - 1\<rparr>) h) (\<lambda>h.
       bindr (list_unlock l h) (\<lambda>h. Inr (n_value N, h)))))))))"

definition list_pop :: "u64 \<Rightarrow> 'x lheap_scheme \<Rightarrow> (u64 \<times> 'x lheap_scheme) exec" where
  "list_pop l h =
     bindr (list_lock l h) (\<lambda>h.
     bindr (load (lh_lists h) l) (\<lambda>L.
     if l_tail L = 0 then bindr (list_unlock l h) (\<lambda>h. Inr (0, h))
     else
       bindr (load (lh_nodes h) (l_tail L)) (\<lambda>N.
       bindr (unlink_tail l N h) (\<lambda>h.
       bindr (set_list l (\<lambda>L. L\<lparr>l_length := l_length L - 1\<rparr>) h) (\<lambda>h.
       bindr (list_unlock l h) (\<lambda>h. Inr (l_tail L, h)))))))"

definition list_remove :: "u64 \<Rightarrow> u64 \<Rightarrow> 'x lheap_scheme \<Rightarrow> (u64 \<times> 'x lheap_scheme) exec" where
  "list_remove l node h =
     bindr (list_lock l h) (\<lambda>h.
     bindr (load (lh_nodes h) node) (\<lambda>N.
     bindr (load (lh_lists h) l) (\<lambda>L.
     bindr (if node = l_root L then
              bindr (list_unlock l h) (\<lambda>h. bindr (list_remove_front l h) (\<lambda>(_, h). Inr h))
            else if node = l_tail L then
              bindr (list_unlock l h) (\<lambda>h. bindr (list_remove_back l h) (\<lambda>(_, h). Inr h))
            else
              bindr (set_node (n_previous N) (\<lambda>P. P\<lparr>n_next := n_next N\<rparr>) h) (\<lambda>h.
              bindr (load (lh_nodes h) node) (\<lambda>N.
              bindr (set_node (n_next N) (\<lambda>P. P\<lparr>n_previous := n_previous N\<rparr>) h) (\<lambda>h.
              bindr (set_list l (\<lambda>L. L\<lparr>l_length := l_length L - 1\<rparr>) h) (\<lambda>h.
              bindr (free_node node h) (\<lambda>h. list_unlock l h)))))) (\<lambda>h.
       Inr (n_value N, h)))))"

definition list_get_back :: "u64 \<Rightarrow> 'x lheap_scheme \<Rightarrow> (u64 \<times> 'x lheap_scheme) exec" where
  "list_get_back l h =
     bindr (list_lock l h) (\<lambda>h.
     bindr (load (lh_lists h) l) (\<lambda>L.
     if l_tail L = 0 then bindr (list_unlock l h) (\<lambda>h. Inr (0, h))
     else bindr (load (lh_nodes h) (l_tail L)) (\<lambda>N.
       bindr (list_unlock l h) (\<lambda>h. Inr (n_value N, h)))))"

definition list_get_front :: "u64 \<Rightarrow> 'x lheap_scheme \<Rightarrow> (u64 \<times> 'x lheap_scheme) exec" where
  "list_get_front l h =
     bindr (list_lock l h) (\<lambda>h.
     bindr (load (lh_lists h) l) (\<lambda>L.
     if l_root L = 0 then bindr (list_unlock l h) (\<lambda>h. Inr (0, h))
     else bindr (load (lh_nodes h) (l_root L)) (\<lambda>N.
       bindr (list_unlock l h) (\<lambda>h. Inr (n_value N, h)))))"

text \<open>The \<^verbatim>\<open>foreach\<close> loops of \<^verbatim>\<open>list_contains\<close> and \<^verbatim>\<open>list_get_indexed\<close>; a cyclic chain never ends.\<close>

partial_function (option) contains_loop ::
    "(u64 \<rightharpoonup> list_node_t) \<Rightarrow> u64 \<Rightarrow> u64 \<Rightarrow> u64 \<Rightarrow> u64 exec option" where
  "contains_loop m node val index =
     (if node = 0 then Some (Inr index)
      else case load m node of
        Inl e \<Rightarrow> Some (Inl e)
      | Inr N \<Rightarrow> if n_value N = val then Some (Inr index)
                 else contains_loop m (n_next N) val (index + 1))"

definition list_contains :: "u64 \<Rightarrow> u64 \<Rightarrow> 'x lheap_scheme \<Rightarrow> (u64 \<times> 'x lheap_scheme) exec" where
  "list_contains l val h =
     bindr (list_lock l h) (\<lambda>h.
     bindr (load (lh_lists h) l) (\<lambda>L.
     bindr (run_loop (contains_loop (lh_nodes h) (l_root L) val 0)) (\<lambda>index.
     bindr (list_unlock l h) (\<lambda>h. Inr (index, h)))))"

partial_function (option) indexed_loop ::
    "(u64 \<rightharpoonup> list_node_t) \<Rightarrow> u64 \<Rightarrow> u64 \<Rightarrow> u64 \<Rightarrow> u64 exec option" where
  "indexed_loop m node index currentIndex =
     (if node = 0 then Some (Inr 0)
      else if currentIndex = index then Some (Inr node)
      else case load m node of
        Inl e \<Rightarrow> Some (Inl e)
      | Inr N \<Rightarrow> indexed_loop m (n_next N) index (currentIndex + 1))"

definition list_get_indexed :: "u64 \<Rightarrow> u64 \<Rightarrow> 'x lheap_scheme \<Rightarrow> (u64 \<times> 'x lheap_scheme) exec" where
  "list_get_indexed l index h =
     bindr (list_lock l h) (\<lambda>h.
     bindr (load (lh_lists h) l) (\<lambda>L.
     bindr (run_loop (indexed_loop (lh_nodes h) (l_root L) index 0)) (\<lambda>node.
     bindr (list_unlock l h) (\<lambda>h. Inr (node, h)))))"

definition list_remove_indexed :: "u64 \<Rightarrow> u64 \<Rightarrow> 'x lheap_scheme \<Rightarrow> (u64 \<times> 'x lheap_scheme) exec" where
  "list_remove_indexed l index h =
     bindr (list_get_indexed l index h) (\<lambda>(node, h). list_remove l node h)"

section \<open>Chains of nodes\<close>

text \<open>
  \<open>first ns q\<close> is the address of the first node of \<open>ns\<close>, or \<open>q\<close> when there is none; \<open>lastp p ns\<close> the
  address of the last one, or \<open>p\<close>. A chain \<open>dseg m p ns q\<close> holds the pairs of address and value \<open>ns\<close>
  between the neighbours \<open>p\<close> and \<open>q\<close>.
\<close>

definition first :: "(u64 \<times> u64) list \<Rightarrow> u64 \<Rightarrow> u64" where
  "first ns q = (case ns of [] \<Rightarrow> q | x # _ \<Rightarrow> fst x)"

definition lastp :: "u64 \<Rightarrow> (u64 \<times> u64) list \<Rightarrow> u64" where
  "lastp p ns = (if ns = [] then p else fst (last ns))"

fun dseg :: "(u64 \<rightharpoonup> list_node_t) \<Rightarrow> u64 \<Rightarrow> (u64 \<times> u64) list \<Rightarrow> u64 \<Rightarrow> bool" where
  "dseg m p [] q = True"
| "dseg m p ((n, v) # ns) q =
     (n \<noteq> 0 \<and> m n = Some \<lparr>n_value = v, n_previous = p, n_next = first ns q\<rparr> \<and> dseg m n ns q)"

lemma first_simps [simp]: "first [] q = q" "first (x # ns) q = fst x"
  "first (ns @ ms) q = first ns (first ms q)"
  by (auto simp: first_def split: list.splits)

lemma lastp_simps [simp]: "lastp p [] = p" "lastp p (x # ns) = lastp (fst x) ns"
  "lastp p (ns @ ms) = lastp (lastp p ns) ms"
  by (auto simp: lastp_def)

lemma dseg_append [simp]:
  "dseg m p (ns @ ms) q \<longleftrightarrow> dseg m p ns (first ms q) \<and> dseg m (lastp p ns) ms q"
proof (induction ns arbitrary: p)
  case (Cons x ns)
  then show ?case by (cases x) simp
qed simp

lemma dseg_cong:
  "(\<And>n. n \<in> fst ` set ns \<Longrightarrow> m n = m' n) \<Longrightarrow> dseg m p ns q \<longleftrightarrow> dseg m' p ns q"
proof (induction ns arbitrary: p)
  case (Cons x ns)
  have "dseg m (fst x) ns q \<longleftrightarrow> dseg m' (fst x) ns q"
    using Cons.prems by (intro Cons.IH) simp
  with Cons.prems [of "fst x"] show ?case by (cases x) simp
qed simp

lemma dseg_upd_other [simp]:
  "n \<notin> fst ` set ns \<Longrightarrow> dseg (m(n := x)) p ns q \<longleftrightarrow> dseg m p ns q"
  by (rule dseg_cong) auto

lemma dseg_nonnull: "dseg m p ns q \<Longrightarrow> n \<in> fst ` set ns \<Longrightarrow> n \<noteq> 0 \<and> n \<in> dom m"
proof (induction ns arbitrary: p)
  case (Cons x ns)
  obtain a v where x: "x = (a, v)" by (cases x)
  with Cons.prems have "dseg m a ns q" "a \<noteq> 0" "a \<in> dom m" by auto
  with Cons.IH [of a] Cons.prems(2) x show ?case by (cases "n = a") auto
qed simp

lemma lastp_eq_0: "dseg m 0 ns q \<Longrightarrow> lastp 0 ns = 0 \<longleftrightarrow> ns = []"
  by (cases ns rule: rev_cases) auto

lemma first_eq_0: "dseg m p ns 0 \<Longrightarrow> first ns 0 = 0 \<longleftrightarrow> ns = []"
  by (cases ns) auto

lemma first_nonnull: "dseg m p ns q \<Longrightarrow> q \<noteq> 0 \<Longrightarrow> first ns q \<noteq> 0"
  by (cases ns) auto

lemma lastp_nonnull: "dseg m p ns q \<Longrightarrow> p \<noteq> 0 \<Longrightarrow> lastp p ns \<noteq> 0"
  by (cases ns rule: rev_cases) auto

section \<open>Well-formed list stores\<close>

text \<open>One list header with its nodes.\<close>

definition list_ok :: "'x lheap_scheme \<Rightarrow> u64 \<Rightarrow> (u64 \<times> u64) list \<Rightarrow> bool" where
  "list_ok h l ns \<longleftrightarrow> l \<noteq> 0 \<and>
     lh_lists h l = Some \<lparr>l_length = of_nat (length ns), l_root = first ns 0, l_tail = lastp 0 ns,
                          l_lock = UNLOCKED\<rparr> \<and>
     dseg (lh_nodes h) 0 ns 0 \<and> distinct (map fst ns)"

text \<open>
  All lists of the heap: \<open>A\<close> gives the sequence of each live list, \<open>X\<close> the live pointers that belong
  to other objects. Lists do not share nodes, and every pointer is live on the kernel heap.
\<close>

definition list_nodes :: "(u64 \<rightharpoonup> (u64 \<times> u64) list) \<Rightarrow> u64 set" where
  "list_nodes A = (\<Union>ns\<in>ran A. fst ` set ns)"

definition lheap_wf :: "u64 set \<Rightarrow> 'x lheap_scheme \<Rightarrow> (u64 \<rightharpoonup> (u64 \<times> u64) list) \<Rightarrow> bool" where
  "lheap_wf X h A \<longleftrightarrow>
     (\<forall>l ns. A l = Some ns \<longrightarrow> list_ok h l ns) \<and>
     (\<forall>l l' ns ns'. A l = Some ns \<longrightarrow> A l' = Some ns' \<longrightarrow> l \<noteq> l' \<longrightarrow> fst ` set ns \<inter> fst ` set ns' = {}) \<and>
     heap_owns (lh_k h) (dom A \<union> list_nodes A \<union> X) \<and>
     dom A \<inter> list_nodes A = {} \<and> X \<inter> (dom A \<union> list_nodes A) = {}"

lemma list_nodes_upd:
  "list_nodes (A(l \<mapsto> ns)) = fst ` set ns \<union> list_nodes (A(l := None))"
  by (auto simp: list_nodes_def ran_def split: if_splits)

lemma list_nodes_split:
  "A l = Some ns \<Longrightarrow> list_nodes A = fst ` set ns \<union> list_nodes (A(l := None))"
  by (metis fun_upd_triv list_nodes_upd)

lemma lheap_wf_disjoint:
  assumes "lheap_wf X h A" "A l = Some ns"
  shows "fst ` set ns \<inter> list_nodes (A(l := None)) = {}"
proof -
  have "fst ` set ns \<inter> fst ` set ms = {}" if "ms \<in> ran (A(l := None))" for ms
  proof -
    from that obtain l' where "A l' = Some ms" "l' \<noteq> l"
      by (auto simp: ran_def split: if_splits)
    with assms show ?thesis unfolding lheap_wf_def by metis
  qed
  then show ?thesis by (auto simp: list_nodes_def)
qed

text \<open>
  The workhorse of the section: an operation that changes one list \<open>l\<close> and only the nodes of its old
  and new chain keeps the whole heap well-formed.
\<close>

lemma lheap_wf_update:
  assumes wf: "lheap_wf X h A" "A l = Some ns" and ok: "list_ok h' l ns'"
    and lists: "\<And>l'. l' \<noteq> l \<Longrightarrow> lh_lists h' l' = lh_lists h l'"
    and nodes: "\<And>n. n \<notin> fst ` set ns \<Longrightarrow> n \<notin> fst ` set ns' \<Longrightarrow> lh_nodes h' n = lh_nodes h n"
    and fresh: "(fst ` set ns' - fst ` set ns) \<inter> (dom A \<union> list_nodes A \<union> X \<union> X') = {}"
    and own: "heap_owns (lh_k h') (dom A \<union> (fst ` set ns' \<union> list_nodes (A(l := None))) \<union> X')"
    and X': "X' \<inter> (dom A \<union> (fst ` set ns' \<union> list_nodes (A(l := None)))) = {}"
  shows "lheap_wf X' h' (A(l \<mapsto> ns'))"
proof -
  let ?A = "A(l \<mapsto> ns')"
  note dis = lheap_wf_disjoint [OF wf]
  have nd: "fst ` set ns' \<inter> list_nodes (A(l := None)) = {}"
    using dis fresh list_nodes_split [of A l ns, OF wf(2)] by blast
  have other: "fst ` set ms \<subseteq> list_nodes (A(l := None))" if "A l' = Some ms" "l' \<noteq> l" for l' ms
    using that by (auto simp: list_nodes_def ran_def split: if_splits)
  have "list_ok h' l' ms" if "?A l' = Some ms" for l' ms
  proof (cases "l' = l")
    case True
    with that ok show ?thesis by simp
  next
    case False
    then have ms: "A l' = Some ms" using that by simp
    have "lh_nodes h' n = lh_nodes h n" if "n \<in> fst ` set ms" for n
      using other [OF ms False] that nd dis by (intro nodes) blast+
    then have "dseg (lh_nodes h') 0 ms 0 = dseg (lh_nodes h) 0 ms 0"
      by (rule dseg_cong)
    moreover have "list_ok h l' ms"
      using wf(1) ms by (simp add: lheap_wf_def)
    ultimately show ?thesis
      using lists [OF False] by (simp add: list_ok_def)
  qed
  moreover have "fst ` set ms \<inter> fst ` set ms' = {}"
    if "?A l1 = Some ms" "?A l2 = Some ms'" "l1 \<noteq> l2" for l1 l2 ms ms'
  proof (cases "l1 = l \<or> l2 = l")
    case True
    then show ?thesis
    proof
      assume "l1 = l"
      then have "ms = ns'" "fst ` set ms' \<subseteq> list_nodes (A(l := None))"
        using that other [of l2 ms'] by simp_all
      with nd show ?thesis by blast
    next
      assume "l2 = l"
      then have "ms' = ns'" "fst ` set ms \<subseteq> list_nodes (A(l := None))"
        using that other [of l1 ms] by simp_all
      with nd show ?thesis by blast
    qed
  next
    case False
    with that have "A l1 = Some ms" "A l2 = Some ms'" by simp_all
    with that(3) wf(1) show ?thesis unfolding lheap_wf_def by metis
  qed
  moreover have "dom ?A = dom A" using wf(2) by auto
  moreover have "dom A \<inter> (fst ` set ns' \<union> list_nodes (A(l := None))) = {}"
  proof -
    have "dom A \<inter> list_nodes A = {}" using wf(1) by (simp add: lheap_wf_def)
    then show ?thesis using fresh list_nodes_split [of A l ns, OF wf(2)] by blast
  qed
  ultimately show ?thesis
    using own X' by (simp add: lheap_wf_def list_nodes_upd)
qed

text \<open>Facts about the list an operation works on.\<close>

lemma lheap_wf_list: "lheap_wf X h A \<Longrightarrow> A l = Some ns \<Longrightarrow> list_ok h l ns"
  by (simp add: lheap_wf_def)

lemma list_lock_ok:
  assumes "list_ok h l ns"
  shows "list_lock l h = Inr (h\<lparr>lh_lists := (lh_lists h)(l \<mapsto> \<lparr>l_length = of_nat (length ns),
      l_root = first ns 0, l_tail = lastp 0 ns, l_lock = False\<rparr>)\<rparr>)"
  using assms by (simp add: list_lock_def list_ok_def set_list_def)

lemma list_ok_nonnull: "list_ok h l ns \<Longrightarrow> l \<noteq> 0"
  by (simp add: list_ok_def)

lemma lheap_wf_new_node:
  assumes "lheap_wf X h A"
  obtains (oom) k where "kmalloc 24 (lh_k h) = Inr (0, k)"
  | (fresh) n k where "kmalloc 24 (lh_k h) = Inr (n, k)" "n \<noteq> 0" "n \<notin> dom A \<union> list_nodes A \<union> X"
      "heap_owns k (insert n (dom A \<union> list_nodes A \<union> X))"
  using kpool.pool_allocE [of "lh_k h" "dom A \<union> list_nodes A \<union> X" 24] assms
  unfolding lheap_wf_def by auto

lemmas list_run = set_list_def set_node_def list_unlock_def new_node_def free_node_def unlink_tail_def

lemma list_push_back_ok:
  assumes wf: "lheap_wf X h A" "A l = Some ns"
  shows "(\<exists>k. kmalloc 24 (lh_k h) = Inr (0, k) \<and> list_push_back l v h = Inl NullDeref) \<or>
    (\<exists>n h'. list_push_back l v h = Inr (n, h') \<and> n \<notin> dom A \<union> list_nodes A \<union> X \<and>
       lheap_wf X h' (A(l \<mapsto> ns @ [(n, v)])) \<and> lheap.more h' = lheap.more h)"
  using wf(1)
proof (cases rule: lheap_wf_new_node)
  case (oom k)
  have ok: "list_ok h l ns" "l \<noteq> 0"
    using lheap_wf_list [OF wf] by (auto simp: list_ok_def)
  with oom show ?thesis
    by (simp add: list_push_back_def list_lock_ok list_run)
next
  case (fresh n k)
  have ok: "list_ok h l ns" "l \<noteq> 0" "dseg (lh_nodes h) 0 ns 0" "distinct (map fst ns)"
    using lheap_wf_list [OF wf] by (auto simp: list_ok_def)
  have n: "n \<notin> fst ` set ns" using fresh(3) list_nodes_split [of A l ns, OF wf(2)] by blast
  let ?m = "(lh_nodes h)(n \<mapsto> \<lparr>n_value = v, n_previous = lastp 0 ns, n_next = 0\<rparr>)"
  define m where "m = (case rev ns of [] \<Rightarrow> ?m | (t, w) # r \<Rightarrow>
    ?m(t \<mapsto> \<lparr>n_value = w, n_previous = lastp 0 (rev r), n_next = n\<rparr>))"
  let ?h' = "h\<lparr>lh_k := k, lh_nodes := m, lh_lists := (lh_lists h)(l \<mapsto>
    \<lparr>l_length = of_nat (length (ns @ [(n, v)])), l_root = first (ns @ [(n, v)]) 0,
     l_tail = lastp 0 (ns @ [(n, v)]), l_lock = True\<rparr>)\<rparr>"
  have run: "list_push_back l v h = Inr (n, ?h')"
  proof (cases ns rule: rev_cases)
    case Nil
    with ok fresh(1,2) show ?thesis
      by (simp add: list_push_back_def list_lock_ok list_run m_def)
  next
    case (snoc ns' x)
    obtain t w where x: "x = (t, w)" by (cases x)
    have "t \<noteq> 0" "t \<noteq> n" using ok(3) n snoc x by auto
    moreover have "lh_nodes h t = Some \<lparr>n_value = w, n_previous = lastp 0 ns', n_next = 0\<rparr>"
      using ok(3) snoc x by simp
    moreover have "first ns' t \<noteq> 0"
      using ok(3) snoc x \<open>t \<noteq> 0\<close> by (auto dest: first_nonnull)
    ultimately show ?thesis
      using ok fresh(1,2) snoc x by (simp add: list_push_back_def list_lock_ok list_run m_def)
  qed
  have "dseg m 0 (ns @ [(n, v)]) 0"
  proof (cases ns rule: rev_cases)
    case Nil
    with fresh(2) show ?thesis by (simp add: m_def)
  next
    case (snoc ns' x)
    with ok(3,4) n fresh(2) show ?thesis by (cases x) (auto simp: m_def)
  qed
  then have lok: "list_ok ?h' l (ns @ [(n, v)])"
    using ok n by (simp add: list_ok_def)
  have "lheap_wf X ?h' (A(l \<mapsto> ns @ [(n, v)]))"
  proof (rule lheap_wf_update [OF wf lok])
    show "lh_nodes ?h' x = lh_nodes h x" if "x \<notin> fst ` set ns" "x \<notin> fst ` set (ns @ [(n, v)])" for x
      using that by (cases ns rule: rev_cases) (auto simp: m_def)
    have "dom A \<union> (fst ` set (ns @ [(n, v)]) \<union> list_nodes (A(l := None))) \<union> X
        = insert n (dom A \<union> list_nodes A \<union> X)"
      using list_nodes_split [of A l ns, OF wf(2)] by auto
    with fresh(4) show "heap_owns (lh_k ?h') (dom A \<union> (fst ` set (ns @ [(n, v)]) \<union> list_nodes (A(l := None))) \<union> X)"
      by simp
    show "X \<inter> (dom A \<union> (fst ` set (ns @ [(n, v)]) \<union> list_nodes (A(l := None)))) = {}"
      using wf(1) fresh(3) list_nodes_split [of A l ns, OF wf(2)] by (auto simp: lheap_wf_def)
  qed (use fresh(3) in auto)
  with run fresh(3) show ?thesis by auto
qed

lemma list_push_front_ok:
  assumes wf: "lheap_wf X h A" "A l = Some ns"
  shows "(\<exists>k. kmalloc 24 (lh_k h) = Inr (0, k) \<and> list_push_front l v h = Inl NullDeref) \<or>
    (\<exists>n h'. list_push_front l v h = Inr (n, h') \<and> n \<notin> dom A \<union> list_nodes A \<union> X \<and>
       lheap_wf X h' (A(l \<mapsto> (n, v) # ns)) \<and> lheap.more h' = lheap.more h)"
  using wf(1)
proof (cases rule: lheap_wf_new_node)
  case (oom k)
  have ok: "list_ok h l ns" "l \<noteq> 0"
    using lheap_wf_list [OF wf] by (auto simp: list_ok_def)
  with oom show ?thesis
    by (simp add: list_push_front_def list_lock_ok list_run)
next
  case (fresh n k)
  have ok: "list_ok h l ns" "l \<noteq> 0" "dseg (lh_nodes h) 0 ns 0" "distinct (map fst ns)"
    using lheap_wf_list [OF wf] by (auto simp: list_ok_def)
  have n: "n \<notin> fst ` set ns" using fresh(3) list_nodes_split [of A l ns, OF wf(2)] by blast
  let ?m = "(lh_nodes h)(n \<mapsto> \<lparr>n_value = v, n_previous = 0, n_next = first ns 0\<rparr>)"
  define m where "m = (case ns of [] \<Rightarrow> ?m | (t, w) # r \<Rightarrow>
    ?m(t \<mapsto> \<lparr>n_value = w, n_previous = n, n_next = first r 0\<rparr>))"
  let ?h' = "h\<lparr>lh_k := k, lh_nodes := m, lh_lists := (lh_lists h)(l \<mapsto>
    \<lparr>l_length = of_nat (length ((n, v) # ns)), l_root = n, l_tail = lastp 0 ((n, v) # ns), l_lock = True\<rparr>)\<rparr>"
  have run: "list_push_front l v h = Inr (n, ?h')"
  proof (cases ns)
    case Nil
    with ok fresh(1,2) show ?thesis
      by (simp add: list_push_front_def list_lock_ok list_run m_def)
  next
    case (Cons x r)
    obtain t w where x: "x = (t, w)" by (cases x)
    have "t \<noteq> 0" "t \<noteq> n" using ok(3) n Cons x by auto
    moreover have "lh_nodes h t = Some \<lparr>n_value = w, n_previous = 0, n_next = first r 0\<rparr>"
      using ok(3) Cons x by simp
    ultimately show ?thesis
      using ok fresh(1,2) Cons x by (simp add: list_push_front_def list_lock_ok list_run m_def add.commute)
  qed
  have "dseg m 0 ((n, v) # ns) 0"
  proof (cases ns)
    case Nil
    with fresh(2) show ?thesis by (simp add: m_def)
  next
    case (Cons x r)
    with ok(3,4) n fresh(2) show ?thesis by (cases x) (auto simp: m_def)
  qed
  then have lok: "list_ok ?h' l ((n, v) # ns)"
    using ok n by (simp add: list_ok_def)
  have "lheap_wf X ?h' (A(l \<mapsto> (n, v) # ns))"
  proof (rule lheap_wf_update [OF wf lok])
    show "lh_nodes ?h' x = lh_nodes h x" if "x \<notin> fst ` set ns" "x \<notin> fst ` set ((n, v) # ns)" for x
      using that by (cases ns) (auto simp: m_def)
    have "dom A \<union> (fst ` set ((n, v) # ns) \<union> list_nodes (A(l := None))) \<union> X
        = insert n (dom A \<union> list_nodes A \<union> X)"
      using list_nodes_split [of A l ns, OF wf(2)] by auto
    with fresh(4) show "heap_owns (lh_k ?h') (dom A \<union> (fst ` set ((n, v) # ns) \<union> list_nodes (A(l := None))) \<union> X)"
      by simp
    show "X \<inter> (dom A \<union> (fst ` set ((n, v) # ns) \<union> list_nodes (A(l := None)))) = {}"
      using wf(1) fresh(3) list_nodes_split [of A l ns, OF wf(2)] by (auto simp: lheap_wf_def)
  qed (use fresh(3) in auto)
  with run fresh(3) show ?thesis by auto
qed

text \<open>Releasing one node of a list: the heap's side of every removal.\<close>

lemma lheap_wf_free:
  assumes wf: "lheap_wf X h A" "A l = Some (as @ (n, v) # bs)"
  obtains k where "kfree n (lh_k h) = Inr k"
    "heap_owns k (dom A \<union> (fst ` set (as @ bs) \<union> list_nodes (A(l := None))) \<union> X)"
proof -
  let ?ns = "as @ (n, v) # bs"
  let ?P = "dom A \<union> list_nodes A \<union> X"
  have P: "heap_owns (lh_k h) ?P" using wf(1) by (simp add: lheap_wf_def)
  note split = list_nodes_split [of A l ?ns, OF wf(2)]
  have "n \<in> ?P" using split by auto
  with kpool.pool_free [OF P] obtain k where k: "kfree n (lh_k h) = Inr k" "heap_owns k (?P - {n})"
    by blast
  have "n \<notin> fst ` set (as @ bs)"
    using lheap_wf_list [OF wf] by (auto simp: list_ok_def)
  moreover have "n \<notin> list_nodes (A(l := None))" using lheap_wf_disjoint [OF wf] by auto
  moreover have "n \<notin> dom A \<union> X"
    using wf(1) split unfolding lheap_wf_def by (metis (no_types, lifting) Un_iff disjoint_iff fst_conv image_eqI in_set_conv_decomp)
  ultimately have "?P - {n} = dom A \<union> (fst ` set (as @ bs) \<union> list_nodes (A(l := None))) \<union> X"
    using split by auto
  with k show thesis by (intro that) simp_all
qed

text \<open>A list changed to a shorter chain of its own nodes, with the node gone from the store.\<close>

lemma lheap_wf_shrink:
  assumes wf: "lheap_wf X h A" "A l = Some ns" and sub: "fst ` set ns' \<subseteq> fst ` set ns"
    and ok: "list_ok h' l ns'"
    and lists: "\<And>l'. l' \<noteq> l \<Longrightarrow> lh_lists h' l' = lh_lists h l'"
    and nodes: "\<And>n. n \<notin> fst ` set ns \<Longrightarrow> lh_nodes h' n = lh_nodes h n"
    and own: "heap_owns (lh_k h') (dom A \<union> (fst ` set ns' \<union> list_nodes (A(l := None))) \<union> X)"
  shows "lheap_wf X h' (A(l \<mapsto> ns'))"
proof (rule lheap_wf_update [OF wf ok lists nodes _ own])
  show "X \<inter> (dom A \<union> (fst ` set ns' \<union> list_nodes (A(l := None)))) = {}"
    using wf(1) sub list_nodes_split [of A l ns, OF wf(2)] unfolding lheap_wf_def by blast
qed (use sub in auto)

lemma list_unlock_same:
  assumes "list_ok h l ns"
  shows "list_unlock l (h\<lparr>lh_lists := (lh_lists h)(l \<mapsto> \<lparr>l_length = of_nat (length ns),
      l_root = first ns 0, l_tail = lastp 0 ns, l_lock = b\<rparr>)\<rparr>) = Inr h"
  using assms by (simp add: list_run list_ok_def fun_upd_idem)

lemma list_remove_front_empty:
  "list_ok h l [] \<Longrightarrow> list_remove_front l h = Inr (0, h)"
  using list_ok_nonnull [of h l "[]"] list_unlock_same [of h l "[]"]
  by (simp add: list_remove_front_def list_lock_ok)

lemma list_remove_back_empty:
  "list_ok h l [] \<Longrightarrow> list_remove_back l h = Inr (0, h)"
  using list_ok_nonnull [of h l "[]"] list_unlock_same [of h l "[]"]
  by (simp add: list_remove_back_def list_lock_ok)

lemma list_pop_empty: "list_ok h l [] \<Longrightarrow> list_pop l h = Inr (0, h)"
  using list_ok_nonnull [of h l "[]"] list_unlock_same [of h l "[]"]
  by (simp add: list_pop_def list_lock_ok)

lemma list_remove_front_ok:
  assumes wf: "lheap_wf X h A" "A l = Some ((n, v) # ns)"
  shows "\<exists>h'. list_remove_front l h = Inr (v, h') \<and> lheap_wf X h' (A(l \<mapsto> ns)) \<and>
    lheap.more h' = lheap.more h \<and> kfree n (lh_k h) = Inr (lh_k h')"
proof -
  from lheap_wf_free [of X h A l "[]" n v ns] wf obtain k where
    k: "kfree n (lh_k h) = Inr k" "heap_owns k (dom A \<union> (fst ` set ns \<union> list_nodes (A(l := None))) \<union> X)"
    by auto
  have ok: "list_ok h l ((n, v) # ns)" "l \<noteq> 0" "n \<noteq> 0" "n \<notin> fst ` set ns" "distinct (map fst ns)"
    "lh_nodes h n = Some \<lparr>n_value = v, n_previous = 0, n_next = first ns 0\<rparr>" "dseg (lh_nodes h) n ns 0"
    using lheap_wf_list [OF wf] by (auto simp: list_ok_def)
  define m where "m = (case ns of [] \<Rightarrow> lh_nodes h | (t, w) # r \<Rightarrow>
    (lh_nodes h)(t \<mapsto> \<lparr>n_value = w, n_previous = 0, n_next = first r 0\<rparr>))(n := None)"
  let ?h' = "h\<lparr>lh_lists := (lh_lists h)(l \<mapsto> \<lparr>l_length = of_nat (length ns), l_root = first ns 0,
     l_tail = lastp 0 ns, l_lock = True\<rparr>), lh_nodes := m, lh_k := k\<rparr>"
  have "list_remove_front l h = Inr (v, ?h') \<and> dseg m 0 ns 0"
  proof (cases ns)
    case Nil
    with ok k(1) show ?thesis
      by (simp add: list_remove_front_def list_lock_ok list_run m_def)
  next
    case (Cons x r)
    obtain t w where x: "x = (t, w)" by (cases x)
    have t: "t \<noteq> 0" "t \<noteq> n" "lh_nodes h t = Some \<lparr>n_value = w, n_previous = n, n_next = first r 0\<rparr>"
      using ok Cons x by auto
    then have "list_remove_front l h = Inr (v, ?h')"
      using ok k(1) Cons x by (simp add: list_remove_front_def list_lock_ok list_run m_def)
    moreover have "dseg m 0 ns 0"
      using ok(4,5,7) t Cons x by (auto simp: m_def)
    ultimately show ?thesis ..
  qed
  moreover from this have lok: "list_ok ?h' l ns"
    using ok by (simp add: list_ok_def)
  have "lheap_wf X ?h' (A(l \<mapsto> ns))"
  proof (rule lheap_wf_shrink [OF wf _ lok])
    show "lh_nodes ?h' x = lh_nodes h x" if "x \<notin> fst ` set ((n, v) # ns)" for x
      using that by (cases ns) (auto simp: m_def)
  qed (use k(2) in auto)
  ultimately show ?thesis using k(1) by auto
qed

text \<open>Unlinking the last node, shared by \<^verbatim>\<open>list_remove_back\<close> and \<^verbatim>\<open>list_pop\<close>.\<close>

definition cut_last :: "(u64 \<rightharpoonup> list_node_t) \<Rightarrow> (u64 \<times> u64) list \<Rightarrow> (u64 \<rightharpoonup> list_node_t)" where
  "cut_last m ns = (case rev ns of [] \<Rightarrow> m | (t, w) # r \<Rightarrow>
     m(t \<mapsto> \<lparr>n_value = w, n_previous = lastp 0 (rev r), n_next = 0\<rparr>))"

lemma cut_last_other: "x \<notin> fst ` set ns \<Longrightarrow> cut_last m ns x = m x"
  by (cases ns rule: rev_cases) (auto simp: cut_last_def)

lemma dseg_cut_last:
  assumes "dseg m 0 ns n" "distinct (map fst ns)"
  shows "dseg (cut_last m ns) 0 ns 0"
  using assms by (cases ns rule: rev_cases) (auto simp: cut_last_def)

lemma unlink_tail_ok:
  assumes "list_ok h l (ns @ [(n, v)])"
  shows "unlink_tail l \<lparr>n_value = v, n_previous = lastp 0 ns, n_next = 0\<rparr>
      (h\<lparr>lh_lists := (lh_lists h)(l \<mapsto> \<lparr>l_length = c, l_root = first ns n, l_tail = t, l_lock = b\<rparr>)\<rparr>)
    = Inr (h\<lparr>lh_lists := (lh_lists h)(l \<mapsto> \<lparr>l_length = c, l_root = first ns 0, l_tail = lastp 0 ns, l_lock = b\<rparr>),
             lh_nodes := cut_last (lh_nodes h) ns\<rparr>)"
proof (cases ns rule: rev_cases)
  case Nil
  with assms show ?thesis by (simp add: list_run list_ok_def cut_last_def)
next
  case (snoc ns' x)
  with assms show ?thesis by (cases x) (auto simp: list_run list_ok_def cut_last_def)
qed

lemma list_tailD:
  assumes "list_ok h l (ns @ [(n, v)])"
  shows "l \<noteq> 0" "n \<noteq> 0" "n \<notin> fst ` set ns" "distinct (map fst ns)" "dseg (lh_nodes h) 0 ns n"
    "lh_nodes h n = Some \<lparr>n_value = v, n_previous = lastp 0 ns, n_next = 0\<rparr>"
  using assms by (auto simp: list_ok_def)

lemma list_remove_back_ok:
  assumes wf: "lheap_wf X h A" "A l = Some (ns @ [(n, v)])"
  shows "\<exists>h'. list_remove_back l h = Inr (v, h') \<and> lheap_wf X h' (A(l \<mapsto> ns)) \<and>
    lheap.more h' = lheap.more h \<and> kfree n (lh_k h) = Inr (lh_k h')"
proof -
  from lheap_wf_free [of X h A l ns n v "[]"] wf obtain k where
    k: "kfree n (lh_k h) = Inr k" "heap_owns k (dom A \<union> (fst ` set ns \<union> list_nodes (A(l := None))) \<union> X)"
    by auto
  note lok = lheap_wf_list [OF wf]
  note t = list_tailD [OF lok]
  let ?h' = "h\<lparr>lh_lists := (lh_lists h)(l \<mapsto> \<lparr>l_length = of_nat (length ns), l_root = first ns 0,
     l_tail = lastp 0 ns, l_lock = True\<rparr>), lh_nodes := (cut_last (lh_nodes h) ns)(n := None), lh_k := k\<rparr>"
  have run: "list_remove_back l h = Inr (v, ?h')"
    using lok t(1,2,6) k(1) unlink_tail_ok [OF lok]
    by (simp add: list_remove_back_def list_lock_ok free_node_def set_list_def list_unlock_def)
  have "dseg ((cut_last (lh_nodes h) ns)(n := None)) 0 ns 0"
    using dseg_cut_last [OF t(5,4)] t(3) by simp
  then have lok': "list_ok ?h' l ns"
    using t(1,4) by (simp add: list_ok_def)
  have "lheap_wf X ?h' (A(l \<mapsto> ns))"
    by (rule lheap_wf_shrink [OF wf _ lok']) (use k(2) in \<open>auto simp: cut_last_other\<close>)
  with run k(1) show ?thesis by auto
qed

lemma list_pop_ok:
  assumes wf: "lheap_wf X h A" "A l = Some (ns @ [(n, v)])"
  shows "\<exists>h'. list_pop l h = Inr (n, h') \<and> lheap_wf (insert n X) h' (A(l \<mapsto> ns)) \<and>
    lh_nodes h' n = Some \<lparr>n_value = v, n_previous = lastp 0 ns, n_next = 0\<rparr> \<and> lheap.more h' = lheap.more h"
proof -
  note lok = lheap_wf_list [OF wf]
  note t = list_tailD [OF lok]
  note split = list_nodes_split [of A l "ns @ [(n, v)]", OF wf(2)]
  let ?h' = "h\<lparr>lh_lists := (lh_lists h)(l \<mapsto> \<lparr>l_length = of_nat (length ns), l_root = first ns 0,
     l_tail = lastp 0 ns, l_lock = True\<rparr>), lh_nodes := cut_last (lh_nodes h) ns\<rparr>"
  have run: "list_pop l h = Inr (n, ?h')"
    using lok t(1,2,6) unlink_tail_ok [OF lok]
    by (simp add: list_pop_def list_lock_ok set_list_def list_unlock_def)
  have lok': "list_ok ?h' l ns"
    using t(1,4) dseg_cut_last [OF t(5,4)] by (simp add: list_ok_def)
  have node: "n \<notin> dom A" "n \<notin> X" "n \<notin> list_nodes (A(l := None))"
    using wf(1) split lheap_wf_disjoint [OF wf] unfolding lheap_wf_def by auto
  have "lheap_wf (insert n X) ?h' (A(l \<mapsto> ns))"
  proof (rule lheap_wf_update [OF wf lok'])
    have "dom A \<union> (fst ` set ns \<union> list_nodes (A(l := None))) \<union> insert n X = dom A \<union> list_nodes A \<union> X"
      using split by auto
    with wf(1) show "heap_owns (lh_k ?h') (dom A \<union> (fst ` set ns \<union> list_nodes (A(l := None))) \<union> insert n X)"
      by (simp add: lheap_wf_def)
    show "insert n X \<inter> (dom A \<union> (fst ` set ns \<union> list_nodes (A(l := None)))) = {}"
      using wf(1) split node t(3) unfolding lheap_wf_def by auto
  qed (auto simp: cut_last_other)
  with run t(3,6) show ?thesis by (auto simp: cut_last_other)
qed

text \<open>Unlinking an inner node.\<close>

lemma list_remove_inner_ok:
  assumes wf: "lheap_wf X h A" "A l = Some (as @ (n, v) # bs)" and inner: "as \<noteq> []" "bs \<noteq> []"
  shows "\<exists>h'. list_remove l n h = Inr (v, h') \<and> lheap_wf X h' (A(l \<mapsto> as @ bs)) \<and>
    lheap.more h' = lheap.more h \<and> kfree n (lh_k h) = Inr (lh_k h')"
proof -
  from lheap_wf_free [OF wf] obtain k where k: "kfree n (lh_k h) = Inr k"
    "heap_owns k (dom A \<union> (fst ` set (as @ bs) \<union> list_nodes (A(l := None))) \<union> X)" by blast
  obtain as' p u where as: "as = as' @ [(p, u)]" using inner(1) by (metis prod.collapse rev_exhaust)
  obtain q w bs' where bs: "bs = (q, w) # bs'" using inner(2) by (metis neq_Nil_conv prod.collapse)
  note lok = lheap_wf_list [OF wf]
  have l: "l \<noteq> 0" "distinct (map fst (as @ (n, v) # bs))"
    "lh_nodes h n = Some \<lparr>n_value = v, n_previous = p, n_next = q\<rparr>" "n \<noteq> 0" "p \<noteq> 0" "q \<noteq> 0"
    "lh_nodes h p = Some \<lparr>n_value = u, n_previous = lastp 0 as', n_next = n\<rparr>"
    "lh_nodes h q = Some \<lparr>n_value = w, n_previous = n, n_next = first bs' 0\<rparr>"
    "dseg (lh_nodes h) 0 as' p" "dseg (lh_nodes h) q bs' 0"
    using lok by (auto simp: list_ok_def as bs)
  have ne: "n \<noteq> p" "n \<noteq> q" "p \<noteq> q" "n \<noteq> first as' p" "n \<noteq> lastp q bs'"
    "p \<notin> fst ` set as'" "q \<notin> fst ` set as'" "n \<notin> fst ` set as'"
    "p \<notin> fst ` set bs'" "q \<notin> fst ` set bs'" "n \<notin> fst ` set bs'"
    using l(2) by (auto simp: as bs first_def lastp_def split: list.splits)
  let ?m = "(lh_nodes h)(p \<mapsto> \<lparr>n_value = u, n_previous = lastp 0 as', n_next = q\<rparr>,
     q \<mapsto> \<lparr>n_value = w, n_previous = p, n_next = first bs' 0\<rparr>, n := None)"
  let ?h' = "h\<lparr>lh_lists := (lh_lists h)(l \<mapsto> \<lparr>l_length = of_nat (length (as @ bs)), l_root = first (as @ bs) 0,
     l_tail = lastp 0 (as @ bs), l_lock = True\<rparr>), lh_nodes := ?m, lh_k := k\<rparr>"
  have run: "list_remove l n h = Inr (v, ?h')"
    using lok l ne k(1) by (simp add: list_remove_def list_lock_ok list_run as bs)
  have lok': "list_ok ?h' l (as @ bs)"
    using l ne by (simp add: list_ok_def as bs)
  have "lheap_wf X ?h' (A(l \<mapsto> as @ bs))"
    by (rule lheap_wf_shrink [OF wf _ lok']) (use k(2) in \<open>auto simp: as bs\<close>)
  with run k(1) show ?thesis by auto
qed

lemma list_remove_ok:
  assumes wf: "lheap_wf X h A" "A l = Some (as @ (n, v) # bs)"
  shows "\<exists>h'. list_remove l n h = Inr (v, h') \<and> lheap_wf X h' (A(l \<mapsto> as @ bs)) \<and>
    lheap.more h' = lheap.more h \<and> kfree n (lh_k h) = Inr (lh_k h')"
proof -
  note lok = lheap_wf_list [OF wf]
  have n: "l \<noteq> 0" "n \<noteq> 0" "lh_nodes h n = Some \<lparr>n_value = v, n_previous = lastp 0 as, n_next = first bs 0\<rparr>"
    using lok by (auto simp: list_ok_def)
  consider "as = []" | "as \<noteq> []" "bs = []" | "as \<noteq> []" "bs \<noteq> []" by blast
  then show ?thesis
  proof cases
    case 1
    then obtain h' where "list_remove_front l h = Inr (v, h')" "lheap_wf X h' (A(l \<mapsto> as @ bs))"
      "lheap.more h' = lheap.more h" "kfree n (lh_k h) = Inr (lh_k h')"
      using list_remove_front_ok [OF wf(1)] wf(2) by fastforce
    moreover from this(1) have "list_remove l n h = Inr (v, h')"
      using lok n 1 list_unlock_same [OF lok] by (simp add: list_remove_def list_lock_ok)
    ultimately show ?thesis by auto
  next
    case 2
    then obtain as' p u where as: "as = as' @ [(p, u)]" by (metis prod.collapse rev_exhaust)
    have ne: "n \<noteq> first as 0"
      using lok 2 by (cases as) (auto simp: list_ok_def)
    obtain h' where "list_remove_back l h = Inr (v, h')" "lheap_wf X h' (A(l \<mapsto> as @ bs))"
      "lheap.more h' = lheap.more h" "kfree n (lh_k h) = Inr (lh_k h')"
      using list_remove_back_ok [OF wf(1)] wf(2) 2 by fastforce
    moreover from this(1) have "list_remove l n h = Inr (v, h')"
      using lok n 2 as ne list_unlock_same [OF lok] by (simp add: list_remove_def list_lock_ok)
    ultimately show ?thesis by auto
  next
    case 3
    with list_remove_inner_ok [OF wf] show ?thesis by blast
  qed
qed

lemma list_get_front_ok:
  assumes "list_ok h l ns"
  shows "list_get_front l h = Inr (case ns of [] \<Rightarrow> 0 | x # _ \<Rightarrow> snd x, h)"
proof (cases ns)
  case Nil
  with assms list_unlock_same [OF assms] show ?thesis
    by (simp add: list_get_front_def list_lock_ok list_ok_nonnull)
next
  case (Cons x r)
  obtain n v where x: "x = (n, v)" by (cases x)
  have "l \<noteq> 0" "n \<noteq> 0" "lh_nodes h n = Some \<lparr>n_value = v, n_previous = 0, n_next = first r 0\<rparr>"
    using assms Cons x by (auto simp: list_ok_def)
  then show ?thesis
    using assms list_unlock_same [OF assms] Cons x by (simp add: list_get_front_def list_lock_ok)
qed

lemma list_get_back_ok:
  assumes "list_ok h l ns"
  shows "list_get_back l h = Inr (if ns = [] then 0 else snd (last ns), h)"
proof (cases ns rule: rev_cases)
  case Nil
  with assms list_unlock_same [OF assms] show ?thesis
    by (simp add: list_get_back_def list_lock_ok list_ok_nonnull)
next
  case (snoc ns' x)
  obtain n v where x: "x = (n, v)" by (cases x)
  note t = list_tailD [of h l ns' n v]
  show ?thesis
    using assms t list_unlock_same [OF assms] snoc x
    by (simp add: list_get_back_def list_lock_ok)
qed

text \<open>The traversals end, and where they stop.\<close>

definition index_of :: "u64 \<Rightarrow> (u64 \<times> u64) list \<Rightarrow> nat" where
  "index_of v ns = length (takeWhile (\<lambda>x. snd x \<noteq> v) ns)"

text \<open>Only the forward pointers matter to a traversal.\<close>

fun fchain :: "(u64 \<rightharpoonup> list_node_t) \<Rightarrow> (u64 \<times> u64) list \<Rightarrow> bool" where
  "fchain m [] = True"
| "fchain m ((n, v) # ns) =
     (n \<noteq> 0 \<and> (\<exists>N. m n = Some N \<and> n_value N = v \<and> n_next N = first ns 0) \<and> fchain m ns)"

lemma dseg_fchain: "dseg m p ns 0 \<Longrightarrow> fchain m ns"
  by (induction m ns arbitrary: p rule: fchain.induct) auto

lemma contains_loop_chain:
  "fchain m ns \<Longrightarrow> contains_loop m (first ns 0) v i = Some (Inr (i + of_nat (index_of v ns)))"
proof (induction m ns arbitrary: i rule: fchain.induct)
  case (1 m)
  then show ?case by (simp add: contains_loop.simps index_of_def)
next
  case (2 m n w ns)
  then obtain N where N: "n \<noteq> 0" "m n = Some N" "n_value N = w" "n_next N = first ns 0" "fchain m ns"
    by auto
  with "2.IH" [OF N(5), of "i + 1"] show ?case
    by (simp add: contains_loop.simps [of m n] index_of_def add.assoc)
qed

lemma list_contains_ok:
  assumes "list_ok h l ns"
  shows "list_contains l v h = Inr (of_nat (index_of v ns), h)"
proof -
  have "dseg (lh_nodes h) 0 ns 0" "l \<noteq> 0" using assms by (simp_all add: list_ok_def)
  with contains_loop_chain [OF dseg_fchain [OF this(1)], of v 0] list_unlock_same [OF assms] assms show ?thesis
    by (simp add: list_contains_def list_lock_ok)
qed

lemma indexed_loop_chain:
  assumes "dseg m p ns 0" "length ns + c < 2 ^ 64" "c \<le> unat index"
  shows "indexed_loop m (first ns 0) index (of_nat c) =
    Some (Inr (if unat index - c < length ns then fst (ns ! (unat index - c)) else 0))"
  using assms
proof (induction ns arbitrary: p c)
  case Nil
  then show ?case by (simp add: indexed_loop.simps)
next
  case (Cons x ns)
  obtain n w where x: "x = (n, w)" by (cases x)
  with Cons.prems have n: "n \<noteq> 0" "m n = Some \<lparr>n_value = w, n_previous = p, n_next = first ns 0\<rparr>"
    "dseg m n ns 0" by auto
  have "unat (of_nat c :: u64) = c"
    using Cons.prems(2) by (intro unat_of_nat_u64) simp
  then have c: "of_nat c = index \<longleftrightarrow> c = unat index" by auto
  show ?case
  proof (cases "c = unat index")
    case True
    with c n(1) show ?thesis by (simp add: x indexed_loop.simps [of m n])
  next
    case False
    then have "indexed_loop m (first ns 0) index (of_nat (Suc c)) =
      Some (Inr (if unat index - Suc c < length ns then fst (ns ! (unat index - Suc c)) else 0))"
      using Cons.prems by (intro Cons.IH [OF n(3)]) simp_all
    moreover obtain d where "unat index - c = Suc d" "unat index - Suc c = d"
      using False Cons.prems(3) by (metis Suc_diff_Suc diff_is_0_eq le_neq_implies_less not_less zero_less_diff)
    ultimately show ?thesis
      using n c False by (simp add: x indexed_loop.simps [of m n] add.commute)
  qed
qed

lemma list_get_indexed_ok:
  assumes "list_ok h l ns" "length ns < 2 ^ 64"
  shows "list_get_indexed l index h = Inr (if unat index < length ns then fst (ns ! unat index) else 0, h)"
proof -
  have "dseg (lh_nodes h) 0 ns 0" "l \<noteq> 0" using assms by (simp_all add: list_ok_def)
  with indexed_loop_chain [OF this(1), of 0 index] list_unlock_same [OF assms(1)] assms show ?thesis
    by (simp add: list_get_indexed_def list_lock_ok)
qed

lemma list_remove_indexed_ok:
  assumes wf: "lheap_wf X h A" "A l = Some ns" and i: "unat index < length ns" "length ns < 2 ^ 64"
  shows "\<exists>h'. list_remove_indexed l index h = Inr (snd (ns ! unat index), h') \<and>
    lheap_wf X h' (A(l \<mapsto> take (unat index) ns @ drop (Suc (unat index)) ns)) \<and> lheap.more h' = lheap.more h \<and>
    kfree (fst (ns ! unat index)) (lh_k h) = Inr (lh_k h')"
proof -
  let ?i = "unat index"
  have ns: "ns = take ?i ns @ (fst (ns ! ?i), snd (ns ! ?i)) # drop (Suc ?i) ns"
    using i(1) by (simp add: id_take_nth_drop)
  from list_remove_ok [OF wf(1), of l "take ?i ns" "fst (ns ! ?i)" "snd (ns ! ?i)" "drop (Suc ?i) ns"] wf(2) ns
  obtain h' where "list_remove l (fst (ns ! ?i)) h = Inr (snd (ns ! ?i), h')"
    "lheap_wf X h' (A(l \<mapsto> take ?i ns @ drop (Suc ?i) ns))" "lheap.more h' = lheap.more h"
    "kfree (fst (ns ! ?i)) (lh_k h) = Inr (lh_k h')"
    by auto
  with list_get_indexed_ok [OF lheap_wf_list [OF wf] i(2), of index] i(1) show ?thesis
    by (simp add: list_remove_indexed_def)
qed

text \<open>An index past the end makes \<^verbatim>\<open>list_remove_indexed\<close> dereference \<^verbatim>\<open>NULL\<close>.\<close>

lemma list_remove_indexed_out_of_range:
  assumes "list_ok h l ns" "length ns \<le> unat index" "length ns < 2 ^ 64"
  shows "list_remove_indexed l index h = Inl NullDeref"
  using list_get_indexed_ok [OF assms(1,3), of index] assms(1,2)
  by (simp add: list_remove_indexed_def list_remove_def list_lock_ok)

section \<open>Creation and destruction\<close>

lemma list_create_ok:
  assumes wf: "lheap_wf X h A"
  shows "(\<exists>k. kmalloc 56 (lh_k h) = Inr (0, k) \<and> list_create h = Inl NullDeref) \<or>
    (\<exists>l h'. list_create h = Inr (l, h') \<and> l \<notin> dom A \<union> list_nodes A \<union> X \<and>
       lheap_wf X h' (A(l \<mapsto> [])) \<and> lheap.more h' = lheap.more h)"
proof (rule kpool.pool_allocE [of "lh_k h" "dom A \<union> list_nodes A \<union> X" 56])
  show "heap_owns (lh_k h) (dom A \<union> list_nodes A \<union> X)" using wf by (simp add: lheap_wf_def)
next
  fix k assume "kmalloc 56 (lh_k h) = Inr (0, k)"
  then show ?thesis by (simp add: list_create_def)
next
  fix l k
  assume l: "kmalloc 56 (lh_k h) = Inr (l, k)" "l \<noteq> 0" "l \<notin> dom A \<union> list_nodes A \<union> X"
    "heap_owns k (insert l (dom A \<union> list_nodes A \<union> X))"
  let ?h' = "h\<lparr>lh_k := k, lh_lists := (lh_lists h)(l \<mapsto>
    \<lparr>l_length = 0, l_root = 0, l_tail = 0, l_lock = True\<rparr>)\<rparr>"
  have "A l = None" using l(3) by auto
  then have nodes: "list_nodes (A(l \<mapsto> [])) = list_nodes A"
    by (simp add: list_nodes_upd fun_upd_idem)
  have "list_ok ?h' l' ns" if "(A(l \<mapsto> [])) l' = Some ns" for l' ns
    using that wf l(2) by (auto simp: lheap_wf_def list_ok_def split: if_splits)
  moreover have "fst ` set ns \<inter> fst ` set ns' = {}"
    if "(A(l \<mapsto> [])) l1 = Some ns" "(A(l \<mapsto> [])) l2 = Some ns'" "l1 \<noteq> l2" for l1 l2 ns ns'
  proof (cases "l1 = l \<or> l2 = l")
    case False
    with that have "A l1 = Some ns" "A l2 = Some ns'" by simp_all
    with that(3) wf show ?thesis unfolding lheap_wf_def by metis
  qed (use that in auto)
  moreover have "dom A \<inter> list_nodes A = {}" "X \<inter> (dom A \<union> list_nodes A) = {}"
    using wf by (simp_all add: lheap_wf_def)
  ultimately have "lheap_wf X ?h' (A(l \<mapsto> []))"
    using l(3,4) unfolding lheap_wf_def nodes by (simp add: insert_commute)
  with l(1,2,3) show ?thesis by (auto simp: list_create_def)
qed simp

lemma list_destroy_loop_ok:
  assumes "dseg (lh_nodes h) p ns 0" "distinct (map fst ns)"
    and "heap_owns (lh_k h) (Q \<union> fst ` set ns)" "Q \<inter> fst ` set ns = {}"
  shows "\<exists>h'. list_destroy_loop (first ns 0) h = Some (Inr h') \<and> heap_owns (lh_k h') Q \<and>
    lh_lists h' = lh_lists h \<and> (\<forall>x. x \<notin> fst ` set ns \<longrightarrow> lh_nodes h' x = lh_nodes h x) \<and>
    lheap.more h' = lheap.more h"
  using assms
proof (induction ns arbitrary: p h)
  case Nil
  then show ?case by (simp add: list_destroy_loop.simps)
next
  case (Cons x ns)
  obtain n v where x: "x = (n, v)" by (cases x)
  with Cons.prems have n: "n \<noteq> 0" "lh_nodes h n = Some \<lparr>n_value = v, n_previous = p, n_next = first ns 0\<rparr>"
    "dseg (lh_nodes h) n ns 0" "n \<notin> fst ` set ns" "n \<notin> Q" by auto
  from kpool.pool_free [OF Cons.prems(3), of n] x obtain k where
    k: "kfree n (lh_k h) = Inr k" "heap_owns k (Q \<union> fst ` set (x # ns) - {n})" by auto
  have "Q \<union> fst ` set (x # ns) - {n} = Q \<union> fst ` set ns" using n x by auto
  with k(2) have own: "heap_owns k (Q \<union> fst ` set ns)" by simp
  let ?h = "h\<lparr>lh_k := k, lh_nodes := (lh_nodes h)(n := None)\<rparr>"
  have "\<exists>h'. list_destroy_loop (first ns 0) ?h = Some (Inr h') \<and> heap_owns (lh_k h') Q \<and>
    lh_lists h' = lh_lists ?h \<and> (\<forall>x. x \<notin> fst ` set ns \<longrightarrow> lh_nodes h' x = lh_nodes ?h x) \<and>
    lheap.more h' = lheap.more ?h"
  proof (rule Cons.IH [of _ n])
    show "dseg (lh_nodes ?h) n ns 0" using n(3,4) by simp
  qed (use Cons.prems own in auto)
  moreover have "list_destroy_loop (first (x # ns) 0) h = list_destroy_loop (first ns 0) ?h"
    using n(1,2) k(1) by (simp add: x list_destroy_loop.simps [of n] free_node_def)
  ultimately show ?case using n x by auto
qed

lemma list_destroy_ok:
  assumes wf: "lheap_wf X h A" "A l = Some ns"
  shows "\<exists>h'. list_destroy l h = Inr h' \<and> lheap_wf X h' (A(l := None)) \<and> lheap.more h' = lheap.more h"
proof -
  let ?A = "A(l := None)"
  let ?Q = "insert l (dom ?A \<union> list_nodes ?A \<union> X)"
  note lok = lheap_wf_list [OF wf]
  note split = list_nodes_split [of A l ns, OF wf(2)]
  have sep: "dom A \<inter> list_nodes A = {}" "X \<inter> (dom A \<union> list_nodes A) = {}" "l \<in> dom A"
    using wf by (auto simp: lheap_wf_def)
  have own: "heap_owns (lh_k h) (?Q \<union> fst ` set ns)"
  proof -
    have "?Q \<union> fst ` set ns = dom A \<union> list_nodes A \<union> X" using split sep(3) by auto
    with wf(1) show ?thesis by (simp add: lheap_wf_def)
  qed
  have dis: "?Q \<inter> fst ` set ns = {}"
    using sep split lheap_wf_disjoint [OF wf] by auto
  from list_destroy_loop_ok [OF _ _ own dis, of 0] lok obtain h1 where
    h1: "list_destroy_loop (first ns 0) h = Some (Inr h1)" "heap_owns (lh_k h1) ?Q"
      "lh_lists h1 = lh_lists h" "\<forall>x. x \<notin> fst ` set ns \<longrightarrow> lh_nodes h1 x = lh_nodes h x"
      "lheap.more h1 = lheap.more h"
    unfolding list_ok_def by blast
  have "l \<notin> dom ?A \<union> list_nodes ?A \<union> X" using sep split by auto
  with kpool.pool_free [OF h1(2), of l] obtain k where
    k: "kfree l (lh_k h1) = Inr k" "heap_owns k (dom ?A \<union> list_nodes ?A \<union> X)" by auto
  let ?h = "h1\<lparr>lh_k := k, lh_lists := (lh_lists h1)(l := None)\<rparr>"
  have "list_destroy l h = Inr ?h"
    using lok h1(1) k(1) by (simp add: list_destroy_def list_ok_def)
  moreover have "list_ok ?h l' ms" if "?A l' = Some ms" for l' ms
  proof -
    have "A l' = Some ms" "l' \<noteq> l" using that by (auto split: if_splits)
    moreover have "fst ` set ms \<inter> fst ` set ns = {}"
      using calculation wf unfolding lheap_wf_def by metis
    then have "dseg (lh_nodes h1) 0 ms 0 = dseg (lh_nodes h) 0 ms 0"
      using h1(4) by (intro dseg_cong) blast
    moreover have "list_ok h l' ms" using lheap_wf_list [OF wf(1) calculation(1)] .
    ultimately show ?thesis by (simp add: list_ok_def h1(3))
  qed
  moreover have "\<forall>l1 l2 ms ms'. ?A l1 = Some ms \<longrightarrow> ?A l2 = Some ms' \<longrightarrow> l1 \<noteq> l2 \<longrightarrow> fst ` set ms \<inter> fst ` set ms' = {}"
  proof (intro allI impI)
    fix l1 l2 ms ms' assume "?A l1 = Some ms" "?A l2 = Some ms'" "l1 \<noteq> l2"
    then have "A l1 = Some ms" "A l2 = Some ms'" by (auto split: if_splits)
    with \<open>l1 \<noteq> l2\<close> wf(1) show "fst ` set ms \<inter> fst ` set ms' = {}" unfolding lheap_wf_def by metis
  qed
  moreover have "dom ?A \<inter> list_nodes ?A = {}" "X \<inter> (dom ?A \<union> list_nodes ?A) = {}"
    using sep split by auto
  ultimately show ?thesis
    using k(2) h1(5) unfolding lheap_wf_def by auto
qed

section \<open>The interface to other components\<close>

text \<open>
  What a client of the lists relies on: a store of sequences addressed by list pointers, where an
  operation on one list leaves the others alone. \<open>vals\<close> is the sequence of the values in a list;
  \<open>oom\<close> says that the heap has no room for another node.
\<close>

definition list_vals :: "(u64 \<rightharpoonup> (u64 \<times> u64) list) \<Rightarrow> u64 \<Rightarrow> u64 list option" where
  "list_vals A l = map_option (map snd) (A l)"

locale sequence_store =
  fixes push_back :: "u64 \<Rightarrow> u64 \<Rightarrow> 's \<Rightarrow> (u64 \<times> 's) exec"
    and push_front :: "u64 \<Rightarrow> u64 \<Rightarrow> 's \<Rightarrow> (u64 \<times> 's) exec"
    and remove_front :: "u64 \<Rightarrow> 's \<Rightarrow> (u64 \<times> 's) exec"
    and remove_back :: "u64 \<Rightarrow> 's \<Rightarrow> (u64 \<times> 's) exec"
    and oom :: "'s \<Rightarrow> bool"
    and rep :: "'s \<Rightarrow> (u64 \<rightharpoonup> u64 list) \<Rightarrow> bool"
  assumes push_back_law: "rep s a \<Longrightarrow> a l = Some vs \<Longrightarrow> \<not> oom s \<Longrightarrow>
      \<exists>n s'. push_back l v s = Inr (n, s') \<and> rep s' (a(l \<mapsto> vs @ [v]))"
    and push_front_law: "rep s a \<Longrightarrow> a l = Some vs \<Longrightarrow> \<not> oom s \<Longrightarrow>
      \<exists>n s'. push_front l v s = Inr (n, s') \<and> rep s' (a(l \<mapsto> v # vs))"
    and remove_front_law: "rep s a \<Longrightarrow> a l = Some (v # vs) \<Longrightarrow>
      \<exists>s'. remove_front l s = Inr (v, s') \<and> rep s' (a(l \<mapsto> vs))"
    and remove_back_law: "rep s a \<Longrightarrow> a l = Some (vs @ [v]) \<Longrightarrow>
      \<exists>s'. remove_back l s = Inr (v, s') \<and> rep s' (a(l \<mapsto> vs))"
    and remove_empty_law: "rep s a \<Longrightarrow> a l = Some [] \<Longrightarrow>
      remove_front l s = Inr (0, s) \<and> remove_back l s = Inr (0, s)"
begin

text \<open>Push a whole sequence at the back, as long as there is room; take as many from the front.\<close>

fun push_all :: "u64 \<Rightarrow> u64 list \<Rightarrow> 's \<Rightarrow> 's exec option" where
  "push_all l [] s = Some (Inr s)"
| "push_all l (v # vs) s = (if oom s then None
     else case push_back l v s of Inl e \<Rightarrow> Some (Inl e) | Inr (_, s') \<Rightarrow> push_all l vs s')"

fun take_all :: "u64 \<Rightarrow> nat \<Rightarrow> 's \<Rightarrow> (u64 list \<times> 's) exec" where
  "take_all l 0 s = Inr ([], s)"
| "take_all l (Suc n) s = bindr (remove_front l s) (\<lambda>(v, s).
     bindr (take_all l n s) (\<lambda>(vs, s). Inr (v # vs, s)))"

lemma push_all_rep:
  "rep s a \<Longrightarrow> a l = Some ws \<Longrightarrow> push_all l vs s = Some r \<Longrightarrow>
     \<exists>s'. r = Inr s' \<and> rep s' (a(l \<mapsto> ws @ vs))"
proof (induction vs arbitrary: s a ws)
  case (Cons v vs)
  then have "\<not> oom s" by (auto split: if_splits)
  with push_back_law [OF Cons.prems(1,2), of v] obtain n s1 where
    s1: "push_back l v s = Inr (n, s1)" "rep s1 (a(l \<mapsto> ws @ [v]))" by blast
  have "push_all l vs s1 = Some r" using Cons.prems(3) s1(1) \<open>\<not> oom s\<close> by simp
  then have "\<exists>s'. r = Inr s' \<and> rep s' (a(l \<mapsto> ws @ [v], l \<mapsto> (ws @ [v]) @ vs))"
    by (intro Cons.IH [OF s1(2)]) simp_all
  then show ?case by (simp only: fun_upd_upd append_assoc append.simps)
qed (auto simp: fun_upd_idem)

lemma take_all_rep:
  "rep s a \<Longrightarrow> a l = Some (vs @ ws) \<Longrightarrow>
     \<exists>s'. take_all l (length vs) s = Inr (vs, s') \<and> rep s' (a(l \<mapsto> ws))"
proof (induction vs arbitrary: s a)
  case (Cons v vs)
  from remove_front_law [OF Cons.prems(1), of l v "vs @ ws"] Cons.prems(2) obtain s1 where
    s1: "remove_front l s = Inr (v, s1)" "rep s1 (a(l \<mapsto> vs @ ws))" by auto
  have "\<exists>s'. take_all l (length vs) s1 = Inr (vs, s') \<and> rep s' (a(l \<mapsto> vs @ ws, l \<mapsto> ws))"
    by (rule Cons.IH [OF s1(2)]) simp
  then obtain s' where s': "take_all l (length vs) s1 = Inr (vs, s')" "rep s' (a(l \<mapsto> ws))"
    unfolding fun_upd_upd by blast
  have "take_all l (length (v # vs)) s = Inr (v # vs, s')" using s1(1) s'(1) by simp
  with s'(2) show ?case by blast
qed (auto simp: fun_upd_idem)

lemma fifo:
  assumes "rep s a" "a l = Some []" "push_all l vs s = Some r"
  shows "\<exists>s1 s2. r = Inr s1 \<and> take_all l (length vs) s1 = Inr (vs, s2) \<and> rep s2 a"
proof -
  from push_all_rep [OF assms] obtain s1 where s1: "r = Inr s1" "rep s1 (a(l \<mapsto> vs))" by auto
  from take_all_rep [OF s1(2), of l vs "[]"] s1(1) assms(2) show ?thesis
    by (auto simp: fun_upd_idem)
qed

end

definition list_rep :: "u64 set \<Rightarrow> 'x lheap_scheme \<Rightarrow> (u64 \<rightharpoonup> u64 list) \<Rightarrow> bool" where
  "list_rep X h a \<longleftrightarrow> (\<exists>A. lheap_wf X h A \<and> a = list_vals A)"

definition list_oom :: "'x lheap_scheme \<Rightarrow> bool" where
  "list_oom h \<longleftrightarrow> (case kmalloc 24 (lh_k h) of Inr (p, _) \<Rightarrow> p = 0 | Inl _ \<Rightarrow> True)"

lemma list_vals_upd [simp]: "list_vals (A(l \<mapsto> ns)) = (list_vals A)(l \<mapsto> map snd ns)"
  by (auto simp: list_vals_def fun_eq_iff)

lemma list_valsE:
  assumes "list_vals A l = Some vs"
  obtains ns where "A l = Some ns" "vs = map snd ns"
  using assms by (auto simp: list_vals_def)

lemma list_repI: "lheap_wf X h A \<Longrightarrow> a = list_vals A \<Longrightarrow> list_rep X h a"
  by (auto simp: list_rep_def)

interpretation klist: sequence_store list_push_back list_push_front list_remove_front list_remove_back
  list_oom "list_rep X"
proof
  fix h :: "'x lheap_scheme" and a l vs v
  assume r: "list_rep X h a" "a l = Some vs" and n: "\<not> list_oom h"
  from r obtain A ns where A: "lheap_wf X h A" "a = list_vals A" "A l = Some ns" "vs = map snd ns"
    by (auto simp: list_rep_def elim: list_valsE)
  show "\<exists>n h'. list_push_back l v h = Inr (n, h') \<and> list_rep X h' (a(l \<mapsto> vs @ [v]))"
  proof -
    obtain n h' where "list_push_back l v h = Inr (n, h')" "lheap_wf X h' (A(l \<mapsto> ns @ [(n, v)]))"
      using list_push_back_ok [OF A(1,3), of v] n by (auto simp: list_oom_def)
    moreover from this(2) have "list_rep X h' (a(l \<mapsto> vs @ [v]))"
      by (rule list_repI) (simp add: A(2,4))
    ultimately show ?thesis by blast
  qed
  show "\<exists>n h'. list_push_front l v h = Inr (n, h') \<and> list_rep X h' (a(l \<mapsto> v # vs))"
  proof -
    obtain n h' where "list_push_front l v h = Inr (n, h')" "lheap_wf X h' (A(l \<mapsto> (n, v) # ns))"
      using list_push_front_ok [OF A(1,3), of v] n by (auto simp: list_oom_def)
    moreover from this(2) have "list_rep X h' (a(l \<mapsto> v # vs))"
      by (rule list_repI) (simp add: A(2,4))
    ultimately show ?thesis by blast
  qed
next
  fix h :: "'x lheap_scheme" and a l v vs
  assume r: "list_rep X h a" "a l = Some (v # vs)"
  then obtain A ns where A: "lheap_wf X h A" "a = list_vals A" "A l = Some ns" "v # vs = map snd ns"
    by (auto simp: list_rep_def elim: list_valsE)
  then obtain n ns' where "ns = (n, v) # ns'" "vs = map snd ns'" by (cases ns) auto
  with list_remove_front_ok [OF A(1), of l n v ns'] A(2,3)
  show "\<exists>h'. list_remove_front l h = Inr (v, h') \<and> list_rep X h' (a(l \<mapsto> vs))"
    using list_repI [of X _ "A(l \<mapsto> ns')" "a(l \<mapsto> vs)"] by auto
next
  fix h :: "'x lheap_scheme" and a l v vs
  assume r: "list_rep X h a" "a l = Some (vs @ [v])"
  then obtain A ns where A: "lheap_wf X h A" "a = list_vals A" "A l = Some ns" "vs @ [v] = map snd ns"
    by (auto simp: list_rep_def elim: list_valsE)
  then obtain n ns' where "ns = ns' @ [(n, v)]" "vs = map snd ns'" by (cases ns rule: rev_cases) auto
  with list_remove_back_ok [OF A(1), of l ns' n v] A(2,3)
  show "\<exists>h'. list_remove_back l h = Inr (v, h') \<and> list_rep X h' (a(l \<mapsto> vs))"
    using list_repI [of X _ "A(l \<mapsto> ns')" "a(l \<mapsto> vs)"] by auto
next
  fix h :: "'x lheap_scheme" and a l
  assume r: "list_rep X h a" "a l = Some []"
  then obtain A where A: "lheap_wf X h A" "A l = Some []"
    by (auto simp: list_rep_def elim: list_valsE)
  with lheap_wf_list [OF A] show "list_remove_front l h = Inr (0, h) \<and> list_remove_back l h = Inr (0, h)"
    by (simp add: list_remove_front_empty list_remove_back_empty)
qed

section \<open>Correctness of the lists\<close>

text \<open>
  C9. On a well-formed heap of lists, \<^verbatim>\<open>list_push_back\<close> and \<^verbatim>\<open>list_push_front\<close> fail only when the heap
  has no room (the code then writes through \<^verbatim>\<open>NULL\<close>); otherwise they return a fresh node, extend the
  sequence of that list at the right end, and leave every other list and every other live object alone.
\<close>

theorem list_push_refines:
  assumes "lheap_wf X h A" "A l = Some ns"
  shows "(if list_oom h then list_push_back l v h = Inl NullDeref \<and> list_push_front l v h = Inl NullDeref
     else (\<exists>n h'. list_push_back l v h = Inr (n, h') \<and> n \<notin> dom A \<union> list_nodes A \<union> X \<and>
              lheap_wf X h' (A(l \<mapsto> ns @ [(n, v)]))) \<and>
          (\<exists>n h'. list_push_front l v h = Inr (n, h') \<and> n \<notin> dom A \<union> list_nodes A \<union> X \<and>
              lheap_wf X h' (A(l \<mapsto> (n, v) # ns))))"
proof -
  have "list_lock l h \<noteq> Inl NullDeref" and nz: "l \<noteq> 0"
    using lheap_wf_list [OF assms] by (auto simp: list_lock_ok list_ok_nonnull)
  have oom: "list_push_back l v h = Inl NullDeref" "list_push_front l v h = Inl NullDeref"
    if "kmalloc 24 (lh_k h) = Inr (0, k)" for k
    using that nz lheap_wf_list [OF assms]
    by (simp_all add: list_push_back_def list_push_front_def list_lock_ok new_node_def)
  show ?thesis
    using assms(1)
  proof (cases rule: lheap_wf_new_node)
    case (fresh n k)
    then show ?thesis
      using list_push_back_ok [OF assms, of v] list_push_front_ok [OF assms, of v]
      by (auto simp: list_oom_def)
  qed (simp add: list_oom_def oom)
qed

text \<open>A heap with one list of three values, for the witnesses.\<close>

definition three_lheap :: lheap where
  "three_lheap = \<lparr>lh_k = \<lparr>km_pmm = \<lparr>PmmBitmap = (\<lambda>j. j < 12), PmmLength = 64, PmmFreePages = 52, PmmLock = True\<rparr>,
       km_mem = write64 (write64 (write64 (write64 (write64 (write64 (write64 (write64 (\<lambda>_. 0)
         16384 1) 16392 56) 24576 1) 24584 24) 32768 1) 32776 24) 40960 1) 40968 24\<rparr>,
     lh_lists = [block_addr 4 \<mapsto> \<lparr>l_length = 3, l_root = block_addr 6, l_tail = block_addr 10, l_lock = True\<rparr>],
     lh_nodes = [block_addr 6 \<mapsto> \<lparr>n_value = 11, n_previous = 0, n_next = block_addr 8\<rparr>,
       block_addr 8 \<mapsto> \<lparr>n_value = 22, n_previous = block_addr 6, n_next = block_addr 10\<rparr>,
       block_addr 10 \<mapsto> \<lparr>n_value = 33, n_previous = block_addr 8, n_next = 0\<rparr>]\<rparr>"

definition three_abs :: "u64 \<rightharpoonup> (u64 \<times> u64) list" where
  "three_abs = [block_addr 4 \<mapsto> [(block_addr 6, 11), (block_addr 8, 22), (block_addr 10, 33)]]"

lemma three_heap_inv: "heap_inv (lh_k three_lheap) {(4, 2), (6, 2), (8, 2), (10, 2)}"
  by (simp add: heap_inv_def three_lheap_def block_ok_def blocks_disjoint_def block_size_def size_pages_def)

lemma three_wf: "lheap_wf {} three_lheap three_abs"
proof -
  have bl: "block_addr 4 = 0xFFFF800000005000" "block_addr 6 = 0xFFFF800000007000"
    "block_addr 8 = 0xFFFF800000009000" "block_addr 10 = 0xFFFF80000000B000"
    by (simp_all add: block_addr_def MEM_PHYS_OFFSET_def)
  have "list_ok three_lheap (block_addr 4) [(block_addr 6, 11), (block_addr 8, 22), (block_addr 10, 33)]"
    by (simp add: list_ok_def three_lheap_def bl)
  moreover have "list_nodes three_abs = {block_addr 6, block_addr 8, block_addr 10}"
    by (auto simp: list_nodes_def three_abs_def)
  moreover have "heap_owns (lh_k three_lheap) {block_addr 4, block_addr 6, block_addr 8, block_addr 10}"
    unfolding heap_owns_def by (rule exI [of _ "{(4, 2), (6, 2), (8, 2), (10, 2)}"]) (simp add: three_heap_inv)
  ultimately show ?thesis
    by (auto simp: lheap_wf_def three_abs_def bl insert_commute split: if_splits)
qed

lemma three_room: "\<not> list_oom three_lheap"
proof -
  obtain p k where r: "kmalloc 24 (lh_k three_lheap) = Inr (p, k)"
    using kmalloc_total [OF three_heap_inv] by blast
  have "p \<noteq> 0"
    using kmalloc_null_full [OF three_heap_inv, of 24 k 12] r by (auto simp: three_lheap_def size_pages_def)
  with r show ?thesis by (simp add: list_oom_def)
qed

theorem list_push_refines_witness:
  "\<exists>n h'. list_push_back (block_addr 4) 44 three_lheap = Inr (n, h') \<and>
     lheap_wf {} h' (three_abs(block_addr 4 \<mapsto>
       [(block_addr 6, 11), (block_addr 8, 22), (block_addr 10, 33), (n, 44)]))"
  using list_push_refines [OF three_wf, of "block_addr 4" _ 44] three_room
  by (auto simp: three_abs_def)

text \<open>Removal at the two ends, by the sequence of the list.\<close>

lemma list_ends_ok:
  assumes wf: "lheap_wf X h A" "A l = Some ns" "ns \<noteq> []"
  shows "\<exists>h'. list_remove_front l h = Inr (snd (hd ns), h') \<and> lheap_wf X h' (A(l \<mapsto> tl ns)) \<and>
      kfree (fst (hd ns)) (lh_k h) = Inr (lh_k h')"
    and "\<exists>h'. list_remove_back l h = Inr (snd (last ns), h') \<and> lheap_wf X h' (A(l \<mapsto> butlast ns)) \<and>
      kfree (fst (last ns)) (lh_k h) = Inr (lh_k h')"
    and "\<exists>h' N. list_pop l h = Inr (fst (last ns), h') \<and> lheap_wf (insert (fst (last ns)) X) h' (A(l \<mapsto> butlast ns)) \<and>
      lh_nodes h' (fst (last ns)) = Some N \<and> n_value N = snd (last ns)"
proof -
  have "A l = Some ((fst (hd ns), snd (hd ns)) # tl ns)" "A l = Some (butlast ns @ [(fst (last ns), snd (last ns))])"
    using wf(2,3) by simp_all
  from list_remove_front_ok [OF wf(1) this(1)] list_remove_back_ok [OF wf(1) this(2)] list_pop_ok [OF wf(1) this(2)]
  show "\<exists>h'. list_remove_front l h = Inr (snd (hd ns), h') \<and> lheap_wf X h' (A(l \<mapsto> tl ns)) \<and>
      kfree (fst (hd ns)) (lh_k h) = Inr (lh_k h')"
    and "\<exists>h'. list_remove_back l h = Inr (snd (last ns), h') \<and> lheap_wf X h' (A(l \<mapsto> butlast ns)) \<and>
      kfree (fst (last ns)) (lh_k h) = Inr (lh_k h')"
    and "\<exists>h' N. list_pop l h = Inr (fst (last ns), h') \<and> lheap_wf (insert (fst (last ns)) X) h' (A(l \<mapsto> butlast ns)) \<and>
      lh_nodes h' (fst (last ns)) = Some N \<and> n_value N = snd (last ns)"
    by fastforce+
qed

text \<open>
  C21. Removal takes exactly one node out of a list and leaves every other list alone. \<^verbatim>\<open>list_remove\<close> of any node
  returns its value, and the heap afterwards is the one \<^verbatim>\<open>kfree\<close> of the node leaves;
  \<^verbatim>\<open>list_remove_indexed\<close> with a valid index does the same to the node at that position and dereferences
  \<^verbatim>\<open>NULL\<close> past the end; \<^verbatim>\<open>list_remove_front\<close> and \<^verbatim>\<open>list_remove_back\<close> do it to the first and the last node.
  \<^verbatim>\<open>list_pop\<close> unlinks the last node and returns the node itself, which stays allocated and keeps its value. On an empty
  list these last three return \<^verbatim>\<open>NULL\<close> and change nothing.
\<close>

theorem list_remove_refines:
  assumes "lheap_wf X h A" "A l = Some ns" "length ns < 2 ^ 64"
  shows "(\<forall>as n v bs. ns = as @ (n, v) # bs \<longrightarrow>
      (\<exists>h'. list_remove l n h = Inr (v, h') \<and> lheap_wf X h' (A(l \<mapsto> as @ bs)) \<and> kfree n (lh_k h) = Inr (lh_k h'))) \<and>
    (if unat index < length ns
     then \<exists>h'. list_remove_indexed l index h = Inr (snd (ns ! unat index), h') \<and>
            lheap_wf X h' (A(l \<mapsto> take (unat index) ns @ drop (Suc (unat index)) ns)) \<and>
            kfree (fst (ns ! unat index)) (lh_k h) = Inr (lh_k h')
     else list_remove_indexed l index h = Inl NullDeref) \<and>
    (if ns = []
     then list_remove_front l h = Inr (0, h) \<and> list_remove_back l h = Inr (0, h) \<and> list_pop l h = Inr (0, h)
     else (\<exists>h'. list_remove_front l h = Inr (snd (hd ns), h') \<and> lheap_wf X h' (A(l \<mapsto> tl ns)) \<and>
             kfree (fst (hd ns)) (lh_k h) = Inr (lh_k h')) \<and>
          (\<exists>h'. list_remove_back l h = Inr (snd (last ns), h') \<and> lheap_wf X h' (A(l \<mapsto> butlast ns)) \<and>
             kfree (fst (last ns)) (lh_k h) = Inr (lh_k h')) \<and>
          (\<exists>h' N. list_pop l h = Inr (fst (last ns), h') \<and> lheap_wf (insert (fst (last ns)) X) h' (A(l \<mapsto> butlast ns)) \<and>
             lh_nodes h' (fst (last ns)) = Some N \<and> n_value N = snd (last ns)))"
  (is "?any \<and> ?indexed \<and> ?ends")
proof -
  note ok = lheap_wf_list [OF assms(1,2)]
  have ?any
    using list_remove_ok [OF assms(1), of l] assms(2) by blast
  moreover have ?indexed
    using list_remove_indexed_ok [OF assms(1,2) _ assms(3), of index]
      list_remove_indexed_out_of_range [OF ok _ assms(3), of index]
    by (simp only: not_less split: if_split) blast
  moreover have ?ends
  proof (cases "ns = []")
    case True
    with ok show ?thesis
      by (simp add: list_remove_front_empty list_remove_back_empty list_pop_empty)
  next
    case False
    with list_ends_ok [OF assms(1,2) False] show ?thesis
      by (simp only: if_False simp_thms)
  qed
  ultimately show ?thesis by (intro conjI)
qed

theorem list_remove_refines_witness:
  "(\<exists>h'. list_remove (block_addr 4) (block_addr 8) three_lheap = Inr (22, h') \<and>
      lheap_wf {} h' (three_abs(block_addr 4 \<mapsto> [(block_addr 6, 11), (block_addr 10, 33)]))) \<and>
   (\<exists>h'. list_remove_back (block_addr 4) three_lheap = Inr (33, h') \<and>
      lheap_wf {} h' (three_abs(block_addr 4 \<mapsto> [(block_addr 6, 11), (block_addr 8, 22)])))"
proof -
  have "three_abs (block_addr 4) = Some ([(block_addr 6, 11)] @ (block_addr 8, 22) # [(block_addr 10, 33)])"
    by (simp add: three_abs_def)
  note r = list_remove_refines [OF three_wf this, of 0]
  have "\<exists>h'. list_remove (block_addr 4) (block_addr 8) three_lheap = Inr (22, h') \<and>
      lheap_wf {} h' (three_abs(block_addr 4 \<mapsto> [(block_addr 6, 11), (block_addr 10, 33)]))"
    using r [THEN conjunct1, rule_format, OF _ refl] by auto
  moreover have "\<exists>h'. list_remove_back (block_addr 4) three_lheap = Inr (33, h') \<and>
      lheap_wf {} h' (three_abs(block_addr 4 \<mapsto> [(block_addr 6, 11), (block_addr 8, 22)]))"
    using r [THEN conjunct2, THEN conjunct2] by auto
  ultimately show ?thesis ..
qed

text \<open>
  Values pushed at the back of an empty list come out at the front in the order they went in,
  and the heap of lists is then what it was before.
\<close>

theorem list_fifo:
  assumes "list_rep X h a" "a l = Some []" "klist.push_all l vs h = Some r"
  shows "\<exists>h1 h2. r = Inr h1 \<and> klist.take_all l (length vs) h1 = Inr (vs, h2) \<and> list_rep X h2 a"
  by (rule klist.fifo [OF assms])

definition one_lheap :: lheap where
  "one_lheap = three_lheap\<lparr>lh_lists := [block_addr 4 \<mapsto> \<lparr>l_length = 0, l_root = 0, l_tail = 0, l_lock = True\<rparr>]\<rparr>"

lemma one_wf: "lheap_wf {} one_lheap [block_addr 4 \<mapsto> []]"
proof -
  have "list_ok one_lheap (block_addr 4) []"
    by (simp add: list_ok_def one_lheap_def block_addr_nonnull)
  moreover have "list_nodes [block_addr 4 \<mapsto> []] = {}"
    by (auto simp: list_nodes_def)
  moreover have "heap_owns (lh_k one_lheap) {block_addr 4}"
    unfolding heap_owns_def
    by (rule exI [of _ "{(4, 2), (6, 2), (8, 2), (10, 2)}"]) (use three_heap_inv in \<open>simp add: one_lheap_def\<close>)
  ultimately show ?thesis
    by (auto simp: lheap_wf_def split: if_splits)
qed

theorem list_fifo_witness:
  "\<exists>h1 h2. klist.push_all (block_addr 4) [7] one_lheap = Some (Inr h1) \<and>
     klist.take_all (block_addr 4) 1 h1 = Inr ([7], h2)"
proof -
  have "\<not> list_oom one_lheap"
    using three_room by (simp add: one_lheap_def list_oom_def)
  moreover obtain n h' where "list_push_back (block_addr 4) 7 one_lheap = Inr (n, h')"
    using list_push_back_ok [OF one_wf, of "block_addr 4" "[]" 7] calculation by (auto simp: list_oom_def)
  ultimately have p: "klist.push_all (block_addr 4) [7] one_lheap = Some (Inr h')" by simp
  have "list_rep {} one_lheap (list_vals [block_addr 4 \<mapsto> []])"
    using one_wf by (rule list_repI) simp
  from list_fifo [OF this _ p] p show ?thesis by (auto simp: list_vals_def)
qed

lemma fchain_cong:
  assumes "fchain m ns"
    and "\<And>n N. n \<in> fst ` set ns \<Longrightarrow> m n = Some N \<Longrightarrow> \<exists>N'. m' n = Some N' \<and> n_value N' = n_value N \<and> n_next N' = n_next N"
  shows "fchain m' ns"
  using assms
proof (induction m ns rule: fchain.induct)
  case (2 m n v ns)
  then have "fchain m' ns" by auto
  moreover obtain N where "m n = Some N" "n_value N = v" "n_next N = first ns 0" "n \<noteq> 0"
    using "2.prems"(1) by auto
  ultimately show ?case using "2.prems"(2) [of n N] by auto
qed simp

text \<open>What \<^verbatim>\<open>list_push_before\<close> leaves behind: the new node, and a list with the same chain of next pointers.\<close>

lemma list_push_before_run:
  assumes wf: "lheap_wf X h A" "A l = Some ns" and "lastNode \<in> fst ` set ns" "\<not> list_oom h"
  obtains n k m L where "list_push_before l lastNode v h = Inr (n, h\<lparr>lh_k := k, lh_nodes := m, lh_lists := (lh_lists h)(l \<mapsto> L)\<rparr>)"
    "fchain m ns" "l_root L = first ns 0" "l_length L = of_nat (length ns + 1)" "l_lock L" "l \<noteq> 0"
  using wf(1)
proof (cases rule: lheap_wf_new_node)
  case (oom k)
  with assms(4) show ?thesis by (simp add: list_oom_def)
next
  case (fresh n k)
  note lok = lheap_wf_list [OF wf]
  have l: "l \<noteq> 0" "dseg (lh_nodes h) 0 ns 0" using lok by (auto simp: list_ok_def)
  have n: "n \<notin> fst ` set ns" using fresh(3) list_nodes_split [of A l ns, OF wf(2)] by blast
  obtain N where N: "lh_nodes h lastNode = Some N" "lastNode \<noteq> 0" "lastNode \<noteq> n"
    using dseg_nonnull [OF l(2) assms(3)] n assms(3) by auto
  let ?prev = "if lastp 0 ns = lastNode then 0 else lastp 0 ns"
  let ?tail = "if lastp 0 ns = lastNode then n else lastp 0 ns"
  let ?m = "(lh_nodes h)(n \<mapsto> \<lparr>n_value = v, n_previous = ?prev, n_next = lastNode\<rparr>,
     lastNode \<mapsto> N\<lparr>n_previous := n\<rparr>)"
  let ?L = "\<lparr>l_length = of_nat (length ns) + 1, l_root = first ns 0, l_tail = ?tail, l_lock = True\<rparr>"
  have "list_push_before l lastNode v h = Inr (n, h\<lparr>lh_k := k, lh_nodes := ?m, lh_lists := (lh_lists h)(l \<mapsto> ?L)\<rparr>)"
    using lok l(1) fresh(1,2) N by (auto simp: list_push_before_def list_lock_ok list_run)
  moreover have "fchain ?m ns"
    by (rule fchain_cong [OF dseg_fchain [OF l(2)]]) (use n N in \<open>auto split: if_splits\<close>)
  ultimately show thesis
    using that l(1) by simp
qed

text \<open>
  \<^verbatim>\<open>list_push_before\<close> does not insert: it never makes the predecessor (or the root) point to the
  new node. After inserting a value that is not yet in the list before any of its nodes, the length
  has grown by one but a traversal from the root still does not meet the value, so
  \<^verbatim>\<open>list_contains\<close> returns the old length, the answer it gives for values that are absent.
\<close>

theorem list_push_before_loses_node:
  assumes wf: "lheap_wf X h A" "A l = Some ns" and "lastNode \<in> fst ` set ns" "v \<notin> snd ` set ns" "\<not> list_oom h"
  shows "\<exists>n h' L. list_push_before l lastNode v h = Inr (n, h') \<and> lh_lists h' l = Some L \<and>
    l_length L = of_nat (length ns + 1) \<and> list_contains l v h' = Inr (of_nat (length ns), h')"
proof -
  from wf assms(3,5) obtain n k m L where run: "list_push_before l lastNode v h = Inr (n, h\<lparr>lh_k := k, lh_nodes := m, lh_lists := (lh_lists h)(l \<mapsto> L)\<rparr>)"
      and m: "fchain m ns" and L: "l_root L = first ns 0" "l_length L = of_nat (length ns + 1)" "l_lock L" "l \<noteq> 0"
    by (rule list_push_before_run)
  let ?h' = "h\<lparr>lh_k := k, lh_nodes := m, lh_lists := (lh_lists h)(l \<mapsto> L)\<rparr>"
  have "takeWhile (\<lambda>x. snd x \<noteq> v) ns = ns"
    using assms(4) by (subst takeWhile_eq_all_conv) force
  then have "index_of v ns = length ns"
    by (simp only: index_of_def)
  then have "contains_loop m (first ns 0) v 0 = Some (Inr (of_nat (length ns)))"
    using contains_loop_chain [OF m, of v 0] by simp
  moreover have same: "L\<lparr>l_lock := True\<rparr> = L"
    using L(3) by (cases L) simp
  ultimately have "list_contains l v ?h' = Inr (of_nat (length ns), ?h')"
    using L by (simp add: list_contains_def list_lock_def list_run fun_upd_idem) (simp only: same)
  with run L show ?thesis by (intro exI [of _ n] exI [of _ ?h'] exI [of _ L]) simp
qed

theorem list_push_before_loses_node_witness:
  "\<exists>n h' L. list_push_before (block_addr 4) (block_addr 8) 99 three_lheap = Inr (n, h') \<and>
     lh_lists h' (block_addr 4) = Some L \<and> l_length L = 4 \<and> list_contains (block_addr 4) 99 h' = Inr (3, h')"
  using list_push_before_loses_node [OF three_wf, of "block_addr 4" _ "block_addr 8" 99] three_room
  by (simp add: three_abs_def)

end
