(* ===== verification/CString.thy ===== *)
theory CString
  imports Kmalloc "HOL-Library.List_Lexorder"
begin

text \<open>
  The C-string routines of \<^verbatim>\<open>kernel/utils/string.c\<close>, over byte memory. A string is the bytes up to the
  first zero byte; on memory without one the loops do not stop, so each loop is a partial function
  whose value \<open>None\<close> means it never returns. The routines are shown to compute what they compute on
  the byte sequences, the word-at-a-time search of \<^verbatim>\<open>strchrnul\<close> included.
\<close>

unbundle bit_operations_syntax

section \<open>Comparison, length, copy\<close>

partial_function (option) strcmp :: "bytes \<Rightarrow> nat \<Rightarrow> nat \<Rightarrow> int option" where
  "strcmp m s1 s2 =
     (let a = m s1; b = m s2 in
      if a = b \<and> a \<noteq> 0 then strcmp m (s1 + 1) (s2 + 1)
      else if a < b then Some (-1)
      else if a > b then Some 1
      else if a = 0 \<or> b = 0 then Some 0
      else strcmp m (s1 + 1) (s2 + 1))"

fun strncmp :: "bytes \<Rightarrow> nat \<Rightarrow> nat \<Rightarrow> nat \<Rightarrow> int" where
  "strncmp m s1 s2 0 = 0"
| "strncmp m s1 s2 (Suc n) =
     (let a = m s1; b = m s2 in
      if a = b \<and> a \<noteq> 0 then strncmp m (s1 + 1) (s2 + 1) n
      else if a < b then -1
      else if a > b then -1
      else if a = 0 \<or> b = 0 then 0
      else strncmp m (s1 + 1) (s2 + 1) n)"

partial_function (option) strlen_loop :: "bytes \<Rightarrow> nat \<Rightarrow> nat \<Rightarrow> nat option" where
  "strlen_loop m str len = (if m str \<noteq> 0 then strlen_loop m (str + 1) (len + 1) else Some len)"

definition strlen :: "bytes \<Rightarrow> nat \<Rightarrow> nat option" where
  "strlen m str = strlen_loop m str 0"

definition strcpy :: "bytes \<Rightarrow> nat \<Rightarrow> nat \<Rightarrow> bytes option" where
  "strcpy m d s = map_option (\<lambda>n. memcpy m d s (n + 1)) (strlen m s)"

text \<open>\<^verbatim>\<open>strdup\<close> writes through the pointer \<^verbatim>\<open>kmalloc\<close> returned without looking at it.\<close>

definition strdup :: "u64 \<Rightarrow> kmem \<Rightarrow> (u64 \<times> kmem) exec" where
  "strdup str k =
     (case strlen (km_mem k) (phys_of str) of
        None \<Rightarrow> Inl HaltLoop
      | Some n \<Rightarrow> bindr (kmalloc (of_nat (n + 1)) k) (\<lambda>(strNew, k).
          if strNew = 0 then Inl NullDeref
          else Inr (strNew, k\<lparr>km_mem := memcpy (km_mem k) (phys_of strNew) (phys_of str) (n + 1)\<rparr>)))"

section \<open>Searching\<close>

text \<open>The inner loop of \<^verbatim>\<open>strsep\<close>: is the character among the delimiters or the final zero?\<close>

partial_function (option) strsep_span :: "bytes \<Rightarrow> u8 \<Rightarrow> nat \<Rightarrow> bool option" where
  "strsep_span m c spanP =
     (let sc = m spanP in
      if sc = c then Some True
      else if sc \<noteq> 0 then strsep_span m c (spanP + 1)
      else Some False)"

partial_function (option) strsep_loop :: "bytes \<Rightarrow> nat \<Rightarrow> nat \<Rightarrow> (nat \<times> bytes) option" where
  "strsep_loop m str delimiter =
     (let c = m str; str' = str + 1 in
      case strsep_span m c delimiter of
        None \<Rightarrow> None
      | Some found \<Rightarrow>
          if found then (if c = 0 then Some (0, m) else Some (str', m(str' - 1 := 0)))
          else strsep_loop m str' delimiter)"

text \<open>Result: the token, the new value of \<^verbatim>\<open>*stringPointer\<close> (0 is \<^verbatim>\<open>NULL\<close>) and the memory.\<close>

definition strsep :: "bytes \<Rightarrow> nat \<Rightarrow> nat \<Rightarrow> (nat \<times> nat \<times> bytes) option" where
  "strsep m stringPointer delimiter =
     (if stringPointer = 0 then Some (0, 0, m)
      else map_option (\<lambda>(str, m'). (stringPointer, str, m')) (strsep_loop m stringPointer delimiter))"

partial_function (option) strstr_skip :: "bytes \<Rightarrow> u8 \<Rightarrow> nat \<Rightarrow> nat option" where
  "strstr_skip m c p =
     (let sc = m p; p' = p + 1 in
      if sc = 0 then Some 0 else if sc \<noteq> c then strstr_skip m c p' else Some p')"

partial_function (option) strstr_loop :: "bytes \<Rightarrow> u8 \<Rightarrow> nat \<Rightarrow> nat \<Rightarrow> nat \<Rightarrow> nat option" where
  "strstr_loop m c p str len =
     (case strstr_skip m c p of
        None \<Rightarrow> None
      | Some p' \<Rightarrow> if p' = 0 then Some 0
                   else if strncmp m p' str len \<noteq> 0 then strstr_loop m c p' str len
                   else Some (p' - 1))"

definition strstr :: "bytes \<Rightarrow> nat \<Rightarrow> nat \<Rightarrow> nat option" where
  "strstr m p str =
     (let c = m str in
      if c = 0 then Some p
      else case strlen m (str + 1) of None \<Rightarrow> None | Some len \<Rightarrow> strstr_loop m c p (str + 1) len)"

section \<open>Byte sets and word-at-a-time search\<close>

text \<open>\<^verbatim>\<open>size_t byteset[32 / sizeof(size_t)]\<close> with \<^verbatim>\<open>BITOP\<close> as a set and as a test.\<close>

definition byteset_empty :: "u64 list" where
  "byteset_empty = [0, 0, 0, 0]"

definition BITOP_or :: "u64 list \<Rightarrow> u8 \<Rightarrow> u64 list" where
  "BITOP_or bs c = bs[unat c div 64 := (bs ! (unat c div 64)) OR push_bit (unat c mod 64) 1]"

definition BITOP_and :: "u64 list \<Rightarrow> u8 \<Rightarrow> u64" where
  "BITOP_and bs c = (bs ! (unat c div 64)) AND push_bit (unat c mod 64) 1"

partial_function (option) byteset_loop :: "bytes \<Rightarrow> nat \<Rightarrow> u64 list \<Rightarrow> u64 list option" where
  "byteset_loop m c bs =
     (if m c \<noteq> 0 \<and> BITOP_or bs (m c) ! (unat (m c) div 64) \<noteq> 0
      then byteset_loop m (c + 1) (BITOP_or bs (m c)) else Some bs)"

partial_function (option) same_loop :: "bytes \<Rightarrow> nat \<Rightarrow> nat \<Rightarrow> nat option" where
  "same_loop m s c = (if m s = m c then same_loop m (s + 1) c else Some s)"

partial_function (option) span_loop :: "bytes \<Rightarrow> u64 list \<Rightarrow> nat \<Rightarrow> nat option" where
  "span_loop m bs s = (if m s \<noteq> 0 \<and> BITOP_and bs (m s) \<noteq> 0 then span_loop m bs (s + 1) else Some s)"

partial_function (option) cspan_loop :: "bytes \<Rightarrow> u64 list \<Rightarrow> nat \<Rightarrow> nat option" where
  "cspan_loop m bs s = (if m s \<noteq> 0 \<and> \<not> BITOP_and bs (m s) \<noteq> 0 then cspan_loop m bs (s + 1) else Some s)"

definition strspn :: "bytes \<Rightarrow> nat \<Rightarrow> nat \<Rightarrow> nat option" where
  "strspn m s c =
     (if m c = 0 then Some 0
      else if m (c + 1) = 0 then map_option (\<lambda>e. e - s) (same_loop m s c)
      else case byteset_loop m c byteset_empty of
        None \<Rightarrow> None
      | Some bs \<Rightarrow> map_option (\<lambda>e. e - s) (span_loop m bs s))"

definition ONES :: u64 where
  "ONES = (-1) div 255"

definition HIGHS :: u64 where
  "HIGHS = ONES * (255 div 2 + 1)"

definition HASZERO :: "u64 \<Rightarrow> u64" where
  "HASZERO x = (x - ONES) AND NOT x AND HIGHS"

text \<open>The alignment loop: either the answer is found or an aligned address is reached.\<close>

partial_function (option) align_loop :: "bytes \<Rightarrow> nat \<Rightarrow> u8 \<Rightarrow> (nat + nat) option" where
  "align_loop m s c =
     (if s mod 8 \<noteq> 0 then (if m s = 0 \<or> m s = c then Some (Inl s) else align_loop m (s + 1) c)
      else Some (Inr s))"

partial_function (option) word_loop :: "bytes \<Rightarrow> nat \<Rightarrow> u64 \<Rightarrow> nat option" where
  "word_loop m w k =
     (if HASZERO (read64 m w) = 0 \<and> HASZERO (read64 m w XOR k) = 0 then word_loop m (w + 8) k
      else Some w)"

partial_function (option) byte_loop :: "bytes \<Rightarrow> nat \<Rightarrow> u8 \<Rightarrow> nat option" where
  "byte_loop m s c = (if m s \<noteq> 0 \<and> m s \<noteq> c then byte_loop m (s + 1) c else Some s)"

definition strchrnul :: "bytes \<Rightarrow> nat \<Rightarrow> u32 \<Rightarrow> nat option" where
  "strchrnul m s c' =
     (let c = (ucast c' :: u8) in
      if c = 0 then map_option (\<lambda>n. s + n) (strlen m s)
      else case align_loop m s c of
        None \<Rightarrow> None
      | Some (Inl p) \<Rightarrow> Some p
      | Some (Inr p) \<Rightarrow> (case word_loop m p (ONES * ucast c) of
            None \<Rightarrow> None
          | Some w \<Rightarrow> byte_loop m w c))"

definition strcspn :: "bytes \<Rightarrow> nat \<Rightarrow> nat \<Rightarrow> nat option" where
  "strcspn m s c =
     (if m c \<noteq> 0 \<and> m (c + 1) \<noteq> 0
      then case byteset_loop m c byteset_empty of
             None \<Rightarrow> None
           | Some bs \<Rightarrow> map_option (\<lambda>e. e - s) (cspan_loop m bs s)
      else map_option (\<lambda>e. e - s) (strchrnul m s (ucast (m c))))"

definition strpbrk :: "bytes \<Rightarrow> nat \<Rightarrow> nat \<Rightarrow> nat option" where
  "strpbrk m s b = map_option (\<lambda>n. if m (s + n) \<noteq> 0 then s + n else 0) (strcspn m s b)"

definition strchr :: "bytes \<Rightarrow> nat \<Rightarrow> u32 \<Rightarrow> nat option" where
  "strchr m s c = map_option (\<lambda>r. if m r = ucast c then r else 0) (strchrnul m s c)"

definition lfind :: "bytes \<Rightarrow> nat \<Rightarrow> u8 \<Rightarrow> nat option" where
  "lfind m str accept = strchr m str (ucast accept)"

text \<open>Result of \<^verbatim>\<open>strtok_r\<close>: the token (0 is \<^verbatim>\<open>NULL\<close>), the new \<^verbatim>\<open>*saveptr\<close> and the memory.\<close>

definition strtok_r :: "bytes \<Rightarrow> nat \<Rightarrow> nat \<Rightarrow> nat \<Rightarrow> (nat \<times> nat \<times> bytes) option" where
  "strtok_r m str0 delim saveptr =
     (let str1 = (if str0 = 0 then saveptr else str0) in
      case strspn m str1 delim of
        None \<Rightarrow> None
      | Some n \<Rightarrow>
          let str2 = str1 + n in
          if m str2 = 0 then Some (0, str2, m)
          else (case strpbrk m str2 delim of
              None \<Rightarrow> None
            | Some str3 \<Rightarrow>
                if str3 = 0 then map_option (\<lambda>e. (str2, e, m)) (lfind m str2 0)
                else Some (str2, str3 + 1, m(str3 := 0))))"

section \<open>Strings in memory\<close>

fun cstr :: "bytes \<Rightarrow> nat \<Rightarrow> u8 list \<Rightarrow> bool" where
  "cstr m p [] = (m p = 0)"
| "cstr m p (x # s) = (m p = x \<and> x \<noteq> 0 \<and> cstr m (p + 1) s)"

lemma cstr_nonzero: "cstr m p s \<Longrightarrow> 0 \<notin> set s"
  by (induction m p s rule: cstr.induct) auto

lemma cstr_nth: "cstr m p s \<Longrightarrow> i < length s \<Longrightarrow> m (p + i) = s ! i"
proof (induction m p s arbitrary: i rule: cstr.induct)
  case (2 m p x s)
  then show ?case by (cases i) auto
qed simp

lemma cstr_end: "cstr m p s \<Longrightarrow> m (p + length s) = 0"
  by (induction m p s rule: cstr.induct) auto

lemma cstr_append:
  "cstr m p (s @ t) \<longleftrightarrow> (\<forall>i<length s. m (p + i) = s ! i \<and> s ! i \<noteq> 0) \<and> cstr m (p + length s) t"
proof (induction s arbitrary: p)
  case (Cons x s)
  then show ?case by (auto simp: All_less_Suc2)
qed simp

lemma cstr_iff: "cstr m p s \<longleftrightarrow> (\<forall>i<length s. m (p + i) = s ! i) \<and> 0 \<notin> set s \<and> m (p + length s) = 0"
  using cstr_append [of m p s "[]"] by (auto simp: in_set_conv_nth)

lemma cstr_drop: "cstr m p s \<Longrightarrow> n \<le> length s \<Longrightarrow> cstr m (p + n) (drop n s)"
  using cstr_append [of m p "take n s" "drop n s"] by simp

lemma cstr_unique: "cstr m p s \<Longrightarrow> cstr m p t \<Longrightarrow> s = t"
proof (induction s arbitrary: p t)
  case Nil
  then show ?case by (cases t) auto
next
  case (Cons x s)
  then show ?case by (cases t) auto
qed

lemma strlen_loop_cstr: "cstr m p s \<Longrightarrow> strlen_loop m p n = Some (n + length s)"
proof (induction m p s arbitrary: n rule: cstr.induct)
  case (1 m p)
  then show ?case by (simp add: strlen_loop.simps)
next
  case (2 m p x s)
  then show ?case by (subst strlen_loop.simps) simp
qed

lemma strlen_cstr: "cstr m p s \<Longrightarrow> strlen m p = Some (length s)"
  by (simp add: strlen_def strlen_loop_cstr)

lemma strcmp_cstr:
  assumes "cstr m p s" "cstr m q t"
  shows "strcmp m p q = Some (if s = t then 0 else if s < t then -1 else 1)"
  using assms
proof (induction m p s arbitrary: q t rule: cstr.induct)
  case (1 m p)
  then show ?case by (cases t; subst strcmp.simps) (auto simp: Let_def word_gt_0)
next
  case (2 m p x s)
  show ?case
  proof (cases t)
    case Nil
    with "2.prems" show ?thesis by (subst strcmp.simps) (auto simp: Let_def word_gt_0)
  next
    case (Cons y t')
    have IH: "x = y \<Longrightarrow> strcmp m (p + 1) (q + 1) = Some (if s = t' then 0 else if s < t' then -1 else 1)"
      using "2.prems" Cons by (intro "2.IH") auto
    consider "x = y" | "x < y" | "y < x" by (rule linorder_cases)
    then show ?thesis
      using "2.prems" Cons IH by cases (subst strcmp.simps, simp add: Let_def)+
  qed
qed

text \<open>\<^verbatim>\<open>strncmp\<close> never returns a positive number.\<close>

lemma strncmp_cstr:
  assumes "cstr m p s" "cstr m q t"
  shows "strncmp m p q n = (if take n s = take n t then 0 else -1)"
  using assms
proof (induction n arbitrary: p q s t)
  case (Suc n)
  show ?case
  proof (cases s; cases t)
    fix x s' y t' assume "s = x # s'" "t = y # t'"
    with Suc.prems Suc.IH [of "p + 1" s' "q + 1" t'] show ?thesis
      by (cases "x < y"; cases "x = y") (auto simp: Let_def)
  qed (use Suc.prems in \<open>auto simp: Let_def word_gt_0\<close>)
qed simp

section \<open>The zero-byte test\<close>

text \<open>
  The test \<^verbatim>\<open>HASZERO\<close> on integers, byte by byte: \<open>hz k x\<close> is the test on \<open>k\<close> bytes, \<open>ones k\<close> and
  \<open>highs k\<close> the constants with \<open>k\<close> bytes 0x01 and 0x80.
\<close>

fun ones :: "nat \<Rightarrow> int" where
  "ones 0 = 0" | "ones (Suc k) = 1 + 256 * ones k"

fun highs :: "nat \<Rightarrow> int" where
  "highs 0 = 0" | "highs (Suc k) = 128 + 256 * highs k"

definition hz :: "nat \<Rightarrow> int \<Rightarrow> int" where
  "hz k x = (x - ones k) AND NOT x AND highs k"

lemma byte_split_bit:
  assumes "0 \<le> (b :: int)" "b < 256"
  shows "bit (b + 256 * y) n \<longleftrightarrow> (if n < 8 then bit b n else bit y (n - 8))"
proof -
  have b: "\<not> bit b n" if "8 \<le> n" for n
  proof -
    have "b < 2 ^ n"
      using assms(2) power_increasing [OF that, of "2 :: int"] by simp
    with assms(1) show ?thesis by (simp add: bit_iff_odd)
  qed
  have "b + push_bit 8 y = b OR push_bit 8 y"
    by (rule disjunctive_add) (use b in \<open>auto simp: bit_push_bit_iff\<close>)
  then have "b + 256 * y = b OR push_bit 8 y"
    by (simp add: push_bit_eq_mult mult.commute)
  then show ?thesis
    using b [of n] by (auto simp: bit_or_iff bit_push_bit_iff)
qed

lemma byte_split_and:
  assumes "0 \<le> (b :: int)" "b < 256" "0 \<le> c" "c < 256"
  shows "(b + 256 * y) AND (c + 256 * z) = (b AND c) + 256 * (y AND z)"
proof (rule bit_eqI)
  fix n
  have "0 \<le> b AND c" "b AND c < 256"
    using assms and_less_eq [of b c] by (auto intro: order.strict_trans1)
  then show "bit ((b + 256 * y) AND (c + 256 * z)) n = bit ((b AND c) + 256 * (y AND z)) n"
    using assms by (simp add: bit_and_iff byte_split_bit)
qed

lemma byte_split_not: "NOT (b + 256 * y) = (255 - b) + 256 * NOT (y :: int)"
  by (simp add: not_eq_complement algebra_simps)

lemma low_byte_no_zero:
  assumes "1 \<le> (b :: int)" "b < 256"
  shows "(b - 1) AND (255 - b) AND 128 = 0"
proof (rule bit_eqI)
  fix n
  have "bit (128 :: int) n \<longleftrightarrow> n = 7"
    using bit_exp_iff [where ?'a = int, of 7 n] by simp
  moreover have "\<not> (bit (b - 1) 7 \<and> bit (255 - b) 7)"
  proof (cases "b \<le> 128")
    case True
    with assms have "(b - 1) div 128 = 0" by simp
    then show ?thesis by (simp add: bit_iff_odd)
  next
    case False
    with assms have "(255 - b) div 128 = 0" by simp
    then show ?thesis by (simp add: bit_iff_odd)
  qed
  ultimately show "bit ((b - 1) AND (255 - b) AND 128) n = bit 0 n"
    by (auto simp: bit_and_iff)
qed

lemma hz_Suc:
  assumes "0 \<le> (b :: int)" "b < 256"
  shows "hz (Suc k) (b + 256 * y) = (if b = 0 then 128 + 256 * ((y - ones k - 1) AND NOT y AND highs k)
    else 256 * hz k y)"
proof (cases "b = 0")
  case True
  define z where "z = y - ones k - 1"
  have eq: "0 + 256 * y - ones (Suc k) = 255 + 256 * z" "NOT (0 + 256 * y) = 255 + 256 * NOT y"
    using byte_split_not [of 0 y] by (simp_all add: z_def)
  show ?thesis
    unfolding hz_def True eq highs.simps z_def [symmetric] by (simp add: byte_split_and)
next
  case False
  define z where "z = y - ones k"
  have eq: "b + 256 * y - ones (Suc k) = (b - 1) + 256 * z" "NOT (b + 256 * y) = (255 - b) + 256 * NOT y"
    using byte_split_not [of b y] by (simp_all add: z_def)
  have low: "(255 - b) AND 128 \<ge> 0" "(255 - b) AND 128 < 256"
    using assms and_less_eq [of "255 - b" 128] by (auto intro: order.strict_trans1)
  have "hz (Suc k) (b + 256 * y) = ((b - 1) AND (255 - b) AND 128) + 256 * (z AND NOT y AND highs k)"
    unfolding hz_def eq highs.simps using False assms low by (simp add: byte_split_and)
  then show ?thesis
    using False assms low_byte_no_zero [of b] by (simp add: hz_def z_def)
qed

text \<open>The bytes of a little-endian load as an integer.\<close>

fun le_int :: "bytes \<Rightarrow> nat \<Rightarrow> nat \<Rightarrow> int" where
  "le_int m a 0 = 0"
| "le_int m a (Suc k) = uint (m a) + 256 * le_int m (Suc a) k"

lemma hz_le_int: "hz k (le_int m a k) \<noteq> 0 \<longleftrightarrow> (\<exists>i<k. m (a + i) = 0)"
proof (induction k arbitrary: a)
  case 0
  then show ?case by (simp add: hz_def)
next
  case (Suc k)
  have b: "0 \<le> uint (m a)" "uint (m a) < 256"
    using uint_range_size [of "m a"] by (auto simp: word_size)
  have "hz (Suc k) (le_int m a (Suc k)) \<noteq> 0 \<longleftrightarrow> m a = 0 \<or> hz k (le_int m (Suc a) k) \<noteq> 0"
  proof (cases "m a = 0")
    case True
    have "128 + 256 * z \<noteq> 0" for z :: int by presburger
    then show ?thesis using True hz_Suc [OF b, of k "le_int m (Suc a) k"] by simp
  next
    case False
    then have "uint (m a) \<noteq> 0" by (simp add: uint_0_iff)
    with False show ?thesis using hz_Suc [OF b, of k "le_int m (Suc a) k"] by simp
  qed
  then show ?case
    using Suc.IH [of "Suc a"] by (simp add: Ex_less_Suc2)
qed

lemma le_int_range: "0 \<le> le_int m a k \<and> le_int m a k < 256 ^ k"
proof (induction k arbitrary: a)
  case (Suc k)
  have b: "0 \<le> uint (m a)" "uint (m a) < 256"
    using uint_range_size [of "m a"] by (auto simp: word_size)
  have "c + 256 * x < 256 * P" if "c < 256" "x < P" for c x P :: int using that by linarith
  with b Suc.IH [of "Suc a"] show ?case by simp
qed simp

lemmas le_int_bounds = le_int_range [THEN conjunct1] le_int_range [THEN conjunct2]

lemma uint_read_le: "k \<le> 8 \<Longrightarrow> uint (read_le m a k) = le_int m a k"
proof (induction k arbitrary: a)
  case (Suc k)
  have b: "0 \<le> uint (m a)" "uint (m a) < 256"
    using uint_range_size [of "m a"] by (auto simp: word_size)
  have IH: "uint (read_le m (Suc a) k) = le_int m (Suc a) k"
    using Suc by simp
  have "le_int m (Suc a) k < 256 ^ k" by (rule le_int_bounds)
  also have "(256 :: int) ^ k \<le> 256 ^ 7"
    using Suc.prems by (intro power_increasing) simp_all
  finally have lim: "256 * le_int m (Suc a) k < 2 ^ 64" by simp
  have "uint (push_bit 8 (read_le m (Suc a) k)) = 256 * le_int m (Suc a) k"
    using lim le_int_bounds(1) [of m "Suc a" k]
    by (simp add: push_bit_eq_mult uint_word_ariths IH mult.commute)
  moreover have "uint (ucast (m a) :: u64) = uint (m a)"
    using b by (simp add: unsigned_ucast_eq take_bit_int_eq_self_iff)
  ultimately have "uint (read_le m a (Suc k)) = uint (m a) OR 256 * le_int m (Suc a) k"
    by (simp add: unsigned_or_eq)
  also have "\<dots> = uint (m a) + 256 * le_int m (Suc a) k"
  proof (rule bit_eqI)
    fix n
    have "bit (256 * le_int m (Suc a) k) n \<longleftrightarrow> (if n < 8 then False else bit (le_int m (Suc a) k) (n - 8))"
      using byte_split_bit [of 0 "le_int m (Suc a) k" n] by simp
    moreover have "8 \<le> n \<Longrightarrow> \<not> bit (uint (m a)) n"
      using bit_imp_le_length [of "m a" n] by (auto simp: bit_uint_iff)
    ultimately show "bit (uint (m a) OR 256 * le_int m (Suc a) k) n =
        bit (uint (m a) + 256 * le_int m (Suc a) k) n"
      by (auto simp: bit_or_iff byte_split_bit b)
  qed
  finally show ?case by simp
qed simp

lemma uint_HASZERO: "uint (HASZERO w) = hz 8 (uint w)"
proof -
  have n: "ones 8 = 72340172838076673" "highs 8 = 9259542123273814144"
    by (simp_all add: numeral_eq_Suc)
  have c: "uint ONES = ones 8" "uint HIGHS = highs 8"
    unfolding n by (simp_all add: ONES_def HIGHS_def)
  have h: "take_bit 64 (highs 8) = highs 8" unfolding n by simp
  have "uint (HASZERO w) = take_bit 64 (uint w - ones 8) AND take_bit 64 (NOT (uint w)) AND highs 8"
    by (simp add: HASZERO_def unsigned_and_eq unsigned_not_eq uint_word_ariths take_bit_eq_mod c and.assoc)
  also have "\<dots> = take_bit 64 ((uint w - ones 8) AND NOT (uint w) AND highs 8)"
    by (simp only: take_bit_and h)
  also have "\<dots> = (uint w - ones 8) AND NOT (uint w) AND highs 8"
  proof (rule bit_eqI)
    fix n
    have "bit (highs 8) n \<longleftrightarrow> n < 64 \<and> bit (highs 8) n"
      by (subst (1) h [symmetric]) (simp add: bit_take_bit_iff)
    then show "bit (take_bit 64 ((uint w - ones 8) AND NOT (uint w) AND highs 8)) n =
        bit ((uint w - ones 8) AND NOT (uint w) AND highs 8) n"
      by (simp only: bit_take_bit_iff bit_and_iff) blast
  qed
  finally show ?thesis by (simp add: hz_def)
qed

lemma HASZERO_read64: "HASZERO (read64 m a) \<noteq> 0 \<longleftrightarrow> (\<exists>i<8. m (a + i) = 0)"
proof -
  have "HASZERO (read64 m a) \<noteq> 0 \<longleftrightarrow> uint (HASZERO (read64 m a)) \<noteq> 0" by (simp add: uint_0_iff)
  also have "\<dots> \<longleftrightarrow> hz 8 (le_int m a 8) \<noteq> 0"
    by (simp only: uint_HASZERO read64_def uint_read_le [OF order_refl])
  finally show ?thesis by (simp only: hz_le_int)
qed

lemma read_le_xor: "read_le (\<lambda>x. f x XOR g x) a k = read_le f a k XOR read_le g a k"
proof (induction k arbitrary: a)
  case (Suc k)
  have b: "\<not> bit (c :: u8) n" if "8 \<le> n" for c n using that bit_imp_le_length [of c n] by auto
  have "ucast (c XOR d :: u8) OR push_bit 8 (x XOR y) =
      (ucast c OR push_bit 8 x) XOR (ucast d OR push_bit 8 y :: u64)" for c d x y
    by (rule bit_word_eqI) (auto simp: bit_or_iff bit_xor_iff bit_push_bit_iff bit_ucast_iff dest: b)
  with Suc.IH [of "Suc a"] show ?case by simp
qed simp

lemma read64_const: "read64 (\<lambda>_. c) a = ONES * ucast c"
proof -
  have "le_int (\<lambda>_. c) a k = ones k * uint c" for k
    by (induction k arbitrary: a) (auto simp: algebra_simps)
  then have "uint (read64 (\<lambda>_. c) a) = ones 8 * uint c"
    by (simp only: read64_def uint_read_le [OF order_refl])
  moreover have "ones 8 = 72340172838076673" by (simp add: numeral_eq_Suc)
  moreover have "uint c < 256" "0 \<le> uint c"
    using uint_range_size [of c] by (auto simp: word_size)
  then have "uint (ONES * ucast c) = 72340172838076673 * uint c"
    by (simp add: ONES_def uint_word_ariths unsigned_ucast_eq take_bit_int_eq_self)
  ultimately have "uint (read64 (\<lambda>_. c) a) = uint (ONES * ucast c)" by simp
  then show ?thesis by (rule word_uint_eqI)
qed

lemma HASZERO_xor: "HASZERO (read64 m a XOR (ONES * ucast c)) \<noteq> 0 \<longleftrightarrow> (\<exists>i<8. m (a + i) = c)"
proof -
  have "read64 m a XOR (ONES * ucast c) = read64 (\<lambda>x. m x XOR c) a"
    using read_le_xor [of m "\<lambda>_. c" a 8] read64_const [of c a] by (simp only: read64_def)
  moreover have "x XOR c = 0 \<longleftrightarrow> x = c" for x :: u8
    by (metis xor.commute xor.left_neutral xor_self_eq xor.assoc xor.right_neutral)
  ultimately show ?thesis by (simp only: HASZERO_read64)
qed

section \<open>The searches find the first matching byte\<close>

text \<open>\<open>first_stop m c p q\<close>: \<open>q\<close> is the first address from \<open>p\<close> on that holds \<open>c\<close> or the final zero.\<close>

definition first_stop :: "bytes \<Rightarrow> u8 \<Rightarrow> nat \<Rightarrow> nat \<Rightarrow> bool" where
  "first_stop m c p q \<longleftrightarrow> p \<le> q \<and> (m q = 0 \<or> m q = c) \<and> (\<forall>x. p \<le> x \<and> x < q \<longrightarrow> m x \<noteq> 0 \<and> m x \<noteq> c)"

lemma first_stop_later: "first_stop m c p q \<Longrightarrow> p \<le> p' \<Longrightarrow> p' \<le> q \<Longrightarrow> first_stop m c p' q"
  by (auto simp: first_stop_def)

lemma first_stop_here: "first_stop m c p q \<Longrightarrow> (m p = 0 \<or> m p = c) \<longleftrightarrow> p = q"
  by (metis first_stop_def le_eq_less_or_eq)

lemma byte_loop_stop: "first_stop m c p q \<Longrightarrow> byte_loop m p c = Some q"
proof (induction "q - p" arbitrary: p)
  case 0
  then have "p = q" by (simp add: first_stop_def)
  with 0 show ?case by (subst byte_loop.simps) (auto simp: first_stop_def)
next
  case (Suc n)
  then have "p < q" by simp
  moreover have "m p \<noteq> 0" "m p \<noteq> c" using Suc.prems \<open>p < q\<close> by (auto simp: first_stop_def)
  moreover have "byte_loop m (p + 1) c = Some q"
    using Suc.hyps(2) \<open>p < q\<close> by (intro Suc.hyps(1) first_stop_later [OF Suc.prems]) auto
  ultimately show ?case by (subst byte_loop.simps) simp
qed

lemma align_loop_stop:
  assumes "first_stop m c p q"
  shows "align_loop m p c = Some (Inl q) \<or> (\<exists>p'. align_loop m p c = Some (Inr p') \<and> p \<le> p' \<and> p' \<le> q)"
  using assms
proof (induction "q - p" arbitrary: p)
  case 0
  then have "p = q" by (simp add: first_stop_def)
  with 0 show ?case by (subst (1 2) align_loop.simps) (auto simp: first_stop_def)
next
  case (Suc n)
  then have "p < q" by simp
  moreover have "m p \<noteq> 0" "m p \<noteq> c" using Suc.prems \<open>p < q\<close> by (auto simp: first_stop_def)
  moreover have "align_loop m (p + 1) c = Some (Inl q) \<or>
      (\<exists>p'. align_loop m (p + 1) c = Some (Inr p') \<and> p + 1 \<le> p' \<and> p' \<le> q)"
    using Suc.hyps(2) \<open>p < q\<close> by (intro Suc.hyps(1) first_stop_later [OF Suc.prems]) auto
  ultimately show ?case by (subst (1 2) align_loop.simps) auto
qed

lemma word_loop_stop:
  assumes "first_stop m c p q"
  shows "\<exists>w. word_loop m p (ONES * ucast c) = Some w \<and> p \<le> w \<and> w \<le> q"
  using assms
proof (induction "q - p" arbitrary: p rule: less_induct)
  case less
  show ?case
  proof (cases "\<exists>i<8. m (p + i) = 0 \<or> m (p + i) = c")
    case True
    then have "HASZERO (read64 m p) \<noteq> 0 \<or> HASZERO (read64 m p XOR ONES * ucast c) \<noteq> 0"
      by (auto simp: HASZERO_read64 HASZERO_xor)
    with less.prems show ?thesis by (subst word_loop.simps) (auto simp: first_stop_def)
  next
    case False
    then have "HASZERO (read64 m p) = 0" "HASZERO (read64 m p XOR ONES * ucast c) = 0"
      using HASZERO_read64 [of m p] HASZERO_xor [of m p c] by blast+
    moreover have "p + 8 \<le> q"
    proof (rule ccontr)
      assume "\<not> p + 8 \<le> q"
      then have "q - p < 8" "p + (q - p) = q" using less.prems by (auto simp: first_stop_def)
      with False less.prems show False unfolding first_stop_def by metis
    qed
    moreover have "\<exists>w. word_loop m (p + 8) (ONES * ucast c) = Some w \<and> p + 8 \<le> w \<and> w \<le> q"
      using \<open>p + 8 \<le> q\<close> by (intro less.hyps first_stop_later [OF less.prems]) auto
    ultimately show ?thesis by (subst word_loop.simps) auto
  qed
qed

lemma strchrnul_stop:
  assumes "first_stop m (ucast c') p q"
  shows "strchrnul m p c' = Some q"
proof (cases "(ucast c' :: u8) = 0")
  case True
  have "cstr m p (bytes_at m p (q - p))"
    using assms True by (auto simp: cstr_iff first_stop_def bytes_at_def)
  then have "strlen m p = Some (q - p)" using strlen_cstr by fastforce
  with True assms show ?thesis by (simp add: strchrnul_def first_stop_def)
next
  case False
  from align_loop_stop [OF assms] show ?thesis
  proof
    assume "align_loop m p (ucast c') = Some (Inl q)"
    with False show ?thesis by (simp add: strchrnul_def)
  next
    assume "\<exists>p'. align_loop m p (ucast c') = Some (Inr p') \<and> p \<le> p' \<and> p' \<le> q"
    then obtain p' where p': "align_loop m p (ucast c') = Some (Inr p')" "p \<le> p'" "p' \<le> q" by blast
    from word_loop_stop [OF first_stop_later [OF assms p'(2,3)]] obtain w where
      w: "word_loop m p' (ONES * ucast (ucast c' :: u8)) = Some w" "p' \<le> w" "w \<le> q" by blast
    have "byte_loop m w (ucast c') = Some q"
      using p' w by (intro byte_loop_stop first_stop_later [OF assms]) auto
    with False p'(1) w(1) show ?thesis by (simp add: strchrnul_def)
  qed
qed

lemma first_stop_cstr:
  assumes "cstr m p s"
  shows "first_stop m c p (p + length (takeWhile (\<lambda>x. x \<noteq> c) s))"
  using assms
proof (induction m p s rule: cstr.induct)
  case (2 m p x s)
  show ?case
  proof (cases "x = c")
    case True
    with "2.prems" show ?thesis by (auto simp: first_stop_def)
  next
    case False
    with 2 have IH: "first_stop m c (p + 1) (p + 1 + length (takeWhile (\<lambda>x. x \<noteq> c) s))" by simp
    have "m y \<noteq> 0 \<and> m y \<noteq> c" if "p \<le> y" "y < p + 1 + length (takeWhile (\<lambda>x. x \<noteq> c) s)" for y
      using that IH False "2.prems" by (cases "y = p") (auto simp: first_stop_def)
    with IH False show ?thesis by (auto simp: first_stop_def)
  qed
qed (auto simp: first_stop_def)

section \<open>Byte sets\<close>

lemma bit_shift_one: "k < 64 \<Longrightarrow> bit (push_bit k 1 :: u64) n \<longleftrightarrow> n = k"
  by (auto simp: bit_exp_iff)

lemma ucast_8_32_8: "ucast (ucast (c :: u8) :: u32) = c"
  by (rule bit_word_eqI) (simp add: bit_ucast_iff)

lemma BITOP_and_iff: "BITOP_and bs c \<noteq> 0 \<longleftrightarrow> bit (bs ! (unat c div 64)) (unat c mod 64)"
proof -
  have "BITOP_and bs c \<noteq> 0 \<longleftrightarrow> (\<exists>n. bit (BITOP_and bs c) n)"
    by (metis bit_0_eq bit_eqI bot_apply bot_bool_def)
  then show ?thesis
    unfolding BITOP_and_def bit_and_iff by (simp only: bit_shift_one mod_less_divisor zero_less_numeral) blast
qed

lemma unat_u8_less: "unat (c :: u8) < 256"
  using unsigned_less [of c] by simp

lemma BITOP_or_test:
  assumes "length bs = 4"
  shows "BITOP_and (BITOP_or bs d) c \<noteq> 0 \<longleftrightarrow> c = d \<or> BITOP_and bs c \<noteq> 0"
    "length (BITOP_or bs d) = 4" "BITOP_or bs d ! (unat d div 64) \<noteq> 0"
proof -
  have d: "unat d div 64 < length bs"
    using assms unat_u8_less [of d] by simp
  have b: "bit (push_bit (unat d mod 64) 1 :: u64) n \<longleftrightarrow> n = unat d mod 64" for n
    by (rule bit_shift_one) simp
  have "c = d \<longleftrightarrow> unat c div 64 = unat d div 64 \<and> unat c mod 64 = unat d mod 64"
    by (metis div_mult_mod_eq unsigned_word_eqI)
  then show "BITOP_and (BITOP_or bs d) c \<noteq> 0 \<longleftrightarrow> c = d \<or> BITOP_and bs c \<noteq> 0"
    using d b unfolding BITOP_and_iff BITOP_or_def
    by (cases "unat c div 64 = unat d div 64") (auto simp only: nth_list_update_eq nth_list_update_neq bit_or_iff)
  show "length (BITOP_or bs d) = 4" by (simp add: BITOP_or_def assms)
  have "bit (BITOP_or bs d ! (unat d div 64)) (unat d mod 64)"
    using d b unfolding BITOP_or_def by (simp only: nth_list_update_eq bit_or_iff simp_thms)
  then show "BITOP_or bs d ! (unat d div 64) \<noteq> 0" by (metis bit_0_eq bot_apply bot_bool_def)
qed

lemma byteset_loop_cstr:
  assumes "cstr m p cs" "length bs = 4"
  shows "\<exists>bs'. byteset_loop m p bs = Some bs' \<and> (\<forall>c. BITOP_and bs' c \<noteq> 0 \<longleftrightarrow> c \<in> set cs \<or> BITOP_and bs c \<noteq> 0)"
  using assms
proof (induction m p cs arbitrary: bs rule: cstr.induct)
  case (1 m p)
  then show ?case by (simp add: byteset_loop.simps)
next
  case (2 m p x cs)
  note t = BITOP_or_test [OF "2.prems"(2)]
  have "\<exists>bs'. byteset_loop m (p + 1) (BITOP_or bs x) = Some bs' \<and>
      (\<forall>c. BITOP_and bs' c \<noteq> 0 \<longleftrightarrow> c \<in> set cs \<or> BITOP_and (BITOP_or bs x) c \<noteq> 0)"
    using "2.prems" t(2) by (intro "2.IH") auto
  then obtain bs' where b: "byteset_loop m (p + 1) (BITOP_or bs x) = Some bs'"
    "\<And>c. BITOP_and bs' c \<noteq> 0 \<longleftrightarrow> c \<in> set cs \<or> BITOP_and (BITOP_or bs x) c \<noteq> 0" by blast
  have "byteset_loop m p bs = Some bs'"
    using "2.prems" t(3) [of x] b(1) by (subst byteset_loop.simps) auto
  with b(2) t(1) show ?case by auto
qed

lemma byteset_empty_test: "BITOP_and byteset_empty c = 0" "length byteset_empty = 4"
proof -
  have "unat c div 64 < 4" using unat_u8_less [of c] by simp
  then consider "unat c div 64 = 0" | "unat c div 64 = 1" | "unat c div 64 = 2" | "unat c div 64 = 3"
    by linarith
  then have "byteset_empty ! (unat c div 64) = 0"
    by cases (simp_all only: byteset_empty_def, simp_all)
  then show "BITOP_and byteset_empty c = 0" by (simp add: BITOP_and_def)
qed (simp add: byteset_empty_def)

lemma byteset_cstr:
  assumes "cstr m p cs"
  obtains bs where "byteset_loop m p byteset_empty = Some bs" "\<And>c. BITOP_and bs c \<noteq> 0 \<longleftrightarrow> c \<in> set cs"
  using byteset_loop_cstr [OF assms byteset_empty_test(2)] byteset_empty_test(1) by auto

lemma span_loop_cstr:
  assumes "cstr m p s" "\<And>c. BITOP_and bs c \<noteq> 0 \<longleftrightarrow> c \<in> set cs"
  shows "span_loop m bs p = Some (p + length (takeWhile (\<lambda>x. x \<in> set cs) s))"
  using assms(1)
proof (induction m p s rule: cstr.induct)
  case (2 m p x s)
  with assms(2) [of x] show ?case by (subst span_loop.simps) simp
qed (simp add: span_loop.simps)

lemma cspan_loop_cstr:
  assumes "cstr m p s" "\<And>c. BITOP_and bs c \<noteq> 0 \<longleftrightarrow> c \<in> set cs"
  shows "cspan_loop m bs p = Some (p + length (takeWhile (\<lambda>x. x \<notin> set cs) s))"
  using assms(1)
proof (induction m p s rule: cstr.induct)
  case (2 m p x s)
  with assms(2) [of x] show ?case by (subst cspan_loop.simps) simp
qed (simp add: cspan_loop.simps)

lemma same_loop_cstr:
  assumes "cstr m p s" "m c \<noteq> 0"
  shows "same_loop m p c = Some (p + length (takeWhile (\<lambda>x. x = m c) s))"
  using assms
proof (induction m p s rule: cstr.induct)
  case (2 m p x s)
  then show ?case by (subst same_loop.simps) simp
qed (simp add: same_loop.simps)

lemma strspn_cstr:
  assumes "cstr m p s" "cstr m d cs"
  shows "strspn m p d = Some (length (takeWhile (\<lambda>x. x \<in> set cs) s))"
proof -
  obtain bs where bs: "byteset_loop m d byteset_empty = Some bs" "\<And>c. BITOP_and bs c \<noteq> 0 \<longleftrightarrow> c \<in> set cs"
    using byteset_cstr [OF assms(2)] by blast
  consider "cs = []" | x where "cs = [x]" | x y r where "cs = x # y # r"
    by (metis list.exhaust)
  then show ?thesis
  proof cases
    case 1
    with assms show ?thesis by (cases s) (auto simp: strspn_def)
  next
    case 2
    with assms(2) have "m d = x" "x \<noteq> 0" "m (d + 1) = 0" by auto
    with 2 same_loop_cstr [OF assms(1), of d] show ?thesis by (simp add: strspn_def)
  next
    case 3
    with assms(2) have "m d \<noteq> 0" "m (d + 1) \<noteq> 0" by auto
    with bs span_loop_cstr [OF assms(1) bs(2)] show ?thesis by (simp add: strspn_def)
  qed
qed

lemma strcspn_cstr:
  assumes "cstr m p s" "cstr m d cs"
  shows "strcspn m p d = Some (length (takeWhile (\<lambda>x. x \<notin> set cs) s))"
proof -
  obtain bs where bs: "byteset_loop m d byteset_empty = Some bs" "\<And>c. BITOP_and bs c \<noteq> 0 \<longleftrightarrow> c \<in> set cs"
    using byteset_cstr [OF assms(2)] by blast
  have ne: "takeWhile (\<lambda>x. x \<noteq> 0) s = s"
    using cstr_nonzero [OF assms(1)] by (subst takeWhile_eq_all_conv) auto
  have nul: "strchrnul m p (ucast c) = Some (p + length (takeWhile (\<lambda>x. x \<noteq> c) s))" for c :: u8
    by (rule strchrnul_stop) (simp add: ucast_8_32_8 first_stop_cstr [OF assms(1)])
  consider "cs = []" | x where "cs = [x]" | x y r where "cs = x # y # r"
    by (metis list.exhaust)
  then show ?thesis
  proof cases
    case 1
    with assms(2) have "m d = 0" by simp
    moreover have "takeWhile (\<lambda>x. x \<notin> set cs) s = s" using 1 by (subst takeWhile_eq_all_conv) simp
    ultimately show ?thesis using nul [of 0] ne by (simp only: strcspn_def) simp
  next
    case 2
    with assms(2) have "m d = x" "m (d + 1) = 0" by auto
    with 2 nul [of x] show ?thesis by (simp add: strcspn_def)
  next
    case 3
    with assms(2) have "m d \<noteq> 0" "m (d + 1) \<noteq> 0" by auto
    with bs cspan_loop_cstr [OF assms(1) bs(2)] show ?thesis by (simp add: strcspn_def)
  qed
qed

section \<open>Tokens\<close>

lemma strpbrk_cstr:
  assumes "cstr m p s" "cstr m d cs"
  shows "strpbrk m p d = Some (let n = length (takeWhile (\<lambda>x. x \<notin> set cs) s) in
    if n < length s then p + n else 0)"
proof -
  let ?n = "length (takeWhile (\<lambda>x. x \<notin> set cs) s)"
  have "?n \<le> length s" by (rule length_takeWhile_le)
  moreover have "m (p + ?n) \<noteq> 0 \<longleftrightarrow> ?n < length s"
    using cstr_nth [OF assms(1), of ?n] cstr_end [OF assms(1)] cstr_nonzero [OF assms(1)] calculation
    by (metis le_neq_implies_less less_irrefl nth_mem)
  ultimately show ?thesis
    by (simp add: strpbrk_def strcspn_cstr [OF assms] Let_def)
qed

lemma lfind_nul: "cstr m p s \<Longrightarrow> lfind m p 0 = Some (p + length s)"
proof -
  assume s: "cstr m p s"
  have "takeWhile (\<lambda>x. x \<noteq> 0) s = s"
    using cstr_nonzero [OF s] by (subst takeWhile_eq_all_conv) auto
  then have "first_stop m 0 p (p + length s)" using first_stop_cstr [OF s, of 0] by (simp only:)
  then have "strchrnul m p 0 = Some (p + length s)" by (intro strchrnul_stop) simp
  with cstr_end [OF s] show ?thesis by (simp add: lfind_def strchr_def)
qed

text \<open>The split \<^verbatim>\<open>strtok_r\<close> makes: skip delimiters, take the token, drop one delimiter.\<close>

definition tok_skip :: "u8 list \<Rightarrow> u8 list \<Rightarrow> u8 list" where
  "tok_skip cs s = dropWhile (\<lambda>x. x \<in> set cs) s"

definition tok_word :: "u8 list \<Rightarrow> u8 list \<Rightarrow> u8 list" where
  "tok_word cs s = takeWhile (\<lambda>x. x \<notin> set cs) (tok_skip cs s)"

definition tok_rest :: "u8 list \<Rightarrow> u8 list \<Rightarrow> u8 list" where
  "tok_rest cs s = tl (dropWhile (\<lambda>x. x \<notin> set cs) (tok_skip cs s))"

lemma cstr_prefix:
  assumes "cstr m p (s @ x # t)"
  shows "cstr (m(p + length s := 0)) p s" "cstr (m(p + length s := 0)) (p + length s + 1) t"
  using assms by (auto simp: cstr_append cstr_iff [of _ _ s] cstr_iff [of _ _ t] in_set_conv_nth)

text \<open>
  C17. \<^verbatim>\<open>strtok_r\<close> on a string and a string of delimiters returns. When only delimiters are left it
  returns \<^verbatim>\<open>NULL\<close>; otherwise it returns a pointer to the next maximal run of non-delimiters, which is now
  terminated, and the saved pointer is the rest of the string after one delimiter, so the following
  call continues exactly there. At most one byte of memory, a delimiter, is overwritten.
\<close>

theorem strtok_r_splits:
  assumes "cstr m p s" "cstr m d cs" "0 < p" "str0 = p \<or> (str0 = 0 \<and> saveptr = p)"
  shows "if tok_word cs s = []
     then strtok_r m str0 d saveptr = Some (0, p + length s, m)
     else \<exists>tok save m'. strtok_r m str0 d saveptr = Some (tok, save, m') \<and>
       tok = p + (length s - length (tok_skip cs s)) \<and> cstr m' tok (tok_word cs s) \<and>
       cstr m' save (tok_rest cs s) \<and>
       (\<forall>x. m' x \<noteq> m x \<longrightarrow> x = tok + length (tok_word cs s) \<and> m x \<in> set cs)"
proof -
  let ?n = "length (takeWhile (\<lambda>x. x \<in> set cs) s)"
  let ?t = "tok_skip cs s"
  have t: "?t = drop ?n s" by (simp add: tok_skip_def dropWhile_eq_drop)
  have "?n \<le> length s" by (rule length_takeWhile_le)
  then have n: "length s - length ?t = ?n" by (simp add: t)
  have ct: "cstr m (p + ?n) ?t" using cstr_drop [OF assms(1)] \<open>?n \<le> length s\<close> by (simp add: t)
  have str1: "(if str0 = 0 then saveptr else str0) = p" using assms(3,4) by auto
  have "tok_word cs s = [] \<longleftrightarrow> ?t = []"
  proof (cases ?t)
    case (Cons y ys)
    then have "y \<notin> set cs" using hd_dropWhile [of "\<lambda>x. x \<in> set cs" s] by (simp add: tok_skip_def)
    with Cons show ?thesis by (simp add: tok_word_def)
  qed (simp add: tok_word_def)
  moreover have "m (p + ?n) = 0 \<longleftrightarrow> ?t = []" using ct by (cases ?t) auto
  moreover have "strtok_r m str0 d saveptr = Some (0, p + length s, m)" if "?t = []"
    using that \<open>m (p + ?n) = 0 \<longleftrightarrow> ?t = []\<close> t \<open>?n \<le> length s\<close>
    by (simp add: strtok_r_def str1 strspn_cstr [OF assms(1,2)])
  moreover have "\<exists>tok save m'. strtok_r m str0 d saveptr = Some (tok, save, m') \<and>
       tok = p + (length s - length (tok_skip cs s)) \<and> cstr m' tok (tok_word cs s) \<and>
       cstr m' save (tok_rest cs s) \<and>
       (\<forall>x. m' x \<noteq> m x \<longrightarrow> x = tok + length (tok_word cs s) \<and> m x \<in> set cs)" if "?t \<noteq> []"
  proof (cases "dropWhile (\<lambda>x. x \<notin> set cs) ?t")
    case Nil
    have w: "tok_word cs s = ?t" "tok_rest cs s = []"
      using Nil by (simp add: tok_word_def dropWhile_eq_Nil_conv, simp only: tok_rest_def list.sel)
    have "strpbrk m (p + ?n) d = Some 0"
      using strpbrk_cstr [OF ct assms(2)] unfolding tok_word_def [symmetric] w(1) by simp
    then have "strtok_r m str0 d saveptr = Some (p + ?n, p + ?n + length ?t, m)"
      using that \<open>m (p + ?n) = 0 \<longleftrightarrow> ?t = []\<close> lfind_nul [OF ct]
      by (simp add: strtok_r_def str1 strspn_cstr [OF assms(1,2)] Let_def)
    with ct cstr_end [OF ct] w n show ?thesis by auto
  next
    case (Cons x r)
    let ?w = "tok_word cs s"
    have split: "?t = ?w @ x # r" "tok_rest cs s = r" "x \<in> set cs"
      using Cons takeWhile_dropWhile_id [of "\<lambda>x. x \<notin> set cs" ?t] hd_dropWhile [of "\<lambda>x. x \<notin> set cs" ?t]
      by (auto simp: tok_word_def tok_rest_def)
    have px: "m (p + ?n + length ?w) = x" using ct split(1) by (simp add: cstr_append)
    have "length ?w < length ?t" by (subst split(1)) simp
    then have "strtok_r m str0 d saveptr =
        Some (p + ?n, p + ?n + length ?w + 1, m(p + ?n + length ?w := 0))"
      using that \<open>m (p + ?n) = 0 \<longleftrightarrow> ?t = []\<close> strpbrk_cstr [OF ct assms(2)] assms(3)
      by (simp add: strtok_r_def str1 strspn_cstr [OF assms(1,2)] tok_word_def Let_def)
    moreover have "cstr (m(p + ?n + length ?w := 0)) (p + ?n) ?w"
      "cstr (m(p + ?n + length ?w := 0)) (p + ?n + length ?w + 1) r"
      using cstr_prefix [of m "p + ?n" ?w x r] ct split(1) by simp_all
    ultimately show ?thesis using split n px by auto
  qed
  ultimately show ?thesis by simp
qed

text \<open>A memory holding the string \<^verbatim>\<open>"/a/bc"\<close> at address 16 and \<^verbatim>\<open>"/"\<close> at address 32.\<close>

definition sample_mem :: bytes where
  "sample_mem = (\<lambda>_. 0)(16 := 47, 17 := 97, 18 := 47, 19 := 98, 20 := 99, 32 := 47)"

lemma sample_cstr: "cstr sample_mem 16 [47, 97, 47, 98, 99]" "cstr sample_mem 32 [47]"
  by (simp_all add: sample_mem_def)

theorem strtok_r_splits_witness:
  "\<exists>save m'. strtok_r sample_mem 16 32 0 = Some (17, save, m') \<and> cstr m' 17 [97] \<and> cstr m' save [98, 99]"
  using strtok_r_splits [OF sample_cstr, of 16 0] by (simp add: tok_word_def tok_skip_def tok_rest_def) blast

text \<open>
  C13. The word-at-a-time search of \<^verbatim>\<open>strchrnul\<close> returns, on every alignment of the string, the address
  of the first occurrence of the character or of the final zero, and \<^verbatim>\<open>strchr\<close> returns that address
  or \<^verbatim>\<open>NULL\<close> when the character does not occur.
\<close>

theorem strchrnul_finds_first:
  assumes "cstr m p s"
  shows "strchrnul m p c = Some (p + length (takeWhile (\<lambda>x. x \<noteq> ucast c) s)) \<and>
    strchr m p c = Some (if ucast c = (0 :: u8) \<or> ucast c \<in> set s
      then p + length (takeWhile (\<lambda>x. x \<noteq> ucast c) s) else 0)"
proof -
  let ?n = "length (takeWhile (\<lambda>x. x \<noteq> ucast c) s)"
  have r: "strchrnul m p c = Some (p + ?n)"
    by (rule strchrnul_stop [OF first_stop_cstr [OF assms]])
  have "m (p + ?n) = ucast c \<longleftrightarrow> ucast c = (0 :: u8) \<or> ucast c \<in> set s"
  proof (cases "ucast c \<in> set s")
    case True
    have lt: "?n < length s"
    proof (rule ccontr)
      assume "\<not> ?n < length s"
      then have "takeWhile (\<lambda>x. x \<noteq> ucast c) s = s" by (metis not_less take_all takeWhile_eq_take)
      with True show False unfolding takeWhile_eq_all_conv by blast
    qed
    then have "s ! ?n = ucast c" using nth_length_takeWhile [of "\<lambda>x. x \<noteq> ucast c" s] by blast
    with lt True cstr_nth [OF assms, of ?n] show ?thesis by simp
  next
    case False
    then have "takeWhile (\<lambda>x. x \<noteq> ucast c) s = s" by (subst takeWhile_eq_all_conv) auto
    then have "?n = length s" by (simp only:)
    with False cstr_end [OF assms] show ?thesis by auto
  qed
  with r show ?thesis by (simp add: strchr_def)
qed

theorem strchrnul_finds_first_witness:
  "strchrnul sample_mem 16 98 = Some 19 \<and> strchr sample_mem 16 120 = Some 0"
  using strchrnul_finds_first [OF sample_cstr(1), of 98] strchrnul_finds_first [OF sample_cstr(1), of 120]
  by simp

text \<open>
  \<^verbatim>\<open>strcmp\<close> on two strings returns 0 exactly when they are equal, and otherwise a sign that is the
  lexicographic order of their bytes taken as unsigned numbers. \<^verbatim>\<open>strncmp\<close> also returns 0 exactly when
  the prefixes agree, but -1 in every other case, so it never says that the first string is greater.
\<close>

theorem strcmp_is_lexicographic:
  assumes "cstr m p s" "cstr m q t"
  shows "strcmp m p q = Some (if s = t then 0 else if s < t then -1 else 1) \<and>
    strncmp m p q n = (if take n s = take n t then 0 else -1)"
  using strcmp_cstr [OF assms] strncmp_cstr [OF assms] by simp

theorem strcmp_is_lexicographic_witness:
  "strcmp sample_mem 19 16 = Some 1 \<and> strncmp sample_mem 19 16 1 = -1"
proof -
  have "cstr sample_mem 19 [98, 99]" by (simp add: sample_mem_def)
  from strcmp_is_lexicographic [OF this sample_cstr(1), of 1] show ?thesis by simp
qed

end
