(* ===== verification/Hashmap.thy ===== *)
theory Hashmap
  imports Lists CString
begin

text \<open>
  The string-keyed hash map of \<^verbatim>\<open>kernel/utils/lists.c\<close>: a table of buckets, each a singly linked chain
  of entries on the kernel heap, with duplicated keys. The store of the lists is extended by stores
  for the map headers, the bucket tables, the entries and the key strings (a string being its bytes
  up to the final zero; \<^verbatim>\<open>strcmp\<close> on them is equality, which theory CString shows of the byte-level
  routine). The map is shown to refine a partial function from keys to values.
\<close>

unbundle bit_operations_syntax

section \<open>Data\<close>

record hashmap_entry_t =
  e_key :: u64
  e_value :: u64
  e_next :: u64

record hashmap_t =
  hm_lock :: lock
  hm_hashSize :: u64
  hm_hashmap :: u64

record hheap = lheap +
  hh_maps :: "u64 \<rightharpoonup> hashmap_t"
  hh_tables :: "u64 \<rightharpoonup> u64 list"
  hh_entries :: "u64 \<rightharpoonup> hashmap_entry_t"
  hh_strs :: "u64 \<rightharpoonup> u8 list"

section \<open>Operations\<close>

text \<open>\<^verbatim>\<open>char\<close> is signed, so each byte is sign-extended before it is added.\<close>

fun string_hash_loop :: "u8 list \<Rightarrow> u32 \<Rightarrow> u32" where
  "string_hash_loop [] hash = hash"
| "string_hash_loop (c # key) hash =
     string_hash_loop key (scast c + push_bit 6 hash + push_bit 16 hash - hash)"

definition hashmap_string_hash :: "u8 list \<Rightarrow> u32" where
  "hashmap_string_hash key = string_hash_loop key 0"

text \<open>The table comes back zeroed from \<^verbatim>\<open>kmalloc\<close>, which is what makes all buckets empty.\<close>

definition hashmap_create :: "u64 \<Rightarrow> 'x hheap_scheme \<Rightarrow> (u64 \<times> 'x hheap_scheme) exec" where
  "hashmap_create hashSize h =
     bindr (kmalloc 48 (lh_k h)) (\<lambda>(hashmap, k).
     if hashmap = 0 then Inl NullDeref
     else bindr (kmalloc (8 * hashSize) k) (\<lambda>(table, k).
       Inr (hashmap, h\<lparr>lh_k := k,
         hh_maps := (hh_maps h)(hashmap \<mapsto>
           \<lparr>hm_lock = UNLOCKED, hm_hashSize = hashSize, hm_hashmap = table\<rparr>),
         hh_tables := (if table = 0 then hh_tables h
                       else (hh_tables h)(table \<mapsto> replicate (unat hashSize) 0))\<rparr>)))"

definition map_lock :: "u64 \<Rightarrow> 'x hheap_scheme \<Rightarrow> 'x hheap_scheme exec" where
  "map_lock mp h = bindr (load (hh_maps h) mp) (\<lambda>M.
     bindr (spin_acquire_exec (hm_lock M)) (\<lambda>b.
       Inr (h\<lparr>hh_maps := (hh_maps h)(mp \<mapsto> M\<lparr>hm_lock := b\<rparr>)\<rparr>)))"

definition map_unlock :: "u64 \<Rightarrow> 'x hheap_scheme \<Rightarrow> 'x hheap_scheme exec" where
  "map_unlock mp h = bindr (modify mp (\<lambda>M. M\<lparr>hm_lock := UNLOCKED\<rparr>) (hh_maps h)) (\<lambda>m.
     Inr (h\<lparr>hh_maps := m\<rparr>))"

text \<open>\<^verbatim>\<open>map->hashmap[hash % map->hashSize]\<close>: the index and the bucket pointer.\<close>

definition bucket_of :: "u64 \<Rightarrow> u8 list \<Rightarrow> 'x hheap_scheme \<Rightarrow> (u64 \<times> nat \<times> u64) exec" where
  "bucket_of mp key h = bindr (load (hh_maps h) mp) (\<lambda>M.
     if hm_hashSize M = 0 then Inl DivideError
     else let i = unat (ucast (hashmap_string_hash key) mod hm_hashSize M) in
       bindr (load (hh_tables h) (hm_hashmap M)) (\<lambda>T.
         if i < length T then Inr (hm_hashmap M, i, T ! i) else Inl WildAccess))"

text \<open>
  The \<^verbatim>\<open>while(entry)\<close> loop of all four operations: it stops at the entry whose key compares equal, or
  at the end, and reports the entry before it.
\<close>

partial_function (option) find_loop ::
    "(u64 \<rightharpoonup> hashmap_entry_t) \<Rightarrow> (u64 \<rightharpoonup> u8 list) \<Rightarrow> u8 list \<Rightarrow> u64 \<Rightarrow> u64 \<Rightarrow> (u64 \<times> u64) exec option" where
  "find_loop m st key lastEntry entry =
     (if entry = 0 then Some (Inr (lastEntry, 0))
      else case load m entry of
        Inl e \<Rightarrow> Some (Inl e)
      | Inr E \<Rightarrow> (case load st (e_key E) of
            Inl e \<Rightarrow> Some (Inl e)
          | Inr k \<Rightarrow> if k = key then Some (Inr (lastEntry, entry))
                     else find_loop m st key entry (e_next E)))"

text \<open>\<^verbatim>\<open>kmalloc(sizeof(hashmap_entry_t))\<close>, \<^verbatim>\<open>strdup(key)\<close> and the stores into the new entry.\<close>

definition new_entry :: "u8 list \<Rightarrow> u64 \<Rightarrow> 'x hheap_scheme \<Rightarrow> (u64 \<times> 'x hheap_scheme) exec" where
  "new_entry key val h =
     bindr (kmalloc 24 (lh_k h)) (\<lambda>(entry, k).
     bindr (kmalloc (of_nat (length key + 1)) k) (\<lambda>(str, k).
       if str = 0 \<or> entry = 0 then Inl NullDeref
       else Inr (entry, h\<lparr>lh_k := k,
              hh_strs := (hh_strs h)(str \<mapsto> key),
              hh_entries := (hh_entries h)(entry \<mapsto> \<lparr>e_key = str, e_value = val, e_next = 0\<rparr>)\<rparr>)))"

definition hashmap_set :: "u64 \<Rightarrow> u8 list \<Rightarrow> u64 \<Rightarrow> 'x hheap_scheme \<Rightarrow> (u64 \<times> 'x hheap_scheme) exec" where
  "hashmap_set mp key val h =
     bindr (map_lock mp h) (\<lambda>h.
     bindr (bucket_of mp key h) (\<lambda>(table, i, entry).
     bindr (run_loop (find_loop (hh_entries h) (hh_strs h) key 0 entry)) (\<lambda>(lastEntry, found).
     if found \<noteq> 0 then
       bindr (load (hh_entries h) found) (\<lambda>E.
       bindr (map_unlock mp (h\<lparr>hh_entries := (hh_entries h)(found \<mapsto> E\<lparr>e_value := val\<rparr>)\<rparr>)) (\<lambda>h.
         Inr (e_value E, h)))
     else
       bindr (new_entry key val h) (\<lambda>(entry, h).
       bindr (if lastEntry \<noteq> 0
              then bindr (modify lastEntry (\<lambda>E. E\<lparr>e_next := entry\<rparr>) (hh_entries h)) (\<lambda>m.
                     Inr (h\<lparr>hh_entries := m\<rparr>))
              else bindr (modify table (\<lambda>T. T[i := entry]) (hh_tables h)) (\<lambda>m.
                     Inr (h\<lparr>hh_tables := m\<rparr>))) (\<lambda>h.
       bindr (map_unlock mp h) (\<lambda>h. Inr (0, h)))))))"

definition hashmap_get :: "u64 \<Rightarrow> u8 list \<Rightarrow> 'x hheap_scheme \<Rightarrow> (u64 \<times> 'x hheap_scheme) exec" where
  "hashmap_get mp key h =
     bindr (map_lock mp h) (\<lambda>h.
     bindr (bucket_of mp key h) (\<lambda>(table, i, entry).
     bindr (run_loop (find_loop (hh_entries h) (hh_strs h) key 0 entry)) (\<lambda>(lastEntry, found).
     if found \<noteq> 0 then
       bindr (load (hh_entries h) found) (\<lambda>E. bindr (map_unlock mp h) (\<lambda>h. Inr (e_value E, h)))
     else bindr (map_unlock mp h) (\<lambda>h. Inr (0, h)))))"

definition hashmap_remove :: "u64 \<Rightarrow> u8 list \<Rightarrow> 'x hheap_scheme \<Rightarrow> (u64 \<times> 'x hheap_scheme) exec" where
  "hashmap_remove mp key h =
     bindr (map_lock mp h) (\<lambda>h.
     bindr (bucket_of mp key h) (\<lambda>(table, i, entry).
     bindr (run_loop (find_loop (hh_entries h) (hh_strs h) key 0 entry)) (\<lambda>(lastEntry, found).
     if found \<noteq> 0 then
       bindr (load (hh_entries h) found) (\<lambda>E.
       bindr (if lastEntry \<noteq> 0
              then bindr (modify lastEntry (\<lambda>L. L\<lparr>e_next := e_next E\<rparr>) (hh_entries h)) (\<lambda>m.
                     Inr (h\<lparr>hh_entries := m\<rparr>))
              else bindr (modify table (\<lambda>T. T[i := e_next E]) (hh_tables h)) (\<lambda>m.
                     Inr (h\<lparr>hh_tables := m\<rparr>))) (\<lambda>h.
       bindr (kfree (e_key E) (lh_k h)) (\<lambda>k.
       bindr (kfree found k) (\<lambda>k.
       bindr (map_unlock mp (h\<lparr>lh_k := k, hh_strs := (hh_strs h)(e_key E := None),
                               hh_entries := (hh_entries h)(found := None)\<rparr>)) (\<lambda>h.
         Inr (e_value E, h))))))
     else bindr (map_unlock mp h) (\<lambda>h. Inr (0, h)))))"

definition hashmap_has :: "u64 \<Rightarrow> u8 list \<Rightarrow> 'x hheap_scheme \<Rightarrow> (bool \<times> 'x hheap_scheme) exec" where
  "hashmap_has mp key h =
     bindr (map_lock mp h) (\<lambda>h.
     bindr (bucket_of mp key h) (\<lambda>(table, i, entry).
     bindr (run_loop (find_loop (hh_entries h) (hh_strs h) key 0 entry)) (\<lambda>(lastEntry, found).
     bindr (map_unlock mp h) (\<lambda>h. Inr (found \<noteq> 0, h)))))"

partial_function (option) delete_chain :: "u64 \<Rightarrow> 'x hheap_scheme \<Rightarrow> 'x hheap_scheme exec option" where
  "delete_chain entry h =
     (if entry = 0 then Some (Inr h)
      else case load (hh_entries h) entry of
        Inl e \<Rightarrow> Some (Inl e)
      | Inr E \<Rightarrow> (case bindr (kfree (e_key E) (lh_k h)) (kfree entry) of
            Inl e \<Rightarrow> Some (Inl e)
          | Inr k \<Rightarrow> delete_chain (e_next E)
              (h\<lparr>lh_k := k, hh_strs := (hh_strs h)(e_key E := None),
                 hh_entries := (hh_entries h)(entry := None)\<rparr>)))"

fun delete_buckets :: "u64 list \<Rightarrow> 'x hheap_scheme \<Rightarrow> 'x hheap_scheme exec" where
  "delete_buckets [] h = Inr h"
| "delete_buckets (entry # entries) h =
     bindr (run_loop (delete_chain entry h)) (delete_buckets entries)"

text \<open>The bucket table is never given back.\<close>

definition hashmap_delete :: "u64 \<Rightarrow> 'x hheap_scheme \<Rightarrow> 'x hheap_scheme exec" where
  "hashmap_delete mp h =
     bindr (map_lock mp h) (\<lambda>h.
     bindr (load (hh_maps h) mp) (\<lambda>M.
     bindr (load (hh_tables h) (hm_hashmap M)) (\<lambda>T.
     bindr (delete_buckets (take (unat (hm_hashSize M)) T) h) (\<lambda>h.
     bindr (kfree mp (lh_k h)) (\<lambda>k.
       Inr (h\<lparr>lh_k := k, hh_maps := (hh_maps h)(mp := None)\<rparr>))))))"

partial_function (option) push_keys :: "u64 \<Rightarrow> u64 \<Rightarrow> 'x hheap_scheme \<Rightarrow> 'x hheap_scheme exec option" where
  "push_keys l entry h =
     (if entry = 0 then Some (Inr h)
      else case load (hh_entries h) entry of
        Inl e \<Rightarrow> Some (Inl e)
      | Inr E \<Rightarrow> (case list_push_back l (e_key E) h of
            Inl e \<Rightarrow> Some (Inl e)
          | Inr nh \<Rightarrow> push_keys l (e_next E) (snd nh)))"

fun push_buckets :: "u64 \<Rightarrow> u64 list \<Rightarrow> 'x hheap_scheme \<Rightarrow> 'x hheap_scheme exec" where
  "push_buckets l [] h = Inr h"
| "push_buckets l (entry # entries) h = bindr (run_loop (push_keys l entry h)) (push_buckets l entries)"

definition hashmap_to_list :: "u64 \<Rightarrow> 'x hheap_scheme \<Rightarrow> (u64 \<times> 'x hheap_scheme) exec" where
  "hashmap_to_list mp h =
     bindr (map_lock mp h) (\<lambda>h.
     bindr (list_create h) (\<lambda>(l, h).
     bindr (load (hh_maps h) mp) (\<lambda>M.
     bindr (load (hh_tables h) (hm_hashmap M)) (\<lambda>T.
     bindr (push_buckets l (take (unat (hm_hashSize M)) T) h) (\<lambda>h.
     bindr (map_unlock mp h) (\<lambda>h. Inr (l, h)))))))"

section \<open>Chains of entries\<close>

text \<open>An entry as a tuple: its address, the address of its key, the key and the value.\<close>

type_synonym hent = "u64 \<times> u64 \<times> u8 list \<times> u64"

definition ekey :: "hent \<Rightarrow> u8 list" where
  "ekey x = fst (snd (snd x))"

definition evalue :: "hent \<Rightarrow> u64" where
  "evalue x = snd (snd (snd x))"

definition efirst :: "hent list \<Rightarrow> u64" where
  "efirst b = (case b of [] \<Rightarrow> 0 | x # _ \<Rightarrow> fst x)"

definition elast :: "u64 \<Rightarrow> hent list \<Rightarrow> u64" where
  "elast p b = (if b = [] then p else fst (last b))"

fun echain :: "(u64 \<rightharpoonup> hashmap_entry_t) \<Rightarrow> (u64 \<rightharpoonup> u8 list) \<Rightarrow> hent list \<Rightarrow> u64 \<Rightarrow> bool" where
  "echain m st [] q = True"
| "echain m st ((e, kp, k, v) # r) q =
     (e \<noteq> 0 \<and> kp \<noteq> 0 \<and> st kp = Some k \<and>
      m e = Some \<lparr>e_key = kp, e_value = v, e_next = (if r = [] then q else efirst r)\<rparr> \<and> echain m st r q)"

definition chain_ptrs :: "hent list \<Rightarrow> u64 list" where
  "chain_ptrs b = map fst b @ map (\<lambda>x. fst (snd x)) b"

definition all_ptrs :: "hent list list \<Rightarrow> u64 list" where
  "all_ptrs bs = concat (map chain_ptrs bs)"

lemma ekey_simps [simp]: "ekey (e, kp, k, v) = k" "evalue (e, kp, k, v) = v"
  by (simp_all add: ekey_def evalue_def)

lemma efirst_simps [simp]: "efirst [] = 0" "efirst (x # r) = fst x"
  "efirst (b @ x # r) = (if b = [] then fst x else efirst b)"
  by (auto simp: efirst_def split: list.splits)

lemma elast_simps [simp]: "elast p [] = p" "elast p (x # r) = elast (fst x) r"
  by (auto simp: elast_def)

lemma all_ptrs_simps [simp]: "all_ptrs [] = []" "all_ptrs (b # bs) = chain_ptrs b @ all_ptrs bs"
  "all_ptrs (bs @ cs) = all_ptrs bs @ all_ptrs cs"
  by (simp_all add: all_ptrs_def)

lemma echain_append:
  "echain m st (b @ c) q \<longleftrightarrow> echain m st b (if c = [] then q else efirst c) \<and> echain m st c q"
proof (induction b)
  case (Cons x b)
  obtain e kp k v where x: "x = (e, kp, k, v)" by (cases x)
  show ?case using Cons.IH by (cases b; cases c) (auto simp: x)
qed simp

lemma echain_cong:
  assumes "\<And>p. p \<in> set (chain_ptrs b) \<Longrightarrow> m p = m' p \<and> st p = st' p"
  shows "echain m st b q \<longleftrightarrow> echain m' st' b q"
  using assms
proof (induction b)
  case (Cons x b)
  obtain e kp k v where x: "x = (e, kp, k, v)" by (cases x)
  have "echain m st b q \<longleftrightarrow> echain m' st' b q"
    using Cons.prems by (intro Cons.IH) (auto simp: chain_ptrs_def)
  moreover have "m e = m' e" "st kp = st' kp"
    using Cons.prems by (auto simp: chain_ptrs_def x)
  ultimately show ?case by (simp add: x)
qed simp

lemma find_loop_absent:
  "echain m st b 0 \<Longrightarrow> key \<notin> ekey ` set b \<Longrightarrow> find_loop m st key l (efirst b) = Some (Inr (elast l b, 0))"
proof (induction b arbitrary: l)
  case Nil
  then show ?case by (simp add: find_loop.simps)
next
  case (Cons x b)
  obtain e kp k v where x: "x = (e, kp, k, v)" by (cases x)
  have n: "e \<noteq> 0" "kp \<noteq> 0" "st kp = Some k" "k \<noteq> key"
    "m e = Some \<lparr>e_key = kp, e_value = v, e_next = efirst b\<rparr>" "echain m st b 0"
    using Cons.prems by (auto simp: x efirst_def split: if_splits)
  have "find_loop m st key e (efirst b) = Some (Inr (elast e b, 0))"
    using Cons.prems(2) by (intro Cons.IH [OF n(6)]) simp
  with n show ?case by (simp add: x find_loop.simps [of m st key l e])
qed

lemma find_loop_present:
  assumes "echain m st (as @ (e, kp, key, v) # bs) 0" "key \<notin> ekey ` set as"
  shows "find_loop m st key l (efirst (as @ (e, kp, key, v) # bs)) = Some (Inr (elast l as, e))"
  using assms
proof (induction as arbitrary: l)
  case Nil
  then show ?case by (simp add: find_loop.simps)
next
  case (Cons x as)
  obtain e' kp' k' v' where x: "x = (e', kp', k', v')" by (cases x)
  let ?r = "as @ (e, kp, key, v) # bs"
  have n: "e' \<noteq> 0" "kp' \<noteq> 0" "st kp' = Some k'" "k' \<noteq> key"
    "m e' = Some \<lparr>e_key = kp', e_value = v', e_next = efirst ?r\<rparr>" "echain m st ?r 0"
    using Cons.prems by (auto simp: x)
  have "find_loop m st key e' (efirst ?r) = Some (Inr (elast e' as, e))"
    using Cons.prems(2) by (intro Cons.IH [OF n(6)]) simp
  with n show ?case by (simp add: x find_loop.simps [of m st key l e'])
qed

section \<open>Well-formed maps\<close>

definition bucket_index :: "nat \<Rightarrow> u8 list \<Rightarrow> nat" where
  "bucket_index n key = unat (hashmap_string_hash key) mod n"

definition hmap_ok :: "u64 set \<Rightarrow> 'x hheap_scheme \<Rightarrow> u64 \<Rightarrow> u64 \<Rightarrow> hent list list \<Rightarrow> bool" where
  "hmap_ok X h mp tp bs \<longleftrightarrow>
     mp \<noteq> 0 \<and> tp \<noteq> 0 \<and> 0 < length bs \<and> length bs < 2 ^ 64 \<and>
     hh_maps h mp = Some \<lparr>hm_lock = UNLOCKED, hm_hashSize = of_nat (length bs), hm_hashmap = tp\<rparr> \<and>
     hh_tables h tp = Some (map efirst bs) \<and>
     (\<forall>b\<in>set bs. echain (hh_entries h) (hh_strs h) b 0 \<and> distinct (map ekey b)) \<and>
     (\<forall>i<length bs. \<forall>x\<in>set (bs ! i). bucket_index (length bs) (ekey x) = i) \<and>
     distinct (all_ptrs bs) \<and>
     heap_owns (lh_k h) ({mp, tp} \<union> set (all_ptrs bs) \<union> X) \<and>
     {mp, tp} \<inter> set (all_ptrs bs) = {} \<and> mp \<noteq> tp \<and> X \<inter> ({mp, tp} \<union> set (all_ptrs bs)) = {}"

text \<open>The abstraction: the partial function the map stands for.\<close>

definition hm_abs :: "hent list list \<Rightarrow> u8 list \<rightharpoonup> u64" where
  "hm_abs bs key = map_of (map (\<lambda>x. (ekey x, evalue x)) (bs ! bucket_index (length bs) key)) key"

lemma hmap_ok_update:
  assumes ok: "hmap_ok X h mp tp (L @ b # R)"
    and ptrs: "distinct (chain_ptrs b')" "set (chain_ptrs b') \<subseteq> set (chain_ptrs b) \<union> F"
    and fresh: "F \<inter> ({mp, tp} \<union> set (all_ptrs (L @ b # R)) \<union> X) = {}"
    and chain: "echain (hh_entries h') (hh_strs h') b' 0"
    and same: "\<And>p. p \<notin> set (chain_ptrs b) \<union> F \<Longrightarrow> hh_entries h' p = hh_entries h p \<and> hh_strs h' p = hh_strs h p"
    and maps: "hh_maps h' mp = hh_maps h mp" "hh_tables h' tp = Some (map efirst (L @ b' # R))"
    and own: "heap_owns (lh_k h') ({mp, tp} \<union> set (all_ptrs (L @ b' # R)) \<union> X)"
    and keys: "\<And>x. x \<in> set b' \<Longrightarrow> bucket_index (length (L @ b # R)) (ekey x) = length L" "distinct (map ekey b')"
  shows "hmap_ok X h' mp tp (L @ b' # R)"
proof -
  have d: "distinct (all_ptrs L @ chain_ptrs b @ all_ptrs R)"
    using ok by (simp add: hmap_ok_def)
  have chains: "echain (hh_entries h') (hh_strs h') c 0 \<and> distinct (map ekey c)" if "c \<in> set (L @ R)" for c
  proof -
    have c: "set (chain_ptrs c) \<subseteq> set (all_ptrs L) \<union> set (all_ptrs R)" using that by (auto simp: all_ptrs_def)
    have "p \<notin> set (chain_ptrs b) \<union> F" if "p \<in> set (chain_ptrs c)" for p
      using that c d fresh by auto
    then have "echain (hh_entries h') (hh_strs h') c 0 = echain (hh_entries h) (hh_strs h) c 0"
      using same by (intro echain_cong) blast
    with ok that show ?thesis by (auto simp: hmap_ok_def)
  qed
  have "bucket_index (length (L @ b' # R)) (ekey x) = j" if "j < length (L @ b' # R)" "x \<in> set ((L @ b' # R) ! j)" for j x
  proof (cases "j = length L")
    case True
    with that keys(1) show ?thesis by simp
  next
    case False
    then have "(L @ b' # R) ! j = (L @ b # R) ! j" by (simp add: nth_append nth_Cons')
    moreover have "\<forall>i<length (L @ b # R). \<forall>x\<in>set ((L @ b # R) ! i). bucket_index (length (L @ b # R)) (ekey x) = i"
      using ok unfolding hmap_ok_def by (elim conjE) assumption
    ultimately show ?thesis using that by simp
  qed
  moreover have "distinct (all_ptrs (L @ b' # R))"
    using d ptrs fresh by auto
  moreover have "{mp, tp} \<inter> set (all_ptrs (L @ b' # R)) = {}" "X \<inter> ({mp, tp} \<union> set (all_ptrs (L @ b' # R))) = {}"
    using ok ptrs(2) fresh by (auto simp: hmap_ok_def)
  ultimately show ?thesis
    using ok chains chain keys(2) maps own by (auto simp: hmap_ok_def)
qed

section \<open>The bucket an operation works on\<close>

lemma bucket_index_word:
  assumes "0 < n" "n < 2 ^ 64"
  shows "unat (ucast (hashmap_string_hash key) mod of_nat n :: u64) = bucket_index n key"
proof -
  have "unat (ucast (hashmap_string_hash key) :: u64) = unat (hashmap_string_hash key)"
    using unat_u32_less [of "hashmap_string_hash key"]
    by (simp add: unsigned_ucast_eq take_bit_nat_eq_self)
  with assms show ?thesis by (simp add: unat_mod_distrib bucket_index_def)
qed

text \<open>The map locked, with everything an operation reads before it walks the chain.\<close>

abbreviation (input) locked :: "u64 \<Rightarrow> u64 \<Rightarrow> nat \<Rightarrow> 'x hheap_scheme \<Rightarrow> 'x hheap_scheme" where
  "locked mp tp n h \<equiv> h\<lparr>hh_maps := (hh_maps h)(mp \<mapsto>
     \<lparr>hm_lock = False, hm_hashSize = of_nat n, hm_hashmap = tp\<rparr>)\<rparr>"

lemma hmap_enter:
  assumes "hmap_ok X h mp tp (L @ b # R)" "bucket_index (length (L @ b # R)) key = length L"
  shows "map_lock mp h = Inr (locked mp tp (length (L @ b # R)) h)"
    "bucket_of mp key (locked mp tp (length (L @ b # R)) h) = Inr (tp, length L, efirst b)"
proof -
  let ?n = "length (L @ b # R)"
  have ok: "mp \<noteq> 0" "tp \<noteq> 0" "?n < 2 ^ 64" "0 < ?n"
    "hh_maps h mp = Some \<lparr>hm_lock = True, hm_hashSize = of_nat ?n, hm_hashmap = tp\<rparr>"
    "hh_tables h tp = Some (map efirst (L @ b # R))"
    using assms(1) by (auto simp: hmap_ok_def)
  show "map_lock mp h = Inr (locked mp tp ?n h)"
    using ok(1,5) by (simp add: map_lock_def del: of_nat_Suc length_append)
  have "(of_nat ?n :: u64) \<noteq> 0"
  proof
    assume "(of_nat ?n :: u64) = 0"
    then have "unat (of_nat ?n :: u64) = 0" by (simp only: unsigned_0)
    with ok(3,4) unat_of_nat_u64 [of ?n] show False by simp
  qed
  then show "bucket_of mp key (locked mp tp ?n h) = Inr (tp, length L, efirst b)"
    using ok(1,2,6) bucket_index_word [OF ok(4,3), of key] assms(2)
    by (simp add: bucket_of_def Let_def nth_append del: of_nat_Suc of_nat_add)
qed

lemma hmap_split:
  assumes "hmap_ok X h mp tp bs"
  obtains L b R where "bs = L @ b # R" "bucket_index (length bs) key = length L"
    "b = bs ! bucket_index (length bs) key"
proof -
  let ?i = "bucket_index (length bs) key"
  have "0 < length bs" using assms by (simp add: hmap_ok_def)
  then have i: "?i < length bs" by (simp add: bucket_index_def)
  show thesis
    by (rule that [of "take ?i bs" "bs ! ?i" "drop (Suc ?i) bs"]) (use i in \<open>simp_all add: id_take_nth_drop\<close>)
qed

lemma hmap_chain:
  assumes "hmap_ok X h mp tp (L @ b # R)"
  shows "echain (hh_entries h) (hh_strs h) b 0" "distinct (map ekey b)" "mp \<noteq> 0"
    "distinct (chain_ptrs b)"
  using assms by (auto simp: hmap_ok_def)

lemma hmap_unlock:
  assumes "hmap_ok X h mp tp bs"
  shows "map_unlock mp (locked mp tp (length bs) h) = Inr h"
  using assms by (simp add: map_unlock_def hmap_ok_def fun_upd_idem)

lemma hm_abs_split:
  assumes "bucket_index (length (L @ b # R)) key = length L"
  shows "hm_abs (L @ b # R) key = map_of (map (\<lambda>x. (ekey x, evalue x)) b) key"
  using assms by (simp add: hm_abs_def nth_append)

text \<open>A chain either misses a key or splits at the only entry that has it.\<close>

lemma chain_cases:
  assumes "distinct (map ekey b)"
  obtains (absent) "key \<notin> ekey ` set b" "map_of (map (\<lambda>x. (ekey x, evalue x)) b) key = None"
  | (present) as e kp v cs where "b = as @ (e, kp, key, v) # cs" "key \<notin> ekey ` set as" "key \<notin> ekey ` set cs"
      "map_of (map (\<lambda>x. (ekey x, evalue x)) b) key = Some v"
proof (cases "key \<in> ekey ` set b")
  case False
  moreover from False have "map_of (map (\<lambda>x. (ekey x, evalue x)) b) key = None"
    by (force simp: map_of_eq_None_iff)
  ultimately show thesis by (rule absent)
next
  case True
  then obtain x where "x \<in> set b" "ekey x = key" by auto
  then obtain as cs where b: "b = as @ x # cs" by (metis split_list)
  obtain e kp v where x: "x = (e, kp, key, v)" using \<open>ekey x = key\<close> by (cases x) auto
  have k: "key \<notin> ekey ` set as" "key \<notin> ekey ` set cs" using assms by (auto simp: b x)
  then have "map_of (map (\<lambda>x. (ekey x, evalue x)) as) key = None"
    by (force simp: map_of_eq_None_iff)
  then have "map_of (map (\<lambda>x. (ekey x, evalue x)) b) key = Some v"
    by (simp add: b x map_add_def)
  with b x k show thesis by (intro present [of as e kp v cs]) auto
qed

section \<open>Lookups\<close>

lemma hmap_lookup_loop:
  assumes "hmap_ok X h mp tp (L @ b # R)"
  shows "\<exists>l f. find_loop (hh_entries h) (hh_strs h) key 0 (efirst b) = Some (Inr (l, f)) \<and>
    (case map_of (map (\<lambda>x. (ekey x, evalue x)) b) key of
       None \<Rightarrow> f = 0
     | Some v \<Rightarrow> f \<noteq> 0 \<and> (\<exists>E. hh_entries h f = Some E \<and> e_value E = v))"
proof -
  note c = hmap_chain [OF assms]
  from c(2) show ?thesis
  proof (cases rule: chain_cases [where key = key])
    case absent
    with find_loop_absent [OF c(1), of key 0] show ?thesis by simp
  next
    case (present as e kp v cs)
    with c(1) find_loop_present [of "hh_entries h" "hh_strs h" as e kp key v cs 0] show ?thesis
      by (auto simp: echain_append)
  qed
qed

lemma hashmap_get_ok:
  assumes "hmap_ok X h mp tp bs"
  shows "hashmap_get mp key h = Inr (case hm_abs bs key of None \<Rightarrow> 0 | Some v \<Rightarrow> v, h)"
    "hashmap_has mp key h = Inr (hm_abs bs key \<noteq> None, h)"
proof -
  obtain L b R where s: "bs = L @ b # R" "bucket_index (length bs) key = length L"
    using hmap_split [OF assms] by metis
  note en = hmap_enter [OF assms [unfolded s(1)] s(2) [unfolded s(1)]]
  note un = hmap_unlock [OF assms, unfolded s(1)]
  obtain l f where lf: "find_loop (hh_entries h) (hh_strs h) key 0 (efirst b) = Some (Inr (l, f))"
    "case map_of (map (\<lambda>x. (ekey x, evalue x)) b) key of None \<Rightarrow> f = 0
     | Some v \<Rightarrow> f \<noteq> 0 \<and> (\<exists>E. hh_entries h f = Some E \<and> e_value E = v)"
    using hmap_lookup_loop [OF assms [unfolded s(1)], of key] by blast
  have a: "hm_abs bs key = map_of (map (\<lambda>x. (ekey x, evalue x)) b) key"
    using hm_abs_split s by simp
  show "hashmap_get mp key h = Inr (case hm_abs bs key of None \<Rightarrow> 0 | Some v \<Rightarrow> v, h)"
    "hashmap_has mp key h = Inr (hm_abs bs key \<noteq> None, h)"
    using en un lf by (auto simp: hashmap_get_def hashmap_has_def a split: option.splits simp del: length_append)
qed

section \<open>Updates\<close>

lemma hm_abs_update:
  assumes "bucket_index (length (L @ b # R)) key = length L"
    and "map_of (map (\<lambda>x. (ekey x, evalue x)) b') = (map_of (map (\<lambda>x. (ekey x, evalue x)) b))(key := r)"
  shows "hm_abs (L @ b' # R) = (hm_abs (L @ b # R))(key := r)"
proof
  fix k
  show "hm_abs (L @ b' # R) k = ((hm_abs (L @ b # R))(key := r)) k"
    using assms by (cases "bucket_index (length (L @ b # R)) k = length L")
      (auto simp: hm_abs_def nth_append nth_Cons')
qed

lemma hmap_keys:
  assumes "hmap_ok X h mp tp (L @ b # R)" "x \<in> set b"
  shows "bucket_index (length (L @ b # R)) (ekey x) = length L"
proof -
  have "\<forall>i<length (L @ b # R). \<forall>x\<in>set ((L @ b # R) ! i). bucket_index (length (L @ b # R)) (ekey x) = i"
    using assms(1) unfolding hmap_ok_def by (elim conjE) assumption
  then show ?thesis using assms(2) by (elim allE [of _ "length L"]) simp
qed

lemma hmap_set_present:
  assumes ok: "hmap_ok X h mp tp (L @ b # R)" and key: "bucket_index (length (L @ b # R)) key = length L"
    and b: "b = as @ (e, kp, key, w) # cs" "key \<notin> ekey ` set as" "key \<notin> ekey ` set cs"
  shows "\<exists>h'. hashmap_set mp key v h = Inr (w, h') \<and> hmap_ok X h' mp tp (L @ (as @ (e, kp, key, v) # cs) # R) \<and>
    hheap.more h' = hheap.more h"
proof -
  note c = hmap_chain [OF ok]
  let ?E = "\<lparr>e_key = kp, e_value = w, e_next = efirst cs\<rparr>"
  have e: "e \<noteq> 0" "hh_entries h e = Some ?E"
    using c(1) unfolding b(1) echain_append by (cases cs; auto)+
  let ?h' = "h\<lparr>hh_entries := (hh_entries h)(e \<mapsto> ?E\<lparr>e_value := v\<rparr>)\<rparr>"
  have fl: "find_loop (hh_entries h) (hh_strs h) key 0 (efirst b) = Some (Inr (elast 0 as, e))"
    using find_loop_present [of "hh_entries h" "hh_strs h" as e kp key w cs 0] c(1) b by simp
  have mp: "hh_maps h mp = Some \<lparr>hm_lock = True, hm_hashSize = of_nat (length (L @ b # R)), hm_hashmap = tp\<rparr>"
    using ok by (simp add: hmap_ok_def)
  have run: "hashmap_set mp key v h = Inr (w, ?h')"
    using hmap_enter [OF ok key] fl e c(3) mp
    by (simp add: hashmap_set_def map_unlock_def fun_upd_idem del: length_append)
  have d: "e \<notin> fst ` set as" "e \<notin> fst ` set cs" "distinct (chain_ptrs (as @ (e, kp, key, v) # cs))"
    using c(4) b(1) by (auto simp: chain_ptrs_def)
  have ch: "echain (hh_entries ?h') (hh_strs ?h') (as @ (e, kp, key, v) # cs) 0"
  proof -
    have as: "echain (hh_entries h) (hh_strs h) as e" "echain (hh_entries h) (hh_strs h) cs 0" "kp \<noteq> 0"
      "hh_strs h kp = Some key"
      using c(1) unfolding b(1) echain_append by (auto split: if_splits)
    have "echain (hh_entries ?h') (hh_strs ?h') ds q = echain (hh_entries h) (hh_strs h) ds q"
      if "e \<notin> set (map fst ds)" for ds q
      using that by (induction ds) (auto simp: efirst_def split: list.splits)
    with as d e show ?thesis by (cases cs) (auto simp: echain_append)
  qed
  have "hmap_ok X ?h' mp tp (L @ (as @ (e, kp, key, v) # cs) # R)"
  proof (rule hmap_ok_update [OF ok d(3), of "{}"])
    show "set (chain_ptrs (as @ (e, kp, key, v) # cs)) \<subseteq> set (chain_ptrs b) \<union> {}"
      using b(1) by (auto simp: chain_ptrs_def)
    show "hh_tables ?h' tp = Some (map efirst (L @ (as @ (e, kp, key, v) # cs) # R))"
      using ok b(1) by (simp add: hmap_ok_def)
    show "heap_owns (lh_k ?h') ({mp, tp} \<union> set (all_ptrs (L @ (as @ (e, kp, key, v) # cs) # R)) \<union> X)"
      using ok b(1) by (simp add: hmap_ok_def chain_ptrs_def)
    show "bucket_index (length (L @ b # R)) (ekey x) = length L" if "x \<in> set (as @ (e, kp, key, v) # cs)" for x
      using that hmap_keys [OF ok, of x] key b(1) by auto
    show "distinct (map ekey (as @ (e, kp, key, v) # cs))" using c(2) b(1) by simp
    show "hh_entries ?h' p = hh_entries h p \<and> hh_strs ?h' p = hh_strs h p"
      if "p \<notin> set (chain_ptrs b) \<union> {}" for p
      using that b(1) by (auto simp: chain_ptrs_def)
  qed (use ch in auto)
  with run show ?thesis by auto
qed

text \<open>No room for a new entry and its key.\<close>

definition entry_oom :: "u8 list \<Rightarrow> 'x hheap_scheme \<Rightarrow> bool" where
  "entry_oom key h \<longleftrightarrow> (case bindr (kmalloc 24 (lh_k h)) (\<lambda>(entry, k).
     bindr (kmalloc (of_nat (length key + 1)) k) (\<lambda>(str, k). Inr (str = 0 \<or> entry = 0))) of
       Inl _ \<Rightarrow> True | Inr b \<Rightarrow> b)"

lemma new_entry_oom:
  assumes "kmalloc 24 (lh_k h) = Inr (e, k1)" "kmalloc (of_nat (length key + 1)) k1 = Inr (kp, k2)" "kp = 0 \<or> e = 0"
    and "lh_k h' = lh_k h"
  shows "entry_oom key h" "new_entry key v h' = Inl NullDeref"
  using assms by (auto simp: entry_oom_def new_entry_def)

lemma new_entry_ok:
  fixes h h' :: "'x hheap_scheme"
  assumes "heap_owns (lh_k h) P" "length key < 35184372088832" "lh_k h' = lh_k h"
  obtains (oom) "entry_oom key h" "new_entry key v h' = Inl NullDeref"
  | (room) e kp k where "\<not> entry_oom key h" "e \<noteq> 0" "kp \<noteq> 0" "e \<notin> P" "kp \<notin> P" "e \<noteq> kp"
      "heap_owns k (insert e (insert kp P))"
      "new_entry key v h' = Inr (e, h'\<lparr>lh_k := k, hh_strs := (hh_strs h')(kp \<mapsto> key),
         hh_entries := (hh_entries h')(e \<mapsto> \<lparr>e_key = kp, e_value = v, e_next = 0\<rparr>)\<rparr>)"
proof -
  have u: "unat (of_nat (length key + 1) :: u64) = length key + 1"
    using assms(2) by (intro unat_of_nat_u64) simp
  obtain e k1 where e: "kmalloc 24 (lh_k h) = Inr (e, k1)" using kpool.pool_total [OF assms(1)] by blast
  obtain kp k2 where kp: "kmalloc (of_nat (length key + 1)) k1 = Inr (kp, k2)"
    using kmalloc_returns [OF kmalloc_unlocked [OF e]] by blast
  show thesis
  proof (cases "kp = 0 \<or> e = 0")
    case True
    from new_entry_oom [OF e kp True assms(3)] show ?thesis by (rule oom)
  next
    case False
    then have f: "e \<notin> P" "heap_owns k1 (insert e P)" using kpool.pool_fresh [OF assms(1) e] by simp_all
    have "kp \<notin> insert e P \<and> heap_owns k2 (insert kp (insert e P))"
      using kpool.pool_fresh [OF f(2) kp] False u assms(2) by simp
    with f e kp False assms(3) show ?thesis
      by (intro room [of e kp k2]) (auto simp: entry_oom_def new_entry_def insert_commute)
  qed
qed

lemma hmap_set_absent:
  fixes h :: "'x hheap_scheme"
  assumes ok: "hmap_ok X h mp tp (L @ b # R)" and key: "bucket_index (length (L @ b # R)) key = length L"
    and new: "key \<notin> ekey ` set b" "length key < 35184372088832"
  shows "if entry_oom key h then hashmap_set mp key v h = Inl NullDeref
    else \<exists>e kp h'. hashmap_set mp key v h = Inr (0, h') \<and> hmap_ok X h' mp tp (L @ (b @ [(e, kp, key, v)]) # R) \<and>
      hheap.more h' = hheap.more h"
proof -
  let ?n = "length (L @ b # R)"
  let ?P = "{mp, tp} \<union> set (all_ptrs (L @ b # R)) \<union> X"
  note c = hmap_chain [OF ok]
  have own: "heap_owns (lh_k h) ?P" using ok by (simp add: hmap_ok_def)
  have tp: "tp \<noteq> 0" "hh_tables h tp = Some (map efirst (L @ b # R))"
    and mp: "hh_maps h mp = Some \<lparr>hm_lock = True, hm_hashSize = of_nat ?n, hm_hashmap = tp\<rparr>"
    using ok by (auto simp: hmap_ok_def)
  have fl: "find_loop (hh_entries h) (hh_strs h) key 0 (efirst b) = Some (Inr (elast 0 b, 0))"
    by (rule find_loop_absent [OF c(1) new(1)])
  show ?thesis
  proof (rule new_entry_ok [OF own new(2), of "locked mp tp ?n h" v])
    assume "entry_oom key h" "new_entry key v (locked mp tp ?n h) = Inl NullDeref"
    then show ?thesis
      using hmap_enter [OF ok key] fl by (simp add: hashmap_set_def del: length_append)
  next
    fix e kp k
    assume r: "\<not> entry_oom key h" "e \<noteq> 0" "kp \<noteq> 0" "e \<notin> ?P" "kp \<notin> ?P" "e \<noteq> kp"
      "heap_owns k (insert e (insert kp ?P))"
      "new_entry key v (locked mp tp ?n h) = Inr (e, (locked mp tp ?n h)\<lparr>lh_k := k,
         hh_strs := (hh_strs (locked mp tp ?n h))(kp \<mapsto> key),
         hh_entries := (hh_entries (locked mp tp ?n h))(e \<mapsto> \<lparr>e_key = kp, e_value = v, e_next = 0\<rparr>)\<rparr>)"
    let ?x = "(e, kp, key, v)"
    define m where "m = (case rev b of [] \<Rightarrow> hh_entries h | (l, lkp, lk, lv) # _ \<Rightarrow>
      (hh_entries h)(l \<mapsto> \<lparr>e_key = lkp, e_value = lv, e_next = e\<rparr>))
      (e \<mapsto> \<lparr>e_key = kp, e_value = v, e_next = 0\<rparr>)"
    let ?h' = "h\<lparr>lh_k := k, hh_strs := (hh_strs h)(kp \<mapsto> key), hh_entries := m,
      hh_tables := (hh_tables h)(tp \<mapsto> map efirst (L @ (b @ [?x]) # R))\<rparr>"
    have nptr: "e \<notin> set (chain_ptrs b)" "kp \<notin> set (chain_ptrs b)" using r(4,5) by auto
    have run: "hashmap_set mp key v h = Inr (0, ?h')"
    proof (cases b rule: rev_cases)
      case Nil
      then show ?thesis
        using hmap_enter [OF ok key] fl r(8) c(3) mp tp
        by (simp add: hashmap_set_def map_unlock_def fun_upd_idem m_def list_update_append del: length_append)
    next
      case (snoc b' y)
      obtain l lkp lk lv where y: "y = (l, lkp, lk, lv)" by (cases y)
      have l: "l \<noteq> 0" "l \<noteq> e" "hh_entries h l = Some \<lparr>e_key = lkp, e_value = lv, e_next = 0\<rparr>"
        using c(1) nptr(1) unfolding snoc y by (auto simp: echain_append chain_ptrs_def)
      have "map efirst (L @ (b @ [?x]) # R) = map efirst (L @ b # R)" by (simp add: snoc)
      then show ?thesis
        using hmap_enter [OF ok key] fl r(8) c(3) mp tp l
        by (simp add: hashmap_set_def map_unlock_def fun_upd_idem fun_upd_twist m_def snoc y elast_def del: length_append)
    qed
    have ch: "echain (hh_entries ?h') (hh_strs ?h') (b @ [?x]) 0"
    proof (cases b rule: rev_cases)
      case Nil
      with r(2,3) show ?thesis by (simp add: m_def)
    next
      case (snoc b' y)
      obtain l lkp lk lv where y: "y = (l, lkp, lk, lv)" by (cases y)
      have "echain (hh_entries h) (hh_strs h) b' l" "l \<noteq> 0" "lkp \<noteq> 0" "hh_strs h lkp = Some lk"
        using c(1) unfolding snoc y by (auto simp: echain_append)
      moreover have "echain m ((hh_strs h)(kp \<mapsto> key)) b' l = echain (hh_entries h) (hh_strs h) b' l"
        using nptr c(4) by (intro echain_cong) (auto simp: m_def snoc y chain_ptrs_def)
      moreover have "l \<noteq> e" "lkp \<noteq> kp" using nptr by (auto simp: snoc y chain_ptrs_def)
      ultimately show ?thesis using r(2,3) by (simp add: snoc y echain_append m_def)
    qed
    have "hmap_ok X ?h' mp tp (L @ (b @ [?x]) # R)"
    proof (rule hmap_ok_update [OF ok, of _ "{e, kp}"])
      show "distinct (chain_ptrs (b @ [?x]))" using c(4) nptr r(6) by (auto simp: chain_ptrs_def)
      show "set (chain_ptrs (b @ [?x])) \<subseteq> set (chain_ptrs b) \<union> {e, kp}" by (auto simp: chain_ptrs_def)
      show "{e, kp} \<inter> ?P = {}" using r(4,5) by auto
      show "hh_entries ?h' p = hh_entries h p \<and> hh_strs ?h' p = hh_strs h p"
        if "p \<notin> set (chain_ptrs b) \<union> {e, kp}" for p
        using that by (cases b rule: rev_cases) (auto simp: m_def chain_ptrs_def split: prod.splits)
      have "{mp, tp} \<union> set (all_ptrs (L @ (b @ [?x]) # R)) \<union> X = insert e (insert kp ?P)"
        by (auto simp: chain_ptrs_def)
      with r(7) show "heap_owns (lh_k ?h') ({mp, tp} \<union> set (all_ptrs (L @ (b @ [?x]) # R)) \<union> X)" by simp
      show "bucket_index ?n (ekey x) = length L" if "x \<in> set (b @ [?x])" for x
        using that hmap_keys [OF ok, of x] key by auto
      show "distinct (map ekey (b @ [?x]))" using c(2) new(1) by simp
    qed (use ch in auto)
    moreover have "hheap.more ?h' = hheap.more h" by simp
    ultimately show ?thesis using run r(1) by (simp only: if_False) blast
  qed simp
qed

lemma hmap_remove_present:
  assumes ok: "hmap_ok X h mp tp (L @ b # R)" and key: "bucket_index (length (L @ b # R)) key = length L"
    and b: "b = as @ (e, kp, key, w) # cs" "key \<notin> ekey ` set as" "key \<notin> ekey ` set cs"
  shows "\<exists>h'. hashmap_remove mp key h = Inr (w, h') \<and> hmap_ok X h' mp tp (L @ (as @ cs) # R) \<and>
    hheap.more h' = hheap.more h"
proof -
  let ?n = "length (L @ b # R)"
  let ?P = "{mp, tp} \<union> set (all_ptrs (L @ b # R)) \<union> X"
  note c = hmap_chain [OF ok]
  have e: "e \<noteq> 0" "kp \<noteq> 0" "hh_entries h e = Some \<lparr>e_key = kp, e_value = w, e_next = efirst cs\<rparr>"
    "echain (hh_entries h) (hh_strs h) as e" "echain (hh_entries h) (hh_strs h) cs 0"
    using c(1) unfolding b(1) echain_append by (cases cs; auto)+
  have fl: "find_loop (hh_entries h) (hh_strs h) key 0 (efirst b) = Some (Inr (elast 0 as, e))"
    using find_loop_present [of "hh_entries h" "hh_strs h" as e kp key w cs 0] c(1) b by simp
  have tp: "tp \<noteq> 0" "hh_tables h tp = Some (map efirst (L @ b # R))"
    and mp: "hh_maps h mp = Some \<lparr>hm_lock = True, hm_hashSize = of_nat ?n, hm_hashmap = tp\<rparr>"
    and own: "heap_owns (lh_k h) ?P" and dall: "distinct (all_ptrs (L @ b # R))"
    and sep: "{mp, tp} \<inter> set (all_ptrs (L @ b # R)) = {}" "X \<inter> set (all_ptrs (L @ b # R)) = {}"
    using ok by (auto simp: hmap_ok_def)
  have in_b: "e \<in> set (chain_ptrs b)" "kp \<in> set (chain_ptrs b)" "e \<noteq> kp"
    "e \<notin> set (chain_ptrs (as @ cs))" "kp \<notin> set (chain_ptrs (as @ cs))" "distinct (chain_ptrs (as @ cs))"
    using c(4) by (auto simp: b(1) chain_ptrs_def)
  obtain k1 where k1: "kfree kp (lh_k h) = Inr k1" "heap_owns k1 (?P - {kp})"
    using kpool.pool_free [OF own, of kp] in_b(2) by auto
  obtain k2 where k2: "kfree e k1 = Inr k2" "heap_owns k2 (?P - {kp} - {e})"
    using kpool.pool_free [OF k1(2), of e] in_b(1,3) by auto
  define m where "m = (case rev as of [] \<Rightarrow> hh_entries h | (l, lkp, lk, lv) # _ \<Rightarrow>
    (hh_entries h)(l \<mapsto> \<lparr>e_key = lkp, e_value = lv, e_next = efirst cs\<rparr>))(e := None)"
  let ?h' = "h\<lparr>lh_k := k2, hh_strs := (hh_strs h)(kp := None), hh_entries := m,
    hh_tables := (hh_tables h)(tp \<mapsto> map efirst (L @ (as @ cs) # R))\<rparr>"
  have run: "hashmap_remove mp key h = Inr (w, ?h')"
  proof (cases as rule: rev_cases)
    case Nil
    then show ?thesis
      using hmap_enter [OF ok key] fl c(3) mp tp e k1(1) k2(1)
      by (simp add: hashmap_remove_def map_unlock_def fun_upd_idem m_def list_update_append del: length_append)
  next
    case (snoc b' y)
    obtain l lkp lk lv where y: "y = (l, lkp, lk, lv)" by (cases y)
    have l: "l \<noteq> 0" "l \<noteq> e" "hh_entries h l = Some \<lparr>e_key = lkp, e_value = lv, e_next = e\<rparr>"
      using e(4) in_b(4) unfolding snoc y by (auto simp: echain_append chain_ptrs_def)
    have "map efirst (L @ (as @ cs) # R) = map efirst (L @ b # R)"
      by (cases b') (auto simp: snoc b(1))
    then show ?thesis
      using hmap_enter [OF ok key] fl c(3) mp tp e l k1(1) k2(1)
      by (simp add: hashmap_remove_def map_unlock_def fun_upd_idem m_def snoc y elast_def del: length_append)
  qed
  have other: "echain m ((hh_strs h)(kp := None)) ds q = echain (hh_entries h) (hh_strs h) ds q"
    if "set (chain_ptrs ds) \<subseteq> set (chain_ptrs (as @ cs))" "elast 0 as = 0 \<or> elast 0 as \<notin> set (chain_ptrs ds)" for ds q
    using that in_b e(4)
    by (intro echain_cong; cases as rule: rev_cases) (auto simp: m_def elast_def echain_append split: prod.splits)
  have ch: "echain (hh_entries ?h') (hh_strs ?h') (as @ cs) 0"
  proof (cases as rule: rev_cases)
    case Nil
    with other [of cs 0] e(5) show ?thesis by simp
  next
    case (snoc b' y)
    obtain l lkp lk lv where y: "y = (l, lkp, lk, lv)" by (cases y)
    have l: "echain (hh_entries h) (hh_strs h) b' l" "l \<noteq> 0" "lkp \<noteq> 0" "hh_strs h lkp = Some lk"
      using e(4) unfolding snoc y by (auto simp: echain_append)
    have d: "l \<notin> set (chain_ptrs b')" "l \<notin> set (chain_ptrs cs)" "l \<noteq> e" "lkp \<noteq> kp"
      using in_b(4-6) by (auto simp: snoc y chain_ptrs_def)
    have "echain m ((hh_strs h)(kp := None)) b' l" "echain m ((hh_strs h)(kp := None)) cs 0"
      using other [of b' l] other [of cs 0] l(1) e(5) d by (auto simp: snoc y elast_def chain_ptrs_def)
    with l d show ?thesis by (cases cs) (auto simp: snoc y echain_append m_def)
  qed
  have "hmap_ok X ?h' mp tp (L @ (as @ cs) # R)"
  proof (rule hmap_ok_update [OF ok in_b(6), of "{}"])
    show "set (chain_ptrs (as @ cs)) \<subseteq> set (chain_ptrs b) \<union> {}" by (auto simp: b(1) chain_ptrs_def)
    show "hh_entries ?h' p = hh_entries h p \<and> hh_strs ?h' p = hh_strs h p"
      if "p \<notin> set (chain_ptrs b) \<union> {}" for p
      using that by (cases as rule: rev_cases) (auto simp: m_def b(1) chain_ptrs_def split: prod.splits)
    have "set (chain_ptrs b) = insert e (insert kp (set (chain_ptrs (as @ cs))))"
      by (auto simp: b(1) chain_ptrs_def)
    then have "?P - {kp} - {e} = {mp, tp} \<union> set (all_ptrs (L @ (as @ cs) # R)) \<union> X"
      using in_b(1-5) dall sep by auto
    with k2(2) show "heap_owns (lh_k ?h') ({mp, tp} \<union> set (all_ptrs (L @ (as @ cs) # R)) \<union> X)" by simp
    show "bucket_index ?n (ekey x) = length L" if "x \<in> set (as @ cs)" for x
      using that hmap_keys [OF ok, of x] by (auto simp: b(1))
    show "distinct (map ekey (as @ cs))" using c(2) by (simp add: b(1))
  qed (use ch in auto)
  with run show ?thesis by auto
qed

section \<open>The interface: a partial function from keys to values\<close>

lemma hashmap_set_ok:
  fixes h :: "'x hheap_scheme"
  assumes ok: "hmap_ok X h mp tp bs" and len: "length key < 35184372088832"
  shows "if hm_abs bs key = None \<and> entry_oom key h then hashmap_set mp key v h = Inl NullDeref
    else \<exists>h' bs'. hashmap_set mp key v h = Inr (case hm_abs bs key of None \<Rightarrow> 0 | Some w \<Rightarrow> w, h') \<and>
      hmap_ok X h' mp tp bs' \<and> hm_abs bs' = (hm_abs bs)(key \<mapsto> v) \<and> hheap.more h' = hheap.more h"
proof -
  obtain L b R where s: "bs = L @ b # R" "bucket_index (length bs) key = length L"
    using hmap_split [OF ok] by metis
  note ok' = ok [unfolded s(1)] and key = s(2) [unfolded s(1)]
  have abs: "hm_abs bs key = map_of (map (\<lambda>x. (ekey x, evalue x)) b) key"
    using hm_abs_split s by simp
  from hmap_chain(2) [OF ok'] show ?thesis
  proof (cases rule: chain_cases [where key = key])
    case absent
    have "hm_abs (L @ (b @ [(e, kp, key, v)]) # R) = (hm_abs (L @ b # R))(key \<mapsto> v)" for e kp
      using key absent(2) by (intro hm_abs_update) (auto simp: fun_eq_iff map_add_def split: option.splits)
    with hmap_set_absent [OF ok' key absent(1) len, of v] absent(2) abs s(1) show ?thesis
      by (auto split: if_splits)
  next
    case (present as e kp w cs)
    have "hm_abs (L @ (as @ (e, kp, key, v) # cs) # R) = (hm_abs (L @ b # R))(key \<mapsto> v)"
    proof (rule hm_abs_update [OF key])
      have "map_of (map (\<lambda>x. (ekey x, evalue x)) as) key = None"
        using present(2) by (force simp: map_of_eq_None_iff)
      then show "map_of (map (\<lambda>x. (ekey x, evalue x)) (as @ (e, kp, key, v) # cs)) =
          (map_of (map (\<lambda>x. (ekey x, evalue x)) b))(key \<mapsto> v)"
        by (auto simp: present(1) fun_eq_iff map_add_def split: option.splits)
    qed
    with hmap_set_present [OF ok' key present(1-3), of v] present(4) abs s(1) show ?thesis by auto
  qed
qed

lemma hashmap_remove_ok:
  fixes h :: "'x hheap_scheme"
  assumes ok: "hmap_ok X h mp tp bs"
  shows "\<exists>h' bs'. hashmap_remove mp key h = Inr (case hm_abs bs key of None \<Rightarrow> 0 | Some w \<Rightarrow> w, h') \<and>
      hmap_ok X h' mp tp bs' \<and> hm_abs bs' = (hm_abs bs)(key := None) \<and> hheap.more h' = hheap.more h"
proof -
  obtain L b R where s: "bs = L @ b # R" "bucket_index (length bs) key = length L"
    using hmap_split [OF ok] by metis
  note ok' = ok [unfolded s(1)] and key = s(2) [unfolded s(1)]
  have abs: "hm_abs bs key = map_of (map (\<lambda>x. (ekey x, evalue x)) b) key"
    using hm_abs_split s by simp
  from hmap_chain(2) [OF ok'] show ?thesis
  proof (cases rule: chain_cases [where key = key])
    case absent
    then have "hashmap_remove mp key h = Inr (0, h)"
      using hmap_enter [OF ok' key] find_loop_absent [OF hmap_chain(1) [OF ok'] absent(1), of 0]
        hmap_unlock [OF ok'] by (simp add: hashmap_remove_def del: length_append)
    moreover have "hm_abs bs = (hm_abs bs)(key := None)" using absent(2) abs by (simp add: fun_upd_idem)
    ultimately show ?thesis using ok absent(2) abs by (intro exI [of _ h] exI [of _ bs]) simp
  next
    case (present as e kp w cs)
    have "hm_abs (L @ (as @ cs) # R) = (hm_abs (L @ b # R))(key := None)"
    proof (rule hm_abs_update [OF key])
      have n: "map_of (map (\<lambda>x. (ekey x, evalue x)) ds) key = None" if "key \<notin> ekey ` set ds" for ds
        using that by (force simp: map_of_eq_None_iff)
      show "map_of (map (\<lambda>x. (ekey x, evalue x)) (as @ cs)) =
          (map_of (map (\<lambda>x. (ekey x, evalue x)) b))(key := None)"
        using n [OF present(2)] n [OF present(3)]
        by (auto simp: present(1) fun_eq_iff map_add_def split: option.splits)
    qed
    with hmap_remove_present [OF ok' key present(1-3)] present(4) abs s(1) show ?thesis by auto
  qed
qed

text \<open>
  What the users of a keyed store rely on: \<open>rep s a\<close> says the store holds the partial function \<open>a\<close>.
  A full store refuses new keys only.
\<close>

locale keyed_store =
  fixes put :: "'k \<Rightarrow> u64 \<Rightarrow> 's \<Rightarrow> (u64 \<times> 's) exec"
    and lookup :: "'k \<Rightarrow> 's \<Rightarrow> (u64 \<times> 's) exec"
    and member :: "'k \<Rightarrow> 's \<Rightarrow> (bool \<times> 's) exec"
    and delete :: "'k \<Rightarrow> 's \<Rightarrow> (u64 \<times> 's) exec"
    and full :: "'k \<Rightarrow> 's \<Rightarrow> bool"
    and valid :: "'k \<Rightarrow> bool"
    and rep :: "'s \<Rightarrow> ('k \<rightharpoonup> u64) \<Rightarrow> bool"
  assumes put_law: "rep s a \<Longrightarrow> valid k \<Longrightarrow> a k \<noteq> None \<or> \<not> full k s \<Longrightarrow>
      \<exists>s'. put k v s = Inr (case a k of None \<Rightarrow> 0 | Some w \<Rightarrow> w, s') \<and> rep s' (a(k \<mapsto> v))"
    and lookup_law: "rep s a \<Longrightarrow> lookup k s = Inr (case a k of None \<Rightarrow> 0 | Some w \<Rightarrow> w, s)"
    and member_law: "rep s a \<Longrightarrow> member k s = Inr (a k \<noteq> None, s)"
    and delete_law: "rep s a \<Longrightarrow>
      \<exists>s'. delete k s = Inr (case a k of None \<Rightarrow> 0 | Some w \<Rightarrow> w, s') \<and> rep s' (a(k := None))"
begin

lemma put_then_lookup:
  assumes "rep s a" "valid k" "a k \<noteq> None \<or> \<not> full k s"
  obtains r s' where "put k v s = Inr (r, s')" "lookup k s' = Inr (v, s')" "member k s' = Inr (True, s')"
    "\<And>k'. k' \<noteq> k \<Longrightarrow> lookup k' s' = Inr (case a k' of None \<Rightarrow> 0 | Some w \<Rightarrow> w, s')"
    "rep s' (a(k \<mapsto> v))"
proof -
  obtain s' where s': "put k v s = Inr (case a k of None \<Rightarrow> 0 | Some w \<Rightarrow> w, s')" "rep s' (a(k \<mapsto> v))"
    using put_law [OF assms] by blast
  with lookup_law [OF s'(2)] member_law [OF s'(2)] show thesis by (intro that) auto
qed

lemma put_then_delete:
  assumes "rep s a" "valid k" "a k = None" "\<not> full k s"
  shows "\<exists>s' s''. put k v s = Inr (0, s') \<and> delete k s' = Inr (v, s'') \<and> rep s'' a \<and>
    member k s'' = Inr (False, s'')"
proof -
  obtain s' where s': "put k v s = Inr (0, s')" "rep s' (a(k \<mapsto> v))"
    using put_law [OF assms(1,2), of v] assms(3,4) by auto
  obtain s'' where s'': "delete k s' = Inr (v, s'')" "rep s'' (a(k \<mapsto> v, k := None))"
    using delete_law [OF s'(2), of k] by auto
  have "a(k \<mapsto> v, k := None) = a" using assms(3) by (simp add: fun_upd_idem)
  with s' s'' member_law [of s'' a k] assms(3) show ?thesis by auto
qed

end

definition hmap_rep :: "u64 set \<Rightarrow> u64 \<Rightarrow> 'x hheap_scheme \<Rightarrow> (u8 list \<rightharpoonup> u64) \<Rightarrow> bool" where
  "hmap_rep X mp h a \<longleftrightarrow> (\<exists>tp bs. hmap_ok X h mp tp bs \<and> a = hm_abs bs)"

interpretation kmap: keyed_store "hashmap_set mp" "hashmap_get mp" "hashmap_has mp" "hashmap_remove mp"
  entry_oom "\<lambda>key. length key < 35184372088832" "hmap_rep X mp"
proof
  fix h :: "'x hheap_scheme" and a and key :: "u8 list" and v
  assume "hmap_rep X mp h a"
  then obtain tp bs where ok: "hmap_ok X h mp tp bs" "a = hm_abs bs" by (auto simp: hmap_rep_def)
  show "hashmap_get mp key h = Inr (case a key of None \<Rightarrow> 0 | Some w \<Rightarrow> w, h)"
    "hashmap_has mp key h = Inr (a key \<noteq> None, h)"
    using hashmap_get_ok [OF ok(1)] ok(2) by simp_all
  show "\<exists>h'. hashmap_remove mp key h = Inr (case a key of None \<Rightarrow> 0 | Some w \<Rightarrow> w, h') \<and> hmap_rep X mp h' (a(key := None))"
    using hashmap_remove_ok [OF ok(1), of key] ok(2) unfolding hmap_rep_def by metis
  assume "length key < 35184372088832" "a key \<noteq> None \<or> \<not> entry_oom key h"
  then show "\<exists>h'. hashmap_set mp key v h = Inr (case a key of None \<Rightarrow> 0 | Some w \<Rightarrow> w, h') \<and> hmap_rep X mp h' (a(key \<mapsto> v))"
    using hashmap_set_ok [OF ok(1), of key v] ok(2) unfolding hmap_rep_def by (auto split: if_splits) metis+
qed

section \<open>Correctness of the hash map\<close>

text \<open>
  C12. A hash map refines a partial function from strings to values. \<^verbatim>\<open>hashmap_get\<close> and \<^verbatim>\<open>hashmap_has\<close>
  read that function and change nothing; \<^verbatim>\<open>hashmap_set\<close> updates it at one key and returns the old value
  (or 0), failing only for a new key when the heap is exhausted; \<^verbatim>\<open>hashmap_remove\<close> deletes one key and
  returns its value (or 0). All other live objects keep their memory.
\<close>

theorem hashmap_refines_map:
  fixes h :: "'x hheap_scheme"
  assumes "hmap_ok X h mp tp bs" "length key < 35184372088832"
  shows "hashmap_get mp key h = Inr (case hm_abs bs key of None \<Rightarrow> 0 | Some w \<Rightarrow> w, h) \<and>
    hashmap_has mp key h = Inr (hm_abs bs key \<noteq> None, h) \<and>
    (if hm_abs bs key = None \<and> entry_oom key h then hashmap_set mp key v h = Inl NullDeref
     else \<exists>h' bs'. hashmap_set mp key v h = Inr (case hm_abs bs key of None \<Rightarrow> 0 | Some w \<Rightarrow> w, h') \<and>
       hmap_ok X h' mp tp bs' \<and> hm_abs bs' = (hm_abs bs)(key \<mapsto> v) \<and> hheap.more h' = hheap.more h) \<and>
    (\<exists>h' bs'. hashmap_remove mp key h = Inr (case hm_abs bs key of None \<Rightarrow> 0 | Some w \<Rightarrow> w, h') \<and>
       hmap_ok X h' mp tp bs' \<and> hm_abs bs' = (hm_abs bs)(key := None) \<and> hheap.more h' = hheap.more h)"
  by (intro conjI hashmap_get_ok [OF assms(1)] hashmap_set_ok [OF assms] hashmap_remove_ok [OF assms(1)])

text \<open>An empty map with two buckets.\<close>

definition two_hheap :: hheap where
  "two_hheap = \<lparr>lh_k = lh_k three_lheap, lh_lists = Map.empty, lh_nodes = Map.empty,
     hh_maps = [block_addr 4 \<mapsto> \<lparr>hm_lock = True, hm_hashSize = 2, hm_hashmap = block_addr 6\<rparr>],
     hh_tables = [block_addr 6 \<mapsto> [0, 0]], hh_entries = Map.empty, hh_strs = Map.empty\<rparr>"

lemma two_ok: "hmap_ok {} two_hheap (block_addr 4) (block_addr 6) [[], []]"
proof -
  have "heap_owns (lh_k three_lheap) {block_addr 4, block_addr 6}"
    unfolding heap_owns_def by (rule exI [of _ "{(4, 2), (6, 2), (8, 2), (10, 2)}"]) (simp add: three_heap_inv)
  moreover have "block_addr 4 \<noteq> block_addr 6" using block_addr_inject [of 4 6] by auto
  ultimately show ?thesis
    by (auto simp: hmap_ok_def two_hheap_def block_addr_nonnull chain_ptrs_def less_Suc_eq)
qed

lemma two_room: "\<not> entry_oom [97] two_hheap"
proof -
  have t: "heap_tail (lh_k three_lheap) 12"
    using three_heap_inv by (auto simp: heap_tail_def three_lheap_def)
  obtain p k where p: "kmalloc 24 (lh_k three_lheap) = Inr (p, k)" "p \<noteq> 0" "heap_tail k 14"
  proof (rule kmalloc_tail [OF t, of 24])
    fix p k
    assume "kmalloc 24 (lh_k three_lheap) = Inr (p, k)" "p \<noteq> 0"
      "12 + (size_pages (unat (24 :: u64)) + 1) < PmmLength (km_pmm (lh_k three_lheap)) \<Longrightarrow>
        heap_tail k (12 + (size_pages (unat (24 :: u64)) + 1))"
    then show thesis
      by (intro that [of p k]) (simp_all add: size_pages_def three_lheap_def)
  qed simp
  obtain q k' where "kmalloc 2 k = Inr (q, k')" "q \<noteq> 0"
    by (rule kmalloc_tail [OF p(3), of 2]) (simp_all add: that)
  with p show ?thesis by (simp add: entry_oom_def two_hheap_def)
qed

theorem hashmap_refines_map_witness:
  "\<exists>h' bs'. hashmap_set (block_addr 4) [97] 5 two_hheap = Inr (0, h') \<and>
     hmap_ok {} h' (block_addr 4) (block_addr 6) bs' \<and> hm_abs bs' = [[97] \<mapsto> 5]"
proof -
  have e: "hm_abs [[], []] = Map.empty"
    by (auto simp: hm_abs_def fun_eq_iff bucket_index_def nth_Cons')
  show ?thesis
    using hashmap_refines_map [OF two_ok, of "[97]" 5] two_room by (auto simp: e)
qed

text \<open>
  Storing a value under a new key and removing the key gives the value back and leaves the map
  exactly as it was, with the key absent.
\<close>

theorem hashmap_set_remove_roundtrip:
  fixes h :: "'x hheap_scheme"
  assumes "hmap_rep X mp h a" "length key < 35184372088832" "a key = None" "\<not> entry_oom key h"
  shows "\<exists>h' h''. hashmap_set mp key v h = Inr (0, h') \<and> hashmap_remove mp key h' = Inr (v, h'') \<and>
    hmap_rep X mp h'' a \<and> hashmap_has mp key h'' = Inr (False, h'')"
  by (rule kmap.put_then_delete [OF assms])

theorem hashmap_set_remove_roundtrip_witness:
  "\<exists>h' h''. hashmap_set (block_addr 4) [97] 5 two_hheap = Inr (0, h') \<and>
     hashmap_remove (block_addr 4) [97] h' = Inr (5, h'')"
proof -
  have "hmap_rep {} (block_addr 4) two_hheap (hm_abs [[], []])"
    using two_ok by (auto simp: hmap_rep_def)
  moreover have "hm_abs [[], []] [97] = None"
    by (auto simp: hm_abs_def bucket_index_def nth_Cons')
  ultimately show ?thesis
    using hashmap_set_remove_roundtrip [of "{}" "block_addr 4" two_hheap "hm_abs [[], []]" "[97]" 5] two_room
    by auto
qed

end
