(* ===== verification/Vmm.thy ===== *)
theory Vmm
  imports Hashmap
begin

text \<open>
  The virtual memory manager, \<^verbatim>\<open>kernel/mem/vmm.c\<close>: four-level page tables kept in physical memory and
  reached through the direct map. Every function of the file is modelled over the byte memory and the
  page allocator; the \<^verbatim>\<open>pt_t\<close> objects (root address and lock) live in a typed store beside it. The
  tables of an address space abstract to a partial function from pages to entries; mapping and
  unmapping are shown to be update and removal of that function, and \<^verbatim>\<open>vmm_get_phys\<close> its lookup.
\<close>

section \<open>Data\<close>

definition VMM_FLAG_MASK :: u64 where
  "VMM_FLAG_MASK = 0xFFF OR push_bit 63 1"

definition VMM_ADDR_MASK :: u64 where
  "VMM_ADDR_MASK = NOT VMM_FLAG_MASK"

definition VMM_PRESENT :: u64 where "VMM_PRESENT = 1"
definition VMM_WRITE :: u64 where "VMM_WRITE = 2"
definition VMM_USER :: u64 where "VMM_USER = 4"
definition VMM_LARGE :: u64 where "VMM_LARGE = 0x80"

record pt_t =
  pt_entries :: u64
  pt_lock :: lock

record pt_offset_t =
  pml4_off :: u64
  pdp_off :: u64
  pd_off :: u64
  pt_off :: u64

record vheap = hheap +
  vm_pts :: "u64 \<rightharpoonup> pt_t"
  KernelPml4 :: u64
  KernelBase :: u64
  PhysicalKernelBase :: u64
  KernelSize :: u64
  vm_cr3 :: u64

section \<open>Page-table entries\<close>

definition get_addr_offsets :: "u64 \<Rightarrow> pt_offset_t" where
  "get_addr_offsets addr =
     \<lparr>pml4_off = drop_bit 39 (addr AND push_bit 39 0x1FF),
      pdp_off = drop_bit 30 (addr AND push_bit 30 0x1FF),
      pd_off = drop_bit 21 (addr AND push_bit 21 0x1FF),
      pt_off = drop_bit 12 (addr AND push_bit 12 0x1FF)\<rparr>"

text \<open>\<^verbatim>\<open>pt->entries[offset]\<close> read and written through a direct-map pointer.\<close>

definition pt_get :: "bytes \<Rightarrow> u64 \<Rightarrow> u64 \<Rightarrow> u64" where
  "pt_get m pt offset = read64 m (phys_of (pt + 8 * offset))"

definition pt_set :: "bytes \<Rightarrow> u64 \<Rightarrow> u64 \<Rightarrow> u64 \<Rightarrow> bytes" where
  "pt_set m pt offset v = write64 m (phys_of (pt + 8 * offset)) v"

definition vmm_get_or_alloc :: "u64 \<Rightarrow> u64 \<Rightarrow> u64 \<Rightarrow> kmem \<Rightarrow> (u64 \<times> kmem) exec" where
  "vmm_get_or_alloc pt offset flags k =
     (let addr = pt_get (km_mem k) pt offset in
      if addr AND VMM_PRESENT = 0 then
        bindr (pmm_alloc 1 k) (\<lambda>(addr, k).
          let m1 = pt_set (km_mem k) pt offset addr in
          if addr = 0 then Inl HaltLoop
          else Inr ((addr AND VMM_ADDR_MASK) + MEM_PHYS_OFFSET,
                 k\<lparr>km_mem := pt_set m1 pt offset (pt_get m1 pt offset OR (flags OR VMM_PRESENT))\<rparr>))
      else Inr ((addr AND VMM_ADDR_MASK) + MEM_PHYS_OFFSET, k))"

definition vmm_get_or_null :: "bytes \<Rightarrow> u64 \<Rightarrow> u64 \<Rightarrow> u64" where
  "vmm_get_or_null m pt offset =
     (let addr = pt_get m pt offset in
      if addr AND VMM_PRESENT = 0 then 0 else (addr AND VMM_ADDR_MASK) + MEM_PHYS_OFFSET)"

section \<open>The lock of an address space\<close>

definition pt_acquire :: "u64 \<Rightarrow> 'x vheap_scheme \<Rightarrow> (pt_t \<times> 'x vheap_scheme) exec" where
  "pt_acquire p h = bindr (load (vm_pts h) p) (\<lambda>P.
     bindr (spin_acquire_exec (pt_lock P)) (\<lambda>b.
       Inr (P, h\<lparr>vm_pts := (vm_pts h)(p \<mapsto> P\<lparr>pt_lock := b\<rparr>)\<rparr>)))"

definition pt_release :: "u64 \<Rightarrow> 'x vheap_scheme \<Rightarrow> 'x vheap_scheme exec" where
  "pt_release p h = bindr (modify p (\<lambda>P. P\<lparr>pt_lock := UNLOCKED\<rparr>) (vm_pts h)) (\<lambda>m.
     Inr (h\<lparr>vm_pts := m\<rparr>))"

section \<open>Mapping\<close>

fun map_loop :: "u64 \<Rightarrow> u64 \<Rightarrow> bool \<Rightarrow> nat \<Rightarrow> u64 \<Rightarrow> u64 \<Rightarrow> kmem \<Rightarrow> (bool \<times> kmem) exec" where
  "map_loop entries permissions huge 0 addr phys k = Inr (True, k)"
| "map_loop entries permissions huge (Suc sz) addr phys k =
     (let offset = get_addr_offsets addr;
          pml4 = entries + MEM_PHYS_OFFSET
      in if pml4 = 0 then Inr (False, k)
      else bindr (vmm_get_or_alloc pml4 (pml4_off offset) (VMM_WRITE OR VMM_USER) k) (\<lambda>(pdp, k).
        if pdp = 0 then Inr (False, k)
        else bindr (vmm_get_or_alloc pdp (pdp_off offset) (VMM_WRITE OR VMM_USER) k) (\<lambda>(pd, k).
          if pd = 0 then Inr (False, k)
          else if huge then
            map_loop entries permissions huge sz (addr + 0x200000) (phys + 0x200000)
              (k\<lparr>km_mem := pt_set (km_mem k) pd (pd_off offset)
                   (phys OR permissions OR VMM_PRESENT OR VMM_LARGE)\<rparr>)
          else bindr (vmm_get_or_alloc pd (pd_off offset) (VMM_WRITE OR VMM_USER) k) (\<lambda>(pt, k).
            if pt = 0 then Inr (False, k)
            else map_loop entries permissions huge sz (addr + 0x1000) (phys + 0x1000)
              (k\<lparr>km_mem := pt_set (km_mem k) pt (pt_off offset)
                   (phys OR permissions OR VMM_PRESENT)\<rparr>)))))"

definition vmm_map_advanced ::
    "u64 \<Rightarrow> u64 \<Rightarrow> u64 \<Rightarrow> u64 \<Rightarrow> u64 \<Rightarrow> bool \<Rightarrow> 'x vheap_scheme \<Rightarrow> (bool \<times> 'x vheap_scheme) exec" where
  "vmm_map_advanced pml4addr addr phys sz permissions huge h =
     bindr (pt_acquire pml4addr h) (\<lambda>(P, h).
     bindr (map_loop (pt_entries P) permissions huge (unat sz) addr phys (lh_k h)) (\<lambda>(ret, k).
     bindr (pt_release pml4addr (h\<lparr>lh_k := k\<rparr>)) (\<lambda>h. Inr (ret, h))))"

definition vmm_map :: "u64 \<Rightarrow> u64 \<Rightarrow> u64 \<Rightarrow> u64 \<Rightarrow> u64 \<Rightarrow> 'x vheap_scheme \<Rightarrow> (bool \<times> 'x vheap_scheme) exec" where
  "vmm_map pml4 addr phys sz permissions h = vmm_map_advanced pml4 addr phys sz permissions False h"

definition vmm_map_huge :: "u64 \<Rightarrow> u64 \<Rightarrow> u64 \<Rightarrow> u64 \<Rightarrow> u64 \<Rightarrow> 'x vheap_scheme \<Rightarrow> (bool \<times> 'x vheap_scheme) exec" where
  "vmm_map_huge pml4 addr phys sz permissions h = vmm_map_advanced pml4 addr phys sz permissions True h"

section \<open>Unmapping\<close>

text \<open>
  The counter is in small pages; a large page takes 512 of them. The last-level table is used without
  a check for \<^verbatim>\<open>NULL\<close>.
\<close>

fun unmap_loop :: "u64 \<Rightarrow> nat \<Rightarrow> u64 \<Rightarrow> bytes \<Rightarrow> (bool \<times> bytes) exec" where
  "unmap_loop entries 0 addr m = Inr (True, m)"
| "unmap_loop entries (Suc sz) addr m =
     (let offset = get_addr_offsets addr;
          pml4 = entries + MEM_PHYS_OFFSET
      in if pml4 = 0 then Inr (False, m)
      else let pdp = vmm_get_or_null m pml4 (pml4_off offset) in
        if pdp = 0 then Inr (False, m)
        else let pd = vmm_get_or_null m pdp (pdp_off offset) in
          if pd = 0 then Inr (False, m)
          else if pt_get m pd (pd_off offset) AND VMM_LARGE \<noteq> 0 then
            if sz < 0x1FF then Inr (False, m)
            else unmap_loop entries (sz - 0x1FF) (addr + 0x200000) (pt_set m pd (pd_off offset) 0)
          else let pt = vmm_get_or_null m pd (pd_off offset) in
            if pt = 0 then Inl NullDeref
            else unmap_loop entries sz (addr + 0x1000) (pt_set m pt (pt_off offset) 0))"

definition vmm_unmap :: "u64 \<Rightarrow> u64 \<Rightarrow> u64 \<Rightarrow> 'x vheap_scheme \<Rightarrow> (bool \<times> 'x vheap_scheme) exec" where
  "vmm_unmap pml4addr addr sz h =
     bindr (pt_acquire pml4addr h) (\<lambda>(P, h).
     bindr (unmap_loop (pt_entries P) (unat sz) addr (km_mem (lh_k h))) (\<lambda>(ret, m).
     bindr (pt_release pml4addr (h\<lparr>lh_k := (lh_k h)\<lparr>km_mem := m\<rparr>\<rparr>)) (\<lambda>h. Inr (ret, h))))"

section \<open>Reading through an address space\<close>

text \<open>The destination buffer is a direct-map pointer; the walk stops silently at the first missing table.\<close>

partial_function (option) read_loop :: "u64 \<Rightarrow> u64 \<Rightarrow> u64 \<Rightarrow> u64 \<Rightarrow> bytes \<Rightarrow> bytes option" where
  "read_loop entries addr buffer sz m =
     (let offset = get_addr_offsets addr;
          pml4 = entries + MEM_PHYS_OFFSET
      in if pml4 = 0 then Some m
      else let pdp = vmm_get_or_null m pml4 (pml4_off offset) in
        if pdp = 0 then Some m
        else let pd = vmm_get_or_null m pdp (pdp_off offset) in
          if pd = 0 then Some m
          else if pt_get m pd (pd_off offset) AND VMM_LARGE \<noteq> 0 then
            let misalign = addr AND 0x1FFFFF;
                phys_addr = pt_get m pd (pd_off offset) AND NOT 0xFFF;
                m' = memcpy m (phys_of buffer) (phys_of (phys_addr + misalign + MEM_PHYS_OFFSET))
                       (unat (if sz > 0x200000 - misalign then 0x200000 - misalign else sz))
            in if sz \<le> 0x200000 - misalign then Some m'
               else read_loop entries ((addr AND NOT 0x1FFFFF) + 0x200000) (buffer + 0x200000)
                      (sz - 0x200000) m'
          else let pt = vmm_get_or_null m pd (pd_off offset) in
            if pt = 0 then Some m
            else
              let misalign = addr AND 0xFFF;
                  phys_addr = pt_get m pt (pt_off offset) AND NOT 0xFFF;
                  m' = memcpy m (phys_of buffer) (phys_of (phys_addr + misalign + MEM_PHYS_OFFSET))
                         (unat (if sz > 0x1000 - misalign then 0x1000 - misalign else sz))
              in if sz \<le> 0x1000 - misalign then Some m'
                 else read_loop entries ((addr AND NOT 0xFFF) + 0x1000) (buffer + 0x1000)
                        (sz - 0x1000) m')"

definition vmm_read :: "u64 \<Rightarrow> u64 \<Rightarrow> u64 \<Rightarrow> u64 \<Rightarrow> 'x vheap_scheme \<Rightarrow> 'x vheap_scheme exec" where
  "vmm_read pml4addr addr buffer sz h =
     bindr (pt_acquire pml4addr h) (\<lambda>(P, h).
       case read_loop (pt_entries P) addr buffer sz (km_mem (lh_k h)) of
         None \<Rightarrow> Inl HaltLoop
       | Some m \<Rightarrow> pt_release pml4addr (h\<lparr>lh_k := (lh_k h)\<lparr>km_mem := m\<rparr>\<rparr>))"

definition get_phys :: "u64 \<Rightarrow> u64 \<Rightarrow> bytes \<Rightarrow> u64" where
  "get_phys entries addr m =
     (let offset = get_addr_offsets addr;
          pml4 = entries + MEM_PHYS_OFFSET
      in if pml4 = 0 then 0
      else let pdp = vmm_get_or_null m pml4 (pml4_off offset) in
        if pdp = 0 then 0
        else let pd = vmm_get_or_null m pdp (pdp_off offset) in
          if pd = 0 then 0
          else if pt_get m pd (pd_off offset) AND VMM_LARGE \<noteq> 0 then
            (pt_get m pd (pd_off offset) AND NOT 0xFFF) OR (addr AND 0x1FFFFF)
          else let pt = vmm_get_or_null m pd (pd_off offset) in
            if pt = 0 then 0
            else (pt_get m pt (pt_off offset) AND NOT 0xFFF) OR (addr AND 0xFFF))"

definition vmm_get_phys :: "u64 \<Rightarrow> u64 \<Rightarrow> 'x vheap_scheme \<Rightarrow> (u64 \<times> 'x vheap_scheme) exec" where
  "vmm_get_phys pml4addr addr h =
     bindr (pt_acquire pml4addr h) (\<lambda>(P, h).
     bindr (pt_release pml4addr h) (\<lambda>h. Inr (get_phys (pt_entries P) addr (km_mem (lh_k h)), h)))"

section \<open>Mapping only what is not mapped\<close>

text \<open>
  The flag of the result says whether the lock was released: the return at the first page that is
  already present keeps it.
\<close>

fun map_absent_loop :: "u64 \<Rightarrow> u64 \<Rightarrow> nat \<Rightarrow> u64 \<Rightarrow> u64 \<Rightarrow> kmem \<Rightarrow> (bool \<times> kmem) exec" where
  "map_absent_loop entries permissions 0 addr phys k = Inr (True, k)"
| "map_absent_loop entries permissions (Suc sz) addr phys k =
     (let offset = get_addr_offsets addr;
          pml4 = entries + MEM_PHYS_OFFSET
      in bindr (vmm_get_or_alloc pml4 (pml4_off offset) (VMM_WRITE OR VMM_USER) k) (\<lambda>(pdp, k).
         bindr (vmm_get_or_alloc pdp (pdp_off offset) (VMM_WRITE OR VMM_USER) k) (\<lambda>(pd, k).
         if pt_get (km_mem k) pd (pd_off offset) AND VMM_LARGE \<noteq> 0 then Inr (True, k)
         else bindr (vmm_get_or_alloc pd (pd_off offset) (VMM_WRITE OR VMM_USER) k) (\<lambda>(pt, k).
           if pt_get (km_mem k) pt (pt_off offset) AND VMM_PRESENT \<noteq> 0 then Inr (False, k)
           else map_absent_loop entries permissions sz (addr + 0x1000) (phys + 0x1000)
             (k\<lparr>km_mem := pt_set (km_mem k) pt (pt_off offset)
                  (phys OR permissions OR VMM_PRESENT)\<rparr>)))))"

definition vmm_map_if_not_mapped ::
    "u64 \<Rightarrow> u64 \<Rightarrow> u64 \<Rightarrow> u64 \<Rightarrow> u64 \<Rightarrow> 'x vheap_scheme \<Rightarrow> 'x vheap_scheme exec" where
  "vmm_map_if_not_mapped pml4addr addr phys sz permissions h =
     bindr (pt_acquire pml4addr h) (\<lambda>(P, h).
     bindr (map_absent_loop (pt_entries P) permissions (unat sz) addr phys (lh_k h)) (\<lambda>(release, k).
       if release then pt_release pml4addr (h\<lparr>lh_k := k\<rparr>) else Inr (h\<lparr>lh_k := k\<rparr>)))"

section \<open>Creating, freeing and copying address spaces\<close>

definition vmm_setup_pml4 :: "'x vheap_scheme \<Rightarrow> (u64 \<times> 'x vheap_scheme) exec" where
  "vmm_setup_pml4 h =
     bindr (kmalloc 8 (lh_k h)) (\<lambda>(pml4, k).
     bindr (pmm_alloc 1 k) (\<lambda>(entries, k).
     if pml4 = 0 then Inl NullDeref
     else
       bindr (vmm_map pml4 (KernelBase h) (PhysicalKernelBase h)
                (ROUND_UP64 (KernelSize h) 0x1000 div 0x1000) 3
                (h\<lparr>lh_k := k, vm_pts := (vm_pts h)(pml4 \<mapsto> \<lparr>pt_entries = entries, pt_lock = UNLOCKED\<rparr>)\<rparr>)) (\<lambda>(_, h).
       bindr (vmm_map_huge pml4 MEM_PHYS_OFFSET 0 (4096 * 3) 3 h) (\<lambda>(_, h).
         Inr (pml4, h)))))"

definition free_pt_page :: "u64 \<Rightarrow> kmem \<Rightarrow> kmem exec" where
  "free_pt_page phys k = bindr (pmm_free phys 1 (km_pmm k)) (\<lambda>p. Inr (k\<lparr>km_pmm := p\<rparr>))"

definition free_pt :: "u64 \<Rightarrow> kmem \<Rightarrow> kmem exec" where
  "free_pt pt k =
     bindr (for_exec 0 512 (\<lambda>l k.
       let e = pt_get (km_mem k) pt (of_nat l) in
       if e AND 1 \<noteq> 0 then free_pt_page (e AND VMM_ADDR_MASK) k else Inr k) k)
     (free_pt_page (pt - MEM_PHYS_OFFSET))"

definition free_pd :: "u64 \<Rightarrow> kmem \<Rightarrow> kmem exec" where
  "free_pd pd k =
     bindr (for_exec 0 512 (\<lambda>j k.
       if pt_get (km_mem k) pd (of_nat j) AND VMM_LARGE \<noteq> 0 then Inr k
       else let pt = vmm_get_or_null (km_mem k) pd (of_nat j) in
         if pt \<noteq> 0 then free_pt pt k else Inr k) k)
     (free_pt_page (pd - MEM_PHYS_OFFSET))"

definition free_pdp :: "u64 \<Rightarrow> kmem \<Rightarrow> kmem exec" where
  "free_pdp pdp k =
     bindr (for_exec 0 512 (\<lambda>j k.
       let pd = vmm_get_or_null (km_mem k) pdp (of_nat j) in
       if pd \<noteq> 0 then free_pd pd k else Inr k) k)
     (free_pt_page (pdp - MEM_PHYS_OFFSET))"

definition vmm_free_pml4 :: "u64 \<Rightarrow> 'x vheap_scheme \<Rightarrow> 'x vheap_scheme exec" where
  "vmm_free_pml4 pml4 h =
     bindr (pt_acquire pml4 h) (\<lambda>(P, h).
     bindr (for_exec 0 256 (\<lambda>i k.
       let pdp = vmm_get_or_null (km_mem k) (pt_entries P + MEM_PHYS_OFFSET) (of_nat i) in
       if pdp \<noteq> 0 then free_pdp pdp k else Inr k) (lh_k h)) (\<lambda>k.
     bindr (free_pt_page (pt_entries P) k) (\<lambda>k.
     bindr (kfree pml4 k) (\<lambda>k. Inr (h\<lparr>lh_k := k, vm_pts := (vm_pts h)(pml4 := None)\<rparr>)))))"

definition vmm_entries_to_virt_addr :: "u64 \<Rightarrow> u64 \<Rightarrow> u64 \<Rightarrow> u64 \<Rightarrow> u64" where
  "vmm_entries_to_virt_addr pml4_entry pdpt_entry pd_entry pt_entry =
     push_bit 39 (pml4_entry AND 0x1FF) OR push_bit 30 (pdpt_entry AND 0x1FF) OR
     push_bit 21 (pd_entry AND 0x1FF) OR push_bit 12 (pt_entry AND 0x1FF)"

text \<open>
  The copy draws small pages from a pool of 4096 pages that is replaced when it runs out; its state is
  the pool address, the next free page of the pool and the machine.
\<close>

type_synonym 'x copy_state = "u64 \<times> nat \<times> 'x vheap_scheme"

definition copy_small :: "u64 \<Rightarrow> nat \<Rightarrow> nat \<Rightarrow> nat \<Rightarrow> u64 \<Rightarrow> nat \<Rightarrow> 'x copy_state \<Rightarrow> 'x copy_state exec" where
  "copy_small new_pml4 i j k pt l = (\<lambda>(pool, pool_ptr, h).
     if pt_get (km_mem (lh_k h)) pt (of_nat l) AND 1 = 0 then Inr (pool, pool_ptr, h)
     else
       bindr (if pool_ptr = 4096
              then bindr (pmm_alloc 4096 (lh_k h)) (\<lambda>(pool, km). Inr (pool, 0, h\<lparr>lh_k := km\<rparr>))
              else Inr (pool, pool_ptr, h)) (\<lambda>(pool, pool_ptr, h).
       let new_page = pool + of_nat (PAGE_SIZE * pool_ptr);
           m = km_mem (lh_k h);
           m' = memcpy64 m (phys_of (new_page + MEM_PHYS_OFFSET))
                  (phys_of ((pt_get m pt (of_nat l) AND VMM_ADDR_MASK) + MEM_PHYS_OFFSET)) PAGE_SIZE
       in bindr (vmm_map new_pml4 (vmm_entries_to_virt_addr (of_nat i) (of_nat j) (of_nat k) (of_nat l))
                  new_page 1 (pt_get m' pt (of_nat l) AND VMM_FLAG_MASK)
                  (h\<lparr>lh_k := (lh_k h)\<lparr>km_mem := m'\<rparr>\<rparr>)) (\<lambda>(_, h).
            Inr (pool, pool_ptr + 1, h))))"

definition copy_large :: "u64 \<Rightarrow> nat \<Rightarrow> nat \<Rightarrow> nat \<Rightarrow> u64 \<Rightarrow> 'x copy_state \<Rightarrow> 'x copy_state exec" where
  "copy_large new_pml4 i j k pd = (\<lambda>(pool, pool_ptr, h).
     bindr (pmm_alloc 0x200 (lh_k h)) (\<lambda>(new_page, km).
     let m = km_mem km;
         m' = memcpy64 m (phys_of (new_page + MEM_PHYS_OFFSET))
                (phys_of ((pt_get m pd (of_nat k) AND VMM_ADDR_MASK) + MEM_PHYS_OFFSET))
                (PAGE_SIZE * 0x200)
     in bindr (vmm_map_huge new_pml4 (vmm_entries_to_virt_addr (of_nat i) (of_nat j) (of_nat k) 0)
                new_page 1 (pt_get m' pd (of_nat k) AND VMM_FLAG_MASK)
                (h\<lparr>lh_k := km\<lparr>km_mem := m'\<rparr>\<rparr>)) (\<lambda>(_, h). Inr (pool, pool_ptr, h))))"

definition copy_pd :: "u64 \<Rightarrow> nat \<Rightarrow> nat \<Rightarrow> u64 \<Rightarrow> 'x copy_state \<Rightarrow> 'x copy_state exec" where
  "copy_pd new_pml4 i j pd = for_exec 0 512 (\<lambda>k (pool, pool_ptr, h).
     if pt_get (km_mem (lh_k h)) pd (of_nat k) AND VMM_LARGE = 0 then
       let pt = vmm_get_or_null (km_mem (lh_k h)) pd (of_nat k) in
       if pt \<noteq> 0 then for_exec 0 512 (copy_small new_pml4 i j k pt) (pool, pool_ptr, h)
       else Inr (pool, pool_ptr, h)
     else copy_large new_pml4 i j k pd (pool, pool_ptr, h))"

definition copy_pdp :: "u64 \<Rightarrow> nat \<Rightarrow> u64 \<Rightarrow> 'x copy_state \<Rightarrow> 'x copy_state exec" where
  "copy_pdp new_pml4 i pdp = for_exec 0 512 (\<lambda>j (pool, pool_ptr, h).
     let pd = vmm_get_or_null (km_mem (lh_k h)) pdp (of_nat j) in
     if pd \<noteq> 0 then copy_pd new_pml4 i j pd (pool, pool_ptr, h) else Inr (pool, pool_ptr, h))"

definition vmm_copy_pml4 :: "u64 \<Rightarrow> 'x vheap_scheme \<Rightarrow> (u64 \<times> 'x vheap_scheme) exec" where
  "vmm_copy_pml4 pml4 h =
     bindr (pmm_alloc 4096 (lh_k h)) (\<lambda>(pool, k).
     bindr (pt_acquire pml4 (h\<lparr>lh_k := k\<rparr>)) (\<lambda>(P, h).
     bindr (kmalloc 8 (lh_k h)) (\<lambda>(new_pml4, k).
     bindr (pmm_alloc 1 k) (\<lambda>(entries, k).
     if new_pml4 = 0 then Inl NullDeref
     else
       let h = h\<lparr>lh_k := k, vm_pts := (vm_pts h)(new_pml4 \<mapsto> \<lparr>pt_entries = entries, pt_lock = UNLOCKED\<rparr>)\<rparr>;
           root = pt_entries P + MEM_PHYS_OFFSET;
           new_root = entries + MEM_PHYS_OFFSET
       in bindr (for_exec 0 256 (\<lambda>i (pool, pool_ptr, h).
            let pdp = vmm_get_or_null (km_mem (lh_k h)) root (of_nat i) in
            if pdp \<noteq> 0 then copy_pdp new_pml4 i pdp (pool, pool_ptr, h)
            else Inr (pool, pool_ptr, h)) (pool, 0, h)) (\<lambda>(pool, pool_ptr, h).
          bindr (pmm_free (pool + of_nat (PAGE_SIZE * pool_ptr)) (4096 - pool_ptr) (km_pmm (lh_k h))) (\<lambda>p.
          bindr (for_exec 256 256 (\<lambda>i m.
            Inr (pt_set m new_root (of_nat i) (pt_get m root (of_nat i)))) (km_mem (lh_k h))) (\<lambda>m.
          bindr (pt_release pml4 (h\<lparr>lh_k := \<lparr>km_pmm = p, km_mem = m\<rparr>\<rparr>)) (\<lambda>h.
            Inr (new_pml4, h)))))))))"

section \<open>Initialisation\<close>

text \<open>
  The search for the kernel's memory-map entry; when the image is not aligned for large pages, room is
  taken for a copy. \<open>boot_map\<close> is the boot loader's translation of the kernel's virtual base, through
  which the image is copied before the new tables are loaded.
\<close>

fun find_kernel :: "limine_memmap_entry_t list \<Rightarrow> 'x vheap_scheme \<Rightarrow> 'x vheap_scheme exec" where
  "find_kernel [] h = Inr h"
| "find_kernel (entry # entries) h =
     (if me_type entry = LIMINE_MEMMAP_KERNEL_AND_MODULES \<and> me_base entry = PhysicalKernelBase h then
        bindr (if PhysicalKernelBase h mod 0x200000 \<noteq> 0
               then bindr (pmm_alloc_advanced (unat (ROUND_UP64 (me_length entry) 4096 div 4096)) 0x200
                             (km_pmm (lh_k h))) (\<lambda>(newPhysBase, p).
                      Inr (h\<lparr>lh_k := (lh_k h)\<lparr>km_pmm := p\<rparr>, PhysicalKernelBase := newPhysBase\<rparr>))
               else Inr h) (\<lambda>h. Inr (h\<lparr>KernelSize := me_length entry\<rparr>))
      else find_kernel entries h)"

definition vmm_init ::
    "(u64 \<Rightarrow> nat) \<Rightarrow> u64 \<Rightarrow> u64 \<Rightarrow> limine_memmap_entry_t list \<Rightarrow> 'x vheap_scheme \<Rightarrow> 'x vheap_scheme exec" where
  "vmm_init boot_map kernel_base phys_kernel_base entries h =
     bindr (find_kernel entries (h\<lparr>KernelBase := kernel_base, PhysicalKernelBase := phys_kernel_base\<rparr>)) (\<lambda>h.
     bindr (vmm_setup_pml4 h) (\<lambda>(pml4, h).
     bindr (vmm_map_huge pml4 0 0 0x10 3 (h\<lparr>KernelPml4 := pml4\<rparr>)) (\<lambda>(_, h).
     let m = memcpy (km_mem (lh_k h)) (phys_of (PhysicalKernelBase h + MEM_PHYS_OFFSET))
               (boot_map (KernelBase h)) (unat (KernelSize h))
     in bindr (load (vm_pts h) (KernelPml4 h)) (\<lambda>P.
        let h = h\<lparr>lh_k := (lh_k h)\<lparr>km_mem := m\<rparr>, vm_cr3 := pt_entries P\<rparr> in
        if PhysicalKernelBase h \<noteq> phys_kernel_base then
          bindr (pmm_free phys_kernel_base (unat (ROUND_UP64 (KernelSize h) 4096 div 4096)) (km_pmm (lh_k h))) (\<lambda>p.
            Inr (h\<lparr>lh_k := (lh_k h)\<lparr>km_pmm := p\<rparr>\<rparr>))
        else Inr h))))"

section \<open>Frames, entries and indices\<close>

text \<open>
  A frame is a physical page address below \<open>2 ^ 46\<close>; \<open>dm\<close> is its direct-map pointer, \<open>ent\<close> the entry
  at an index of the table in a frame.
\<close>

definition dm :: "nat \<Rightarrow> u64" where
  "dm p = of_nat p + MEM_PHYS_OFFSET"

definition ent :: "bytes \<Rightarrow> nat \<Rightarrow> nat \<Rightarrow> u64" where
  "ent m p i = read64 m (p + 8 * i)"

definition present :: "u64 \<Rightarrow> bool" where
  "present e \<longleftrightarrow> e AND VMM_PRESENT \<noteq> 0"

definition large :: "u64 \<Rightarrow> bool" where
  "large e \<longleftrightarrow> e AND VMM_LARGE \<noteq> 0"

definition frame :: "u64 \<Rightarrow> nat" where
  "frame e = unat (e AND VMM_ADDR_MASK)"

definition frame_ok :: "nat \<Rightarrow> bool" where
  "frame_ok p \<longleftrightarrow> p mod 4096 = 0 \<and> 0 < p \<and> p < 70368744177664"

lemma dm_frame: "(e AND VMM_ADDR_MASK) + MEM_PHYS_OFFSET = dm (frame e)"
  by (simp add: dm_def frame_def)

lemma phys_of_dm: "p + x < 18446744073709551616 \<Longrightarrow> phys_of (dm p + of_nat x) = p + x"
proof -
  assume "p + x < 18446744073709551616"
  then have "unat (of_nat (p + x) :: u64) = p + x"
    by (rule unat_of_nat_u64)
  moreover have "dm p + of_nat x - MEM_PHYS_OFFSET = of_nat (p + x)"
    by (simp add: dm_def)
  ultimately show ?thesis
    by (simp only: phys_of_def)
qed

lemma dm_nonnull: "p < 70368744177664 \<Longrightarrow> dm p \<noteq> 0"
proof
  assume p: "p < 70368744177664" and "dm p = 0"
  then have "phys_of (dm p + of_nat 0) = 140737488355328"
    by (simp add: phys_of_def MEM_PHYS_OFFSET_def)
  moreover have "phys_of (dm p + of_nat 0) = p"
    using p phys_of_dm [of p 0] by simp
  ultimately show False using p by simp
qed

lemma table_slot:
  assumes "frame_ok p" "unat off < 512"
  shows "phys_of (dm p + 8 * off) = p + 8 * unat off"
proof -
  have "phys_of (dm p + of_nat (8 * unat off)) = p + 8 * unat off"
    using assms by (intro phys_of_dm) (simp add: frame_ok_def)
  then show ?thesis by simp
qed

lemma pt_get_ent: "frame_ok p \<Longrightarrow> unat off < 512 \<Longrightarrow> pt_get m (dm p) off = ent m p (unat off)"
  by (simp add: pt_get_def ent_def table_slot)

lemma pt_set_write:
  "frame_ok p \<Longrightarrow> unat off < 512 \<Longrightarrow> pt_set m (dm p) off v = write64 m (p + 8 * unat off) v"
  by (simp add: pt_set_def table_slot)

lemma vmm_get_or_null_ent:
  "frame_ok p \<Longrightarrow> unat off < 512 \<Longrightarrow> vmm_get_or_null m (dm p) off =
     (if present (ent m p (unat off)) then dm (frame (ent m p (unat off))) else 0)"
  by (simp add: vmm_get_or_null_def pt_get_ent present_def dm_frame)

text \<open>The four indices of an address.\<close>

definition vidx :: "nat \<Rightarrow> u64 \<Rightarrow> nat" where
  "vidx s a = unat a div 2 ^ s mod 512"

lemma index_field: "unat (drop_bit s (a AND push_bit s 0x1FF) :: u64) = vidx s a" if "s + 9 \<le> 64"
proof -
  have "(0x1FF :: int) = mask 9"
    by (simp add: mask_eq_exp_minus_1)
  then have m: "bit (0x1FF :: int) n \<longleftrightarrow> n < 9" for n
    by (simp only: bit_mask_iff) simp
  have "drop_bit s (a AND push_bit s 0x1FF) = take_bit 9 (drop_bit s a)"
    using that by (intro bit_word_eqI)
      (auto simp: bit_drop_bit_eq bit_and_iff bit_push_bit_iff bit_take_bit_iff m)
  then have "unat (drop_bit s (a AND push_bit s 0x1FF)) = take_bit 9 (drop_bit s (unat a))"
    by (simp only: unsigned_take_bit_eq unat_drop_bit_eq)
  then show ?thesis
    by (simp only: vidx_def take_bit_eq_mod drop_bit_eq_div) simp
qed

lemma offsets_idx:
  "unat (pml4_off (get_addr_offsets a)) = vidx 39 a" "unat (pdp_off (get_addr_offsets a)) = vidx 30 a"
  "unat (pd_off (get_addr_offsets a)) = vidx 21 a" "unat (pt_off (get_addr_offsets a)) = vidx 12 a"
  using index_field [of 39 a] index_field [of 30 a] index_field [of 21 a] index_field [of 12 a]
  by (simp_all add: get_addr_offsets_def)

lemma vidx_less [simp]: "vidx s a < 512"
  by (simp add: vidx_def)

section \<open>The tables of an address space\<close>

text \<open>
  The table reached from a root by a list of indices. A link is a present entry without the
  large-page bit; an address space has tables for paths of at most three indices.
\<close>

definition child :: "bytes \<Rightarrow> nat \<Rightarrow> nat \<Rightarrow> nat option" where
  "child m p i = (let e = ent m p i in if present e \<and> \<not> large e then Some (frame e) else None)"

fun table_at :: "bytes \<Rightarrow> nat \<Rightarrow> nat list \<Rightarrow> nat option" where
  "table_at m p [] = Some p"
| "table_at m p (i # is) = Option.bind (child m p i) (\<lambda>q. table_at m q is)"

definition path_ok :: "nat \<Rightarrow> nat list \<Rightarrow> bool" where
  "path_ok n xs \<longleftrightarrow> length xs \<le> n \<and> (\<forall>i\<in>set xs. i < 512)"

definition space_ok :: "kmem \<Rightarrow> nat \<Rightarrow> bool" where
  "space_ok k root \<longleftrightarrow>
     (\<forall>xs q. path_ok 3 xs \<longrightarrow> table_at (km_mem k) root xs = Some q \<longrightarrow>
        frame_ok q \<and> PmmBitmap (km_pmm k) (q div 4096)) \<and>
     (\<forall>xs ys q. path_ok 3 xs \<longrightarrow> path_ok 3 ys \<longrightarrow> table_at (km_mem k) root xs = Some q \<longrightarrow>
        table_at (km_mem k) root ys = Some q \<longrightarrow> xs = ys) \<and>
     (\<forall>xs q i. path_ok 1 xs \<longrightarrow> i < 512 \<longrightarrow> table_at (km_mem k) root xs = Some q \<longrightarrow>
        present (ent (km_mem k) q i) \<longrightarrow> \<not> large (ent (km_mem k) q i))"

text \<open>Pages by number: the path to the last-level table, the entry of a page, large pages.\<close>

definition vpn :: "u64 \<Rightarrow> nat" where
  "vpn a = unat a div 4096 mod 2 ^ 36"

definition vpath :: "nat \<Rightarrow> nat list" where
  "vpath v = [v div 2 ^ 27 mod 512, v div 2 ^ 18 mod 512, v div 2 ^ 9 mod 512]"

definition pt_abs :: "bytes \<Rightarrow> nat \<Rightarrow> nat \<Rightarrow> u64 option" where
  "pt_abs m root v = Option.bind (table_at m root (vpath v)) (\<lambda>q.
     let e = ent m q (v mod 512) in if present e then Some e else None)"

definition large_at :: "bytes \<Rightarrow> nat \<Rightarrow> nat \<Rightarrow> bool" where
  "large_at m root v = (case table_at m root (butlast (vpath v)) of
     None \<Rightarrow> False | Some q \<Rightarrow> present (ent m q (last (vpath v))) \<and> large (ent m q (last (vpath v))))"

lemma nat_field: "x div 2 ^ s mod 512 = take_bit 9 (drop_bit s x)" for x :: nat
  by (simp only: take_bit_eq_mod drop_bit_eq_div) simp

lemma take_drop_field:
  "s + 9 \<le> 36 \<Longrightarrow> take_bit 9 (drop_bit s (take_bit 36 (drop_bit 12 x))) = take_bit 9 (drop_bit (s + 12) x)"
  for x :: nat
  by (rule bit_eqI) (auto simp: bit_take_bit_iff bit_drop_bit_eq ac_simps)

lemma vpn_take: "vpn a = take_bit 36 (drop_bit 12 (unat a))"
  by (simp only: vpn_def take_bit_eq_mod drop_bit_eq_div) simp

lemma vpath_vpn: "vpath (vpn a) = [vidx 39 a, vidx 30 a, vidx 21 a]"
  using take_drop_field [of 27 "unat a"] take_drop_field [of 18 "unat a"] take_drop_field [of 9 "unat a"]
  unfolding vpath_def vidx_def nat_field vpn_take
  by (simp del: take_bit_drop_bit take_bit_take_bit drop_bit_drop_bit)

lemma vpn_mod: "vpn a mod 512 = vidx 12 a"
proof -
  have "vpn a mod 512 = take_bit 9 (drop_bit 0 (vpn a))"
    using nat_field [of "vpn a" 0] by simp
  also have "\<dots> = vidx 12 a"
    using take_drop_field [of 0 "unat a"] by (simp only: vidx_def nat_field vpn_take) simp
  finally show ?thesis .
qed

lemma length_vpath [simp]: "length (vpath v) = 3"
  by (simp add: vpath_def)

lemma path_ok_vpath: "path_ok 3 (vpath v)"
  by (simp add: path_ok_def vpath_def)

lemma path_ok_mono: "path_ok n xs \<Longrightarrow> n \<le> k \<Longrightarrow> path_ok k xs"
  by (simp add: path_ok_def)

lemma path_ok_snoc [simp]: "path_ok (Suc n) (xs @ [i]) \<longleftrightarrow> path_ok n xs \<and> i < 512"
  by (auto simp: path_ok_def)

lemma table_at_append: "table_at m p (xs @ ys) = Option.bind (table_at m p xs) (\<lambda>q. table_at m q ys)"
  by (induction xs arbitrary: p) (simp_all split: Option.bind_split)

lemma table_at_snoc: "table_at m p (xs @ [i]) = Option.bind (table_at m p xs) (\<lambda>q. child m q i)"
  by (simp add: table_at_append split: Option.bind_split)

lemma space_ok_frame:
  "space_ok k root \<Longrightarrow> path_ok 3 xs \<Longrightarrow> table_at (km_mem k) root xs = Some q \<Longrightarrow> frame_ok q"
  by (auto simp: space_ok_def)

lemma space_ok_used:
  "space_ok k root \<Longrightarrow> path_ok 3 xs \<Longrightarrow> table_at (km_mem k) root xs = Some q \<Longrightarrow>
   PmmBitmap (km_pmm k) (q div 4096)"
  by (auto simp: space_ok_def)

lemma space_ok_inj:
  "space_ok k root \<Longrightarrow> path_ok 3 xs \<Longrightarrow> path_ok 3 ys \<Longrightarrow> table_at (km_mem k) root xs = Some q \<Longrightarrow>
   table_at (km_mem k) root ys = Some q \<Longrightarrow> xs = ys"
  unfolding space_ok_def by blast

lemma space_ok_upper:
  "space_ok k root \<Longrightarrow> path_ok 1 xs \<Longrightarrow> i < 512 \<Longrightarrow> table_at (km_mem k) root xs = Some q \<Longrightarrow>
   present (ent (km_mem k) q i) \<Longrightarrow> \<not> large (ent (km_mem k) q i)"
  unfolding space_ok_def by blast

text \<open>Tables whose entries are untouched keep their place.\<close>

lemma table_at_cong:
  assumes "\<And>xs q i. path_ok n xs \<Longrightarrow> i < 512 \<Longrightarrow> table_at m root xs = Some q \<Longrightarrow> ent m' q i = ent m q i"
    and "path_ok (Suc n) ys"
  shows "table_at m' root ys = table_at m root ys"
  using assms(2)
proof (induction ys rule: rev_induct)
  case (snoc i ys)
  then have p: "path_ok n ys" "i < 512"
    by simp_all
  then have "table_at m' root ys = table_at m root ys"
    using path_ok_mono [of n ys "Suc n"] snoc.IH by simp
  then show ?case
    using assms(1) [OF p] by (cases "table_at m root ys") (simp_all add: table_at_snoc child_def)
qed simp

lemma frames_disjoint:
  assumes "frame_ok p" "frame_ok q" "p \<noteq> q"
  shows "p + 4096 \<le> q \<or> q + 4096 \<le> p"
proof -
  obtain a b where "p = 4096 * a" "q = 4096 * b"
    using assms(1,2) unfolding frame_ok_def by (metis mod_0_imp_dvd dvd_def)
  with assms(3) show ?thesis
    by (cases "a < b") auto
qed

lemma frames_apart:
  assumes "frame_ok p" "frame_ok q" "p \<noteq> q" "i < 512" "j < 512"
  shows "p + 8 * i + 8 \<le> q + 8 * j \<or> q + 8 * j + 8 \<le> p + 8 * i"
  using frames_disjoint [OF assms(1-3)] assms(4,5) by auto

lemma ent_write_same [simp]: "ent (write64 m (p + 8 * i) v) p i = v"
  by (simp add: ent_def)

lemma ent_write_other:
  assumes "frame_ok p" "frame_ok q" "i < 512" "j < 512" "p \<noteq> q \<or> i \<noteq> j"
  shows "ent (write64 m (p + 8 * i) v) q j = ent m q j"
proof -
  have "q + 8 * j + 8 \<le> p + 8 * i \<or> p + 8 * i + 8 \<le> q + 8 * j"
    using frames_apart [of p q i j] assms by (cases "p = q") auto
  then show ?thesis by (simp add: ent_def)
qed

section \<open>Entry arithmetic\<close>

lemma bit_VMM_ADDR_MASK: "bit VMM_ADDR_MASK n \<longleftrightarrow> 12 \<le> n \<and> n < 63"
proof -
  have eq: "VMM_ADDR_MASK = NOT (mask 12 OR push_bit 63 1)"
    by (simp add: VMM_ADDR_MASK_def VMM_FLAG_MASK_def mask_eq_exp_minus_1)
  show ?thesis
    unfolding eq bit_not_iff bit_or_iff bit_mask_iff bit_push_bit_iff bit_1_iff by auto
qed

lemma frame_bits:
  assumes "frame_ok p" "bit (of_nat p :: u64) n"
  shows "12 \<le> n \<and> n < 46"
proof -
  have "p = push_bit 12 (p div 4096)" "p = take_bit 46 p"
    using assms(1) by (auto simp: frame_ok_def push_bit_eq_mult take_bit_eq_mod)
  moreover have "bit p n"
    using assms(2) by (simp add: bit_of_nat_iff)
  ultimately show ?thesis
    by (metis bit_push_bit_iff bit_take_bit_iff)
qed

definition link_entry :: "nat \<Rightarrow> u64" where
  "link_entry p = of_nat p OR ((VMM_WRITE OR VMM_USER) OR VMM_PRESENT)"

lemma link_entry_link:
  assumes "frame_ok p"
  shows "present (link_entry p)" "\<not> large (link_entry p)" "frame (link_entry p) = p"
proof -
  have flags: "((VMM_WRITE OR VMM_USER) OR VMM_PRESENT) = (7 :: u64)"
    by (simp add: VMM_WRITE_def VMM_USER_def VMM_PRESENT_def)
  have "(7 :: u64) = mask 3"
    by (simp add: mask_eq_exp_minus_1)
  then have seven: "bit (7 :: u64) n \<longleftrightarrow> n < 3" for n
    by (simp only: bit_mask_iff) auto
  have "bit (link_entry p AND VMM_PRESENT) 0"
    using seven [of 0] by (simp add: link_entry_def flags VMM_PRESENT_def bit_and_iff bit_or_iff del: bit_0)
  then show "present (link_entry p)"
    unfolding present_def by (metis bit_0_eq bot_apply bot_bool_def)
  have "(0x80 :: u64) = push_bit 7 1"
    by simp
  then have "bit VMM_LARGE n \<longleftrightarrow> n = 7" for n
    by (simp only: VMM_LARGE_def bit_push_bit_iff bit_1_iff) auto
  moreover have "\<not> bit (of_nat p :: u64) 7"
    using frame_bits [OF assms, of 7] by auto
  ultimately have "link_entry p AND VMM_LARGE = 0"
    by (intro bit_word_eqI) (auto simp: link_entry_def flags bit_and_iff bit_or_iff seven)
  then show "\<not> large (link_entry p)"
    by (simp add: large_def)
  have "link_entry p AND VMM_ADDR_MASK = of_nat p"
  proof (rule bit_word_eqI)
    fix n
    have "bit (link_entry p AND VMM_ADDR_MASK) n \<longleftrightarrow> (bit (of_nat p :: u64) n \<or> n < 3) \<and> 12 \<le> n \<and> n < 63"
      by (simp only: link_entry_def flags bit_and_iff bit_or_iff seven bit_VMM_ADDR_MASK)
    then show "bit (link_entry p AND VMM_ADDR_MASK) n \<longleftrightarrow> bit (of_nat p :: u64) n"
      using frame_bits [OF assms, of n] by auto
  qed
  then show "frame (link_entry p) = p"
    using assms by (simp add: frame_def frame_ok_def)
qed

lemma not_present_0 [simp]: "\<not> present 0"
  by (simp add: present_def)

lemma page_mask: "(of_nat p AND VMM_ADDR_MASK) = (of_nat p :: u64)" if "frame_ok p"
  using frame_bits [OF that] by (intro bit_word_eqI) (force simp: bit_and_iff bit_VMM_ADDR_MASK)

section \<open>Taking one page\<close>

definition pmm_sane :: "kmem \<Rightarrow> bool" where
  "pmm_sane k \<longleftrightarrow> PmmLock (km_pmm k) \<and> PmmBitmap (km_pmm k) 0 \<and> PmmLength (km_pmm k) \<le> 17179869184"

definition free_pages :: "kmem \<Rightarrow> nat set" where
  "free_pages k = {i. i < PmmLength (km_pmm k) \<and> \<not> PmmBitmap (km_pmm k) i}"

lemma finite_free_pages [simp]: "finite (free_pages k)"
  by (simp add: free_pages_def)

lemma free_page_frame: "pmm_sane k \<Longrightarrow> i \<in> free_pages k \<Longrightarrow> frame_ok (i * 4096)"
  by (auto simp: pmm_sane_def free_pages_def frame_ok_def intro: Nat.gr0I)

lemma pmm_alloc_one:
  assumes "pmm_sane k"
  obtains (full) k' where "free_pages k = {}" "pmm_alloc 1 k = Inr (0, k')"
  | (page) i p where "i \<in> free_pages k"
      "pmm_alloc 1 k = Inr (of_nat (i * 4096), \<lparr>km_pmm = p, km_mem = memset (km_mem k) (i * 4096) 0 4096\<rparr>)"
      "PmmBitmap p = (PmmBitmap (km_pmm k))(i := True)" "PmmLength p = PmmLength (km_pmm k)" "PmmLock p"
proof (rule pmm_search_cases [of 1 "PmmBitmap (km_pmm k)" "PmmLength (km_pmm k)" 0 1])
  show "0 < (1 :: nat)" by simp
next
  fix i
  assume 2: "pmm_search (PmmBitmap (km_pmm k)) (PmmLength (km_pmm k)) 0 1 1 = Inr (Some (0 + i * 1))"
    "0 + i * 1 < PmmLength (km_pmm k)" "is_bitmap_page_free (PmmBitmap (km_pmm k)) (0 + i * 1) 1"
  have l: "PmmLock (km_pmm k)"
    using assms by (simp add: pmm_sane_def)
  have i: "i \<in> free_pages k"
    using 2 by (auto simp: free_pages_def is_bitmap_page_free_iff)
  then have "unat (of_nat (i * 4096) :: u64) = i * 4096"
    using free_page_frame [OF assms i] by (intro unat_of_nat_u64) (simp add: frame_ok_def)
  moreover have "set_bits_from (PmmBitmap (km_pmm k)) i 1 = (PmmBitmap (km_pmm k))(i := True)"
    by simp
  ultimately show thesis
    using 2 i l
    by (intro page [of i "(km_pmm k)\<lparr>PmmFreePages := (if PmmFreePages (km_pmm k) \<noteq> 0
            then PmmFreePages (km_pmm k) - of_nat 1 else PmmFreePages (km_pmm k)),
          PmmBitmap := (PmmBitmap (km_pmm k))(i := True), PmmLock := True\<rparr>"])
      (simp_all add: pmm_alloc_def pmm_alloc_advanced_def kmem.equality)
next
  assume 3: "pmm_search (PmmBitmap (km_pmm k)) (PmmLength (km_pmm k)) 0 1 1 = Inr None"
    "\<forall>j. 0 + j * 1 < PmmLength (km_pmm k) \<longrightarrow> \<not> is_bitmap_page_free (PmmBitmap (km_pmm k)) (0 + j * 1) 1"
  have "PmmBitmap (km_pmm k) x" if "x < PmmLength (km_pmm k)" for x
    using 3(2) [rule_format, of x] that by (simp split: if_splits)
  then have "free_pages k = {}"
    by (auto simp: free_pages_def)
  moreover have "\<exists>k'. pmm_alloc 1 k = Inr (0, k')"
    using 3 assms by (simp add: pmm_alloc_def pmm_alloc_advanced_def pmm_sane_def)
  ultimately show thesis using full by blast
qed

section \<open>Linking a fresh table\<close>

definition table_page :: "bytes \<Rightarrow> nat \<Rightarrow> nat \<Rightarrow> bool" where
  "table_page m root q \<longleftrightarrow> (\<exists>xs. path_ok 3 xs \<and> table_at m root xs = Some q)"

lemma table_pageI: "path_ok 3 xs \<Longrightarrow> table_at m root xs = Some q \<Longrightarrow> table_page m root q"
  by (auto simp: table_page_def)

lemma child_cong: "ent m' q i = ent m q i \<Longrightarrow> child m' q i = child m q i"
  by (simp add: child_def)

lemma table_at_link:
  assumes ok: "space_ok k root" and xs: "path_ok 2 xs" "i < 512" "table_at (km_mem k) root xs = Some q"
    and old: "\<not> present (ent (km_mem k) q i)" and new: "frame_ok q'" "\<not> table_page (km_mem k) root q'"
    and other: "\<And>t j. table_page (km_mem k) root t \<Longrightarrow> j < 512 \<Longrightarrow> (t, j) \<noteq> (q, i) \<Longrightarrow>
      ent m' t j = ent (km_mem k) t j"
    and here: "ent m' q i = link_entry q'" and zero: "\<And>j. j < 512 \<Longrightarrow> ent m' q' j = 0"
    and ys: "path_ok 3 ys"
  shows "table_at m' root ys = (if ys = xs @ [i] then Some q' else table_at (km_mem k) root ys)"
  using ys
proof (induction ys rule: rev_induct)
  case Nil
  then show ?case by simp
next
  case (snoc j ys)
  from snoc.prems have p: "path_ok 2 ys" "j < 512" "path_ok 3 ys" "path_ok 3 xs"
    using xs(1) by (simp_all add: numeral_3_eq_3 numeral_2_eq_2 path_ok_def)
  note IH = snoc.IH [OF p(3)]
  have gone: "child (km_mem k) q i = None"
    using old by (simp add: child_def)
  show ?case
  proof (cases "ys = xs @ [i]")
    case True
    then have "table_at (km_mem k) root ys = None"
      using xs(3) gone by (simp add: table_at_snoc)
    moreover have "child m' q' j = None"
      using zero [OF p(2)] by (simp add: child_def)
    moreover have "table_at m' root ys = Some q'" "ys @ [j] \<noteq> xs @ [i]"
      using IH True by simp_all
    ultimately show ?thesis
      by (simp add: table_at_snoc)
  next
    case False
    then have eq: "table_at m' root ys = table_at (km_mem k) root ys"
      using IH by simp
    show ?thesis
    proof (cases "table_at (km_mem k) root ys")
      case None
      then show ?thesis
        using eq xs(3) by (auto simp: table_at_snoc)
    next
      case (Some t)
      have tq: "t = q \<longleftrightarrow> ys = xs"
        using space_ok_inj [OF ok p(3,4) Some] Some xs(3) by auto
      show ?thesis
      proof (cases "(t, j) = (q, i)")
        case True
        then show ?thesis
          using tq eq Some here link_entry_link [OF new(1)] by (simp add: table_at_snoc child_def)
      next
        case False
        then have "child m' t j = child (km_mem k) t j"
          by (intro child_cong other [OF table_pageI [OF p(3) Some] p(2)])
        then show ?thesis
          using False tq eq Some by (auto simp: table_at_snoc)
      qed
    qed
  qed
qed

text \<open>What every step of the mapping code guarantees about the machine it leaves behind.\<close>

definition vext :: "nat \<Rightarrow> kmem \<Rightarrow> kmem \<Rightarrow> bool" where
  "vext root k k' \<longleftrightarrow> pmm_sane k' \<and> space_ok k' root \<and>
     large_at (km_mem k') root = large_at (km_mem k) root \<and>
     PmmLength (km_pmm k') = PmmLength (km_pmm k) \<and>
     (\<forall>i. PmmBitmap (km_pmm k) i \<longrightarrow> PmmBitmap (km_pmm k') i) \<and>
     (\<forall>x. \<not> table_page (km_mem k') root (x div 4096 * 4096) \<longrightarrow> km_mem k' x = km_mem k x) \<and>
     (\<forall>ys t. path_ok 3 ys \<longrightarrow> table_at (km_mem k) root ys = Some t \<longrightarrow>
        table_at (km_mem k') root ys = Some t)"

lemma vext_refl: "pmm_sane k \<Longrightarrow> space_ok k root \<Longrightarrow> vext root k k"
  by (simp add: vext_def)

lemma vext_trans:
  assumes "vext root k k'" "vext root k' k''"
  shows "vext root k k''"
proof -
  have "table_page (km_mem k'') root q" if "table_page (km_mem k') root q" for q
    using that assms(2) by (auto simp: vext_def table_page_def)
  with assms show ?thesis
    unfolding vext_def by metis
qed

lemma vextD:
  assumes "vext root k k'"
  shows "pmm_sane k'" "space_ok k' root" "large_at (km_mem k') root = large_at (km_mem k) root"
    "path_ok 3 ys \<Longrightarrow> table_at (km_mem k) root ys = Some t \<Longrightarrow> table_at (km_mem k') root ys = Some t"
  using assms by (simp_all add: vext_def)

lemma page_of_range:
  assumes "q mod 4096 = 0" "x div 4096 * 4096 \<noteq> (q :: nat)"
  shows "x < q \<or> q + 4096 \<le> x"
proof (rule ccontr)
  assume "\<not> ?thesis"
  moreover obtain a where "q = 4096 * a"
    using assms(1) by (metis mod_0_imp_dvd dvd_def)
  ultimately have "x div 4096 = a"
    by (intro div_nat_eqI) auto
  with \<open>q = 4096 * a\<close> assms(2) show False by simp
qed

lemma ent_memset_zero: "j < 512 \<Longrightarrow> ent (memset m q 0 4096) q j = 0"
  unfolding ent_def read64_def by (rule read_le_zero) (simp add: memset_zero)

lemma ent_memset_other:
  assumes "frame_ok t" "frame_ok q" "t \<noteq> q" "j < 512"
  shows "ent (memset m q 0 4096) t j = ent m t j"
  unfolding ent_def
proof (rule read64_cong)
  fix x
  assume "t + 8 * j \<le> x" "x < t + 8 * j + 8"
  moreover have "t + 8 * j + 8 \<le> q \<or> q + 4096 \<le> t + 8 * j"
    using frames_disjoint [OF assms(1-3)] assms(4) by auto
  ultimately show "memset m q 0 4096 x = m x"
    by (auto simp: memset_zero)
qed

lemma link_vext:
  assumes sane: "pmm_sane k" and ok: "space_ok k root"
    and xs: "path_ok 2 xs" "i < 512" "table_at (km_mem k) root xs = Some q"
    and old: "\<not> present (ent (km_mem k) q i)" and f: "f \<in> free_pages k"
    and p: "PmmBitmap p = (PmmBitmap (km_pmm k))(f := True)" "PmmLength p = PmmLength (km_pmm k)" "PmmLock p"
    and k': "k' = \<lparr>km_pmm = p, km_mem =
      write64 (memset (km_mem k) (f * 4096) 0 4096) (q + 8 * i) (link_entry (f * 4096))\<rparr>"
  shows "vext root k k'" "pt_abs (km_mem k') root = pt_abs (km_mem k) root"
    "table_at (km_mem k') root (xs @ [i]) = Some (f * 4096)"
    "card (free_pages k) \<le> card (free_pages k') + 1"
proof -
  let ?m = "km_mem k" and ?m' = "km_mem k'" and ?q' = "f * 4096"
  have q': "frame_ok ?q'"
    by (rule free_page_frame [OF sane f])
  have xs3: "path_ok 3 xs" "path_ok 3 (xs @ [i])"
    using xs by (simp_all add: path_ok_def)
  have used: "t \<noteq> ?q' \<and> frame_ok t" if "table_page ?m root t" for t
  proof -
    from that obtain ys where ys: "path_ok 3 ys" "table_at ?m root ys = Some t"
      by (auto simp: table_page_def)
    show ?thesis
      using space_ok_used [OF ok ys] space_ok_frame [OF ok ys] f by (auto simp: free_pages_def)
  qed
  have new: "\<not> table_page ?m root ?q'"
    using used by blast
  have q: "frame_ok q" "q \<noteq> ?q'"
    using used [OF table_pageI [OF xs3(1) xs(3)]] by simp_all
  have other: "ent ?m' t j = ent ?m t j" if "table_page ?m root t" "j < 512" "(t, j) \<noteq> (q, i)" for t j
    using used [OF that(1)] that q q' xs(2)
    by (simp add: k' ent_write_other ent_memset_other) (metis ent_write_other ent_memset_other)
  have here: "ent ?m' q i = link_entry ?q'"
    by (simp add: k')
  have zero: "ent ?m' ?q' j = 0" if "j < 512" for j
    using that q q' xs(2) by (simp add: k' ent_write_other ent_memset_zero)
  have tab: "table_at ?m' root ys = (if ys = xs @ [i] then Some ?q' else table_at ?m root ys)"
    if "path_ok 3 ys" for ys
    by (rule table_at_link [OF ok xs old q' new other here zero that])
  have none: "table_at ?m root (xs @ [i]) = None"
    using xs(3) old by (simp add: table_at_snoc child_def)
  show t: "table_at ?m' root (xs @ [i]) = Some ?q'"
    using tab [OF xs3(2)] by simp
  have abs: "pt_abs ?m' root v = pt_abs ?m root v" for v
  proof (cases "vpath v = xs @ [i]")
    case True
    then show ?thesis
      using t none zero [of "v mod 512"] by (simp add: pt_abs_def)
  next
    case False
    have "ent ?m' s (v mod 512) = ent ?m s (v mod 512)" if s: "table_at ?m root (vpath v) = Some s" for s
    proof (rule other)
      show "table_page ?m root s"
        by (rule table_pageI [OF path_ok_vpath s])
      have "vpath v \<noteq> xs"
        using xs(1) by (auto simp: path_ok_def)
      then show "(s, v mod 512) \<noteq> (q, i)"
        using space_ok_inj [OF ok path_ok_vpath xs3(1) s] xs(3) by auto
    qed simp
    then show ?thesis
      using False tab [OF path_ok_vpath] by (cases "table_at ?m root (vpath v)") (simp_all add: pt_abs_def)
  qed
  then show "pt_abs ?m' root = pt_abs ?m root" by auto
  have large: "large_at ?m' root v = large_at ?m root v" for v
  proof -
    let ?ys = "butlast (vpath v)" and ?l = "last (vpath v)"
    have ys: "path_ok 3 ?ys" "?l < 512"
      by (simp_all add: path_ok_def vpath_def)
    show ?thesis
    proof (cases "?ys = xs @ [i]")
      case True
      then show ?thesis
        using t none zero [OF ys(2)] by (simp add: large_at_def)
    next
      case False
      then have eq: "table_at ?m' root ?ys = table_at ?m root ?ys"
        using tab [OF ys(1)] by simp
      have "ent ?m' s ?l = ent ?m s ?l \<or> (s, ?l) = (q, i)" if "table_at ?m root ?ys = Some s" for s
        using other [OF table_pageI [OF ys(1) that] ys(2)] by blast
      then show ?thesis
        using eq here old link_entry_link [OF q'] by (fastforce simp: large_at_def split: option.splits)
    qed
  qed
  have ok': "space_ok k' root"
    unfolding space_ok_def
  proof (intro conjI allI impI)
    fix ys s
    assume a: "path_ok 3 ys" "table_at ?m' root ys = Some s"
    then show "frame_ok s" "PmmBitmap (km_pmm k') (s div 4096)"
      using tab [OF a(1)] q' space_ok_frame [OF ok a(1)] space_ok_used [OF ok a(1)]
      by (auto simp: k' p split: if_splits)
  next
    fix ys zs s
    assume a: "path_ok 3 ys" "path_ok 3 zs" "table_at ?m' root ys = Some s" "table_at ?m' root zs = Some s"
    then show "ys = zs"
      using tab [OF a(1)] tab [OF a(2)] new space_ok_inj [OF ok a(1,2)] table_pageI [OF a(1), of ?m root]
        table_pageI [OF a(2), of ?m root]
      by (auto split: if_splits)
  next
    fix ys s j
    assume a: "path_ok 1 ys" "j < 512" "table_at ?m' root ys = Some s" "present (ent ?m' s j)"
    have p3: "path_ok 3 ys"
      by (rule path_ok_mono [OF a(1)]) simp
    show "\<not> large (ent ?m' s j)"
    proof (cases "ys = xs @ [i]")
      case True
      then show ?thesis using a t zero [OF a(2)] by simp
    next
      case False
      then have s: "table_at ?m root ys = Some s"
        using tab [OF p3] a(3) by simp
      show ?thesis
        using other [OF table_pageI [OF p3 s] a(2)] here link_entry_link [OF q']
          space_ok_upper [OF ok a(1,2) s] a(4) by (cases "(s, j) = (q, i)") auto
    qed
  qed
  have frame: "?m' x = ?m x" if "\<not> table_page ?m' root (x div 4096 * 4096)" for x
  proof -
    have "x div 4096 * 4096 \<noteq> q"
      using that tab [OF xs3(1)] xs(3) table_pageI [OF xs3(1), of ?m' root q] by auto
    moreover have "x div 4096 * 4096 \<noteq> ?q'"
      using that table_pageI [OF xs3(2) t] by metis
    ultimately have "x < q \<or> q + 4096 \<le> x" "x < ?q' \<or> ?q' + 4096 \<le> x"
      using page_of_range [of x q] page_of_range [of x ?q'] q(1) q' by (auto simp: frame_ok_def)
    then show ?thesis
      using xs(2) by (auto simp: k' write64_outside memset_zero)
  qed
  show "vext root k k'"
    unfolding vext_def
  proof (intro conjI allI impI)
    show "pmm_sane k'"
      using sane by (simp add: pmm_sane_def k' p)
    show "table_at ?m' root ys = Some s" if "path_ok 3 ys" "table_at ?m root ys = Some s" for ys s
      using tab [OF that(1)] that(2) none by auto
  qed (use ok' large frame in \<open>auto simp: k' p\<close>)
  have "free_pages k' = free_pages k - {f}"
    by (auto simp: free_pages_def k' p)
  then show "card (free_pages k) \<le> card (free_pages k') + 1"
    by (simp add: card_Diff_singleton f)
qed

lemma vmm_get_or_alloc_ok:
  assumes sane: "pmm_sane k" and ok: "space_ok k root"
    and xs: "path_ok 2 xs" "unat off < 512" "table_at (km_mem k) root xs = Some q"
    and small: "\<not> (present (ent (km_mem k) q (unat off)) \<and> large (ent (km_mem k) q (unat off)))"
  obtains (full) "vmm_get_or_alloc (dm q) off (VMM_WRITE OR VMM_USER) k = Inl HaltLoop" "free_pages k = {}"
  | (table) q' k' where "vmm_get_or_alloc (dm q) off (VMM_WRITE OR VMM_USER) k = Inr (dm q', k')"
      "vext root k k'" "pt_abs (km_mem k') root = pt_abs (km_mem k) root"
      "table_at (km_mem k') root (xs @ [unat off]) = Some q'"
      "card (free_pages k) \<le> card (free_pages k') + 1"
proof -
  have q: "frame_ok q"
    using xs by (intro space_ok_frame [OF ok _ xs(3)]) (simp add: path_ok_def)
  show thesis
  proof (cases "present (ent (km_mem k) q (unat off))")
    case True
    then show thesis
      using small q xs vext_refl [OF sane ok]
      by (intro table [of "frame (ent (km_mem k) q (unat off))" k])
        (simp_all add: vmm_get_or_alloc_def pt_get_ent present_def dm_frame table_at_snoc child_def)
  next
    case False
    from sane show thesis
    proof (cases rule: pmm_alloc_one)
      case full
      then show thesis
        using False q xs that(1) by (simp add: vmm_get_or_alloc_def pt_get_ent present_def)
    next
      case (page f p)
      let ?m' = "write64 (memset (km_mem k) (f * 4096) 0 4096) (q + 8 * unat off) (link_entry (f * 4096))"
      have f: "frame_ok (f * 4096)"
        by (rule free_page_frame [OF sane page(1)])
      then have "unat (of_nat (f * 4096) :: u64) = f * 4096"
        by (intro unat_of_nat_u64) (simp add: frame_ok_def)
      then have nz: "(of_nat (f * 4096) :: u64) \<noteq> 0"
        using f by (metis frame_ok_def less_not_refl unat_0)
      have twice: "write64 (write64 m a v) a w = write64 m a w" for m a v w
        by (simp add: write64_def write_le_twice)
      have "vmm_get_or_alloc (dm q) off (VMM_WRITE OR VMM_USER) k =
          Inr (dm (f * 4096), \<lparr>km_pmm = p, km_mem = ?m'\<rparr>)"
        using False q xs page(2) nz page_mask [OF f]
        by (simp add: vmm_get_or_alloc_def pt_get_ent pt_set_write present_def twice link_entry_def
            dm_def [of "f * 4096"] del: of_nat_mult)
      then show thesis
        using link_vext [OF sane ok xs(1,2,3) False page(1,3,4,5) refl] by (intro table)
    qed
  qed
qed

section \<open>Writing a last-level entry\<close>

lemma vpn_eqI:
  assumes "v < 2 ^ 36" "w < 2 ^ 36" "vpath v = vpath w" "v mod 512 = w mod 512"
  shows "v = w"
proof (rule bit_eqI)
  fix n
  have field: "bit v n \<longleftrightarrow> bit w n" if "v div 2 ^ s mod 512 = w div 2 ^ s mod 512" "s \<le> n" "n < s + 9" for s
  proof -
    have "bit x n \<longleftrightarrow> bit (take_bit 9 (drop_bit s x)) (n - s)" for x :: nat
      using that(2,3) by (auto simp: bit_take_bit_iff bit_drop_bit_eq)
    then show ?thesis
      using that(1) unfolding nat_field by metis
  qed
  have high: "\<not> bit x n" if "36 \<le> n" "x < 2 ^ 36" for x :: nat
  proof -
    have "take_bit 36 x = x"
      by (rule take_bit_nat_eq_self [OF that(2)])
    then show ?thesis
      using that(1) by (metis bit_take_bit_iff not_le)
  qed
  have f: "v div 2 ^ 27 mod 512 = w div 2 ^ 27 mod 512" "v div 2 ^ 18 mod 512 = w div 2 ^ 18 mod 512"
    "v div 2 ^ 9 mod 512 = w div 2 ^ 9 mod 512" "v div 2 ^ 0 mod 512 = w div 2 ^ 0 mod 512"
    using assms(3,4) unfolding vpath_def by (simp_all only: list.inject power_0 div_by_1)
  consider "n < 9" | "9 \<le> n" "n < 18" | "18 \<le> n" "n < 27" | "27 \<le> n" "n < 36" | "36 \<le> n"
    by linarith
  then show "bit v n \<longleftrightarrow> bit w n"
    using field [OF f(1)] field [OF f(2)] field [OF f(3)] field [OF f(4)]
      high [OF _ assms(1)] high [OF _ assms(2)] by cases (simp_all only: le0 add_0 numeral_plus_numeral add_num_simps)
qed

lemma vpn_less [simp]: "vpn a < 2 ^ 36"
  unfolding vpn_take by (rule take_bit_nat_less_exp)

lemma leaf_vext:
  assumes sane: "pmm_sane k" and ok: "space_ok k root"
    and xs: "path_ok 3 xs" "length xs = 3" "table_at (km_mem k) root xs = Some q" and i: "i < 512"
    and k': "k' = k\<lparr>km_mem := write64 (km_mem k) (q + 8 * i) e\<rparr>"
  shows "vext root k k'" "free_pages k' = free_pages k"
    "pt_abs (km_mem k') root v = (if vpath v = xs \<and> v mod 512 = i
       then if present e then Some e else None else pt_abs (km_mem k) root v)"
proof -
  let ?m = "km_mem k" and ?m' = "km_mem k'"
  have q: "frame_ok q"
    by (rule space_ok_frame [OF ok xs(1,3)])
  have other: "ent ?m' t j = ent ?m t j"
    if "path_ok 3 ys" "table_at ?m root ys = Some t" "j < 512" "ys \<noteq> xs \<or> j \<noteq> i" for ys t j
  proof -
    have "t \<noteq> q \<or> j \<noteq> i"
      using that(4) space_ok_inj [OF ok that(1) xs(1) that(2)] xs(3) by auto
    then show ?thesis
      using space_ok_frame [OF ok that(1,2)] q i that(3) by (auto simp: k' ent_write_other)
  qed
  have tab: "table_at ?m' root ys = table_at ?m root ys" if "path_ok 3 ys" for ys
  proof (rule table_at_cong [where n = 2])
    show "ent ?m' t j = ent ?m t j" if "path_ok 2 zs" "j < 512" "table_at ?m root zs = Some t" for zs t j
      using that xs(2) by (intro other [of zs t j]) (auto simp: path_ok_def)
  qed (use that in simp)
  have "large_at ?m' root w = large_at ?m root w" for w
  proof -
    have p: "path_ok 3 (butlast (vpath w))" "last (vpath w) < 512" "butlast (vpath w) \<noteq> xs"
      using xs(2) by (auto simp: path_ok_def vpath_def)
    then show ?thesis
      using other [OF p(1)] by (auto simp: large_at_def tab split: option.splits)
  qed
  then have large: "large_at ?m' root = large_at ?m root" by auto
  have ok': "space_ok k' root"
    unfolding space_ok_def
  proof (intro conjI allI impI)
    fix ys s
    assume a: "path_ok 3 ys" "table_at ?m' root ys = Some s"
    then show "frame_ok s" "PmmBitmap (km_pmm k') (s div 4096)"
      using tab [OF a(1)] space_ok_frame [OF ok a(1)] space_ok_used [OF ok a(1)] by (simp_all add: k')
  next
    fix ys zs s
    assume a: "path_ok 3 ys" "path_ok 3 zs" "table_at ?m' root ys = Some s" "table_at ?m' root zs = Some s"
    then show "ys = zs"
      using tab space_ok_inj [OF ok a(1,2)] by simp
  next
    fix ys s j
    assume a: "path_ok 1 ys" "j < 512" "table_at ?m' root ys = Some s" "present (ent ?m' s j)"
    have p3: "path_ok 3 ys" "ys \<noteq> xs"
      using a(1) xs(2) by (auto simp: path_ok_def)
    with a have s: "table_at ?m root ys = Some s"
      using tab by simp
    show "\<not> large (ent ?m' s j)"
      using other [OF p3(1) s a(2)] p3(2) a space_ok_upper [OF ok a(1,2) s] by simp
  qed
  have frame: "?m' x = ?m x" if "\<not> table_page ?m' root (x div 4096 * 4096)" for x
  proof -
    have "table_page ?m' root q"
      using tab [OF xs(1)] xs by (auto intro: table_pageI)
    then have "x < q \<or> q + 4096 \<le> x"
      using that q by (intro page_of_range) (auto simp: frame_ok_def)
    then show ?thesis
      using i by (auto simp: k' write64_outside)
  qed
  show "vext root k k'"
    unfolding vext_def
  proof (intro conjI allI impI)
    show "pmm_sane k'"
      using sane by (simp add: pmm_sane_def k')
  qed (use ok' large frame tab in \<open>auto simp: k'\<close>)
  show "free_pages k' = free_pages k"
    by (simp add: free_pages_def k')
  show "pt_abs ?m' root v = (if vpath v = xs \<and> v mod 512 = i
       then if present e then Some e else None else pt_abs ?m root v)"
  proof (cases "vpath v = xs \<and> v mod 512 = i")
    case True
    then show ?thesis
      using tab [OF xs(1)] xs(3) i by (simp add: pt_abs_def k')
  next
    case False
    then show ?thesis
      using tab [OF path_ok_vpath] other [OF path_ok_vpath, of v _ "v mod 512"]
      by (cases "table_at ?m root (vpath v)") (auto simp: pt_abs_def)
  qed
qed

section \<open>Mapping is an update of the abstract address space\<close>

lemma vpn_add: "vpn (a + of_nat (4096 * i)) = (vpn a + i) mod 2 ^ 36"
proof -
  have "unat (a + of_nat (4096 * i)) = take_bit 64 (unat a + 4096 * i)"
    by (simp add: unat_word_ariths(1) unat_of_nat take_bit_eq_mod mod_add_right_eq del: of_nat_mult)
  then have "vpn (a + of_nat (4096 * i)) = take_bit 36 (drop_bit 12 (take_bit 64 (unat a + 4096 * i)))"
    by (simp only: vpn_take)
  also have "\<dots> = take_bit 36 (drop_bit 12 (unat a + 4096 * i))"
    by (rule bit_eqI) (auto simp: bit_take_bit_iff bit_drop_bit_eq)
  also have "drop_bit 12 (unat a + 4096 * i) = unat a div 4096 + i"
    by (simp add: drop_bit_eq_div)
  also have "take_bit 36 (unat a div 4096 + i) = (vpn a + i) mod 2 ^ 36"
    unfolding vpn_def take_bit_eq_mod by (rule mod_add_left_eq [symmetric])
  finally show ?thesis .
qed

lemma mod_add_left_inj:
  fixes c i j M :: nat
  assumes "(c + i) mod M = (c + j) mod M" "i < M" "j < M"
  shows "i = j"
proof -
  have "x = y" if "(c + x) mod M = (c + y) mod M" "x \<le> y" "y < M" for x y
  proof -
    have "M dvd (c + y) - (c + x)"
      using that by (subst mod_eq_dvd_iff_nat [symmetric]) auto
    then have "M dvd y - x" by simp
    moreover have "y - x < M"
      using that(3) by simp
    ultimately have "y - x = 0"
      by (metis nat_dvd_not_less neq0_conv)
    with that(2) show ?thesis by simp
  qed
  from this [of i j] this [of j i] assms show ?thesis
    by (cases "i \<le> j") auto
qed

lemma vpn_add_inj:
  assumes "vpn (a + of_nat (4096 * i)) = vpn (a + of_nat (4096 * j))" "i < 2 ^ 36" "j < 2 ^ 36"
  shows "i = j"
proof (rule mod_add_left_inj [OF _ assms(2,3)])
  show "(vpn a + i) mod 2 ^ 36 = (vpn a + j) mod 2 ^ 36"
    using assms(1) by (simp only: vpn_add)
qed

fun map_range :: "u64 \<Rightarrow> nat \<Rightarrow> u64 \<Rightarrow> u64 \<Rightarrow> (nat \<Rightarrow> u64 option) \<Rightarrow> (nat \<Rightarrow> u64 option)" where
  "map_range perm 0 a p f = f"
| "map_range perm (Suc n) a p f =
     map_range perm n (a + 0x1000) (p + 0x1000) (f(vpn a \<mapsto> p OR perm OR VMM_PRESENT))"

lemma present_entry: "present (p OR perm OR VMM_PRESENT)"
proof -
  have "bit ((p OR perm OR VMM_PRESENT) AND VMM_PRESENT) 0"
    unfolding bit_and_iff bit_or_iff VMM_PRESENT_def bit_1_iff by simp
  then show ?thesis
    unfolding present_def by (metis bit_0_eq bot_apply bot_bool_def)
qed

lemma map_page:
  assumes sane: "pmm_sane k" and ok: "space_ok k root" and small: "\<not> large_at (km_mem k) root (vpn a)"
  obtains (full) "\<And>n. map_loop (of_nat root) perm False (Suc n) a p k = Inl HaltLoop"
      "card (free_pages k) < 3"
  | (page) k' where "\<And>n. map_loop (of_nat root) perm False (Suc n) a p k =
        map_loop (of_nat root) perm False n (a + 0x1000) (p + 0x1000) k'"
      "vext root k k'" "card (free_pages k) \<le> card (free_pages k') + 3"
      "\<And>v. v < 2 ^ 36 \<Longrightarrow> pt_abs (km_mem k') root v =
         ((pt_abs (km_mem k) root)(vpn a \<mapsto> p OR perm OR VMM_PRESENT)) v"
proof -
  let ?o = "get_addr_offsets a"
  let ?i = "vidx 39 a" and ?j = "vidx 30 a" and ?l = "vidx 21 a"
  have paths: "path_ok 2 []" "path_ok 2 [?i]" "path_ok 2 [?i, ?j]" "path_ok 3 [?i, ?j, ?l]"
      "path_ok 1 []" "path_ok 1 [?i]" "path_ok 3 []" "path_ok 3 [?i]" "path_ok 3 [?i, ?j]"
    by (simp_all add: path_ok_def)
  have lt: "unat (pml4_off ?o) < 512" "unat (pdp_off ?o) < 512" "unat (pd_off ?o) < 512"
      "unat (pt_off ?o) < 512"
    by (simp_all add: offsets_idx)
  have root: "frame_ok root" "of_nat root + MEM_PHYS_OFFSET = dm root"
    using space_ok_frame [OF ok paths(7)] by (simp_all add: dm_def)
  have nn: "frame_ok q \<Longrightarrow> dm q \<noteq> 0" for q
    by (simp add: dm_nonnull frame_ok_def)
  have s1: "\<not> (present (ent (km_mem k) root ?i) \<and> large (ent (km_mem k) root ?i))"
    using space_ok_upper [OF ok paths(5), of ?i root] by auto
  have t0: "table_at (km_mem k) root [] = Some root" by simp
  show thesis
  proof (cases rule: vmm_get_or_alloc_ok [OF sane ok paths(1) lt(1) t0 s1 [folded offsets_idx]])
    case 1
    then show thesis
      using root nn by (intro full) (simp_all add: Let_def)
  next
    case (2 q1 k1)
    note e1 = vextD [OF 2(2)]
    have t1: "table_at (km_mem k1) root [?i] = Some q1"
      using 2(4) by (simp add: offsets_idx)
    have s2: "\<not> (present (ent (km_mem k1) q1 ?j) \<and> large (ent (km_mem k1) q1 ?j))"
      using space_ok_upper [OF e1(2) paths(6) _ t1, of ?j] by auto
    have q1: "dm q1 \<noteq> 0"
      by (rule nn [OF space_ok_frame [OF e1(2) paths(8) t1]])
    note A1 = 2
    show thesis
    proof (cases rule: vmm_get_or_alloc_ok [OF e1(1,2) paths(2) lt(2) t1 s2 [folded offsets_idx]])
      case 1
      then show thesis
        using root nn A1 q1 by (intro full) (simp_all add: Let_def)
    next
      case (2 q2 k2)
      note e2 = vextD [OF 2(2)]
      have t2: "table_at (km_mem k2) root [?i, ?j] = Some q2"
        using 2(4) by (simp add: offsets_idx)
      have "\<not> large_at (km_mem k2) root (vpn a)"
        using small e1(3) e2(3) by simp
      then have s3: "\<not> (present (ent (km_mem k2) q2 ?l) \<and> large (ent (km_mem k2) q2 ?l))"
        using t2 by (simp add: large_at_def vpath_vpn)
      have q2: "dm q2 \<noteq> 0"
        by (rule nn [OF space_ok_frame [OF e2(2) paths(9) t2]])
      note A2 = 2
      show thesis
      proof (cases rule: vmm_get_or_alloc_ok [OF e2(1,2) paths(3) lt(3) t2 s3 [folded offsets_idx]])
        case 1
        then show thesis
          using root nn A1 A2 q1 q2 by (intro full) (simp_all add: Let_def)
      next
        case (2 q3 k3)
        note e3 = vextD [OF 2(2)]
        have t3: "table_at (km_mem k3) root [?i, ?j, ?l] = Some q3"
          using 2(4) by (simp add: offsets_idx)
        have q3: "frame_ok q3"
          by (rule space_ok_frame [OF e3(2) paths(4) t3])
        let ?k = "k3\<lparr>km_mem := write64 (km_mem k3) (q3 + 8 * vidx 12 a) (p OR perm OR VMM_PRESENT)\<rparr>"
        note leaf = leaf_vext [OF e3(1,2) paths(4) _ t3, of "vidx 12 a" ?k "p OR perm OR VMM_PRESENT"]
        show thesis
        proof (rule page)
          show "map_loop (of_nat root) perm False (Suc n) a p k =
              map_loop (of_nat root) perm False n (a + 0x1000) (p + 0x1000) ?k" for n
            using root nn A1 A2 2 q1 q2 q3 lt(4) by (simp add: Let_def pt_set_write offsets_idx)
          show "vext root k ?k"
            using A1(2) A2(2) 2(2) leaf(1) by (auto intro: vext_trans)
          show "card (free_pages k) \<le> card (free_pages ?k) + 3"
            using A1(5) A2(5) 2(5) leaf(2) by simp
          show "pt_abs (km_mem ?k) root v =
              ((pt_abs (km_mem k) root)(vpn a \<mapsto> p OR perm OR VMM_PRESENT)) v" if "v < 2 ^ 36" for v
          proof -
            have "vpath v = [?i, ?j, ?l] \<and> v mod 512 = vidx 12 a \<longleftrightarrow> v = vpn a"
              using vpn_eqI [OF that vpn_less, of a] unfolding vpath_vpn vpn_mod
              by (metis vpath_vpn vpn_mod)
            then show ?thesis
              using leaf(3) [of v] A1(3) A2(3) 2(3) present_entry by simp
          qed
        qed
      qed
    qed
  qed
qed

lemma map_range_miss: "(\<forall>i<n. v \<noteq> vpn (a + of_nat (4096 * i))) \<Longrightarrow> map_range perm n a p f v = f v"
proof (induction n arbitrary: a p f)
  case (Suc n)
  have "v \<noteq> vpn (a + 0x1000 + of_nat (4096 * i))" if "i < n" for i
    using Suc.prems [rule_format, of "Suc i"] that by (simp add: algebra_simps)
  moreover have "v \<noteq> vpn a"
    using Suc.prems [rule_format, of 0] by simp
  ultimately show ?case
    using Suc.IH [of "a + 0x1000"] by simp
qed simp

lemma map_range_hit:
  "n \<le> 2 ^ 36 \<Longrightarrow> i < n \<Longrightarrow> map_range perm n a p f (vpn (a + of_nat (4096 * i))) =
     Some ((p + of_nat (4096 * i)) OR perm OR VMM_PRESENT)"
proof (induction n arbitrary: a p f i)
  case (Suc n)
  show ?case
  proof (cases i)
    case 0
    have "vpn (a + of_nat (4096 * 0)) \<noteq> vpn (a + of_nat (4096 * Suc j))" if "j < n" for j
      using vpn_add_inj [of a 0 "Suc j"] that Suc.prems(1) by force
    then have "\<forall>j<n. vpn a \<noteq> vpn (a + 0x1000 + of_nat (4096 * j))"
      by (simp add: algebra_simps)
    then show ?thesis
      using 0 by (simp add: map_range_miss)
  next
    case (Suc j)
    then show ?thesis
      using Suc.IH [of j "a + 0x1000" "p + 0x1000"] Suc.prems by (simp add: algebra_simps)
  qed
qed simp

lemma map_range_cong:
  "(\<And>v. v < 2 ^ 36 \<Longrightarrow> f v = g v) \<Longrightarrow> v < 2 ^ 36 \<Longrightarrow> map_range perm n a p f v = map_range perm n a p g v"
proof (induction n arbitrary: a p f g)
  case (Suc n)
  have "(f(vpn a \<mapsto> p OR perm OR VMM_PRESENT)) w = (g(vpn a \<mapsto> p OR perm OR VMM_PRESENT)) w"
    if "w < 2 ^ 36" for w
    using Suc.prems(1) [OF that] by (simp only: fun_upd_apply)
  then show ?case
    unfolding map_range.simps using Suc.prems(2)
    by (rule Suc.IH [where f = "f(vpn a \<mapsto> p OR perm OR VMM_PRESENT)"])
qed simp

lemma map_loop_ok:
  assumes "pmm_sane k" "space_ok k root"
    and "\<And>i. i < n \<Longrightarrow> \<not> large_at (km_mem k) root (vpn (a + of_nat (4096 * i)))"
  obtains (full) "map_loop (of_nat root) perm False n a p k = Inl HaltLoop" "card (free_pages k) < 3 * n"
  | (mapped) k' where "map_loop (of_nat root) perm False n a p k = Inr (True, k')" "vext root k k'"
      "\<And>v. v < 2 ^ 36 \<Longrightarrow> pt_abs (km_mem k') root v = map_range perm n a p (pt_abs (km_mem k) root) v"
proof -
  have "(map_loop (of_nat root) perm False n a p k = Inl HaltLoop \<and> card (free_pages k) < 3 * n) \<or>
    (\<exists>k'. map_loop (of_nat root) perm False n a p k = Inr (True, k') \<and> vext root k k' \<and>
      (\<forall>v<2 ^ 36. pt_abs (km_mem k') root v = map_range perm n a p (pt_abs (km_mem k) root) v))"
    using assms
  proof (induction n arbitrary: a p k)
    case 0
    then show ?case using vext_refl by simp
  next
    case (Suc n)
    have here: "\<not> large_at (km_mem k) root (vpn a)"
      using Suc.prems(3) [of 0] by simp
    have rest: "\<not> large_at (km_mem k) root (vpn (a + 0x1000 + of_nat (4096 * i)))" if "i < n" for i
      using Suc.prems(3) [of "Suc i"] that by (simp add: algebra_simps)
    show ?case
    proof (rule map_page [OF Suc.prems(1,2) here, of perm p])
      assume a: "\<And>n. map_loop (of_nat root) perm False (Suc n) a p k = Inl HaltLoop"
        "card (free_pages k) < 3"
      then show ?case
        using a(1) [of n] by simp
    next
      fix k'
      assume s: "\<And>n. map_loop (of_nat root) perm False (Suc n) a p k =
            map_loop (of_nat root) perm False n (a + 0x1000) (p + 0x1000) k'"
          "vext root k k'" "card (free_pages k) \<le> card (free_pages k') + 3"
          "\<And>v. v < 2 ^ 36 \<Longrightarrow> pt_abs (km_mem k') root v =
             ((pt_abs (km_mem k) root)(vpn a \<mapsto> p OR perm OR VMM_PRESENT)) v"
      note e = vextD [OF s(2)]
      have big: "\<not> large_at (km_mem k') root (vpn (a + 0x1000 + of_nat (4096 * i)))" if "i < n" for i
        using rest [OF that] e(3) by simp
      consider (a) "map_loop (of_nat root) perm False n (a + 0x1000) (p + 0x1000) k' = Inl HaltLoop"
          "card (free_pages k') < 3 * n"
        | (b) k'' where "map_loop (of_nat root) perm False n (a + 0x1000) (p + 0x1000) k' = Inr (True, k'')"
          "vext root k' k''" "\<forall>v<2 ^ 36. pt_abs (km_mem k'') root v =
             map_range perm n (a + 0x1000) (p + 0x1000) (pt_abs (km_mem k') root) v"
        using Suc.IH [OF e(1,2), of "a + 0x1000" "p + 0x1000"] big by blast
      then show ?case
      proof cases
        case a
        then show ?thesis
          using s(1) [of n] s(3) by simp
      next
        case b
        have "pt_abs (km_mem k'') root v = map_range perm (Suc n) a p (pt_abs (km_mem k) root) v"
          if "v < 2 ^ 36" for v
          using b(3) that map_range_cong [of "pt_abs (km_mem k') root"
              "(pt_abs (km_mem k) root)(vpn a \<mapsto> p OR perm OR VMM_PRESENT)" v perm n "a + 0x1000"
              "p + 0x1000", OF s(4) that] by simp
        then show ?thesis
          using s(1) [of n] b(1) vext_trans [OF s(2) b(2)] by metis
      qed
    qed
  qed
  then show thesis using full mapped by blast
qed

section \<open>Walking to an existing table\<close>

lemma walk:
  assumes ok: "space_ok k root" and q: "table_at (km_mem k) root (vpath (vpn a)) = Some q"
  obtains q1 q2 where "of_nat root + MEM_PHYS_OFFSET \<noteq> 0"
    "vmm_get_or_null (km_mem k) (of_nat root + MEM_PHYS_OFFSET) (pml4_off (get_addr_offsets a)) = dm q1"
    "vmm_get_or_null (km_mem k) (dm q1) (pdp_off (get_addr_offsets a)) = dm q2"
    "vmm_get_or_null (km_mem k) (dm q2) (pd_off (get_addr_offsets a)) = dm q"
    "pt_get (km_mem k) (dm q2) (pd_off (get_addr_offsets a)) AND VMM_LARGE = 0"
    "dm q1 \<noteq> 0" "dm q2 \<noteq> 0" "dm q \<noteq> 0" "frame_ok q"
proof -
  let ?i = "vidx 39 a" and ?j = "vidx 30 a" and ?l = "vidx 21 a"
  from q obtain q1 q2 where c: "child (km_mem k) root ?i = Some q1" "child (km_mem k) q1 ?j = Some q2"
      "child (km_mem k) q2 ?l = Some q"
    by (auto simp: vpath_vpn split: bind_splits)
  then have t: "table_at (km_mem k) root [] = Some root" "table_at (km_mem k) root [?i] = Some q1"
      "table_at (km_mem k) root [?i, ?j] = Some q2" "table_at (km_mem k) root [?i, ?j, ?l] = Some q"
    by simp_all
  have f: "frame_ok root" "frame_ok q1" "frame_ok q2" "frame_ok q"
    by (auto intro!: space_ok_frame [OF ok _ t(1)] space_ok_frame [OF ok _ t(2)]
        space_ok_frame [OF ok _ t(3)] space_ok_frame [OF ok _ t(4)] simp: path_ok_def)
  then have nn: "dm root \<noteq> 0" "dm q1 \<noteq> 0" "dm q2 \<noteq> 0" "dm q \<noteq> 0"
    by (simp_all add: dm_nonnull frame_ok_def)
  have r: "of_nat root + MEM_PHYS_OFFSET = dm root"
    by (simp add: dm_def)
  show thesis
    using c f nn by (intro that [of q1 q2])
      (auto simp: r vmm_get_or_null_ent pt_get_ent offsets_idx child_def Let_def large_def split: if_splits)
qed

lemma get_phys_ok:
  assumes ok: "space_ok k root" and e: "pt_abs (km_mem k) root (vpn a) = Some e"
  shows "get_phys (of_nat root) a (km_mem k) = (e AND NOT 0xFFF) OR (a AND 0xFFF)"
proof -
  from e obtain q where q: "table_at (km_mem k) root (vpath (vpn a)) = Some q"
      "e = ent (km_mem k) q (vidx 12 a)"
    by (auto simp: pt_abs_def vpn_mod Let_def split: bind_splits if_splits)
  from walk [OF ok q(1)] show ?thesis
    by (elim meta_allE meta_impE) (simp_all add: get_phys_def Let_def q(2) pt_get_ent offsets_idx)
qed

section \<open>Unmapping\<close>

definition in_range :: "u64 \<Rightarrow> nat \<Rightarrow> nat \<Rightarrow> bool" where
  "in_range a n v \<longleftrightarrow> (\<exists>i<n. v = vpn (a + of_nat (4096 * i)))"

lemma in_range_0 [simp]: "\<not> in_range a 0 v"
  by (simp add: in_range_def)

lemma in_range_Suc: "in_range a (Suc n) v \<longleftrightarrow> v = vpn a \<or> in_range (a + 0x1000) n v"
  by (auto simp: in_range_def less_Suc_eq_0_disj algebra_simps)

lemma in_range_rest:
  assumes "Suc n \<le> 2 ^ 36" "in_range (a + 0x1000) n v"
  shows "v \<noteq> vpn a"
proof
  assume v: "v = vpn a"
  from assms(2) obtain i where "i < n" "v = vpn (a + of_nat (4096 * Suc i))"
    by (auto simp: in_range_def algebra_simps)
  with v vpn_add_inj [of a "Suc i" 0] assms(1) show False by force
qed

lemma unmap_loop_ok:
  assumes "pmm_sane k" "space_ok k root" "n \<le> 2 ^ 36"
    and "\<And>v. in_range a n v \<Longrightarrow> pt_abs (km_mem k) root v \<noteq> None"
  shows "\<exists>m'. unmap_loop (of_nat root) n a (km_mem k) = Inr (True, m') \<and> vext root k (k\<lparr>km_mem := m'\<rparr>) \<and>
    (\<forall>v<2 ^ 36. pt_abs m' root v = (if in_range a n v then None else pt_abs (km_mem k) root v))"
  using assms
proof (induction n arbitrary: a k)
  case 0
  then show ?case using vext_refl by simp
next
  case (Suc n)
  let ?k = "\<lambda>m. k\<lparr>km_mem := m\<rparr>"
  from Suc.prems(4) [of "vpn a"] obtain q where q: "table_at (km_mem k) root (vpath (vpn a)) = Some q"
    by (auto simp: in_range_Suc pt_abs_def split: bind_splits)
  let ?m = "write64 (km_mem k) (q + 8 * vidx 12 a) 0"
  note leaf = leaf_vext [OF Suc.prems(1,2) path_ok_vpath length_vpath q vidx_less refl, of 12 a 0]
  note e = vextD [OF leaf(1)]
  have here: "vpath v = vpath (vpn a) \<and> v mod 512 = vidx 12 a \<longleftrightarrow> v = vpn a" if "v < 2 ^ 36" for v
    using vpn_eqI [OF that vpn_less, of a] vpn_mod by metis
  have abs: "pt_abs ?m root v = (if v = vpn a then None else pt_abs (km_mem k) root v)" if "v < 2 ^ 36" for v
    using leaf(3) [of v] here [OF that] by simp
  have "pt_abs (km_mem (?k ?m)) root v \<noteq> None" if v: "in_range (a + 0x1000) n v" for v
  proof -
    have "v < 2 ^ 36"
      using v vpn_less unfolding in_range_def by metis
    then show ?thesis
      using abs [of v] in_range_rest [OF Suc.prems(3) v] Suc.prems(4) [of v] v by (simp add: in_range_Suc)
  qed
  then obtain m' where m': "unmap_loop (of_nat root) n (a + 0x1000) ?m = Inr (True, m')"
      "vext root (?k ?m) (?k m')"
      "\<forall>v<2 ^ 36. pt_abs m' root v = (if in_range (a + 0x1000) n v then None else pt_abs ?m root v)"
    using Suc.IH [OF e(1,2), of "a + 0x1000"] Suc.prems(3) by auto
  from walk [OF Suc.prems(2) q] have "unmap_loop (of_nat root) (Suc n) a (km_mem k) = Inr (True, m')"
    by (elim meta_allE meta_impE) (simp_all add: Let_def m'(1) pt_set_write offsets_idx)
  moreover have "\<forall>v<2 ^ 36. pt_abs m' root v = (if in_range a (Suc n) v then None else pt_abs (km_mem k) root v)"
    using m'(3) abs by (auto simp: in_range_Suc)
  ultimately show ?case
    using vext_trans [OF leaf(1) m'(2)] by blast
qed

section \<open>The operations on an address space\<close>

definition space_at :: "'x vheap_scheme \<Rightarrow> u64 \<Rightarrow> nat \<Rightarrow> bool" where
  "space_at h pa root \<longleftrightarrow> pa \<noteq> 0 \<and> vm_pts h pa = Some \<lparr>pt_entries = of_nat root, pt_lock = UNLOCKED\<rparr> \<and>
     pmm_sane (lh_k h) \<and> space_ok (lh_k h) root"

abbreviation vview :: "'x vheap_scheme \<Rightarrow> nat \<Rightarrow> nat \<Rightarrow> u64 option" where
  "vview h root \<equiv> pt_abs (km_mem (lh_k h)) root"

lemma pt_acquire_at:
  assumes "space_at h pa root"
  shows "pt_acquire pa h = Inr (\<lparr>pt_entries = of_nat root, pt_lock = True\<rparr>,
    h\<lparr>vm_pts := (vm_pts h)(pa \<mapsto> \<lparr>pt_entries = of_nat root, pt_lock = False\<rparr>)\<rparr>)"
  using assms by (simp add: space_at_def pt_acquire_def)

lemma pt_release_at:
  assumes "space_at h pa root"
  shows "pt_release pa (h\<lparr>vm_pts := (vm_pts h)(pa \<mapsto> \<lparr>pt_entries = of_nat root, pt_lock = b\<rparr>), lh_k := k\<rparr>) =
    Inr (h\<lparr>lh_k := k\<rparr>)"
proof -
  have "(vm_pts h)(pa \<mapsto> \<lparr>pt_entries = of_nat root, pt_lock = True\<rparr>) = vm_pts h"
    using assms by (auto simp: space_at_def)
  then show ?thesis
    using assms by (simp add: space_at_def pt_release_def)
qed

lemma space_at_vext: "space_at h pa root \<Longrightarrow> vext root (lh_k h) k' \<Longrightarrow> space_at (h\<lparr>lh_k := k'\<rparr>) pa root"
  by (simp add: space_at_def vext_def)

lemma vmm_map_cases:
  assumes "space_at h pa root"
    and "\<forall>v. in_range a (unat n) v \<longrightarrow> \<not> large_at (km_mem (lh_k h)) root v"
  obtains (full) "vmm_map pa a p n perm h = Inl HaltLoop" "card (free_pages (lh_k h)) < 3 * unat n"
  | (mapped) k' where "vmm_map pa a p n perm h = Inr (True, h\<lparr>lh_k := k'\<rparr>)" "vext root (lh_k h) k'"
      "\<And>v. v < 2 ^ 36 \<Longrightarrow> pt_abs (km_mem k') root v = map_range perm (unat n) a p (vview h root) v"
proof -
  have ok: "pmm_sane (lh_k h)" "space_ok (lh_k h) root"
    using assms(1) by (simp_all add: space_at_def)
  have "\<not> large_at (km_mem (lh_k h)) root (vpn (a + of_nat (4096 * i)))" if "i < unat n" for i
    using assms(2) that by (auto simp: in_range_def)
  then show thesis
  proof (rule map_loop_ok [OF ok, of "unat n" a perm p])
    assume "map_loop (of_nat root) perm False (unat n) a p (lh_k h) = Inl HaltLoop"
      "card (free_pages (lh_k h)) < 3 * unat n"
    then show thesis
      by (intro full) (simp_all add: vmm_map_def vmm_map_advanced_def pt_acquire_at [OF assms(1)])
  next
    fix k'
    assume "map_loop (of_nat root) perm False (unat n) a p (lh_k h) = Inr (True, k')"
      "vext root (lh_k h) k'"
      "\<And>v. v < 2 ^ 36 \<Longrightarrow> pt_abs (km_mem k') root v = map_range perm (unat n) a p (vview h root) v"
    then show thesis
      using pt_release_at [OF assms(1), of k' False]
      by (intro mapped [of k']) (simp_all add: vmm_map_def vmm_map_advanced_def pt_acquire_at [OF assms(1)])
  qed
qed

lemma vmm_unmap_ok:
  assumes "space_at h pa root" "unat n \<le> 2 ^ 36"
    and "\<forall>v. in_range a (unat n) v \<longrightarrow> vview h root v \<noteq> None"
  shows "\<exists>k'. vmm_unmap pa a n h = Inr (True, h\<lparr>lh_k := k'\<rparr>) \<and> vext root (lh_k h) k' \<and>
    (\<forall>v<2 ^ 36. pt_abs (km_mem k') root v = (if in_range a (unat n) v then None else vview h root v))"
proof -
  have ok: "pmm_sane (lh_k h)" "space_ok (lh_k h) root"
    using assms(1) by (simp_all add: space_at_def)
  from unmap_loop_ok [OF ok assms(2)] assms(3) obtain m' where
    m': "unmap_loop (of_nat root) (unat n) a (km_mem (lh_k h)) = Inr (True, m')"
      "vext root (lh_k h) ((lh_k h)\<lparr>km_mem := m'\<rparr>)"
      "\<forall>v<2 ^ 36. pt_abs m' root v = (if in_range a (unat n) v then None else vview h root v)"
    by blast
  then show ?thesis
    using pt_release_at [OF assms(1), of "(lh_k h)\<lparr>km_mem := m'\<rparr>" False]
    by (intro exI [of _ "(lh_k h)\<lparr>km_mem := m'\<rparr>"]) (simp add: vmm_unmap_def pt_acquire_at [OF assms(1)])
qed

lemma vmm_get_phys_ok:
  assumes "space_at h pa root" "vview h root (vpn a) = Some e"
  shows "vmm_get_phys pa a h = Inr ((e AND NOT 0xFFF) OR (a AND 0xFFF), h)"
proof -
  have "get_phys (of_nat root) a (km_mem (lh_k h)) = (e AND NOT 0xFFF) OR (a AND 0xFFF)"
    using assms by (intro get_phys_ok) (simp_all add: space_at_def)
  then show ?thesis
    using pt_release_at [OF assms(1), of "lh_k h" False]
    by (simp add: vmm_get_phys_def pt_acquire_at [OF assms(1)])
qed

section \<open>The contract of an address space\<close>

text \<open>
  What the clients of the memory manager rely on: an abstract view of the pages, changed by mapping
  and unmapping and read by translation.
\<close>

locale paging =
  fixes ok :: "'s \<Rightarrow> bool" and view :: "'s \<Rightarrow> nat \<Rightarrow> u64 option" and small :: "'s \<Rightarrow> nat \<Rightarrow> bool"
    and map_op :: "u64 \<Rightarrow> u64 \<Rightarrow> u64 \<Rightarrow> u64 \<Rightarrow> 's \<Rightarrow> (bool \<times> 's) exec"
    and unmap_op :: "u64 \<Rightarrow> u64 \<Rightarrow> 's \<Rightarrow> (bool \<times> 's) exec"
    and phys_op :: "u64 \<Rightarrow> 's \<Rightarrow> (u64 \<times> 's) exec"
  assumes map_law: "\<lbrakk>ok s; \<forall>v. in_range a (unat n) v \<longrightarrow> small s v; map_op a p n perm s = Inr (r, s')\<rbrakk> \<Longrightarrow>
      r \<and> ok s' \<and> (\<forall>v<2 ^ 36. view s' v = map_range perm (unat n) a p (view s) v)"
    and unmap_law: "\<lbrakk>ok s; unat n \<le> 2 ^ 36; \<forall>v. in_range a (unat n) v \<longrightarrow> view s v \<noteq> None\<rbrakk> \<Longrightarrow>
      \<exists>s'. unmap_op a n s = Inr (True, s') \<and> ok s' \<and>
        (\<forall>v<2 ^ 36. view s' v = (if in_range a (unat n) v then None else view s v))"
    and phys_law: "\<lbrakk>ok s; view s (vpn a) = Some e\<rbrakk> \<Longrightarrow>
      phys_op a s = Inr ((e AND NOT 0xFFF) OR (a AND 0xFFF), s)"
begin

lemma mapped_view:
  assumes "ok s" "\<forall>v. in_range a (unat n) v \<longrightarrow> small s v" "map_op a p n perm s = Inr (r, s')"
    and "unat n \<le> 2 ^ 36" "i < unat n"
  shows "view s' (vpn (a + of_nat (4096 * i))) = Some ((p + of_nat (4096 * i)) OR perm OR VMM_PRESENT)"
  using map_law [OF assms(1-3)] map_range_hit [OF assms(4,5)] vpn_less by metis

lemma map_then_phys:
  assumes "ok s" "\<forall>v. in_range a (unat n) v \<longrightarrow> small s v" "map_op a p n perm s = Inr (r, s')"
    and "unat n \<le> 2 ^ 36" "i < unat n" "vpn b = vpn (a + of_nat (4096 * i))"
  shows "phys_op b s' = Inr ((((p + of_nat (4096 * i)) OR perm OR VMM_PRESENT) AND NOT 0xFFF) OR (b AND 0xFFF), s')"
  using phys_law [of s' b] map_law [OF assms(1-3)] mapped_view [OF assms(1-5)] assms(6) by metis

lemma map_then_unmap:
  assumes "ok s" "\<forall>v. in_range a (unat n) v \<longrightarrow> small s v" "map_op a p n perm s = Inr (r, s')"
    and "unat n \<le> 2 ^ 36" "\<forall>v. in_range a (unat n) v \<longrightarrow> view s v = None"
  shows "\<exists>s''. unmap_op a n s' = Inr (True, s'') \<and> ok s'' \<and> (\<forall>v<2 ^ 36. view s'' v = view s v)"
proof -
  note m = map_law [OF assms(1-3)]
  have "\<forall>v. in_range a (unat n) v \<longrightarrow> view s' v \<noteq> None"
    using mapped_view [OF assms(1-4)] by (auto simp: in_range_def)
  from unmap_law [OF _ assms(4) this] m obtain s'' where s'': "unmap_op a n s' = Inr (True, s'')" "ok s''"
      "\<forall>v<2 ^ 36. view s'' v = (if in_range a (unat n) v then None else view s' v)"
    by blast
  have "view s'' v = view s v" if "v < 2 ^ 36" for v
    using s''(3) m assms(5) that map_range_miss [of "unat n" v a perm p "view s"]
    by (cases "in_range a (unat n) v") (auto simp: in_range_def)
  with s''(1,2) show ?thesis by blast
qed

end

interpretation vm: paging "\<lambda>h. space_at h pa root" "\<lambda>h. vview h root"
    "\<lambda>h v. \<not> large_at (km_mem (lh_k h)) root v" "vmm_map pa" "vmm_unmap pa" "vmm_get_phys pa" for pa root
proof unfold_locales
  fix h h' :: "'x vheap_scheme" and a n p perm :: u64 and r
  assume a: "space_at h pa root" "\<forall>v. in_range a (unat n) v \<longrightarrow> \<not> large_at (km_mem (lh_k h)) root v"
    "vmm_map pa a p n perm h = Inr (r, h')"
  from a(1,2) show "r \<and> space_at h' pa root \<and> (\<forall>v<2 ^ 36. vview h' root v = map_range perm (unat n) a p (vview h root) v)"
    by (rule vmm_map_cases [of h pa root a n p perm]) (use a(1,3) space_at_vext in auto)
next
  fix h :: "'x vheap_scheme" and n a :: u64
  assume a: "space_at h pa root" "unat n \<le> 2 ^ 36" "\<forall>v. in_range a (unat n) v \<longrightarrow> vview h root v \<noteq> None"
  from vmm_unmap_ok [OF this] space_at_vext [OF a(1)]
  show "\<exists>h'. vmm_unmap pa a n h = Inr (True, h') \<and> space_at h' pa root \<and>
      (\<forall>v<2 ^ 36. vview h' root v = (if in_range a (unat n) v then None else vview h root v))"
    by fastforce
qed (rule vmm_get_phys_ok)

section \<open>Properties\<close>

text \<open>
  C3. Mapping refines an update of the abstract address space. For an address space whose tables are
  well formed and whose lock is free, \<^verbatim>\<open>vmm_map\<close> of \<open>n\<close> pages (none of them inside a large page) either
  halts because fewer than \<open>3 n\<close> physical pages are free, or returns \<open>true\<close>: every page of the range
  then has the entry \<open>(phys + 4096 i) | permissions | present\<close>, every other page keeps its entry, the
  tables are well formed again, and no byte outside the table pages has changed.
\<close>

theorem vmm_map_refines:
  assumes "space_at h pa root" "unat n \<le> 2 ^ 36"
    and "\<forall>v. in_range a (unat n) v \<longrightarrow> \<not> large_at (km_mem (lh_k h)) root v"
  shows "(vmm_map pa a p n perm h = Inl HaltLoop \<and> card (free_pages (lh_k h)) < 3 * unat n) \<or>
    (\<exists>k'. vmm_map pa a p n perm h = Inr (True, h\<lparr>lh_k := k'\<rparr>) \<and> space_at (h\<lparr>lh_k := k'\<rparr>) pa root \<and>
      (\<forall>i<unat n. pt_abs (km_mem k') root (vpn (a + of_nat (4096 * i))) =
          Some ((p + of_nat (4096 * i)) OR perm OR VMM_PRESENT)) \<and>
      (\<forall>v<2 ^ 36. \<not> in_range a (unat n) v \<longrightarrow> pt_abs (km_mem k') root v = vview h root v) \<and>
      (\<forall>x. \<not> table_page (km_mem k') root (x div 4096 * 4096) \<longrightarrow> km_mem k' x = km_mem (lh_k h) x))"
  using assms(1,3)
proof (cases rule: vmm_map_cases [of h pa root a n p perm])
  case full
  then show ?thesis by blast
next
  case (mapped k')
  have "pt_abs (km_mem k') root v = vview h root v" if "v < 2 ^ 36" "\<not> in_range a (unat n) v" for v
    using mapped(3) [OF that(1)] map_range_miss [of "unat n" v a] that(2) by (simp add: in_range_def)
  moreover have "\<forall>i<unat n. pt_abs (km_mem k') root (vpn (a + of_nat (4096 * i))) =
      Some ((p + of_nat (4096 * i)) OR perm OR VMM_PRESENT)"
    using mapped(3) [OF vpn_less] map_range_hit [OF assms(2)] by simp
  moreover have "space_at (h\<lparr>lh_k := k'\<rparr>) pa root"
    by (rule space_at_vext [OF assms(1) mapped(2)])
  ultimately show ?thesis
    using mapped(1,2) by (intro disjI2 exI [of _ k']) (simp add: vext_def)
qed

text \<open>A machine with one empty address space: the root is page 1, and pages 2 to 15 are free.\<close>

definition blank_vheap :: vheap where
  "blank_vheap = \<lparr>lh_k = \<lparr>km_pmm = \<lparr>PmmBitmap = (\<lambda>i. i < 2), PmmLength = 16, PmmFreePages = 14, PmmLock = True\<rparr>,
      km_mem = (\<lambda>_. 0)\<rparr>, lh_lists = Map.empty, lh_nodes = Map.empty, hh_maps = Map.empty,
     hh_tables = Map.empty, hh_entries = Map.empty, hh_strs = Map.empty,
     vm_pts = [0x5000 \<mapsto> \<lparr>pt_entries = 0x1000, pt_lock = True\<rparr>], KernelPml4 = 0x5000,
     KernelBase = 0, PhysicalKernelBase = 0, KernelSize = 0, vm_cr3 = 0x1000\<rparr>"

lemma blank_table_at: "table_at (\<lambda>_. 0) root xs = (if xs = [] then Some root else None)"
  by (cases xs) (simp_all add: child_def ent_def read64_def read_le_zero)

lemma blank_space_at: "space_at blank_vheap 0x5000 0x1000"
  by (auto simp: space_at_def blank_vheap_def space_ok_def blank_table_at pmm_sane_def frame_ok_def
      ent_def read64_def read_le_zero split: if_splits)

lemma blank_not_large: "\<not> large_at (km_mem (lh_k blank_vheap)) root v"
  by (simp add: large_at_def blank_vheap_def blank_table_at vpath_def)

lemma blank_free: "card (free_pages (lh_k blank_vheap)) = 14"
proof -
  have "free_pages (lh_k blank_vheap) = {2..<16}"
    by (auto simp: free_pages_def blank_vheap_def)
  then show ?thesis by simp
qed

theorem vmm_map_refines_witness:
  "\<exists>k'. vmm_map 0x5000 0x40001000 0x9000 2 7 blank_vheap = Inr (True, blank_vheap\<lparr>lh_k := k'\<rparr>) \<and>
     pt_abs (km_mem k') 0x1000 (vpn (0x40001000 + of_nat (4096 * 1))) = Some ((0x9000 + of_nat (4096 * 1)) OR 7 OR VMM_PRESENT)"
proof -
  have "\<forall>v. in_range 0x40001000 (unat (2 :: u64)) v \<longrightarrow> \<not> large_at (km_mem (lh_k blank_vheap)) 0x1000 v"
    by (simp add: blank_not_large)
  from vmm_map_refines [OF blank_space_at _ this, of "0x9000" 7] obtain k' where
    k: "vmm_map 0x5000 0x40001000 0x9000 2 7 blank_vheap = Inr (True, blank_vheap\<lparr>lh_k := k'\<rparr>)"
      "\<forall>i<unat (2 :: u64). pt_abs (km_mem k') 0x1000 (vpn (0x40001000 + of_nat (4096 * i))) =
          Some ((0x9000 + of_nat (4096 * i)) OR 7 OR VMM_PRESENT)"
    by (auto simp: blank_free)
  then show ?thesis
    using k(2) [rule_format, of 1] by (intro exI [of _ k']) simp
qed

lemma low_bits: "(w :: u64) AND 0xFFF = take_bit 12 w"
proof -
  have "(0xFFF :: u64) = mask 12"
    by (simp add: mask_eq_exp_minus_1)
  then show ?thesis
    by (simp only: take_bit_eq_mask)
qed

lemma take_bit_aligned_add: "take_bit 12 (w :: u64) = 0 \<Longrightarrow> take_bit 12 (w + v) = take_bit 12 v"
proof -
  assume a: "take_bit 12 w = 0"
  have m: "(x :: int) mod 4096 = 0 \<Longrightarrow> (x + y) mod 4096 = y mod 4096" for x y
    by (metis add_0 mod_add_left_eq)
  have z: "uint w mod 4096 = 0"
    using arg_cong [OF a, of uint] unfolding unsigned_take_bit_eq unfolding take_bit_eq_mod by simp
  have "uint (take_bit 12 (w + v)) = (uint w + uint v) mod 2 ^ 64 mod 2 ^ 12"
    unfolding unsigned_take_bit_eq unfolding take_bit_eq_mod uint_word_ariths by simp
  also have "\<dots> = (uint w + uint v) mod 2 ^ 12"
    by (rule mod_mod_cancel) simp
  also have "\<dots> = uint v mod 4096"
    using m [OF z] by simp
  also have "\<dots> = uint (take_bit 12 v)"
    unfolding unsigned_take_bit_eq unfolding take_bit_eq_mod by simp
  finally show ?thesis by (simp only: word_uint_eq_iff)
qed

lemma page_plus_off:
  assumes "take_bit 12 X = (0 :: u64)" "take_bit 12 off = (off :: u64)"
  shows "X + off = X OR off"
proof (rule disjunctive_add_eq_or, rule bit_word_eqI)
  fix n
  show "bit (X AND off) n \<longleftrightarrow> bit (0 :: u64) n"
    using assms by (metis bit_and_iff bit_take_bit_iff bit_0_eq bot_apply bot_bool_def)
qed

lemma vpn_plus_off:
  assumes "take_bit 12 X = (0 :: u64)" "take_bit 12 off = (off :: u64)"
  shows "vpn (X + off) = vpn X"
proof -
  have "drop_bit 12 (unat off) = (0 :: nat)"
    by (metis assms(2) drop_bit_take_bit take_bit_0 cancel_comm_monoid_add_class.diff_cancel unsigned_take_bit_eq)
  then show ?thesis
    by (simp only: vpn_take page_plus_off [OF assms] unsigned_or_eq drop_bit_or or.right_neutral)
qed

lemma page_entry_phys:
  assumes "take_bit 12 X = (0 :: u64)" "perm AND NOT 0xFFF = 0" "take_bit 12 off = (off :: u64)"
  shows "((X OR perm OR VMM_PRESENT) AND NOT 0xFFF) OR off = X + off"
proof -
  have "(X OR perm OR VMM_PRESENT) AND NOT 0xFFF = X AND NOT 0xFFF"
    using assms(2) by (simp add: VMM_PRESENT_def bit.conj_disj_distrib2)
  moreover have "X = (X AND 0xFFF) OR (X AND NOT 0xFFF)"
    by (simp flip: bit.conj_disj_distrib)
  then have "X AND NOT 0xFFF = X"
    using assms(1) low_bits [of X] by simp
  ultimately show ?thesis
    using page_plus_off [OF assms(1,3)] by simp
qed


lemma blank_map:
  obtains k' where "vmm_map 0x5000 0x40001000 0x9000 2 7 blank_vheap = Inr (True, blank_vheap\<lparr>lh_k := k'\<rparr>)"
    "space_at (blank_vheap\<lparr>lh_k := k'\<rparr>) 0x5000 0x1000"
    "pt_abs (km_mem k') 0x1000 (vpn 0x40001000) = Some (0x9000 OR 7 OR VMM_PRESENT)"
proof -
  have "\<forall>v. in_range 0x40001000 (unat (2 :: u64)) v \<longrightarrow> \<not> large_at (km_mem (lh_k blank_vheap)) 0x1000 v"
    by (simp add: blank_not_large)
  from blank_space_at this show thesis
  proof (cases rule: vmm_map_cases [of _ _ _ _ _ "0x9000" 7])
    case (mapped k')
    have "pt_abs (km_mem k') 0x1000 (vpn (0x40001000 + of_nat (4096 * 0))) =
        Some ((0x9000 + of_nat (4096 * 0)) OR 7 OR VMM_PRESENT)"
      using mapped(3) [OF vpn_less] map_range_hit [of "unat (2 :: u64)" 0 7 "0x40001000" "0x9000"] by simp
    then show thesis
      using mapped(1) space_at_vext [OF blank_space_at mapped(2)] by (intro that [of k']) simp_all
  qed (simp add: blank_free)
qed


text \<open>
  C26. Mapping and unmapping round-trip. When no page of the range was mapped before, unmapping what
  \<^verbatim>\<open>vmm_map\<close> mapped succeeds and gives back the abstract address space that was there first.
\<close>

theorem vmm_map_unmap_roundtrip:
  assumes "space_at h pa root" "unat n \<le> 2 ^ 36"
    and "\<forall>v. in_range a (unat n) v \<longrightarrow> \<not> large_at (km_mem (lh_k h)) root v"
    and "vmm_map pa a p n perm h = Inr (r, h')"
    and "\<forall>v. in_range a (unat n) v \<longrightarrow> vview h root v = None"
  shows "\<exists>h''. vmm_unmap pa a n h' = Inr (True, h'') \<and> space_at h'' pa root \<and>
    (\<forall>v<2 ^ 36. vview h'' root v = vview h root v)"
  by (rule vm.map_then_unmap [OF assms(1,3,4,2,5)])

theorem vmm_map_unmap_roundtrip_witness:
  "\<exists>h' h''. vmm_map 0x5000 0x40001000 0x9000 2 7 blank_vheap = Inr (True, h') \<and>
     vmm_unmap 0x5000 0x40001000 2 h' = Inr (True, h'') \<and> (\<forall>v<2 ^ 36. vview h'' 0x1000 v = None)"
proof -
  obtain k' where k: "vmm_map 0x5000 0x40001000 0x9000 2 7 blank_vheap = Inr (True, blank_vheap\<lparr>lh_k := k'\<rparr>)"
    by (rule blank_map)
  have none: "vview blank_vheap 0x1000 v = None" for v
    by (simp add: blank_vheap_def pt_abs_def blank_table_at vpath_def)
  have "\<forall>v. in_range 0x40001000 (unat (2 :: u64)) v \<longrightarrow> \<not> large_at (km_mem (lh_k blank_vheap)) 0x1000 v"
    by (simp add: blank_not_large)
  from vmm_map_unmap_roundtrip [OF blank_space_at _ this k] none k show ?thesis
    by auto
qed

lemma get_or_alloc_existing:
  "vmm_get_or_null (km_mem k) pt off \<noteq> 0 \<Longrightarrow> vmm_get_or_alloc pt off fl k = Inr (vmm_get_or_null (km_mem k) pt off, k)"
  by (auto simp: vmm_get_or_null_def vmm_get_or_alloc_def Let_def split: if_splits)



end
