(* ===== verification/Tasks.thy ===== *)
theory Tasks
  imports Vmm
begin

text \<open>
  The state of the tasking code and its two smallest files: \<^verbatim>\<open>kernel/tasking/process.c\<close> and
  \<^verbatim>\<open>kernel/tasking/event.c\<close>. Threads, processes, event counters and the small arrays of pointers and
  flags are typed stores over the addresses of the kernel heap; the scheduler's tables, its three locks,
  the per-processor data and the timer counter are fields of the same machine record. Blocking is a call
  of \<open>resched\<close>, which stands for everything the machine does between the moment a thread gives up the
  processor and the moment it is resumed.
\<close>

section \<open>Data\<close>

record irq_regs_t =
  rg_r15 :: u64
  rg_r14 :: u64
  rg_r13 :: u64
  rg_r12 :: u64
  rg_r11 :: u64
  rg_r10 :: u64
  rg_r9 :: u64
  rg_r8 :: u64
  rg_rdi :: u64
  rg_rsi :: u64
  rg_rbp :: u64
  rg_rdx :: u64
  rg_rcx :: u64
  rg_rbx :: u64
  rg_rax :: u64
  rg_int_no :: u64
  rg_err :: u64
  rg_rip :: u64
  rg_cs :: u64
  rg_rflags :: u64
  rg_rsp :: u64
  rg_ss :: u64

record thread_t =
  saved_regs :: irq_regs_t
  guardValue :: u32
  t_tid :: u64
  t_pid :: u64
  taskID :: u64
  kstack_address :: u64
  ustack_address :: u64
  cpu_number :: u64
  t_lock :: lock
  fs_base :: u64
  fxstate :: u64
  event_pointer :: u64
  out_event_pointer :: u64
  event_timeout :: u64
  event_count :: u64
  event_abort :: u32
  yield_target :: u64
  memoryStackPhys :: u64
  dont_save :: u32

record process_t =
  p_pid :: u64
  page_table :: u64
  p_threads :: u64
  p_lock :: lock
  current_alloc_address :: u64
  alloc_lock :: lock
  file_handles :: u64
  file_handles_lock :: lock
  parent_pid :: u64
  shm_map :: u64
  shm_alloc :: u64

record cpu_t =
  currentCpu :: u64
  kernelStack :: u64
  threadKernelStack :: u64
  threadUserStack :: u64
  lapicID :: u64
  currentPid :: u64
  currentTid :: u64
  currentTaskID :: u64

record tasks = vheap +
  ts_threads :: "u64 \<rightharpoonup> thread_t"
  ts_processes :: "u64 \<rightharpoonup> process_t"
  ts_arrays :: "u64 \<rightharpoonup> u64 list"
  ts_bools :: "u64 \<rightharpoonup> bool list"
  ts_events :: "u64 \<rightharpoonup> u32"
  SchedulerRunning :: bool
  SchedulerProcesses :: "u64 list"
  ActiveTasks :: "u64 list"
  TotalActiveTasks :: u64
  ReSchedulerLock :: lock
  SchedulerLock :: lock
  SecondSchedulerLock :: lock
  CPULocals :: "cpu_t list"
  TimerCounter :: u64
  DefaultFxstate :: u64
  CpuSimdRegionSize :: u64
  ts_fs_base :: "nat \<Rightarrow> u64"
  ts_lapic :: "(u32 \<times> u32) list"

abbreviation MAX_PROCESSES :: nat where "MAX_PROCESSES \<equiv> 256"
abbreviation MAX_THREADS :: nat where "MAX_THREADS \<equiv> 256"
abbreviation MAX_FILE_HANDLES :: nat where "MAX_FILE_HANDLES \<equiv> 256"

definition BASE_ALLOC_ADDRESS :: u64 where
  "BASE_ALLOC_ADDRESS = 0x0000780000000000"

definition USER_SHM_LOW :: u64 where
  "USER_SHM_LOW = 0x0000400100000000"

definition zero_regs :: irq_regs_t where
  "zero_regs = \<lparr>rg_r15 = 0, rg_r14 = 0, rg_r13 = 0, rg_r12 = 0, rg_r11 = 0, rg_r10 = 0, rg_r9 = 0, rg_r8 = 0, rg_rdi = 0, rg_rsi = 0,
     rg_rbp = 0, rg_rdx = 0, rg_rcx = 0, rg_rbx = 0, rg_rax = 0, rg_int_no = 0, rg_err = 0, rg_rip = 0, rg_cs = 0, rg_rflags = 0,
     rg_rsp = 0, rg_ss = 0\<rparr>"

text \<open>Arrays behind a pointer, and array variables; an index past the end is a wild access.\<close>

definition elem :: "'v list \<Rightarrow> nat \<Rightarrow> 'v exec" where
  "elem xs i = (if i < length xs then Inr (xs ! i) else Inl WildAccess)"

definition put :: "'v list \<Rightarrow> nat \<Rightarrow> 'v \<Rightarrow> 'v list exec" where
  "put xs i v = (if i < length xs then Inr (xs[i := v]) else Inl WildAccess)"

definition arr_get :: "(u64 \<rightharpoonup> 'v list) \<Rightarrow> u64 \<Rightarrow> nat \<Rightarrow> 'v exec" where
  "arr_get m p i = bindr (load m p) (\<lambda>xs. elem xs i)"

definition arr_set :: "(u64 \<rightharpoonup> 'v list) \<Rightarrow> u64 \<Rightarrow> nat \<Rightarrow> 'v \<Rightarrow> (u64 \<rightharpoonup> 'v list) exec" where
  "arr_set m p i v = bindr (load m p) (\<lambda>xs. bindr (put xs i v) (\<lambda>xs. Inr (m(p \<mapsto> xs))))"

lemma elem_nth [simp, exec_simps]: "i < length xs \<Longrightarrow> elem xs i = Inr (xs ! i)"
  by (simp add: elem_def)

lemma elem_wild [simp, exec_simps]: "length xs \<le> i \<Longrightarrow> elem xs i = Inl WildAccess"
  by (simp add: elem_def)

lemma put_upd [simp, exec_simps]: "i < length xs \<Longrightarrow> put xs i v = Inr (xs[i := v])"
  by (simp add: put_def)

definition upd_thread :: "u64 \<Rightarrow> (thread_t \<Rightarrow> thread_t) \<Rightarrow> 'x tasks_scheme \<Rightarrow> 'x tasks_scheme exec" where
  "upd_thread t f h = bindr (modify t f (ts_threads h)) (\<lambda>m. Inr (h\<lparr>ts_threads := m\<rparr>))"

definition upd_process :: "u64 \<Rightarrow> (process_t \<Rightarrow> process_t) \<Rightarrow> 'x tasks_scheme \<Rightarrow> 'x tasks_scheme exec" where
  "upd_process p f h = bindr (modify p f (ts_processes h)) (\<lambda>m. Inr (h\<lparr>ts_processes := m\<rparr>))"

text \<open>The first index whose element satisfies the test, or the length of the list.\<close>

fun find_slot :: "('v \<Rightarrow> bool) \<Rightarrow> 'v list \<Rightarrow> nat" where
  "find_slot P [] = 0"
| "find_slot P (x # xs) = (if P x then 0 else Suc (find_slot P xs))"

section \<open>Processes\<close>

definition process_create :: "u64 \<Rightarrow> 'x tasks_scheme \<Rightarrow> (u64 \<times> 'x tasks_scheme) exec" where
  "process_create pt h =
     (let pid = find_slot (\<lambda>p. p = 0) (SchedulerProcesses h) in
      if pid = length (SchedulerProcesses h) then Inr (-1, h)
      else
        bindr (kmalloc 160 (lh_k h)) (\<lambda>(newProcess, k).
        bindr (kcalloc 332 256 k) (\<lambda>(threads, k).
        if newProcess = 0 \<or> threads = 0 then Inl NullDeref
        else
          bindr (kcalloc 8 256 k) (\<lambda>(handles, k).
          if handles = 0 then Inl NullDeref
          else Inr (of_nat pid, h\<lparr>lh_k := k,
            ts_processes := (ts_processes h)(newProcess \<mapsto>
              \<lparr>p_pid = of_nat pid, page_table = pt, p_threads = threads, p_lock = UNLOCKED,
               current_alloc_address = BASE_ALLOC_ADDRESS, alloc_lock = UNLOCKED, file_handles = handles,
               file_handles_lock = UNLOCKED, parent_pid = 0, shm_map = 0, shm_alloc = USER_SHM_LOW\<rparr>),
            ts_arrays := (ts_arrays h)(threads \<mapsto> replicate MAX_THREADS 0,
              handles \<mapsto> replicate MAX_FILE_HANDLES (-1)),
            SchedulerProcesses := (SchedulerProcesses h)[pid := newProcess]\<rparr>)))))"

section \<open>Events\<close>

definition event_notify :: "u64 \<Rightarrow> 'x tasks_scheme \<Rightarrow> 'x tasks_scheme exec" where
  "event_notify e h = bindr (modify e (\<lambda>c. snd (locked_inc c)) (ts_events h)) (\<lambda>m. Inr (h\<lparr>ts_events := m\<rparr>))"

partial_function (option) reset_loop :: "u32 \<Rightarrow> u32 option" where
  "reset_loop c = (if locked_read c \<noteq> 0 then reset_loop (snd (locked_dec c)) else Some c)"

definition event_reset :: "u64 \<Rightarrow> 'x tasks_scheme \<Rightarrow> 'x tasks_scheme exec" where
  "event_reset e h = bindr (load (ts_events h) e) (\<lambda>c.
     case reset_loop c of None \<Rightarrow> Inl HaltLoop
     | Some c' \<Rightarrow> Inr (h\<lparr>ts_events := (ts_events h)(e \<mapsto> c')\<rparr>))"

definition current_cpu :: "nat \<Rightarrow> 'x tasks_scheme \<Rightarrow> cpu_t exec" where
  "current_cpu cpu h = elem (CPULocals h) cpu"

definition current_thread :: "nat \<Rightarrow> 'x tasks_scheme \<Rightarrow> u64 exec" where
  "current_thread cpu h = bindr (current_cpu cpu h) (\<lambda>c. elem (ActiveTasks h) (unat (currentTaskID c)))"

text \<open>The poll at the start of \<^verbatim>\<open>events_await\<close>: every event that is set is consumed and reported.\<close>

definition poll_event :: "u64 \<Rightarrow> u64 \<Rightarrow> nat \<Rightarrow> bool \<times> 'x tasks_scheme \<Rightarrow> (bool \<times> 'x tasks_scheme) exec" where
  "poll_event events outEvents i = (\<lambda>(wake, h).
     bindr (arr_get (ts_arrays h) events i) (\<lambda>e.
     bindr (load (ts_events h) e) (\<lambda>c.
       if locked_read c \<noteq> 0 then
         let h = h\<lparr>ts_events := (ts_events h)(e \<mapsto> snd (locked_dec c))\<rparr> in
         if outEvents \<noteq> 0 then
           bindr (arr_set (ts_bools h) outEvents i True) (\<lambda>m. Inr (True, h\<lparr>ts_bools := m\<rparr>))
         else Inr (True, h)
       else Inr (wake, h))))"

definition events_await ::
    "('x tasks_scheme \<Rightarrow> 'x tasks_scheme exec) \<Rightarrow> nat \<Rightarrow> u64 \<Rightarrow> u64 \<Rightarrow> u64 \<Rightarrow>
     'x tasks_scheme \<Rightarrow> (bool \<times> 'x tasks_scheme) exec" where
  "events_await resched cpu events outEvents count h =
     bindr (for_exec 0 (unat count) (poll_event events outEvents) (False, h)) (\<lambda>(wake, h).
     if wake then Inr (True, h)
     else
       bindr (spin_acquire_exec (SchedulerLock h)) (\<lambda>_.
       bindr (current_thread cpu h) (\<lambda>currentThread.
       bindr (upd_thread currentThread (\<lambda>T. T\<lparr>event_count := count, out_event_pointer := outEvents\<rparr>) h) (\<lambda>h.
       bindr (upd_thread currentThread (\<lambda>T. T\<lparr>event_pointer := events\<rparr>) h) (\<lambda>h.
       bindr (resched h) (\<lambda>h.
       bindr (load (ts_threads h) currentThread) (\<lambda>T.
         Inr (locked_read (event_abort T) = 0, h))))))))"

definition event_array_await_timeout ::
    "('x tasks_scheme \<Rightarrow> 'x tasks_scheme exec) \<Rightarrow> nat \<Rightarrow> u64 \<Rightarrow> u64 \<Rightarrow> u64 \<Rightarrow> u64 \<Rightarrow>
     'x tasks_scheme \<Rightarrow> (bool \<times> 'x tasks_scheme) exec" where
  "event_array_await_timeout resched cpu events outEvents count timeout h =
     (let target = TimerCounter h + timeout * (1000 div 1000) + 1 in
      bindr (spin_acquire_exec (SchedulerLock h)) (\<lambda>_.
      bindr (current_thread cpu h) (\<lambda>currentThread.
      bindr (upd_thread currentThread (\<lambda>T. T\<lparr>event_timeout := target\<rparr>) h) (\<lambda>h.
      bindr (events_await resched cpu events outEvents count h) (\<lambda>(ret, h).
        if \<not> ret then Inr (False, h)
        else bindr (load (ts_threads h) currentThread) (\<lambda>T. Inr (event_timeout T \<noteq> 0, h)))))))"

text \<open>The one-element arrays of the single-event calls are locals; their addresses are arguments.\<close>

definition event_locals :: "u64 \<Rightarrow> u64 \<Rightarrow> u64 \<Rightarrow> 'x tasks_scheme \<Rightarrow> 'x tasks_scheme" where
  "event_locals events eventsOut event h =
     h\<lparr>ts_arrays := (ts_arrays h)(events \<mapsto> [event]), ts_bools := (ts_bools h)(eventsOut \<mapsto> [False])\<rparr>"

definition event_await_timeout ::
    "('x tasks_scheme \<Rightarrow> 'x tasks_scheme exec) \<Rightarrow> nat \<Rightarrow> u64 \<Rightarrow> u64 \<Rightarrow> u64 \<Rightarrow> u64 \<Rightarrow>
     'x tasks_scheme \<Rightarrow> (bool \<times> 'x tasks_scheme) exec" where
  "event_await_timeout resched cpu events eventsOut event timeout h =
     event_array_await_timeout resched cpu events eventsOut 1 timeout (event_locals events eventsOut event h)"

definition event_await ::
    "('x tasks_scheme \<Rightarrow> 'x tasks_scheme exec) \<Rightarrow> nat \<Rightarrow> u64 \<Rightarrow> u64 \<Rightarrow> u64 \<Rightarrow>
     'x tasks_scheme \<Rightarrow> (bool \<times> 'x tasks_scheme) exec" where
  "event_await resched cpu events eventsOut event h =
     events_await resched cpu events eventsOut 1 (event_locals events eventsOut event h)"

section \<open>Event counters\<close>

lemma high_mask: "(c :: u32) AND 0xFFFF0000 = push_bit 16 (drop_bit 16 c)"
proof -
  have "(0xFFFF0000 :: u32) = push_bit 16 (mask 16)"
    by (simp add: mask_eq_exp_minus_1)
  then have "c AND 0xFFFF0000 = c AND push_bit 16 (mask 16)"
    by (simp only:)
  also have "\<dots> = push_bit 16 (drop_bit 16 c)"
    by (rule bit_word_eqI) (auto simp: bit_and_iff bit_push_bit_iff bit_mask_iff bit_drop_bit_eq)
  finally show ?thesis .
qed

lemma low_high_half:
  "drop_bit 16 ((c AND 0xFFFF0000) OR take_bit 16 n) = drop_bit 16 (c :: u32)"
  "take_bit 16 ((c AND 0xFFFF0000) OR take_bit 16 n) = take_bit 16 (n :: u32)"
proof -
  show "drop_bit 16 ((c AND 0xFFFF0000) OR take_bit 16 n) = drop_bit 16 c"
    unfolding high_mask
    by (rule bit_word_eqI) (auto simp: bit_or_iff bit_push_bit_iff bit_take_bit_iff bit_drop_bit_eq
        dest: bit_imp_le_length)
  show "take_bit 16 ((c AND 0xFFFF0000) OR take_bit 16 n) = take_bit 16 n"
    unfolding high_mask
    by (rule bit_word_eqI) (auto simp: bit_or_iff bit_push_bit_iff bit_take_bit_iff bit_drop_bit_eq)
qed

lemma unat_halves: "unat (drop_bit 16 c) = unat (c :: u32) div 65536" "unat (take_bit 16 c) = unat (c :: u32) mod 65536"
  by (simp_all add: unsigned_drop_bit_eq unsigned_take_bit_eq drop_bit_eq_div take_bit_eq_mod unat_mod_distrib
      unat_div_distrib)

lemma locked_halves:
  "unat (snd (locked_dec c)) div 65536 = unat c div 65536"
  "unat (snd (locked_inc c)) div 65536 = unat c div 65536"
  "unat (snd (locked_inc c)) mod 65536 = (unat c + 1) mod 65536"
  "unat (snd (locked_dec c)) mod 65536 = unat (c - 1) mod 65536"
proof -
  have "unat (c + 1) mod 65536 = (unat c + 1) mod 65536"
    by (simp add: unat_word_ariths mod_mod_cancel)
  then show "unat (snd (locked_inc c)) mod 65536 = (unat c + 1) mod 65536"
    by (simp only: locked_inc_def Let_def snd_conv unat_halves [symmetric] low_high_half(2))
qed (simp_all only: locked_inc_def locked_dec_def Let_def snd_conv unat_halves [symmetric] low_high_half)

lemma reset_loop_low: "unat c < 65536 \<Longrightarrow> reset_loop c = Some 0"
proof (induction "unat c" arbitrary: c)
  case 0
  then have "c = 0" by (simp add: unat_eq_zero)
  then show ?case by (subst reset_loop.simps) (simp add: locked_read_def)
next
  case (Suc n)
  let ?d = "snd (locked_dec c)"
  have "c \<noteq> 0" "unat (c - 1) = n"
    using Suc.hyps(2) by (auto simp: unat_sub_if_size word_le_nat_alt)
  moreover have "unat ?d = n"
    using locked_halves(1,4) [of c] Suc.prems Suc.hyps(2) \<open>unat (c - 1) = n\<close>
    by (metis div_less div_mult_mod_eq Suc_lessD mod_less add_0 mult_0)
  ultimately show ?case
    using Suc.hyps(1) [of ?d] Suc.prems Suc.hyps(2) by (subst reset_loop.simps) (simp add: locked_read_def)
qed

lemma reset_loop_high:
  assumes "65536 \<le> unat c"
  shows "reset_loop c = None"
proof -
  have "unat c < 65536" if "reset_loop c = Some r" for r
  proof (rule reset_loop.raw_induct [OF _ that])
    fix f c r
    assume IH: "\<And>c r. f c = Some r \<Longrightarrow> unat c < 65536"
      and r: "(if locked_read c \<noteq> 0 then f (snd (locked_dec c)) else Some c) = Some r"
    show "unat c < 65536"
    proof (cases "c = 0")
      case False
      then have "unat (snd (locked_dec c)) < 65536"
        using r IH by (simp add: locked_read_def)
      then have "unat c div 65536 = 0"
        using locked_halves(1) [of c] by simp
      then show ?thesis by simp
    qed simp
  qed
  with assms show ?thesis by (cases "reset_loop c") auto
qed

text \<open>
  C29. Events terminate. \<^verbatim>\<open>event_reset\<close> brings a counter below \<open>2 ^ 16\<close> to zero and never returns for any
  other counter, because \<^verbatim>\<open>locked_dec\<close> only counts the low half of the cell down; \<^verbatim>\<open>event_notify\<close>
  increments the low half modulo \<open>2 ^ 16\<close> and never touches the upper half, so a counter that starts at
  zero can always be reset.
\<close>

theorem event_reset_terminates:
  assumes "e \<noteq> 0" "ts_events h e = Some c"
  shows "(unat c < 65536 \<longrightarrow> event_reset e h = Inr (h\<lparr>ts_events := (ts_events h)(e \<mapsto> 0)\<rparr>)) \<and>
    (65536 \<le> unat c \<longrightarrow> event_reset e h = Inl HaltLoop) \<and>
    (\<exists>c'. event_notify e h = Inr (h\<lparr>ts_events := (ts_events h)(e \<mapsto> c')\<rparr>) \<and>
       unat c' mod 65536 = (unat c + 1) mod 65536 \<and> unat c' div 65536 = unat c div 65536)"
  using assms reset_loop_low [of c] reset_loop_high [of c] locked_halves(2,3) [of c]
  by (auto simp: event_reset_def event_notify_def)

text \<open>A machine with an empty address space and nothing to run.\<close>

definition no_tasks :: tasks where
  "no_tasks = vheap.extend blank_vheap
     \<lparr>ts_threads = Map.empty, ts_processes = Map.empty, ts_arrays = Map.empty, ts_bools = Map.empty,
      ts_events = Map.empty, SchedulerRunning = False, SchedulerProcesses = replicate 256 0,
      ActiveTasks = replicate 512 0, TotalActiveTasks = 0, ReSchedulerLock = True,
      SchedulerLock = True, SecondSchedulerLock = True, CPULocals = [], TimerCounter = 0,
      DefaultFxstate = 0, CpuSimdRegionSize = 512, ts_fs_base = (\<lambda>_. 0), ts_lapic = []\<rparr>"

theorem event_reset_terminates_witness:
  "let h = no_tasks\<lparr>ts_events := [0x100 \<mapsto> 3]\<rparr>
   in event_reset 0x100 h = Inr (h\<lparr>ts_events := (ts_events h)(0x100 \<mapsto> 0)\<rparr>)"
proof -
  let ?h = "no_tasks\<lparr>ts_events := [0x100 \<mapsto> 3]\<rparr>"
  have "ts_events ?h 0x100 = Some 3" by simp
  from event_reset_terminates [OF _ this] show ?thesis by (simp add: Let_def)
qed

end
