(* ===== verification/Thread.thy ===== *)
theory Thread
  imports Tasks
begin

text \<open>
  Threads, \<^verbatim>\<open>kernel/tasking/thread.c\<close>: \<^verbatim>\<open>thread_create\<close> and \<^verbatim>\<open>thread_recreate\<close>, including the
  initial user stack they build in physical memory for a program (strings, auxiliary vector, pointer
  arrays, argument count). The stack is shown to hold what the program expects: the argument count and,
  behind each pointer, the string that was passed.
\<close>

section \<open>Data\<close>

record elf_value_t =
  phdr :: u64
  phent :: u64
  phnum :: u64
  ev_entry :: u64

text \<open>
  The arrays of strings are given by their pointer and, for each element up to the terminating
  \<^verbatim>\<open>NULL\<close>, its pointer and its characters.
\<close>

record exec_data =
  ed_entry :: u64
  ed_argv :: u64
  ed_args :: "(u64 \<times> u8 list) list"
  ed_envp :: u64
  ed_envs :: "(u64 \<times> u8 list) list"
  ed_value :: elf_value_t

datatype thread_data = EntryData u64 u64 | ExecData exec_data

definition STACK_LOCATION_TOP :: u64 where
  "STACK_LOCATION_TOP = 0x0000800000000000"

section \<open>The initial stack of a program\<close>

fun write_bytes :: "bytes \<Rightarrow> nat \<Rightarrow> u8 list \<Rightarrow> bytes" where
  "write_bytes m a [] = m"
| "write_bytes m a (b # bs) = write_bytes (m(a := b)) (Suc a) bs"

text \<open>\<^verbatim>\<open>strp -= strlen(*elem) + 1; strcpy(strp, *elem);\<close> for each element.\<close>

fun push_strings :: "u8 list list \<Rightarrow> u64 \<Rightarrow> bytes \<Rightarrow> u64 \<times> bytes" where
  "push_strings [] strp m = (strp, m)"
| "push_strings (s # ss) strp m =
     (let strp = strp - of_nat (length s + 1)
      in push_strings ss strp (write_bytes m (phys_of strp) (s @ [0])))"

definition put64 :: "u64 \<Rightarrow> u64 \<Rightarrow> bytes \<Rightarrow> bytes" where
  "put64 sp v m = write64 m (phys_of sp) v"

text \<open>\<^verbatim>\<open>sa -= strlen(...) + 1; sp[i] = sa;\<close> for each element.\<close>

fun put_pointers :: "u8 list list \<Rightarrow> u64 \<Rightarrow> u64 \<Rightarrow> bytes \<Rightarrow> u64 \<times> bytes" where
  "put_pointers [] sp sa m = (sa, m)"
| "put_pointers (s # ss) sp sa m =
     (let sa = sa - of_nat (length s + 1) in put_pointers ss (sp + 8) sa (put64 sp sa m))"

definition exec_stack :: "u64 \<Rightarrow> u64 \<Rightarrow> u8 list list \<Rightarrow> u8 list list \<Rightarrow> elf_value_t \<Rightarrow> bytes \<Rightarrow> u64 \<times> bytes" where
  "exec_stack sbase stackBottom args envs value m =
     (let (strp, m) = push_strings envs sbase m;
          (strp, m) = push_strings args strp m;
          nenv = length envs;
          nargs = length args;
          strp = strp - (strp AND 0xF);
          sp = (if odd (nargs + nenv + 1) then strp - 8 else strp);
          sp = sp - 8; m = put64 sp 0 m;
          sp = sp - 8; m = put64 sp 0 m;
          sp = sp - 16; m = put64 (sp + 8) (ev_entry value) (put64 sp 9 m);
          sp = sp - 16; m = put64 (sp + 8) (phdr value) (put64 sp 3 m);
          sp = sp - 16; m = put64 (sp + 8) (phent value) (put64 sp 4 m);
          sp = sp - 16; m = put64 (sp + 8) (phnum value) (put64 sp 5 m);
          sa = stackBottom + 0x4000;
          sp = sp - 8; m = put64 sp 0 m;
          sp = sp - of_nat (8 * nenv);
          (sa, m) = put_pointers envs sp sa m;
          sp = sp - 8; m = put64 sp 0 m;
          sp = sp - of_nat (8 * nargs);
          (sa, m) = put_pointers args sp sa m;
          sp = sp - 8; m = put64 sp (of_nat nargs) m
      in (sp, m))"

section \<open>Creating a thread\<close>

definition segments :: "u64 \<Rightarrow> irq_regs_t \<Rightarrow> irq_regs_t" where
  "segments pid R = (if pid = 0 then R\<lparr>rg_cs := 0x08, rg_rflags := 0x202, rg_ss := 0x10\<rparr>
                     else R\<lparr>rg_cs := 0x23, rg_rflags := 0x202, rg_ss := 0x1B\<rparr>)"

definition entry_regs :: "thread_data \<Rightarrow> irq_regs_t \<Rightarrow> irq_regs_t" where
  "entry_regs d R = (case d of
     EntryData entry arg \<Rightarrow> R\<lparr>rg_rip := entry, rg_rdi := arg\<rparr>
   | ExecData E \<Rightarrow> R\<lparr>rg_rip := ed_entry E\<rparr>)"

definition guard_page :: "u64 \<Rightarrow> u64" where
  "guard_page tid = STACK_LOCATION_TOP - (0x1000 * 4 + 0x1000) * (tid + 1)"

text \<open>
  The user stack: four pages from the page allocator, filled for a program, mapped below the top of
  the user address space with an unmapped guard page under it. The result is the stack's physical
  address and the initial stack pointer.
\<close>

definition user_stack ::
    "u64 \<Rightarrow> u64 \<Rightarrow> thread_data \<Rightarrow> u64 \<Rightarrow> 'x tasks_scheme \<Rightarrow> (u64 \<times> 'x tasks_scheme) exec" where
  "user_stack pt tid d memoryStack h =
     (let stackGuardPage = guard_page tid;
          stackBottom = stackGuardPage + 4096;
          sbase = memoryStack + 0x4000 + MEM_PHYS_OFFSET;
          (sp, m) = (case d of
             ExecData E \<Rightarrow> exec_stack sbase stackBottom (map snd (ed_args E)) (map snd (ed_envs E))
                             (ed_value E) (km_mem (lh_k h))
           | EntryData _ _ \<Rightarrow> (sbase, km_mem (lh_k h)))
      in bindr (vmm_map pt stackBottom memoryStack 4 7 (h\<lparr>lh_k := (lh_k h)\<lparr>km_mem := m\<rparr>\<rparr>)) (\<lambda>(_, h).
         bindr (vmm_unmap pt stackGuardPage 1 h) (\<lambda>(_, h).
           Inr (stackBottom + 0x4000 - (sbase - sp), h))))"

definition free_tid :: "u64 list \<Rightarrow> nat" where
  "free_tid ts = find_slot (\<lambda>t. t = 0 \<or> t = -1) ts"

definition new_thread :: "u64 \<Rightarrow> u64 \<Rightarrow> u64 \<Rightarrow> u64 \<Rightarrow> thread_t" where
  "new_thread pid tid fx kstack =
     \<lparr>saved_regs = segments pid zero_regs, guardValue = 0, t_tid = tid, t_pid = pid, taskID = -1,
      kstack_address = kstack, ustack_address = 0, cpu_number = 0, t_lock = UNLOCKED, fs_base = 0,
      fxstate = fx, event_pointer = 0, out_event_pointer = 0, event_timeout = 0, event_count = 0,
      event_abort = 0, yield_target = 0, memoryStackPhys = 0, dont_save = 0\<rparr>"

definition copy_fxstate :: "u64 \<Rightarrow> 'x tasks_scheme \<Rightarrow> 'x tasks_scheme exec" where
  "copy_fxstate fx h =
     (if fx = 0 \<or> DefaultFxstate h = 0 then Inl NullDeref
      else Inr (h\<lparr>lh_k := (lh_k h)\<lparr>km_mem := memcpy (km_mem (lh_k h)) (phys_of fx)
             (phys_of (DefaultFxstate h)) (unat (CpuSimdRegionSize h))\<rparr>\<rparr>))"

definition thread_create :: "u64 \<Rightarrow> thread_data \<Rightarrow> 'x tasks_scheme \<Rightarrow> (u64 \<times> 'x tasks_scheme) exec" where
  "thread_create pid d h =
     bindr (elem (SchedulerProcesses h) (unat pid)) (\<lambda>process.
     if process = 0 then Inr (-1, h)
     else
       bindr (load (ts_processes h) process) (\<lambda>P.
       bindr (spin_acquire_exec (p_lock P)) (\<lambda>b.
       bindr (upd_process process (\<lambda>P. P\<lparr>p_lock := b\<rparr>) h) (\<lambda>h.
       bindr (load (ts_arrays h) (p_threads P)) (\<lambda>threads.
       let tid = free_tid threads in
       if tid = length threads then
         bindr (upd_process process (\<lambda>P. P\<lparr>p_lock := UNLOCKED\<rparr>) h) (\<lambda>h. Inr (-1, h))
       else
         bindr (kmalloc 332 (lh_k h)) (\<lambda>(newThread, k).
         if newThread = 0 then Inl NullDeref
         else
           bindr (kmalloc (CpuSimdRegionSize h) k) (\<lambda>(fx, k).
           bindr (kmalloc 0x8000 k) (\<lambda>(stack, k).
           if stack = 0 then Inl WildAccess
           else
             let kstack = stack + 0x8000;
                 T = new_thread pid (of_nat tid) fx kstack;
                 h = h\<lparr>lh_k := k\<lparr>km_mem := put64 (kstack - 8) 0 (km_mem k)\<rparr>\<rparr>
             in
             bindr (if pid = 0 then Inr (T\<lparr>saved_regs := (saved_regs T)\<lparr>rg_rsp := kstack\<rparr>\<rparr>, h)
                    else
                      bindr (pmm_alloc 4 (lh_k h)) (\<lambda>(memoryStack, k).
                      bindr (user_stack (page_table P) (of_nat tid) d memoryStack (h\<lparr>lh_k := k\<rparr>)) (\<lambda>(sp, h).
                        Inr (T\<lparr>saved_regs := (saved_regs T)\<lparr>rg_rsp := sp\<rparr>, memoryStackPhys := memoryStack\<rparr>, h)))) (\<lambda>(T, h).
             bindr (copy_fxstate fx h) (\<lambda>h.
             bindr (arr_set (ts_arrays h) (p_threads P) tid newThread) (\<lambda>arrays.
             bindr (upd_process process (\<lambda>P. P\<lparr>p_lock := UNLOCKED\<rparr>)
                 (h\<lparr>ts_arrays := arrays, ts_threads := (ts_threads h)(newThread \<mapsto>
                    T\<lparr>saved_regs := entry_regs d (saved_regs T)\<rparr>)\<rparr>)) (\<lambda>h.
               Inr (of_nat tid, h)))))))))))))"

section \<open>Restarting a thread with a new program\<close>

fun free_all :: "u64 list \<Rightarrow> kmem \<Rightarrow> kmem exec" where
  "free_all [] k = Inr k"
| "free_all (p # ps) k = bindr (kfree p k) (free_all ps)"

definition free_exec_args :: "exec_data \<Rightarrow> kmem \<Rightarrow> kmem exec" where
  "free_exec_args E k =
     bindr (free_all (map fst (ed_envs E)) k) (\<lambda>k.
     bindr (kfree (ed_envp E) k) (\<lambda>k.
     bindr (free_all (map fst (ed_args E)) k) (kfree (ed_argv E))))"

text \<open>
  The stack pages of the old program are forgotten before they are looked at, so a fresh stack is
  always allocated. The arguments are freed after the stack is filled and before it is mapped.
\<close>

definition recreate_stack ::
    "u64 \<Rightarrow> u64 \<Rightarrow> thread_data \<Rightarrow> bool \<Rightarrow> u64 \<Rightarrow> 'x tasks_scheme \<Rightarrow> (u64 \<times> 'x tasks_scheme) exec" where
  "recreate_stack pt tid d free_args memoryStack h =
     (let stackGuardPage = guard_page tid;
          stackBottom = stackGuardPage + 4096;
          sbase = memoryStack + 0x4000 + MEM_PHYS_OFFSET
      in bindr (case d of
           ExecData E \<Rightarrow>
             (let (sp, m) = exec_stack sbase stackBottom (map snd (ed_args E)) (map snd (ed_envs E))
                              (ed_value E) (km_mem (lh_k h));
                  k = (lh_k h)\<lparr>km_mem := m\<rparr>
              in bindr (if free_args then free_exec_args E k else Inr k) (\<lambda>k. Inr (sp, h\<lparr>lh_k := k\<rparr>)))
         | EntryData _ _ \<Rightarrow> Inr (sbase, h)) (\<lambda>(sp, h).
         bindr (vmm_map pt stackBottom memoryStack 4 7 h) (\<lambda>(_, h).
         bindr (vmm_unmap pt stackGuardPage 1 h) (\<lambda>(_, h).
           Inr (stackBottom + 0x4000 - (sbase - sp), h)))))"

definition thread_recreate ::
    "u64 \<Rightarrow> u64 \<Rightarrow> thread_data \<Rightarrow> bool \<Rightarrow> 'x tasks_scheme \<Rightarrow> (u64 \<times> 'x tasks_scheme) exec" where
  "thread_recreate pid tid d free_args h =
     bindr (elem (SchedulerProcesses h) (unat pid)) (\<lambda>process.
     if process = 0 then Inr (-1, h)
     else
       bindr (load (ts_processes h) process) (\<lambda>P.
       bindr (arr_get (ts_arrays h) (p_threads P) (unat tid)) (\<lambda>newThread.
       if newThread = 0 \<or> newThread = -1 then Inr (-1, h)
       else
         bindr (spin_acquire_exec (p_lock P)) (\<lambda>b.
         bindr (upd_process process (\<lambda>P. P\<lparr>p_lock := b\<rparr>) h) (\<lambda>h.
         bindr (load (ts_threads h) newThread) (\<lambda>T.
         let T = T\<lparr>t_lock := UNLOCKED, t_pid := pid, t_tid := tid, cpu_number := -1, taskID := -1,
                   event_abort := 0, yield_target := 0, memoryStackPhys := 0, fs_base := 0,
                   ustack_address := 0, event_pointer := 0, out_event_pointer := 0, event_timeout := 0,
                   event_count := 0, saved_regs := segments pid zero_regs\<rparr>;
             h = h\<lparr>lh_k := (lh_k h)\<lparr>km_mem := put64 (kstack_address T - 8) 0 (km_mem (lh_k h))\<rparr>\<rparr>
         in
         bindr (if pid = 0 then Inr (T\<lparr>saved_regs := (saved_regs T)\<lparr>rg_rsp := kstack_address T\<rparr>\<rparr>, h)
                else
                  bindr (pmm_alloc 4 (lh_k h)) (\<lambda>(memoryStack, k).
                  bindr (recreate_stack (page_table P) tid d free_args memoryStack (h\<lparr>lh_k := k\<rparr>)) (\<lambda>(sp, h).
                    Inr (T\<lparr>saved_regs := (saved_regs T)\<lparr>rg_rsp := sp\<rparr>, memoryStackPhys := memoryStack\<rparr>, h)))) (\<lambda>(T, h).
         bindr (copy_fxstate (fxstate T) h) (\<lambda>h.
         bindr (arr_set (ts_arrays h) (p_threads P) (unat tid) newThread) (\<lambda>arrays.
         bindr (upd_process process (\<lambda>P. P\<lparr>p_lock := UNLOCKED\<rparr>)
             (h\<lparr>ts_arrays := arrays, ts_threads := (ts_threads h)(newThread \<mapsto>
                T\<lparr>saved_regs := entry_regs d (saved_regs T), dont_save := 1\<rparr>)\<rparr>)) (\<lambda>h.
           Inr (tid, h)))))))))))"

section \<open>The contents of the initial stack\<close>

text \<open>Direct-map pointers counted down from the top of the stack pages.\<close>

lemma dm_minus: "j \<le> x \<Longrightarrow> dm x - of_nat j = dm (x - j)"
  by (simp add: dm_def of_nat_diff)

lemma dm_plus: "dm x + of_nat j = dm (x + j)"
  by (simp add: dm_def)

lemma phys_of_dm0: "x < 18446744073709551616 \<Longrightarrow> phys_of (dm x) = x"
  using phys_of_dm [of x 0] by simp

lemma put64_dm: "x < 18446744073709551616 \<Longrightarrow> put64 (dm x) v m = write64 m x v"
  by (simp add: put64_def phys_of_dm0)

lemma write_bytes_outside: "x < a \<or> a + length bs \<le> x \<Longrightarrow> write_bytes m a bs x = m x"
  by (induction bs arbitrary: m a) auto

lemma bytes_at_write_bytes: "bytes_at (write_bytes m a bs) a (length bs) = bs"
  by (induction bs arbitrary: m a) (simp_all add: bytes_at_Suc write_bytes_outside)

definition str_size :: "u8 list list \<Rightarrow> nat" where
  "str_size ss = sum_list (map (\<lambda>s. length s + 1) ss)"

lemma str_size_simps [simp]: "str_size [] = 0" "str_size (s # ss) = length s + 1 + str_size ss"
  by (simp_all add: str_size_def)

text \<open>The strings \<open>ss\<close> lie one below the other under address \<open>x\<close>, each with its terminator.\<close>

fun strings_below :: "bytes \<Rightarrow> nat \<Rightarrow> u8 list list \<Rightarrow> bool" where
  "strings_below m x [] = True"
| "strings_below m x (s # ss) =
     (bytes_at m (x - (length s + 1)) (length s + 1) = s @ [0] \<and> strings_below m (x - (length s + 1)) ss)"

lemma strings_below_cong:
  "str_size ss \<le> x \<Longrightarrow> (\<And>a. x - str_size ss \<le> a \<Longrightarrow> a < x \<Longrightarrow> m' a = m a) \<Longrightarrow>
   strings_below m x ss \<Longrightarrow> strings_below m' x ss"
proof (induction ss arbitrary: x)
  case (Cons s ss)
  have "bytes_at m' (x - (length s + 1)) (length s + 1) = bytes_at m (x - (length s + 1)) (length s + 1)"
    using Cons.prems(1,2) by (intro bytes_at_cong) auto
  moreover have "strings_below m' (x - (length s + 1)) ss"
    using Cons.prems by (intro Cons.IH) auto
  ultimately show ?case using Cons.prems(3) by simp
qed simp

lemma push_strings_ok:
  assumes "str_size ss \<le> x" "x < 18446744073709551616"
  shows "\<exists>m'. push_strings ss (dm x) m = (dm (x - str_size ss), m') \<and> strings_below m' x ss \<and>
    (\<forall>a. a < x - str_size ss \<or> x \<le> a \<longrightarrow> m' a = m a)"
  using assms
proof (induction ss arbitrary: x m)
  case (Cons s ss)
  let ?y = "x - (length s + 1)" and ?m = "write_bytes m (x - (length s + 1)) (s @ [0])"
  have y: "length s + 1 \<le> x" "str_size ss \<le> ?y" "?y < 18446744073709551616"
    using Cons.prems by simp_all
  from Cons.IH [OF y(2,3), of ?m] obtain m' where m': "push_strings ss (dm ?y) ?m = (dm (?y - str_size ss), m')"
      "strings_below m' ?y ss" "\<forall>a. a < ?y - str_size ss \<or> ?y \<le> a \<longrightarrow> m' a = ?m a"
    by blast
  have "push_strings (s # ss) (dm x) m = (dm (x - str_size (s # ss)), m')"
    using m'(1) dm_minus [OF y(1)] phys_of_dm0 [OF y(3)] by (simp add: Let_def)
  moreover have "bytes_at m' ?y (length s + 1) = s @ [0]"
  proof -
    have "bytes_at m' ?y (length s + 1) = bytes_at ?m ?y (length s + 1)"
      using m'(3) by (intro bytes_at_cong) simp
    then show ?thesis
      using bytes_at_write_bytes [of m ?y "s @ [0]"] by simp
  qed
  moreover have "m' a = m a" if "a < x - str_size (s # ss) \<or> x \<le> a" for a
  proof -
    have "m' a = ?m a"
      using that m'(3) y by auto
    also have "\<dots> = m a"
      using that y by (intro write_bytes_outside) auto
    finally show ?thesis .
  qed
  ultimately show ?case using m'(2) by auto
qed simp

text \<open>
  A stack in construction: the words \<open>W\<close> from address \<open>z\<close> up, below \<open>tp\<close>, in a memory that differs
  from \<open>m0\<close> only there.
\<close>

definition stk :: "bytes \<Rightarrow> bytes \<Rightarrow> nat \<Rightarrow> nat \<Rightarrow> u64 list \<Rightarrow> bool" where
  "stk m0 m z tp W \<longleftrightarrow> z + 8 * length W \<le> tp \<and> (\<forall>i<length W. read64 m (z + 8 * i) = W ! i) \<and>
     (\<forall>a. a < z \<or> tp \<le> a \<longrightarrow> m a = m0 a)"

lemma stk_start: "z \<le> tp \<Longrightarrow> stk m m z tp []"
  by (simp add: stk_def)

lemma stk_push:
  assumes "stk m0 m z tp W" "8 \<le> z"
  shows "stk m0 (write64 m (z - 8) v) (z - 8) tp (v # W)"
proof -
  have "read64 (write64 m (z - 8) v) (z - 8 + 8 * i) = (v # W) ! i" if "i < length (v # W)" for i
  proof (cases i)
    case (Suc j)
    have "z - 8 + 8 * i = z + 8 * j"
      using assms(2) Suc by simp
    then show ?thesis
      using assms that Suc by (simp add: stk_def)
  qed simp
  moreover have "write64 m (z - 8) v a = m0 a" if "a < z - 8 \<or> tp \<le> a" for a
    using that assms by (auto simp: stk_def write64_outside)
  ultimately show ?thesis
    using assms by (simp add: stk_def)
qed

lemma write64_swap:
  assumes "b + 8 \<le> a \<or> a + 8 \<le> b"
  shows "write64 (write64 m a v) b w = write64 (write64 m b w) a v"
  using assms by (auto simp: write64_def write_le_apply fun_eq_iff)

lemma stk_push2:
  assumes "stk m0 m z tp W" "16 \<le> z"
  shows "stk m0 (write64 (write64 m (z - 16) v) (z - 8) w) (z - 16) tp (v # w # W)"
proof -
  have "stk m0 (write64 (write64 m (z - 8) w) (z - 8 - 8) v) (z - 8 - 8) tp (v # w # W)"
    using assms by (intro stk_push) simp_all
  moreover have "write64 (write64 m (z - 16) v) (z - 8) w = write64 (write64 m (z - 8) w) (z - 16) v"
    using assms(2) by (intro write64_swap) linarith
  ultimately show ?thesis by simp
qed

fun ptrs :: "u8 list list \<Rightarrow> u64 \<Rightarrow> u64 list" where
  "ptrs [] sa = []"
| "ptrs (s # ss) sa = (sa - of_nat (length s + 1)) # ptrs ss (sa - of_nat (length s + 1))"

lemma length_ptrs [simp]: "length (ptrs ss sa) = length ss"
  by (induction ss arbitrary: sa) simp_all

lemma stk_under:
  assumes "stk m0 m z tp W" "y + 8 \<le> z"
  shows "stk (write64 m0 y v) (write64 m y v) z tp W"
proof -
  have "write64 m y v a = write64 m0 y v a" if "a < z \<or> tp \<le> a" for a
    using that assms by (auto simp: stk_def write64_def write_le_apply)
  then show ?thesis
    using assms by (auto simp: stk_def)
qed

lemma stk_close:
  assumes "stk (write64 m0 y v) m (y + 8) tp W"
  shows "stk m0 m y tp (v # W)"
proof -
  have "read64 m y = read64 (write64 m0 y v) y"
    using assms by (intro read64_cong) (auto simp: stk_def)
  then have "read64 m (y + 8 * i) = (v # W) ! i" if "i < length (v # W)" for i
    using that assms by (cases i) (auto simp: stk_def algebra_simps)
  moreover have "m a = m0 a" if "a < y \<or> tp \<le> a" for a
  proof -
    have "m a = write64 m0 y v a"
      using that assms by (auto simp: stk_def)
    also have "\<dots> = m0 a"
      using that assms by (intro write64_outside) (auto simp: stk_def)
    finally show ?thesis .
  qed
  ultimately show ?thesis
    using assms by (simp add: stk_def)
qed

lemma put_pointers_ok:
  assumes "stk m0 m (y + 8 * length ss) tp W" "y + 8 * length ss < 18446744073709551616"
  shows "\<exists>m'. put_pointers ss (dm y) sa m = (sa - of_nat (str_size ss), m') \<and>
    stk m0 m' y tp (ptrs ss sa @ W)"
  using assms
proof (induction ss arbitrary: y sa m0 m)
  case (Cons s ss)
  let ?sa = "sa - of_nat (length s + 1)"
  have "stk (write64 m0 y ?sa) (write64 m y ?sa) (y + 8 + 8 * length ss) tp W"
    using Cons.prems(1) by (intro stk_under) (simp_all add: algebra_simps)
  then obtain m' where m': "put_pointers ss (dm (y + 8)) ?sa (write64 m y ?sa) = (?sa - of_nat (str_size ss), m')"
      "stk (write64 m0 y ?sa) m' (y + 8) tp (ptrs ss ?sa @ W)"
    using Cons.IH [of "write64 m0 y ?sa" "write64 m y ?sa" "y + 8" ?sa] Cons.prems(2)
    by (auto simp: algebra_simps)
  have "put_pointers (s # ss) (dm y) sa m = (sa - of_nat (str_size (s # ss)), m')"
    using m'(1) Cons.prems(2) dm_plus [of y 8] by (simp add: Let_def put64_dm algebra_simps)
  with stk_close [OF m'(2)] show ?case by simp
qed simp

lemma strings_below_nth:
  "strings_below m x ss \<Longrightarrow> i < length ss \<Longrightarrow>
   bytes_at m (x - str_size (take (Suc i) ss)) (length (ss ! i) + 1) = ss ! i @ [0]"
proof (induction ss arbitrary: x i)
  case (Cons s ss)
  then show ?case
    using Cons.IH [of "x - (length s + 1)" "i - 1"] by (cases i) simp_all
qed simp

lemma ptrs_nth: "i < length ss \<Longrightarrow> ptrs ss sa ! i = sa - of_nat (str_size (take (Suc i) ss))"
proof (induction ss arbitrary: sa i)
  case (Cons s ss)
  then show ?case
    using Cons.IH [of "i - 1" "sa - of_nat (length s + 1)"] by (cases i) (simp_all add: diff_diff_eq)
qed simp

lemma str_size_take: "str_size (take n ss) \<le> str_size ss"
  by (induction ss arbitrary: n) (auto simp: take_Cons split: nat.splits)

lemma dm_low4: "dm x AND 0xF = of_nat (x mod 16)"
proof -
  have "take_bit 12 (dm x) = take_bit 12 (of_nat x)"
    using take_bit_aligned_add [of MEM_PHYS_OFFSET "of_nat x"]
    by (simp add: dm_def MEM_PHYS_OFFSET_def add.commute take_bit_eq_mod)
  then have "take_bit 4 (take_bit 12 (dm x)) = take_bit 4 (take_bit 12 (of_nat x))"
    by (rule arg_cong)
  then have "take_bit 4 (dm x) = take_bit 4 (of_nat x)"
    by (simp only: take_bit_take_bit) simp
  moreover have "(0xF :: u64) = mask 4"
    by (simp add: mask_eq_exp_minus_1)
  ultimately have "dm x AND 0xF = take_bit 4 (of_nat x)"
    by (simp only: take_bit_eq_mask)
  also have "\<dots> = of_nat (take_bit 4 x)"
    by (simp only: take_bit_of_nat)
  finally show ?thesis
    by (simp only: take_bit_eq_mod) simp
qed

lemma dm_minus_num: "8 \<le> x \<Longrightarrow> dm x - 8 = dm (x - 8)" "16 \<le> x \<Longrightarrow> dm x - 16 = dm (x - 16)"
  "dm x + 8 = dm (x + 8)"
  using dm_minus [of 8 x] dm_minus [of 16 x] dm_plus [of x 8] by simp_all

lemma dm_sub: "a = b + 8 \<Longrightarrow> dm a - 8 = dm b" "a = b + 16 \<Longrightarrow> dm a - 16 = dm b"
  by (simp_all add: dm_minus_num)

lemma dm_add8: "b = a + 8 \<Longrightarrow> dm a + 8 = dm b"
  by (simp add: dm_minus_num)

definition aux_words :: "elf_value_t \<Rightarrow> u64 list" where
  "aux_words v = [5, phnum v, 4, phent v, 3, phdr v, 9, ev_entry v, 0, 0]"

definition stack_words :: "u64 \<Rightarrow> u8 list list \<Rightarrow> u8 list list \<Rightarrow> elf_value_t \<Rightarrow> u64 list" where
  "stack_words tp args envs v =
     of_nat (length args) # ptrs args (tp - of_nat (str_size envs)) @ 0 # ptrs envs tp @ 0 # aux_words v"

definition stack_need :: "u8 list list \<Rightarrow> u8 list list \<Rightarrow> nat" where
  "stack_need args envs = str_size args + str_size envs + 8 * (length args + length envs) + 128"

lemma exec_stack_words:
  assumes P: "P < 18446744073709551616" "stack_need args envs \<le> P" "P mod 16 = 0"
  obtains x z m2 m' where "exec_stack (dm P) sb args envs v m = (dm z, m')"
    "strings_below m' P envs" "strings_below m' (P - str_size envs) args"
    "stk m2 m' z x (stack_words (sb + 0x4000) args envs v)" "P - stack_need args envs \<le> z" "z mod 16 = 0"
    "\<forall>a. a < z \<or> P \<le> a \<longrightarrow> m' a = m a" "x \<le> P"
proof -
  let ?x1 = "P - str_size envs" and ?x2 = "P - str_size envs - str_size args"
  let ?n = "length args + length envs"
  have need: "str_size args + str_size envs + 8 * length args + 8 * length envs + 128 \<le> P"
    using P(2) by (simp add: stack_need_def algebra_simps)
  obtain m1 where m1: "push_strings envs (dm P) m = (dm ?x1, m1)" "strings_below m1 P envs"
      "\<forall>a. a < ?x1 \<or> P \<le> a \<longrightarrow> m1 a = m a"
    using push_strings_ok [of envs P m] P need by auto
  obtain m2 where m2: "push_strings args (dm ?x1) m1 = (dm ?x2, m2)" "strings_below m2 ?x1 args"
      "\<forall>a. a < ?x2 \<or> ?x1 \<le> a \<longrightarrow> m2 a = m1 a"
  proof -
    have "str_size args \<le> ?x1" "?x1 < 18446744073709551616"
      using P need by auto
    from push_strings_ok [OF this, of m1] that show thesis by blast
  qed
  define x where "x = ?x2 - ?x2 mod 16"
  have x: "x \<le> ?x2" "?x2 - 15 \<le> x" "x mod 16 = 0"
    using mod_less_divisor [of 16 ?x2] by (auto simp: x_def minus_mod_eq_mult_div intro: diff_le_mono2)
  have al: "dm ?x2 - (dm ?x2 AND 0xF) = dm x"
    unfolding dm_low4 x_def by (rule dm_minus) simp
  define z0 where "z0 = (if odd (?n + 1) then x - 8 else x)"
  have z0: "z0 \<le> x" "x - 8 \<le> z0" "8 * ?n + 104 \<le> z0" "z0 < 18446744073709551616"
    using x need P(1) by (auto simp: z0_def)
  define z where "z = z0 - (8 * ?n + 104)"
  define g where "g = z + 8"
  define e where "e = g + 8 * length args + 8"
  define q where "q = e + 8 * length envs + 8"
  have q: "z0 = q + 80"
    using z0(3) by (simp add: q_def e_def g_def z_def)
  have eq: "g = z + 8" "e = g + 8 * length args + 8" "q = e + 8 * length envs + 8"
    by (simp_all add: g_def e_def q_def)
  have "8 \<le> x"
    using x(2) need by linarith
  then have E0: "(if odd (length args + length envs + 1) then dm x - 8 else dm x) = dm (q + 80)"
    unfolding q [symmetric] by (simp add: z0_def dm_minus_num)
  have E: "dm (q + 80) - 8 = dm (q + 72)" "dm (q + 72) - 8 = dm (q + 64)" "dm (q + 64) - 16 = dm (q + 48)"
      "dm (q + 48) - 16 = dm (q + 32)" "dm (q + 32) - 16 = dm (q + 16)" "dm (q + 16) - 16 = dm q"
      "dm q - 8 = dm (e + 8 * length envs)" "dm e - 8 = dm (g + 8 * length args)" "dm g - 8 = dm z"
    by (auto intro!: dm_sub simp: eq)
  have F: "dm (e + 8 * length envs) - of_nat (8 * length envs) = dm e"
      "dm (g + 8 * length args) - of_nat (8 * length args) = dm g"
      "dm (q + 48) + 8 = dm (q + 56)" "dm (q + 32) + 8 = dm (q + 40)"
      "dm (q + 16) + 8 = dm (q + 24)" "dm q + 8 = dm (q + 8)"
    by (auto intro!: dm_add8 simp: dm_minus simp del: of_nat_mult)
  have W: "put64 (dm a) w n = write64 n a w" if "a \<le> q + 80" for a w n
    using that z0(4) q by (intro put64_dm) simp
  have V: "put64 (dm (q + 72)) w n = write64 n (q + 72) w" "put64 (dm (q + 64)) w n = write64 n (q + 64) w"
      "put64 (dm (q + 56)) w n = write64 n (q + 56) w" "put64 (dm (q + 48)) w n = write64 n (q + 48) w"
      "put64 (dm (q + 40)) w n = write64 n (q + 40) w" "put64 (dm (q + 32)) w n = write64 n (q + 32) w"
      "put64 (dm (q + 24)) w n = write64 n (q + 24) w" "put64 (dm (q + 16)) w n = write64 n (q + 16) w"
      "put64 (dm (q + 8)) w n = write64 n (q + 8) w" "put64 (dm q) w n = write64 n q w"
      "put64 (dm (e + 8 * length envs)) w n = write64 n (e + 8 * length envs) w"
      "put64 (dm (g + 8 * length args)) w n = write64 n (g + 8 * length args) w"
      "put64 (dm z) w n = write64 n z w" for w n
    by (auto intro!: W simp: eq)
  have s0: "stk m2 m2 (q + 80) x []"
    using z0(1) q by (intro stk_start) simp
  have step: "stk m2 n (a + 8) x V \<Longrightarrow> stk m2 (write64 n a w) a x (w # V)" for n a V w
    using stk_push [of m2 n "a + 8" x V w] by simp
  have step2: "stk m2 n (a + 16) x V \<Longrightarrow> stk m2 (write64 (write64 n a w) (a + 8) u) a x (w # u # V)" for n a V w u
    using stk_push2 [of m2 n "a + 16" x V w u] by (simp add: add.commute)
  define m7 where "m7 = write64 (write64 (write64 (write64 (write64 (write64 (write64 (write64 (write64
    (write64 (write64 m2 (q + 72) 0) (q + 64) 0) (q + 48) 9) (q + 56) (ev_entry v)) (q + 32) 3) (q + 40) (phdr v))
    (q + 16) 4) (q + 24) (phent v)) q 5) (q + 8) (phnum v)) (e + 8 * length envs) 0"
  have "stk m2 (write64 (write64 m2 (q + 72) 0) (q + 64) 0) (q + 64) x [0, 0]"
    using step [of _ "q + 64"] step [of _ "q + 72"] s0 by (simp add: add.assoc)
  then have "stk m2 (write64 (write64 (write64 (write64 m2 (q + 72) 0) (q + 64) 0) (q + 48) 9) (q + 56) (ev_entry v))
      (q + 48) x [9, ev_entry v, 0, 0]"
    using step2 [of _ "q + 48"] by (simp add: add.assoc)
  note step2 [of _ "q + 32", simplified add.assoc, simplified, OF this, of 3 "phdr v"]
  note step2 [of _ "q + 16", simplified add.assoc, simplified, OF this, of 4 "phent v"]
  note step2 [of _ q, OF this, of 5 "phnum v"]
  then have s7: "stk m2 m7 (e + 8 * length envs) x (0 # aux_words v)"
    using step [of _ "e + 8 * length envs"] unfolding m7_def aux_words_def q_def [symmetric] by blast
  obtain m8 where m8: "put_pointers envs (dm e) (sb + 0x4000) m7 = (sb + 0x4000 - of_nat (str_size envs), m8)"
      "stk m2 m8 e x (ptrs envs (sb + 0x4000) @ 0 # aux_words v)"
    using put_pointers_ok [OF s7, of "sb + 0x4000"] z0(4) q by (auto simp: q_def)
  have "stk m2 (write64 m8 (g + 8 * length args) 0) (g + 8 * length args) x
      (0 # ptrs envs (sb + 0x4000) @ 0 # aux_words v)"
    using step m8(2) unfolding e_def by blast
  from put_pointers_ok [OF this, of "sb + 0x4000 - of_nat (str_size envs)"] z0(4) q
  obtain m10 where m10: "put_pointers args (dm g) (sb + 0x4000 - of_nat (str_size envs))
        (write64 m8 (g + 8 * length args) 0) = (sb + 0x4000 - of_nat (str_size envs) - of_nat (str_size args), m10)"
      "stk m2 m10 g x (ptrs args (sb + 0x4000 - of_nat (str_size envs)) @ 0 # ptrs envs (sb + 0x4000) @ 0 # aux_words v)"
    by (auto simp: q_def e_def)
  let ?m' = "write64 m10 z (of_nat (length args))"
  have s11: "stk m2 ?m' z x (stack_words (sb + 0x4000) args envs v)"
    using step m10(2) unfolding g_def stack_words_def by blast
  have run: "exec_stack (dm P) sb args envs v m = (dm z, ?m')"
    unfolding exec_stack_def m1(1) m2(1) Let_def prod.case al E0 E F V m7_def [symmetric] m8(1) m10(1) ..
  have same: "?m' a = m2 a" if "a < z \<or> x \<le> a" for a
    using that s11 by (auto simp: stk_def)
  show thesis
  proof (rule that [OF run _ _ s11])
    show "strings_below ?m' P envs"
    proof (rule strings_below_cong [OF _ _ m1(2)])
      show "?m' a = m1 a" if "P - str_size envs \<le> a" for a
      proof -
        have "x \<le> a"
          using that x(1) by linarith
        then show ?thesis
          using same m2(3) that by metis
      qed
    qed (use need in linarith)
    show "strings_below ?m' ?x1 args"
    proof (rule strings_below_cong [OF _ _ m2(2)])
      show "?m' a = m2 a" if "?x1 - str_size args \<le> a" for a
        using same x(1) that le_trans by metis
    qed (use need in linarith)
    show "P - stack_need args envs \<le> z"
      using z0 x(2) need by (simp add: z_def stack_need_def)
    have "x = z + 16 * (?n div 2 + 7)"
      using q z0(3) \<open>8 \<le> x\<close> unfolding z0_def eq by (cases "even ?n") (auto elim!: evenE oddE)
    then show "z mod 16 = 0"
      using x(3) by (metis mod_mult_self2)
    show "\<forall>a. a < z \<or> P \<le> a \<longrightarrow> ?m' a = m a"
    proof (intro allI impI)
      fix a
      assume a: "a < z \<or> P \<le> a"
      then have "a < ?x2 \<or> P \<le> a" "a < z \<or> x \<le> a"
        using z0(1) x(1) q eq by auto
      then show "?m' a = m a"
        using same [of a] m2(3) m1(3) by auto
    qed
    show "x \<le> P"
      using x(1) by simp
  qed
qed


lemma stk_words:
  assumes "stk m0 m z x (stack_words (sb + 0x4000) args envs v)"
  shows "read64 m z = of_nat (length args)"
    "i < length args \<Longrightarrow> read64 m (z + 8 + 8 * i) = ptrs args (sb + 0x4000 - of_nat (str_size envs)) ! i"
    "read64 m (z + 8 + 8 * length args) = 0"
    "j < length envs \<Longrightarrow> read64 m (z + 16 + 8 * length args + 8 * j) = ptrs envs (sb + 0x4000) ! j"
    "read64 m (z + 16 + 8 * length args + 8 * length envs) = 0"
proof -
  let ?W = "stack_words (sb + 0x4000) args envs v"
  have r: "read64 m (z + 8 * k) = ?W ! k" if "k < length args + length envs + 13" for k
    using assms that by (simp add: stk_def stack_words_def aux_words_def)
  show "read64 m z = of_nat (length args)"
    using r [of 0] by (simp add: stack_words_def)
  show "read64 m (z + 8 + 8 * i) = ptrs args (sb + 0x4000 - of_nat (str_size envs)) ! i" if "i < length args"
    using r [of "Suc i"] that by (simp add: stack_words_def nth_append add.assoc)
  show "read64 m (z + 8 + 8 * length args) = 0"
    using r [of "Suc (length args)"] by (simp add: stack_words_def nth_append add.assoc)
  show "read64 m (z + 16 + 8 * length args + 8 * j) = ptrs envs (sb + 0x4000) ! j" if "j < length envs"
    using r [of "Suc (Suc (length args + j))"] that
    by (simp add: stack_words_def nth_append add.assoc Suc_diff_le algebra_simps)
  show "read64 m (z + 16 + 8 * length args + 8 * length envs) = 0"
    using r [of "Suc (Suc (length args + length envs))"]
    by (simp add: stack_words_def nth_append add.assoc Suc_diff_le algebra_simps)
qed

lemma ptr_string:
  assumes "strings_below m y ss" "i < length ss" "y + o' = pb + 0x4000" "o' + str_size ss \<le> 0x4000"
  shows "\<exists>x<0x4000. ptrs ss (sb + 0x4000 - of_nat o') ! i = sb + of_nat x \<and>
           bytes_at m (pb + x) (length (ss ! i) + 1) = ss ! i @ [0]"
proof -
  let ?n = "str_size (take (Suc i) ss)"
  let ?x = "0x4000 - o' - ?n"
  have n: "?n \<le> str_size ss" "0 < ?n"
    using assms(2) str_size_take [of "Suc i" ss] by (cases ss; simp)+
  have "of_nat ?x = (0x4000 - of_nat o' - of_nat ?n :: u64)"
    using n assms(4) by (simp add: of_nat_diff)
  then have "ptrs ss (sb + 0x4000 - of_nat o') ! i = sb + of_nat ?x"
    by (simp add: ptrs_nth [OF assms(2)])
  moreover have "y - ?n = pb + ?x"
    using n assms(3,4) by simp
  ultimately show ?thesis
    using strings_below_nth [OF assms(1,2)] n by (intro exI [of _ ?x]) auto
qed

text \<open>
  C18. The initial stack of a program. For a 16-byte aligned block of four pages at physical address
  pb that is mapped at the user address sb, and arguments and environment that fit the block,
  the stack builder of thread.c returns a 16-byte aligned stack pointer inside the block such that
  the words from there on are argc, argv with its NULL and envp with its NULL; every argv and envp entry is a user
  address inside the mapped block at which the corresponding string lies with its terminating zero;
  and no byte outside the block changes.
\<close>

theorem exec_stack_layout:
  assumes "pb mod 16 = 0" "pb + 0x4000 < 2 ^ 64" "stack_need args envs \<le> 0x4000"
  shows "\<exists>z m'. exec_stack (dm (pb + 0x4000)) sb args envs v m = (dm z, m') \<and>
    pb \<le> z \<and> z < pb + 0x4000 \<and> z mod 16 = 0 \<and>
    read64 m' z = of_nat (length args) \<and>
    (\<forall>i<length args. \<exists>x<0x4000. read64 m' (z + 8 + 8 * i) = sb + of_nat x \<and>
       bytes_at m' (pb + x) (length (args ! i) + 1) = args ! i @ [0]) \<and>
    read64 m' (z + 8 + 8 * length args) = 0 \<and>
    (\<forall>i<length envs. \<exists>x<0x4000. read64 m' (z + 16 + 8 * length args + 8 * i) = sb + of_nat x \<and>
       bytes_at m' (pb + x) (length (envs ! i) + 1) = envs ! i @ [0]) \<and>
    read64 m' (z + 16 + 8 * length args + 8 * length envs) = 0 \<and>
    (\<forall>a. a < pb \<or> pb + 0x4000 \<le> a \<longrightarrow> m' a = m a)"
proof -
  let ?P = "pb + 0x4000"
  have sz: "str_size envs + str_size args \<le> 0x4000" "str_size envs \<le> 0x4000"
    using assms(3) by (simp_all add: stack_need_def)
  have "?P < 18446744073709551616" "stack_need args envs \<le> ?P" "?P mod 16 = 0"
    using assms by (simp, simp, presburger)
  then obtain x z m2 m' where r: "exec_stack (dm ?P) sb args envs v m = (dm z, m')"
      "strings_below m' ?P envs" "strings_below m' (?P - str_size envs) args"
      "stk m2 m' z x (stack_words (sb + 0x4000) args envs v)" "?P - stack_need args envs \<le> z" "z mod 16 = 0"
      "\<forall>a. a < z \<or> ?P \<le> a \<longrightarrow> m' a = m a" "x \<le> ?P"
    by (rule exec_stack_words)
  have z: "pb \<le> z" "z < ?P"
    using r(4,5,8) assms(3) by (auto simp: stk_def stack_words_def)
  have args: "\<exists>x<0x4000. ptrs args (sb + 0x4000 - of_nat (str_size envs)) ! i = sb + of_nat x \<and>
      bytes_at m' (pb + x) (length (args ! i) + 1) = args ! i @ [0]" if "i < length args" for i
    using ptr_string [OF r(3) that _ sz(1)] sz(2) by simp
  have envs: "\<exists>x<0x4000. ptrs envs (sb + 0x4000) ! i = sb + of_nat x \<and>
      bytes_at m' (pb + x) (length (envs ! i) + 1) = envs ! i @ [0]" if "i < length envs" for i
    using ptr_string [OF r(2) that, of 0] sz(2) by simp
  show ?thesis
    by (rule exI [of _ z], rule exI [of _ m']) (use r z args envs stk_words [OF r(4)] in auto)
qed

theorem exec_stack_layout_witness:
  "stack_need [[0x61, 0x62]] [[0x63]] \<le> 0x4000 \<and>
   (\<exists>z m'. exec_stack (dm (0x8000 + 0x4000)) 0x7000 [[0x61, 0x62]] [[0x63]] \<lparr>phdr = 0, phent = 0, phnum = 0, ev_entry = 0\<rparr> (\<lambda>_. 0) = (dm z, m') \<and>
      0x8000 \<le> z \<and> 16 dvd z \<and> read64 m' z = 1)"
  using exec_stack_layout [of "0x8000" "[[0x61, 0x62]]" "[[0x63]]" "0x7000" "\<lparr>phdr = 0, phent = 0, phnum = 0, ev_entry = 0\<rparr>" "\<lambda>_. 0"]
  by (simp add: stack_need_def) blast

end
