(* ===== verification/Scheduler.thy ===== *)
theory Scheduler
  imports Thread
begin

text \<open>
  The scheduler, \<^verbatim>\<open>kernel/tasking/scheduler.c\<close>, with the parts of \<^verbatim>\<open>cpu.asm\<close> it jumps to, and the timer,
  \<^verbatim>\<open>kernel/devices/timer.c\<close>, that drives it. A call of \<^verbatim>\<open>scheduler_schedule\<close> returns to the interrupted
  code, idles the processor, or resumes a thread; the outcome says which, with the registers and page
  table that are loaded.
\<close>

datatype sched_outcome = Returns | Idles | Resumes irq_regs_t "u64 option"

section \<open>Choosing the next task\<close>

definition poll_wait :: "u64 \<Rightarrow> nat \<Rightarrow> bool \<times> 'x tasks_scheme \<Rightarrow> (bool \<times> 'x tasks_scheme) exec" where
  "poll_wait thread i = (\<lambda>(wake, h).
     bindr (load (ts_threads h) thread) (\<lambda>T.
     bindr (arr_get (ts_arrays h) (event_pointer T) i) (\<lambda>e.
     bindr (load (ts_events h) e) (\<lambda>c.
       if locked_read c \<noteq> 0 then
         let h = h\<lparr>ts_events := (ts_events h)(e \<mapsto> snd (locked_dec c))\<rparr> in
         bindr (arr_set (ts_bools h) (out_event_pointer T) i True) (\<lambda>m. Inr (True, h\<lparr>ts_bools := m\<rparr>))
       else Inr (wake, h)))))"

text \<open>
  The body of the search for one thread that is not deleted: \<open>True\<close> when it is chosen, with its lock
  taken.
\<close>

definition try_task :: "u64 \<Rightarrow> 'x tasks_scheme \<Rightarrow> (bool \<times> 'x tasks_scheme) exec" where
  "try_task thread h =
     bindr (load (ts_threads h) thread) (\<lambda>T.
     if yield_target T > TimerCounter h then Inr (False, h)
     else if \<not> t_lock T then Inr (False, h)
     else
       bindr (upd_thread thread (\<lambda>T. T\<lparr>t_lock := False\<rparr>) h) (\<lambda>h.
       if event_pointer T \<noteq> 0 \<and> event_abort T = 0 then
         bindr (for_exec 0 (unat (event_count T)) (poll_wait thread) (False, h)) (\<lambda>(wake, h).
         bindr (load (ts_threads h) thread) (\<lambda>T.
         if event_timeout T \<le> TimerCounter h \<and> event_timeout T \<noteq> 0 \<and> \<not> wake then
           bindr (upd_thread thread (\<lambda>T. T\<lparr>event_pointer := 0, event_timeout := 0\<rparr>) h) (\<lambda>h. Inr (True, h))
         else if wake then
           bindr (upd_thread thread (\<lambda>T. T\<lparr>event_pointer := 0\<rparr>) h) (\<lambda>h. Inr (True, h))
         else
           bindr (upd_thread thread (\<lambda>T. T\<lparr>t_lock := UNLOCKED\<rparr>) h) (\<lambda>h. Inr (False, h))))
       else Inr (True, h)))"

definition next_index :: "u64 \<Rightarrow> u64" where
  "next_index currentTask = (if currentTask + 1 = 512 then 0 else currentTask + 1)"

partial_function (option) next_task_loop ::
    "u64 \<Rightarrow> u64 \<Rightarrow> 'x tasks_scheme \<Rightarrow> (u64 \<times> 'x tasks_scheme) exec option" where
  "next_task_loop currentTask i h =
     (if i < TotalActiveTasks h then
        case elem (ActiveTasks h) (unat currentTask) of
          Inl e \<Rightarrow> Some (Inl e)
        | Inr thread \<Rightarrow>
            (let currentTask = (if thread = 0 then 0 else currentTask);
                 thread = (if thread = 0 then ActiveTasks h ! 0 else thread)
             in if thread = 0 then Some (Inr (0, h))
             else if thread = -1 then next_task_loop (next_index currentTask) i h
             else case try_task thread h of
                 Inl e \<Rightarrow> Some (Inl e)
               | Inr r \<Rightarrow> (if fst r then Some (Inr (thread, snd r))
                   else next_task_loop (next_index currentTask) (i + 1) (snd r)))
      else Some (Inr (0, h)))"

definition scheduler_get_next_task :: "u64 \<Rightarrow> 'x tasks_scheme \<Rightarrow> (u64 \<times> 'x tasks_scheme) exec" where
  "scheduler_get_next_task currentTask h = run_loop (next_task_loop (currentTask + 1) 0 h)"

section \<open>Switching\<close>

definition upd_cpu :: "nat \<Rightarrow> (cpu_t \<Rightarrow> cpu_t) \<Rightarrow> 'x tasks_scheme \<Rightarrow> 'x tasks_scheme exec" where
  "upd_cpu cpu f h = bindr (elem (CPULocals h) cpu) (\<lambda>c. Inr (h\<lparr>CPULocals := (CPULocals h)[cpu := f c]\<rparr>))"

definition release_all :: "'x tasks_scheme \<Rightarrow> 'x tasks_scheme" where
  "release_all h = h\<lparr>SecondSchedulerLock := UNLOCKED, SchedulerLock := UNLOCKED, ReSchedulerLock := UNLOCKED\<rparr>"

definition scheduler_idle_halt :: "nat \<Rightarrow> 'x tasks_scheme \<Rightarrow> (sched_outcome \<times> 'x tasks_scheme) exec" where
  "scheduler_idle_halt cpu h =
     bindr (upd_cpu cpu (\<lambda>c. c\<lparr>currentTaskID := -1, currentPid := -1, currentTid := -1\<rparr>) h) (\<lambda>h.
       Inr (Idles, release_all h))"

definition scheduler_idle :: "nat \<Rightarrow> 'x tasks_scheme \<Rightarrow> (sched_outcome \<times> 'x tasks_scheme) exec" where
  "scheduler_idle cpu h =
     bindr (load (vm_pts h) (KernelPml4 h)) (\<lambda>P. scheduler_idle_halt cpu (h\<lparr>vm_cr3 := pt_entries P\<rparr>))"

text \<open>\<^verbatim>\<open>save_simd\<close> is the effect of the processor's state-save instruction on memory.\<close>

definition save_current ::
    "(u64 \<Rightarrow> bytes \<Rightarrow> bytes) \<Rightarrow> cpu_t \<Rightarrow> irq_regs_t \<Rightarrow> 'x tasks_scheme \<Rightarrow> 'x tasks_scheme exec" where
  "save_current save_simd c regs h =
     (if currentTaskID c = -1 then Inr h
      else
        bindr (elem (ActiveTasks h) (unat (currentTaskID c))) (\<lambda>thread.
        if thread = 0 \<or> thread = -1 then Inr h
        else
          bindr (load (ts_threads h) thread) (\<lambda>T.
          upd_thread thread (\<lambda>T. T\<lparr>saved_regs := regs, cpu_number := -1,
              ustack_address := (if currentPid c \<noteq> 0 then threadUserStack c else ustack_address T),
              t_lock := UNLOCKED\<rparr>)
            (h\<lparr>lh_k := (lh_k h)\<lparr>km_mem := save_simd (fxstate T) (km_mem (lh_k h))\<rparr>\<rparr>))))"

definition process_of :: "u64 \<Rightarrow> 'x tasks_scheme \<Rightarrow> process_t exec" where
  "process_of pid h = bindr (elem (SchedulerProcesses h) (unat pid)) (load (ts_processes h))"

definition switch_to ::
    "nat \<Rightarrow> u64 \<Rightarrow> u64 \<Rightarrow> 'x tasks_scheme \<Rightarrow> (sched_outcome \<times> 'x tasks_scheme) exec" where
  "switch_to cpu oldPid nextTask h =
     bindr (load (ts_threads h) nextTask) (\<lambda>T.
     bindr (upd_cpu cpu (\<lambda>c. c\<lparr>currentPid := t_pid T, currentTid := t_tid T, currentTaskID := taskID T\<rparr>) h) (\<lambda>h.
     bindr (if t_pid T \<noteq> 0
            then bindr (upd_cpu cpu (\<lambda>c. c\<lparr>threadKernelStack := kstack_address T,
                           threadUserStack := ustack_address T\<rparr>) h) (\<lambda>h.
                   Inr (h\<lparr>ts_fs_base := (ts_fs_base h)(cpu := fs_base T)\<rparr>))
            else Inr h) (\<lambda>h.
     bindr (upd_thread nextTask (\<lambda>T. T\<lparr>cpu_number := of_nat cpu\<rparr>) h) (\<lambda>h.
     bindr (process_of (t_pid T) h) (\<lambda>P.
     bindr (if oldPid = -1 then Inr True
            else bindr (process_of oldPid h) (\<lambda>Q. Inr (page_table P \<noteq> page_table Q))) (\<lambda>reload.
     if reload then
       bindr (load (vm_pts h) (page_table P)) (\<lambda>pt.
         Inr (Resumes (saved_regs T) (Some (pt_entries pt)), release_all (h\<lparr>vm_cr3 := pt_entries pt\<rparr>)))
     else Inr (Resumes (saved_regs T) None, release_all h)))))))"

definition scheduler_schedule ::
    "(u64 \<Rightarrow> bytes \<Rightarrow> bytes) \<Rightarrow> nat \<Rightarrow> irq_regs_t \<Rightarrow> 'x tasks_scheme \<Rightarrow> (sched_outcome \<times> 'x tasks_scheme) exec" where
  "scheduler_schedule save_simd cpu regs h =
     bindr (spin_acquire_exec (ReSchedulerLock h)) (\<lambda>b.
     let h = h\<lparr>ReSchedulerLock := b\<rparr> in
     if \<not> SchedulerLock h then Inr (Returns, h\<lparr>ReSchedulerLock := UNLOCKED\<rparr>)
     else
       let h = h\<lparr>SchedulerLock := False\<rparr> in
       if \<not> SecondSchedulerLock h then
         Inr (Returns, h\<lparr>SchedulerLock := UNLOCKED, ReSchedulerLock := UNLOCKED\<rparr>)
       else
         let h = h\<lparr>SecondSchedulerLock := False\<rparr> in
         bindr (current_cpu cpu h) (\<lambda>c.
         bindr (save_current save_simd c regs h) (\<lambda>h.
         bindr (scheduler_get_next_task (currentTaskID c) h) (\<lambda>(nextTask, h).
         if nextTask = 0 then scheduler_idle cpu h
         else switch_to cpu (currentPid c) nextTask h))))"

definition lapic_write :: "u32 \<Rightarrow> u32 \<Rightarrow> 'x tasks_scheme \<Rightarrow> 'x tasks_scheme" where
  "lapic_write reg val h = h\<lparr>ts_lapic := ts_lapic h @ [(reg, val)]\<rparr>"

definition smp_resched ::
    "(u64 \<Rightarrow> bytes \<Rightarrow> bytes) \<Rightarrow> nat \<Rightarrow> irq_regs_t \<Rightarrow> 'x tasks_scheme \<Rightarrow> (sched_outcome \<times> 'x tasks_scheme) exec" where
  "smp_resched save_simd cpu regs h = scheduler_schedule save_simd cpu regs (lapic_write 0xB0 0 h)"

fun send_ipis :: "cpu_t list \<Rightarrow> 'x tasks_scheme \<Rightarrow> 'x tasks_scheme" where
  "send_ipis [] h = h"
| "send_ipis (c # cs) h =
     (if currentCpu c = -1 then h
      else send_ipis cs (lapic_write 0x300 0x40 (lapic_write 0x310 (ucast (push_bit 24 (lapicID c))) h)))"

definition scheduler_schedule_smp ::
    "(u64 \<Rightarrow> bytes \<Rightarrow> bytes) \<Rightarrow> nat \<Rightarrow> irq_regs_t \<Rightarrow> 'x tasks_scheme \<Rightarrow> (sched_outcome \<times> 'x tasks_scheme) exec" where
  "scheduler_schedule_smp save_simd cpu regs h =
     scheduler_schedule save_simd cpu regs (send_ipis (drop 1 (CPULocals h)) (lapic_write 0xB0 0 h))"

section \<open>Adding tasks and giving up the processor\<close>

definition scheduler_add_task :: "u64 \<Rightarrow> u64 \<Rightarrow> 'x tasks_scheme \<Rightarrow> (u64 \<times> 'x tasks_scheme) exec" where
  "scheduler_add_task pid tid h =
     bindr (elem (SchedulerProcesses h) (unat pid)) (\<lambda>process.
     if process = 0 then Inr (-1, h)
     else
       bindr (load (ts_processes h) process) (\<lambda>P.
       bindr (spin_acquire_exec (p_lock P)) (\<lambda>b.
       bindr (arr_get (ts_arrays h) (p_threads P) (unat tid)) (\<lambda>thread.
       if thread = 0 then Inr (-1, h)
       else
         bindr (load (ts_threads h) thread) (\<lambda>T.
         if taskID T \<noteq> -1 then Inr (-1, h)
         else
           bindr (spin_acquire_exec (ReSchedulerLock h)) (\<lambda>_.
           let slot = find_slot (\<lambda>t. t = 0 \<or> t = -1) (ActiveTasks h) in
           if slot < length (ActiveTasks h) then
             bindr (upd_thread thread (\<lambda>T. T\<lparr>taskID := of_nat slot\<rparr>) h) (\<lambda>h.
               Inr (of_nat slot, h\<lparr>ActiveTasks := (ActiveTasks h)[slot := thread],
                                   TotalActiveTasks := TotalActiveTasks h + 1\<rparr>))
           else Inr (-1, h)))))))"

text \<open>\<^verbatim>\<open>force_reschedule\<close> releases the scheduler lock and calls the scheduler until it switches.\<close>

definition yield ::
    "('x tasks_scheme \<Rightarrow> 'x tasks_scheme exec) \<Rightarrow> 'x tasks_scheme \<Rightarrow> 'x tasks_scheme exec" where
  "yield resched h = bindr (spin_acquire_exec (SchedulerLock h)) (\<lambda>_. resched h)"

definition thread_sleep ::
    "('x tasks_scheme \<Rightarrow> 'x tasks_scheme exec) \<Rightarrow> nat \<Rightarrow> u64 \<Rightarrow> 'x tasks_scheme \<Rightarrow> 'x tasks_scheme exec" where
  "thread_sleep resched cpu ms h =
     bindr (spin_acquire_exec (SchedulerLock h)) (\<lambda>_.
     let yieldTarget = (ucast (TimerCounter h + (ms * 1000) div 1000) :: u32) in
     bindr (current_thread cpu h) (\<lambda>currentThread.
     bindr (upd_thread currentThread (\<lambda>T. T\<lparr>yield_target := ucast yieldTarget\<rparr>) h) resched))"

definition scheduler_get_current_pid :: "nat \<Rightarrow> 'x tasks_scheme \<Rightarrow> u64 exec" where
  "scheduler_get_current_pid cpu h =
     bindr (spin_acquire_exec (SchedulerLock h)) (\<lambda>_.
     bindr (current_cpu cpu h) (\<lambda>c. Inr (currentPid c)))"

section \<open>Initialisation\<close>

definition scheduler_init ::
    "(u64 \<Rightarrow> bytes \<Rightarrow> bytes) \<Rightarrow> u64 \<Rightarrow> 'x tasks_scheme \<Rightarrow> 'x tasks_scheme exec" where
  "scheduler_init save_simd first_task h =
     bindr (kmalloc (CpuSimdRegionSize h) (lh_k h)) (\<lambda>(fx, k).
     if fx = 0 then Inl NullDeref
     else
       let h = h\<lparr>lh_k := k\<lparr>km_mem := save_simd fx (km_mem k)\<rparr>, DefaultFxstate := fx,
                 SchedulerProcesses := replicate MAX_PROCESSES 0, ActiveTasks := replicate (MAX_THREADS * 2) 0\<rparr>
       in bindr (process_create (KernelPml4 h) h) (\<lambda>(_, h).
          bindr (thread_create 0 (EntryData first_task 0) h) (\<lambda>(tid, h).
          bindr (scheduler_add_task 0 tid h) (\<lambda>(_, h).
            Inr (h\<lparr>SchedulerRunning := True\<rparr>)))))"

section \<open>What the search changes\<close>

text \<open>
  \<open>same_tasks\<close>: only thread fields other than the identity and the lock, event counters and wait flags
  differ.
\<close>

definition same_tasks :: "'x tasks_scheme \<Rightarrow> 'x tasks_scheme \<Rightarrow> bool" where
  "same_tasks h h' \<longleftrightarrow> ActiveTasks h' = ActiveTasks h \<and> CPULocals h' = CPULocals h \<and>
     (\<forall>p. map_option (\<lambda>T. (taskID T, t_lock T)) (ts_threads h' p) =
           map_option (\<lambda>T. (taskID T, t_lock T)) (ts_threads h p))"

text \<open>\<open>locks h p h'\<close>: the same, except that the lock of thread \<open>p\<close> went from free to taken.\<close>

definition locks :: "'x tasks_scheme \<Rightarrow> u64 \<Rightarrow> 'x tasks_scheme \<Rightarrow> bool" where
  "locks h p h' \<longleftrightarrow> ActiveTasks h' = ActiveTasks h \<and> CPULocals h' = CPULocals h \<and>
     (\<exists>T. ts_threads h p = Some T \<and> t_lock T) \<and>
     (\<forall>q. map_option (\<lambda>T. (taskID T, t_lock T)) (ts_threads h' q) =
           map_option (\<lambda>T. (taskID T, t_lock T \<and> q \<noteq> p)) (ts_threads h q))"

lemma same_tasks_refl [simp]: "same_tasks h h"
  by (simp add: same_tasks_def)

lemma same_tasks_trans: "same_tasks h h' \<Longrightarrow> same_tasks h' h'' \<Longrightarrow> same_tasks h h''"
  by (simp add: same_tasks_def)

lemma same_tasks_locks: "same_tasks h h' \<Longrightarrow> locks h' p h'' \<Longrightarrow> locks h p h''"
proof -
  assume a: "same_tasks h h'" "locks h' p h''"
  have t: "map_option (\<lambda>T. (taskID T, t_lock T)) (ts_threads h' q) =
      map_option (\<lambda>T. (taskID T, t_lock T)) (ts_threads h q)" for q
    using a(1) by (simp add: same_tasks_def)
  have u: "map_option (\<lambda>T. (taskID T, t_lock T \<and> q \<noteq> p)) (ts_threads h' q) =
      map_option (\<lambda>T. (taskID T, t_lock T \<and> q \<noteq> p)) (ts_threads h q)" for q
    using t [of q] by (cases "ts_threads h q"; cases "ts_threads h' q") auto
  have "\<exists>T. ts_threads h p = Some T \<and> t_lock T"
    using a(2) t [of p] by (cases "ts_threads h p") (auto simp: locks_def)
  with a u show ?thesis
    by (simp add: locks_def same_tasks_def)
qed

lemma locks_same_tasks: "locks h p h' \<Longrightarrow> same_tasks h' h'' \<Longrightarrow> locks h p h''"
  by (simp add: locks_def same_tasks_def)

lemma upd_thread_same:
  assumes "upd_thread t f h = Inr h'" "\<And>T. taskID (f T) = taskID T \<and> t_lock (f T) = t_lock T"
  shows "same_tasks h h'"
  using assms by (auto simp: upd_thread_def modify_def same_tasks_def load_eq_Inr)

lemma poll_wait_same:
  assumes "poll_wait t i (w, h) = Inr (w', h')"
  shows "same_tasks h h' \<and> ts_threads h' = ts_threads h \<and> TimerCounter h' = TimerCounter h \<and> (w \<longrightarrow> w') \<and> (\<not> w' \<longrightarrow> h' = h)"
  using assms by (auto simp: poll_wait_def same_tasks_def Let_def split: if_splits)

lemma poll_waits_same:
  assumes "for_exec i n (poll_wait t) (w, h) = Inr (w', h')"
  shows "same_tasks h h' \<and> ts_threads h' = ts_threads h \<and> TimerCounter h' = TimerCounter h \<and> (\<not> w' \<longrightarrow> h' = h)"
proof -
  have "case (w', h') of (w', h') \<Rightarrow> same_tasks h h' \<and> ts_threads h' = ts_threads h \<and>
      TimerCounter h' = TimerCounter h \<and> (w \<longrightarrow> w') \<and> (\<not> w' \<longrightarrow> h' = h)"
    by (rule for_exec_invariant [OF assms, where P = "\<lambda>_ (w', h'). same_tasks h h' \<and>
          ts_threads h' = ts_threads h \<and> TimerCounter h' = TimerCounter h \<and> (w \<longrightarrow> w') \<and> (\<not> w' \<longrightarrow> h' = h)"])
      (auto dest!: poll_wait_same dest: same_tasks_trans)
  then show ?thesis by simp
qed

lemma try_task_cases:
  assumes "try_task t h = Inr (b, h')"
  shows "if b then locks h t h' \<and> (\<exists>T. ts_threads h t = Some T \<and> yield_target T \<le> TimerCounter h) else h' = h"
proof -
  from assms obtain T where T: "t \<noteq> 0" "ts_threads h t = Some T"
    by (auto simp: try_task_def load_eq_Inr)
  define h1 where "h1 = h\<lparr>ts_threads := (ts_threads h)(t \<mapsto> T\<lparr>t_lock := False\<rparr>)\<rparr>"
  show ?thesis
  proof (cases "yield_target T > TimerCounter h \<or> \<not> t_lock T")
    case True
    then have "b = False" "h' = h"
      using assms T by (auto simp: try_task_def split: if_splits)
    then show ?thesis by simp
  next
    case False
    have l: "locks h t h1"
      using False T by (auto simp: locks_def h1_def)
    have u: "upd_thread t (\<lambda>T. T\<lparr>t_lock := False\<rparr>) h = Inr h1"
      using T by (simp add: upd_thread_def h1_def)
    show ?thesis
    proof (cases "event_pointer T \<noteq> 0 \<and> event_abort T = 0")
      case no: False
      then show ?thesis
        using assms False T u l by (auto simp: try_task_def)
    next
      case True
      with assms False T u obtain w h2 where
        p: "for_exec 0 (unat (event_count T)) (poll_wait t) (False, h1) = Inr (w, h2)"
        by (auto simp: try_task_def)
      note s = poll_waits_same [OF p]
      have T2: "ts_threads h2 t = Some (T\<lparr>t_lock := False\<rparr>)"
        using s by (simp add: h1_def)
      show ?thesis
      proof (cases "w \<or> (event_timeout T \<le> TimerCounter h2 \<and> event_timeout T \<noteq> 0)")
        case True2: True
        then have b: "b" and "same_tasks h2 h'"
          using assms False T True u p T2 by (auto simp: try_task_def split: if_splits elim!: upd_thread_same)
        with s l b False T show ?thesis
          by (auto intro: locks_same_tasks)
      next
        case wait: False
        then have "h2 = h1" using s by simp
        moreover have "(ts_threads h)(t \<mapsto> T) = ts_threads h" "T\<lparr>t_lock := True\<rparr> = T"
          using False T by (auto intro: thread_t.equality)
        then have "upd_thread t (\<lambda>T. T\<lparr>t_lock := True\<rparr>) h1 = Inr h"
          using T by (simp add: upd_thread_def h1_def)
        ultimately show ?thesis
          using assms False T True u p T2 wait by (auto simp: try_task_def)
      qed
    qed
  qed
qed

definition chosen :: "'x tasks_scheme \<Rightarrow> u64 \<Rightarrow> 'x tasks_scheme \<Rightarrow> bool" where
  "chosen h n h' \<longleftrightarrow> n \<noteq> 0 \<and> n \<noteq> -1 \<and> n \<in> set (ActiveTasks h) \<and> locks h n h' \<and>
     (\<exists>T. ts_threads h n = Some T \<and> yield_target T \<le> TimerCounter h)"

lemma next_task_loop_result:
  assumes "next_task_loop c i h = Some (Inr (n, h'))"
  shows "if n = 0 then h' = h else chosen h n h'"
proof -
  have "\<forall>n h'. r = Inr (n, h') \<longrightarrow> (if n = 0 then h' = h else chosen h n h')"
    if "next_task_loop c i h = Some r" for r
  proof (rule next_task_loop.raw_induct [OF _ that])
    fix f c i h r
    assume IH: "\<And>c i h r. f c i h = Some r \<Longrightarrow> \<forall>n h'. r = Inr (n, h') \<longrightarrow> (if n = 0 then h' = h else chosen h n h')"
      and r: "(if i < TotalActiveTasks h then
        case elem (ActiveTasks h) (unat c) of
          Inl e \<Rightarrow> Some (Inl e)
        | Inr thread \<Rightarrow>
            (let currentTask = (if thread = 0 then 0 else c);
                 thread = (if thread = 0 then ActiveTasks h ! 0 else thread)
             in if thread = 0 then Some (Inr (0, h))
             else if thread = -1 then f (next_index currentTask) i h
             else case try_task thread h of
                 Inl e \<Rightarrow> Some (Inl e)
               | Inr r \<Rightarrow> (if fst r then Some (Inr (thread, snd r))
                   else f (next_index currentTask) (i + 1) (snd r)))
      else Some (Inr (0, h))) = Some r"
    show "\<forall>n h'. r = Inr (n, h') \<longrightarrow> (if n = 0 then h' = h else chosen h n h')"
    proof (intro allI impI)
      fix n h'
      assume "r = Inr (n, h')"
      define t where "t = (if ActiveTasks h ! unat c = 0 then ActiveTasks h ! 0 else ActiveTasks h ! unat c)"
      define c' where "c' = next_index (if ActiveTasks h ! unat c = 0 then 0 else c)"
      consider "\<not> i < TotalActiveTasks h" | "i < TotalActiveTasks h" "\<not> unat c < length (ActiveTasks h)"
        | "i < TotalActiveTasks h" "unat c < length (ActiveTasks h)" "t = 0"
        | "i < TotalActiveTasks h" "unat c < length (ActiveTasks h)" "t = -1"
        | "i < TotalActiveTasks h" "unat c < length (ActiveTasks h)" "t \<noteq> 0" "t \<noteq> -1"
        by blast
      then consider "n = 0" "h' = h"
        | c' i' where "f c' i' h = Some r"
        | t where "t \<in> set (ActiveTasks h)" "t \<noteq> 0" "t \<noteq> -1" "try_task t h = Inr (True, h')" "n = t"
      proof cases
        case 5
        then have "0 < length (ActiveTasks h)" by linarith
        with 5 have in_set: "t \<in> set (ActiveTasks h)"
          by (simp add: t_def)
        have r': "(case try_task t h of Inl e \<Rightarrow> Some (Inl e)
            | Inr r \<Rightarrow> (if fst r then Some (Inr (t, snd r)) else f c' (i + 1) (snd r))) = Some r"
          unfolding c'_def using r 5 by (simp add: Let_def t_def [symmetric])
        show ?thesis
        proof (cases "try_task t h")
          case (Inl e)
          with r' \<open>r = Inr (n, h')\<close> show ?thesis by simp
        next
          case (Inr bh)
          obtain b h1 where bh: "bh = (b, h1)" by (cases bh)
          show ?thesis
          proof (cases b)
            case True
            then show ?thesis
              using r' Inr bh \<open>r = Inr (n, h')\<close> in_set 5 by (intro that(3) [of t]) simp_all
          next
            case False
            then have "h1 = h"
              using try_task_cases [of t h b h1] Inr bh by simp
            then show ?thesis
              using r' Inr bh False by (intro that(2) [of c' "i + 1"]) simp
          qed
        qed
      next
        case 4
        then have "f c' i h = Some r"
          using r by (simp add: Let_def t_def [symmetric] c'_def)
        then show ?thesis by (rule that(2))
      qed (use r \<open>r = Inr (n, h')\<close> that(1) in \<open>simp_all add: Let_def t_def [symmetric]\<close>)
      then show "if n = 0 then h' = h else chosen h n h'"
      proof cases
        case 2
        from IH [OF this] \<open>r = Inr (n, h')\<close> show ?thesis by blast
      next
        case 3
        with try_task_cases [OF 3(4)] show ?thesis by (simp add: chosen_def)
      qed simp
    qed
  qed
  with assms show ?thesis by blast
qed

section \<open>No thread runs on two processors\<close>

text \<open>
  The invariant: every task slot holds a thread that knows its slot, the thread of every processor
  that is not idle sits in its slot with its lock taken, and no two processors have the same task.
\<close>

definition is_task :: "'x tasks_scheme \<Rightarrow> nat \<Rightarrow> u64 \<Rightarrow> bool" where
  "is_task h i p \<longleftrightarrow> i < length (ActiveTasks h) \<and> ActiveTasks h ! i = p \<and> p \<noteq> 0 \<and> p \<noteq> -1"

definition runs :: "'x tasks_scheme \<Rightarrow> nat \<Rightarrow> nat \<Rightarrow> bool" where
  "runs h cpu i \<longleftrightarrow> cpu < length (CPULocals h) \<and> currentTaskID (CPULocals h ! cpu) \<noteq> -1 \<and>
     unat (currentTaskID (CPULocals h ! cpu)) = i"

definition sched_inv :: "'x tasks_scheme \<Rightarrow> bool" where
  "sched_inv h \<longleftrightarrow> length (ActiveTasks h) = 512 \<and>
     (\<forall>i p. is_task h i p \<longrightarrow> (\<exists>T. ts_threads h p = Some T \<and> taskID T = of_nat i)) \<and>
     (\<forall>cpu i. runs h cpu i \<longrightarrow> (\<exists>p T. is_task h i p \<and> ts_threads h p = Some T \<and> \<not> t_lock T)) \<and>
     (\<forall>a b i. runs h a i \<longrightarrow> runs h b i \<longrightarrow> a = b)"

lemma sched_invD:
  assumes "sched_inv h"
  shows "is_task h i p \<Longrightarrow> \<exists>T. ts_threads h p = Some T \<and> taskID T = of_nat i"
    "runs h cpu i \<Longrightarrow> \<exists>p T. is_task h i p \<and> ts_threads h p = Some T \<and> \<not> t_lock T"
    "runs h a i \<Longrightarrow> runs h b i \<Longrightarrow> a = b"
    "length (ActiveTasks h) = 512"
  using assms unfolding sched_inv_def by blast+

lemma is_task_inj:
  assumes "sched_inv h" "is_task h i p" "is_task h j p"
  shows "i = j"
proof -
  have "(of_nat i :: u64) = of_nat j" "i < 512" "j < 512"
    using sched_invD(1) [OF assms(1,2)] sched_invD(1) [OF assms(1,3)] sched_invD(4) [OF assms(1)] assms(2,3)
    by (auto simp: is_task_def)
  moreover have "unat (of_nat i :: u64) = i" "unat (of_nat j :: u64) = j"
    using \<open>i < 512\<close> \<open>j < 512\<close> by (simp_all add: unat_of_nat_u64)
  ultimately show ?thesis by metis
qed

text \<open>The invariant without the requirement for processor \<open>cpu\<close>, which is choosing a new task.\<close>

definition sched_inv_except :: "nat \<Rightarrow> 'x tasks_scheme \<Rightarrow> bool" where
  "sched_inv_except cpu h \<longleftrightarrow> length (ActiveTasks h) = 512 \<and>
     (\<forall>i p. is_task h i p \<longrightarrow> (\<exists>T. ts_threads h p = Some T \<and> taskID T = of_nat i)) \<and>
     (\<forall>a i. runs h a i \<longrightarrow> a \<noteq> cpu \<longrightarrow> (\<exists>p T. is_task h i p \<and> ts_threads h p = Some T \<and> \<not> t_lock T)) \<and>
     (\<forall>a b i. runs h a i \<longrightarrow> runs h b i \<longrightarrow> a \<noteq> cpu \<longrightarrow> b \<noteq> cpu \<longrightarrow> a = b)"

lemma save_current_except:
  assumes inv: "sched_inv h" and c: "cpu < length (CPULocals h)" "c = CPULocals h ! cpu"
    and s: "save_current sv c regs h = Inr h'"
  shows "sched_inv_except cpu h' \<and> CPULocals h' = CPULocals h \<and> ActiveTasks h' = ActiveTasks h"
proof (cases "currentTaskID c = -1")
  case True
  then show ?thesis
    using s inv unfolding sched_inv_def sched_inv_except_def by (auto simp: save_current_def)
next
  case False
  let ?i = "unat (currentTaskID c)"
  have r: "runs h cpu ?i"
    using c False by (simp add: runs_def)
  from sched_invD(2) [OF inv r] obtain p T where p: "is_task h ?i p" "ts_threads h p = Some T" "\<not> t_lock T"
    by blast
  obtain T' where T': "ts_threads h' = (ts_threads h)(p \<mapsto> T')" "taskID T' = taskID T"
      "CPULocals h' = CPULocals h" "ActiveTasks h' = ActiveTasks h"
    using s False p unfolding is_task_def by (auto simp: save_current_def upd_thread_def)
  have same: "is_task h' i q = is_task h i q" "runs h' a i = runs h a i" for i q a
    by (simp_all add: is_task_def runs_def T')
  have "\<exists>q T. is_task h i q \<and> ts_threads h' q = Some T \<and> \<not> t_lock T" if "runs h a i" "a \<noteq> cpu" for a i
  proof -
    from sched_invD(2) [OF inv that(1)] obtain q U where q: "is_task h i q" "ts_threads h q = Some U" "\<not> t_lock U"
      by blast
    have "q \<noteq> p"
      using is_task_inj [OF inv q(1)] p(1) sched_invD(3) [OF inv that(1)] r that(2) by blast
    with q show ?thesis by (auto simp: T'(1))
  qed
  moreover have "\<exists>U. ts_threads h' q = Some U \<and> taskID U = of_nat i" if "is_task h i q" for i q
    using sched_invD(1) [OF inv that] p(2) T' by auto
  ultimately show ?thesis
    using sched_invD(3,4) [OF inv] T' unfolding sched_inv_except_def same by auto
qed

lemma chosen_except:
  assumes "sched_inv_except cpu h" "chosen h n h'"
  obtains i T where "sched_inv_except cpu h'" "is_task h' i n" "ts_threads h' n = Some T" "\<not> t_lock T"
    "taskID T = of_nat i" "i < 512" "\<And>a. runs h' a i \<Longrightarrow> a = cpu"
proof -
  have l: "locks h n h'" and n: "n \<noteq> 0" "n \<noteq> -1" "n \<in> set (ActiveTasks h)"
    using assms(2) by (simp_all add: chosen_def)
  then have same: "is_task h' i q = is_task h i q" "runs h' a i = runs h a i" for i q a
    by (simp_all add: is_task_def runs_def locks_def)
  from l have th: "map_option (\<lambda>T. (taskID T, t_lock T)) (ts_threads h' q) =
      map_option (\<lambda>T. (taskID T, t_lock T \<and> q \<noteq> n)) (ts_threads h q)" for q
    by (simp add: locks_def)
  obtain i where i: "is_task h i n"
    using n by (auto simp: in_set_conv_nth is_task_def)
  obtain T where T: "ts_threads h n = Some T" "t_lock T" "taskID T = of_nat i"
    using l i assms(1) unfolding sched_inv_except_def by (fastforce simp: locks_def)
  obtain T' where T': "ts_threads h' n = Some T'" "\<not> t_lock T'" "taskID T' = of_nat i"
    using th [of n] T by (cases "ts_threads h' n") auto
  have tasks: "\<exists>U. ts_threads h' q = Some U \<and> taskID U = of_nat j" if "is_task h j q" for j q
    using assms(1) that th [of q] unfolding sched_inv_except_def by (cases "ts_threads h' q") fastforce+
  have running: "\<exists>q U. is_task h j q \<and> ts_threads h' q = Some U \<and> \<not> t_lock U"
    if a: "runs h a j" "a \<noteq> cpu" for a j
  proof -
    obtain q U where "is_task h j q" "ts_threads h q = Some U" "\<not> t_lock U"
      using assms(1) a unfolding sched_inv_except_def by blast
    then show ?thesis
      using th [of q] by (cases "ts_threads h' q") auto
  qed
  have inv: "sched_inv_except cpu h'"
    using assms(1) tasks running l unfolding sched_inv_except_def same by (simp add: locks_def)
  have "a = cpu" if r: "runs h a i" for a
  proof (rule ccontr)
    assume "a \<noteq> cpu"
    then obtain q U where "is_task h i q" "ts_threads h q = Some U" "\<not> t_lock U"
      using assms(1) r unfolding sched_inv_except_def by blast
    with i T show False by (auto simp: is_task_def)
  qed
  moreover have "i < 512"
    using i assms(1) by (auto simp: is_task_def sched_inv_except_def)
  ultimately show thesis
    using that [of i T'] inv i T' same by blast
qed

text \<open>The invariant looks at the task table, the processors, and identity and lock of the threads.\<close>

definition task_view :: "'x tasks_scheme \<Rightarrow> u64 \<Rightarrow> (u64 \<times> bool) option" where
  "task_view h p = map_option (\<lambda>T. (taskID T, t_lock T)) (ts_threads h p)"

lemma task_view_Some: "(\<exists>T. ts_threads h p = Some T \<and> taskID T = a) \<longleftrightarrow> (\<exists>b. task_view h p = Some (a, b))"
  "(\<exists>T. ts_threads h p = Some T \<and> \<not> t_lock T) \<longleftrightarrow> (\<exists>a. task_view h p = Some (a, False))"
  by (auto simp: task_view_def)

lemma except_cong:
  assumes "sched_inv_except cpu h" "ActiveTasks h' = ActiveTasks h" "task_view h' = task_view h"
    and "length (CPULocals h') = length (CPULocals h)"
      "\<And>a. a \<noteq> cpu \<Longrightarrow> a < length (CPULocals h) \<Longrightarrow> CPULocals h' ! a = CPULocals h ! a"
  shows "sched_inv_except cpu h'"
proof -
  have "is_task h' = is_task h"
    using assms(2) by (simp add: is_task_def fun_eq_iff)
  moreover have "runs h' a i = runs h a i" if "a \<noteq> cpu" for a i
    using that assms(4,5) by (auto simp: runs_def)
  moreover have "(\<exists>T. ts_threads h' p = Some T \<and> taskID T = a) \<longleftrightarrow> (\<exists>T. ts_threads h p = Some T \<and> taskID T = a)" for p a
    unfolding task_view_Some assms(3) ..
  moreover have "(\<exists>T. ts_threads h' p = Some T \<and> \<not> t_lock T) \<longleftrightarrow> (\<exists>T. ts_threads h p = Some T \<and> \<not> t_lock T)" for p
    unfolding task_view_Some assms(3) ..
  ultimately show ?thesis
    using assms(1,2) unfolding sched_inv_except_def by (simp, metis)
qed

lemma except_settle:
  assumes "sched_inv_except cpu h"
    and "\<And>i. runs h cpu i \<Longrightarrow> (\<exists>p T. is_task h i p \<and> ts_threads h p = Some T \<and> \<not> t_lock T) \<and>
      (\<forall>a. runs h a i \<longrightarrow> a = cpu)"
  shows "sched_inv h"
  using assms unfolding sched_inv_def sched_inv_except_def by metis

lemma inv_except: "sched_inv h \<Longrightarrow> sched_inv_except cpu h"
  unfolding sched_inv_def sched_inv_except_def by blast

lemma inv_cong:
  assumes "sched_inv h" "ActiveTasks h' = ActiveTasks h" "task_view h' = task_view h"
    "CPULocals h' = CPULocals h"
  shows "sched_inv h'"
proof (rule except_settle)
  show "sched_inv_except cpu h'" for cpu
    using assms(2-4) by (intro except_cong [OF inv_except [OF assms(1)]]) simp_all
  fix cpu i
  assume r: "runs h' cpu i"
  have same: "is_task h' = is_task h" "runs h' = runs h"
    using assms(2,4) by (simp_all add: is_task_def runs_def fun_eq_iff)
  have "(\<exists>T. ts_threads h' p = Some T \<and> \<not> t_lock T) \<longleftrightarrow> (\<exists>T. ts_threads h p = Some T \<and> \<not> t_lock T)" for p
    unfolding task_view_Some assms(3) ..
  then show "(\<exists>p T. is_task h' i p \<and> ts_threads h' p = Some T \<and> \<not> t_lock T) \<and> (\<forall>a. runs h' a i \<longrightarrow> a = cpu)"
    using sched_invD(2,3) [OF assms(1)] r unfolding same by metis
qed

lemma idle_inv:
  assumes "sched_inv_except cpu h" "scheduler_idle cpu h = Inr (out, h')"
  shows "sched_inv h'"
proof -
  from assms(2) have c: "cpu < length (CPULocals h)"
    and h': "ActiveTasks h' = ActiveTasks h" "ts_threads h' = ts_threads h"
      "CPULocals h' = (CPULocals h)[cpu := (CPULocals h ! cpu)\<lparr>currentTaskID := -1, currentPid := -1, currentTid := -1\<rparr>]"
    by (auto simp: scheduler_idle_def scheduler_idle_halt_def upd_cpu_def elem_def release_all_def split: if_splits)
  show ?thesis
  proof (rule except_settle [of cpu])
    show "sched_inv_except cpu h'"
      by (rule except_cong [OF assms(1)]) (simp_all add: h' task_view_def [abs_def])
  qed (use c in \<open>simp add: runs_def h'\<close>)
qed

lemma switch_inv:
  assumes "sched_inv_except cpu h" "chosen h0 n h" "sched_inv_except cpu h0" "switch_to cpu old n h = Inr (out, h')"
  shows "sched_inv h'"
proof -
  from chosen_except [OF assms(3,2)] obtain i T where n: "is_task h i n" "ts_threads h n = Some T" "\<not> t_lock T"
      "taskID T = of_nat i" "i < 512" "\<And>a. runs h a i \<Longrightarrow> a = cpu"
    by metis
  from assms(4) n(2) have c: "cpu < length (CPULocals h)"
    and h': "ActiveTasks h' = ActiveTasks h" "ts_threads h' = (ts_threads h)(n \<mapsto> T\<lparr>cpu_number := of_nat cpu\<rparr>)"
    and c': "length (CPULocals h') = length (CPULocals h)" "currentTaskID (CPULocals h' ! cpu) = of_nat i"
      "\<forall>a. a \<noteq> cpu \<longrightarrow> CPULocals h' ! a = CPULocals h ! a"
    by (auto simp: switch_to_def upd_cpu_def elem_def release_all_def upd_thread_def modify_def load_eq_Inr
        n(4) split: if_splits)
  have i: "unat (of_nat i :: u64) = i"
    using n(5) by simp
  have other: "runs h' a j = runs h a j" if "a \<noteq> cpu" for a j
    using that by (auto simp: runs_def c')
  show ?thesis
  proof (rule except_settle [of cpu])
    show "sched_inv_except cpu h'"
      by (rule except_cong [OF assms(1)]) (auto simp: h' c' task_view_def n(2))
    fix j
    assume "runs h' cpu j"
    then have "j = i"
      using c i by (simp add: runs_def c')
    then show "(\<exists>p T. is_task h' j p \<and> ts_threads h' p = Some T \<and> \<not> t_lock T) \<and> (\<forall>a. runs h' a j \<longrightarrow> a = cpu)"
      using n(1,3,6) other by (auto simp: is_task_def h')
  qed
qed

lemma schedule_inv:
  assumes inv: "sched_inv h" and s: "scheduler_schedule sv cpu regs h = Inr (out, h')"
  shows "sched_inv h'"
proof -
  let ?h = "h\<lparr>ReSchedulerLock := False, SchedulerLock := False, SecondSchedulerLock := False\<rparr>"
  have cong: "sched_inv (h\<lparr>SchedulerLock := b, ReSchedulerLock := a\<rparr>)" "sched_inv ?h"
      "sched_inv (h\<lparr>ReSchedulerLock := a\<rparr>)" for a b
    by (auto intro!: inv_cong [OF inv] simp: task_view_def)
  show ?thesis
  proof (cases "SchedulerLock h \<and> SecondSchedulerLock h")
    case False
    then show ?thesis
      using s cong by (auto simp: scheduler_schedule_def Let_def split: if_splits)
  next
    case True
    then obtain c h1 n h2 where c: "current_cpu cpu ?h = Inr c" and h1: "save_current sv c regs ?h = Inr h1"
      and h2: "scheduler_get_next_task (currentTaskID c) h1 = Inr (n, h2)"
      and out: "(if n = 0 then scheduler_idle cpu h2 else switch_to cpu (currentPid c) n h2) = Inr (out, h')"
      using s by (auto simp: scheduler_schedule_def Let_def)
    from c have c': "cpu < length (CPULocals ?h)" "c = CPULocals ?h ! cpu"
      by (auto simp: current_cpu_def elem_def split: if_splits)
    have e1: "sched_inv_except cpu h1"
      using save_current_except [OF cong(2) c' h1] by blast
    have res: "if n = 0 then h2 = h1 else chosen h1 n h2"
      using h2 by (auto simp: scheduler_get_next_task_def run_loop_def split: option.splits
          dest!: next_task_loop_result)
    show ?thesis
    proof (cases "n = 0")
      case True
      then show ?thesis
        using res out idle_inv [OF e1] by simp
    next
      case False
      then have ch: "chosen h1 n h2" using res by simp
      then have "sched_inv_except cpu h2"
        by (rule chosen_except [OF e1])
      from switch_inv [OF this ch e1] out False show ?thesis by simp
    qed
  qed
qed

lemma unat_minus1: "unat (-1 :: u64) = 18446744073709551615"
  by (simp add: unsigned_minus_1_eq_mask mask_eq_exp_minus_1)

lemma find_slot_le: "find_slot P xs \<le> length xs"
  by (induction xs) auto

lemma find_slot_hit: "find_slot P xs < length xs \<Longrightarrow> P (xs ! find_slot P xs)"
  by (induction xs) auto

lemma find_slot_before: "i < find_slot P xs \<Longrightarrow> \<not> P (xs ! i)"
  by (induction xs arbitrary: i) (auto simp: less_Suc_eq_0_disj split: if_splits)

lemma add_task_inv:
  assumes inv: "sched_inv h" and s: "scheduler_add_task pid tid h = Inr (r, h')"
  shows "sched_inv h'"
proof (cases "h' = h")
  case False
  let ?slot = "find_slot (\<lambda>t. t = 0 \<or> t = -1) (ActiveTasks h)"
  from s False obtain p T where p: "p \<noteq> 0" "ts_threads h p = Some T" "taskID T = -1" "?slot < length (ActiveTasks h)"
    and h': "CPULocals h' = CPULocals h" "ts_threads h' = (ts_threads h)(p \<mapsto> T\<lparr>taskID := of_nat ?slot\<rparr>)"
      "ActiveTasks h' = (ActiveTasks h)[?slot := p]"
    by (auto simp: scheduler_add_task_def upd_thread_def Let_def modify_def load_eq_Inr split: if_splits)
  have free: "ActiveTasks h ! ?slot = 0 \<or> ActiveTasks h ! ?slot = -1"
    using find_slot_hit [OF p(4)] .
  have fresh: "\<not> is_task h j p" for j
  proof
    assume t: "is_task h j p"
    then have "of_nat j = (-1 :: u64)" "j < 512"
      using sched_invD(1) [OF inv t] p(2,3) sched_invD(4) [OF inv] by (auto simp: is_task_def)
    moreover from \<open>j < 512\<close> have "unat (of_nat j :: u64) = j" by simp
    ultimately have "unat (-1 :: u64) = j" by simp
    with \<open>j < 512\<close> show False by (simp add: unat_minus1)
  qed
  have task: "is_task h' i q \<longleftrightarrow> (if i = ?slot then q = p \<and> p \<noteq> -1 else is_task h i q)" for i q
    using p(1,4) by (auto simp: is_task_def h' nth_list_update)
  have old: "is_task h i q \<Longrightarrow> i \<noteq> ?slot \<and> q \<noteq> p" for i q
    using free fresh by (auto simp: is_task_def)
  have r: "runs h' = runs h"
    by (simp add: runs_def h' fun_eq_iff)
  have "\<exists>U. ts_threads h' q = Some U \<and> taskID U = of_nat i" if "is_task h' i q" for i q
  proof (cases "i = ?slot")
    case True
    with that have "q = p" by (simp add: task)
    with True show ?thesis by (simp add: h')
  next
    case False
    with that have q: "is_task h i q" by (simp add: task)
    then show ?thesis
      using sched_invD(1) [OF inv q] old [OF q] by (simp add: h')
  qed
  moreover have "\<exists>q U. is_task h' i q \<and> ts_threads h' q = Some U \<and> \<not> t_lock U" if "runs h c i" for c i
  proof -
    from sched_invD(2) [OF inv that] obtain q U where q: "is_task h i q" "ts_threads h q = Some U" "\<not> t_lock U"
      by blast
    then show ?thesis
      using old [OF q(1)] by (intro exI [of _ q] exI [of _ U]) (simp add: task h')
  qed
  ultimately show ?thesis
    using sched_invD(3,4) [OF inv] unfolding sched_inv_def r by (auto simp: h')
qed (use inv in simp)

lemma upd_thread_inv:
  assumes "sched_inv h" "upd_thread t f h = Inr h'" "\<And>T. taskID (f T) = taskID T \<and> t_lock (f T) = t_lock T"
  shows "sched_inv h'"
proof -
  note s = upd_thread_same [OF assms(2,3)]
  have "task_view h' = task_view h"
    using s by (auto simp: same_tasks_def task_view_def)
  with s show ?thesis
    by (intro inv_cong [OF assms(1)]) (simp_all add: same_tasks_def)
qed

lemma poll_event_same:
  "poll_event ev out i (w, h) = Inr (w', h') \<Longrightarrow>
   ActiveTasks h' = ActiveTasks h \<and> CPULocals h' = CPULocals h \<and> ts_threads h' = ts_threads h"
  by (auto simp: poll_event_def Let_def split: if_splits)

lemma await_inv:
  assumes inv: "sched_inv h" and s: "events_await Inr cpu ev out n h = Inr (b, h')"
  shows "sched_inv h'"
proof -
  from s obtain w h1 where p: "for_exec 0 (unat n) (poll_event ev out) (False, h) = Inr (w, h1)"
    by (auto simp: events_await_def)
  have "case (w, h1) of (w, h1) \<Rightarrow> ActiveTasks h1 = ActiveTasks h \<and> CPULocals h1 = CPULocals h \<and> ts_threads h1 = ts_threads h"
    by (rule for_exec_invariant [OF p, where P = "\<lambda>_ (w, h1). ActiveTasks h1 = ActiveTasks h \<and>
          CPULocals h1 = CPULocals h \<and> ts_threads h1 = ts_threads h"]) (auto dest!: poll_event_same)
  then have i1: "sched_inv h1"
    by (intro inv_cong [OF inv]) (simp_all add: task_view_def [abs_def])
  show ?thesis
  proof (cases w)
    case True
    then show ?thesis using s p i1 by (simp add: events_await_def)
  next
    case False
    then obtain t h2 where "upd_thread t (\<lambda>T. T\<lparr>event_count := n, out_event_pointer := out\<rparr>) h1 = Inr h2"
      "upd_thread t (\<lambda>T. T\<lparr>event_pointer := ev\<rparr>) h2 = Inr h'"
      using s p by (auto simp: events_await_def)
    then show ?thesis
      using upd_thread_inv [OF upd_thread_inv [OF i1]] by simp
  qed
qed

text \<open>
  The steps the kernel takes: any processor enters the scheduler from an interrupt, the timer
  advances, an event is notified, a thread is added, or a running thread goes to wait or to sleep (the
  step ends where the thread gives up the processor).
\<close>

inductive sched_step :: "'x tasks_scheme \<Rightarrow> 'x tasks_scheme \<Rightarrow> bool" where
  schedule: "scheduler_schedule sv cpu regs h = Inr (out, h') \<Longrightarrow> sched_step h h'"
| tick: "sched_step h (h\<lparr>TimerCounter := TimerCounter h + 1\<rparr>)"
| notify: "event_notify e h = Inr h' \<Longrightarrow> sched_step h h'"
| add: "scheduler_add_task pid tid h = Inr (r, h') \<Longrightarrow> sched_step h h'"
| await: "events_await Inr cpu ev outs n h = Inr (b, h') \<Longrightarrow> sched_step h h'"
| sleep: "thread_sleep Inr cpu ms h = Inr h' \<Longrightarrow> sched_step h h'"

inductive_cases sched_stepE: "sched_step h h'"

lemma sched_step_inv:
  assumes "sched_step h h'" "sched_inv h"
  shows "sched_inv h'"
  using assms
proof (induction rule: sched_step.induct)
  case (tick h)
  then show ?case
    by (elim inv_cong) (simp_all add: task_view_def [abs_def])
next
  case (notify e h h')
  then show ?case
    by (elim inv_cong) (auto simp: event_notify_def task_view_def [abs_def])
next
  case (sleep cpu ms h h')
  then obtain t where "upd_thread t (\<lambda>T. T\<lparr>yield_target := ucast (ucast (TimerCounter h + (ms * 1000) div 1000) :: u32)\<rparr>) h = Inr h'"
    by (auto simp: thread_sleep_def Let_def)
  with sleep.prems show ?case
    by (rule upd_thread_inv) simp
qed (blast intro: schedule_inv add_task_inv await_inv)+

text \<open>
  C2. No thread runs on two processors. From every state that satisfies the invariant (every task
  slot knows its thread, the running threads are locked and different), after any sequence of
  scheduling, timer ticks, notifications, new tasks, waits and sleeps on any number of processors, two
  processors never have the same current task, and the thread of a busy processor has its lock taken.
\<close>

theorem scheduler_exclusive:
  assumes "sched_inv h" "sched_step\<^sup>*\<^sup>* h h'"
  shows "(\<forall>a b i. runs h' a i \<longrightarrow> runs h' b i \<longrightarrow> a = b) \<and>
    (\<forall>cpu i. runs h' cpu i \<longrightarrow> (\<exists>T. ts_threads h' (ActiveTasks h' ! i) = Some T \<and> taskID T = of_nat i \<and> \<not> t_lock T))"
proof -
  from assms(2,1) have "sched_inv h'"
    by (induction rule: rtranclp_induct) (blast intro: sched_step_inv)+
  then show ?thesis
    using sched_invD(1-3) [of h'] by (metis (no_types, lifting) is_task_def option.inject)
qed

text \<open>Two idle processors and one kernel thread that is ready to run.\<close>

definition idle_cpu :: "u64 \<Rightarrow> cpu_t" where
  "idle_cpu n = \<lparr>currentCpu = n, kernelStack = 0, threadKernelStack = 0, threadUserStack = 0, lapicID = n,
     currentPid = -1, currentTid = -1, currentTaskID = -1\<rparr>"

definition two_cpus :: tasks where
  "two_cpus = no_tasks
     \<lparr>ts_threads := [0x9000 \<mapsto> (new_thread 0 0 0xA000 0xB000)\<lparr>taskID := 0\<rparr>],
      ts_processes := [0x7000 \<mapsto> \<lparr>p_pid = 0, page_table = 0x5000, p_threads = 0x8000, p_lock = True,
        current_alloc_address = BASE_ALLOC_ADDRESS, alloc_lock = True, file_handles = 0x8800,
        file_handles_lock = True, parent_pid = 0, shm_map = 0, shm_alloc = USER_SHM_LOW\<rparr>],
      ts_arrays := [0x8000 \<mapsto> 0x9000 # replicate 255 0],
      SchedulerProcesses := 0x7000 # replicate 255 0, ActiveTasks := 0x9000 # replicate 511 0,
      TotalActiveTasks := 1, CPULocals := [idle_cpu 0, idle_cpu 1], TimerCounter := 5\<rparr>"

lemma two_cpus_sel:
  "ActiveTasks two_cpus = 0x9000 # replicate 511 0" "CPULocals two_cpus = [idle_cpu 0, idle_cpu 1]"
  "ts_threads two_cpus = [0x9000 \<mapsto> (new_thread 0 0 0xA000 0xB000)\<lparr>taskID := 0\<rparr>]"
  "SchedulerLock two_cpus" "ReSchedulerLock two_cpus" "SecondSchedulerLock two_cpus"
  "TotalActiveTasks two_cpus = 1" "TimerCounter two_cpus = 5" "SchedulerProcesses two_cpus = 0x7000 # replicate 255 0"
  "map_option page_table (ts_processes two_cpus 0x7000) = Some 0x5000"
  "vm_pts two_cpus = [0x5000 \<mapsto> \<lparr>pt_entries = 0x1000, pt_lock = True\<rparr>]"
  by (simp_all add: two_cpus_def no_tasks_def blank_vheap_def vheap.defs tasks.defs)

lemma two_cpus_inv: "sched_inv two_cpus"
proof -
  have "is_task two_cpus i p \<longleftrightarrow> i = 0 \<and> p = 0x9000" for i p
    by (cases i) (auto simp: is_task_def two_cpus_sel)
  moreover have "\<not> runs two_cpus cpu i" for cpu i
    by (cases cpu) (auto simp: runs_def two_cpus_sel idle_cpu_def nth_Cons split: nat.splits)
  ultimately show ?thesis
    by (simp add: sched_inv_def two_cpus_sel)
qed

lemma two_cpus_schedule:
  "\<exists>out h'. scheduler_schedule (\<lambda>_ m. m) 0 zero_regs two_cpus = Inr (out, h') \<and> runs h' 0 0"
proof -
  let ?h = "two_cpus\<lparr>ReSchedulerLock := False, SchedulerLock := False, SecondSchedulerLock := False\<rparr>"
  let ?T = "(new_thread 0 0 0xA000 0xB000)\<lparr>taskID := 0\<rparr>"
  let ?h1 = "?h\<lparr>ts_threads := (ts_threads ?h)(0x9000 \<mapsto> ?T\<lparr>t_lock := False\<rparr>)\<rparr>"
  have c: "current_cpu 0 ?h = Inr (idle_cpu 0)"
    by (simp add: current_cpu_def two_cpus_sel)
  have t: "try_task 0x9000 ?h = Inr (True, ?h1)"
    by (simp add: try_task_def two_cpus_sel new_thread_def upd_thread_def)
  have "next_task_loop 0 0 ?h = Some (Inr (0x9000, ?h1))"
    using t by (subst next_task_loop.simps) (simp add: two_cpus_sel)
  then have n: "scheduler_get_next_task (currentTaskID (idle_cpu 0)) ?h = Inr (0x9000, ?h1)"
    by (simp add: scheduler_get_next_task_def idle_cpu_def)
  obtain P where P: "ts_processes two_cpus 0x7000 = Some P" "page_table P = 0x5000"
    using two_cpus_sel(10) by (cases "ts_processes two_cpus 0x7000") auto
  obtain out h' where "switch_to 0 (-1) 0x9000 ?h1 = Inr (out, h')" "CPULocals h' \<noteq> []" "currentTaskID (CPULocals h' ! 0) = 0"
    using P by (simp add: switch_to_def two_cpus_sel new_thread_def upd_cpu_def process_of_def upd_thread_def
        release_all_def)
  then show ?thesis
    using c n by (intro exI [of _ out] exI [of _ h'])
      (simp add: scheduler_schedule_def two_cpus_sel Let_def save_current_def runs_def idle_cpu_def)
qed

theorem scheduler_exclusive_witness:
  "\<exists>h'. sched_step\<^sup>*\<^sup>* two_cpus h' \<and> runs h' 0 0 \<and> (\<forall>a b i. runs h' a i \<longrightarrow> runs h' b i \<longrightarrow> a = b)"
proof -
  obtain out h' where s: "scheduler_schedule (\<lambda>_ m. m) 0 zero_regs two_cpus = Inr (out, h')" "runs h' 0 0"
    using two_cpus_schedule by blast
  then have "sched_step\<^sup>*\<^sup>* two_cpus h'"
    by (intro r_into_rtranclp sched_step.schedule)
  with scheduler_exclusive [OF two_cpus_inv this] s(2) show ?thesis by blast
qed

section \<open>Round robin\<close>

text \<open>
  The task table without deleted tasks: \<open>ts\<close> in the first slots, the rest empty.
\<close>

definition task_table :: "'x tasks_scheme \<Rightarrow> u64 list \<Rightarrow> bool" where
  "task_table h ts \<longleftrightarrow> ActiveTasks h = ts @ replicate (512 - length ts) 0 \<and> length ts < 512 \<and>
     TotalActiveTasks h = of_nat (length ts) \<and> (\<forall>t\<in>set ts. t \<noteq> 0 \<and> t \<noteq> -1)"

definition takes :: "'x tasks_scheme \<Rightarrow> u64 \<Rightarrow> bool" where
  "takes h t \<longleftrightarrow> (\<exists>h'. try_task t h = Inr (True, h'))"

lemma next_task_scan:
  assumes tab: "task_table h ts" and ok: "\<forall>t\<in>set ts. \<exists>b h'. try_task t h = Inr (b, h')"
    and "c \<le> length ts" "i \<le> length ts"
  shows "next_task_loop (of_nat c) (of_nat i) h =
    Some (case find (takes h) (take (length ts - i) (drop c ts @ ts)) of
      None \<Rightarrow> Inr (0, h) | Some t \<Rightarrow> bindr (try_task t h) (\<lambda>r. Inr (t, snd r)))"
  using assms(3,4)
proof (induction "length ts - i" arbitrary: c i)
  case 0
  then have "i = length ts" by simp
  then show ?case
    using tab by (subst next_task_loop.simps) (simp add: task_table_def)
next
  case (Suc n)
  have N: "length ts < 512" "ActiveTasks h = ts @ replicate (512 - length ts) 0"
      "TotalActiveTasks h = of_nat (length ts)"
    using tab by (simp_all add: task_table_def)
  have i: "i < length ts" "(of_nat i :: u64) < of_nat (length ts)"
    using Suc.hyps(2) N(1) by (simp_all add: word_less_nat_alt)
  have c: "unat (of_nat c :: u64) = c" "c < length (ActiveTasks h)"
    using Suc.prems(1) N by (simp_all)
  define c' where "c' = (if c = length ts then 0 else c)"
  define t where "t = ts ! c'"
  have c': "c' < length ts"
    using Suc.prems(1) i by (auto simp: c'_def)
  then have t: "t \<in> set ts" "t \<noteq> 0" "t \<noteq> -1"
    using tab by (auto simp: t_def task_table_def)
  have at: "(if ActiveTasks h ! c = 0 then (0 :: u64) else of_nat c) = of_nat c'"
      "(if ActiveTasks h ! c = 0 then ActiveTasks h ! 0 else ActiveTasks h ! c) = t"
    using N c' t Suc.prems(1) tab i(1) by (auto simp: c'_def t_def nth_append task_table_def nth_mem)
  have nx: "next_index (of_nat c') = of_nat (Suc c')" "Suc c' \<le> length ts"
  proof -
    have "(of_nat c' + 1 :: u64) \<noteq> 512"
      using c' N(1) unat_of_nat_u64 [of "Suc c'"] by auto
    then show "next_index (of_nat c') = of_nat (Suc c')"
      by (simp add: next_index_def add.commute)
  qed (use c' in simp)
  obtain b h' where bh: "try_task t h = Inr (b, h')"
    using ok t(1) by blast
  have cut: "take (length ts - i) (drop c ts @ ts) = t # take (length ts - Suc i) (drop (Suc c') ts @ ts)"
  proof (cases "c = length ts")
    case True
    have "ts \<noteq> []" using i by auto
    then have "ts = t # drop 1 ts"
      using True by (cases ts) (simp_all add: t_def c'_def)
    moreover have "take (length ts - i) ts = take (length ts - i) (ts @ ts)"
      by simp
    ultimately show ?thesis
      using True i(1) Suc_diff_Suc [OF i(1)] by (simp add: c'_def) (metis append_Cons take_Suc_Cons)
  next
    case False
    then have "drop c ts = t # drop (Suc c') ts"
      using c' by (simp add: c'_def t_def Cons_nth_drop_Suc)
    then show ?thesis
      using Suc_diff_Suc [OF i(1)] by (metis append_Cons take_Suc_Cons)
  qed
  have step: "next_task_loop (of_nat c) (of_nat i) h =
      (if b then Some (Inr (t, h')) else next_task_loop (of_nat (Suc c')) (of_nat (Suc i)) h')"
    using i(2) c N(3) at t bh nx
    by (subst next_task_loop.simps) (simp add: Let_def elem_def add.commute)
  show ?case
  proof (cases b)
    case True
    then show ?thesis
      using step cut bh by (simp add: takes_def)
  next
    case False
    then have "h' = h" "\<not> takes h t"
      using try_task_cases [OF bh] bh by (simp_all add: takes_def)
    then show ?thesis
      using False step cut Suc.hyps(1) [of "Suc i" "Suc c'"] Suc.hyps(2) nx i(1) by simp
  qed
qed

text \<open>
  C16. The scheduler is a round robin. With a task table \<open>ts\<close> that has no deleted tasks and whose
  threads can be examined, \<^verbatim>\<open>scheduler_get_next_task\<close> of task \<open>c\<close> always returns, with the first task
  that can be taken among \<open>c + 1, c + 2, \<dots>\<close>, then \<open>0, \<dots>, c\<close>, its lock taken; it returns \<^verbatim>\<open>NULL\<close> and
  changes nothing exactly when no task can be taken, so a ready task is never overlooked.
\<close>

theorem scheduler_round_robin:
  assumes "task_table h ts" "\<forall>t\<in>set ts. \<exists>b h'. try_task t h = Inr (b, h')" "c < length ts"
  shows "scheduler_get_next_task (of_nat c) h =
      (case find (takes h) (drop (Suc c) ts @ take (Suc c) ts) of
         None \<Rightarrow> Inr (0, h) | Some t \<Rightarrow> bindr (try_task t h) (\<lambda>r. Inr (t, snd r))) \<and>
    ((\<exists>t\<in>set ts. takes h t) \<longleftrightarrow> (\<exists>t h'. scheduler_get_next_task (of_nat c) h = Inr (t, h') \<and> t \<noteq> 0))"
proof -
  let ?order = "drop (Suc c) ts @ take (Suc c) ts"
  have "take (length ts - 0) (drop (Suc c) ts @ ts) = ?order"
    using assms(3) by simp
  then have eq: "scheduler_get_next_task (of_nat c) h =
      (case find (takes h) ?order of
         None \<Rightarrow> Inr (0, h) | Some t \<Rightarrow> bindr (try_task t h) (\<lambda>r. Inr (t, snd r)))"
    using next_task_scan [OF assms(1,2), of "Suc c" 0] assms(3)
    by (simp add: scheduler_get_next_task_def add.commute)
  have set: "set ?order = set ts"
    by (metis Un_commute append_take_drop_id set_append)
  have "(\<exists>t\<in>set ts. takes h t) \<longleftrightarrow> find (takes h) ?order \<noteq> None"
    using find_None_iff [of "takes h" ?order] unfolding set by auto
  moreover have "\<exists>h'. try_task t h = Inr (True, h')" "t \<noteq> 0" if "find (takes h) ?order = Some t" for t
  proof -
    from that have t: "takes h t" "t \<in> set ?order"
      using find_Some_iff [of "takes h" ?order t] nth_mem by metis+
    then show "\<exists>h'. try_task t h = Inr (True, h')" "t \<noteq> 0"
      using assms(1) unfolding set by (auto simp: takes_def task_table_def)
  qed
  ultimately show ?thesis
    unfolding eq by (cases "find (takes h) ?order") fastforce+
qed

theorem scheduler_round_robin_witness:
  "\<exists>t h'. scheduler_get_next_task (of_nat 0) two_cpus = Inr (t, h') \<and> t \<noteq> 0"
proof -
  have t: "\<exists>h'. try_task 0x9000 two_cpus = Inr (True, h')"
    by (simp add: try_task_def two_cpus_sel new_thread_def upd_thread_def)
  have "task_table two_cpus [0x9000]"
    by (simp add: task_table_def two_cpus_sel)
  from scheduler_round_robin [OF this, of 0] t show ?thesis
    by (auto simp: takes_def)
qed

section \<open>Sleeping\<close>

text \<open>
  C31. \<^verbatim>\<open>thread_sleep\<close> computes its wake-up time in 32 bits: the running thread's \<^verbatim>\<open>yield_target\<close> becomes
  the current tick plus the milliseconds, modulo \<open>2 ^ 32\<close>. Once the tick counter has reached
  \<open>2 ^ 32\<close> the target is therefore never in the future, and the scheduler may take the thread at once.
\<close>

theorem thread_sleep_wraps:
  assumes "SchedulerLock h" "cpu < length (CPULocals h)" "currentTaskID (CPULocals h ! cpu) = of_nat i"
    and "i < length (ActiveTasks h)" "i < 512" "ActiveTasks h ! i = t" "t \<noteq> 0" "ts_threads h t = Some T"
    and "unat (TimerCounter h) + unat ms < 2 ^ 63" "unat ms < 2 ^ 53"
  shows "\<exists>w. thread_sleep Inr cpu ms h = Inr (h\<lparr>ts_threads := (ts_threads h)(t \<mapsto> T\<lparr>yield_target := w\<rparr>)\<rparr>) \<and>
    unat w = (unat (TimerCounter h) + unat ms) mod 2 ^ 32 \<and>
    (2 ^ 32 \<le> unat (TimerCounter h) \<longrightarrow> w \<le> TimerCounter h)"
proof -
  let ?x = "TimerCounter h + (ms * 1000) div 1000"
  let ?w = "ucast (ucast ?x :: u32) :: u64"
  have ms: "(ms * 1000) div 1000 = ms"
  proof (rule word_unat_eq_iff [THEN iffD2])
    have "unat (ms * 1000) = unat ms * 1000"
      using assms(10) by (simp add: unat_word_ariths)
    then show "unat ((ms * 1000) div 1000) = unat ms"
      by (simp add: unat_div_distrib)
  qed
  have x: "unat ?x = unat (TimerCounter h) + unat ms"
    using assms(9) by (simp add: ms unat_word_ariths)
  have w: "unat ?w = (unat (TimerCounter h) + unat ms) mod 2 ^ 32"
    by (simp add: unsigned_ucast_eq take_bit_eq_mod unat_mod_distrib x)
  have "unat (of_nat i :: u64) = i"
    using assms(5) by simp
  then have "current_thread cpu h = Inr t"
    using assms by (simp add: current_thread_def current_cpu_def)
  then have "thread_sleep Inr cpu ms h = Inr (h\<lparr>ts_threads := (ts_threads h)(t \<mapsto> T\<lparr>yield_target := ?w\<rparr>)\<rparr>)"
    using assms by (simp add: thread_sleep_def upd_thread_def Let_def)
  moreover have "?w \<le> TimerCounter h" if "2 ^ 32 \<le> unat (TimerCounter h)"
  proof -
    have "unat ?w < 2 ^ 32"
      unfolding w by simp
    with that show ?thesis by (simp add: word_le_nat_alt)
  qed
  ultimately show ?thesis
    using w by (intro exI [of _ ?w]) simp
qed

theorem thread_sleep_wraps_witness:
  "let h = two_cpus\<lparr>CPULocals := [(idle_cpu 0)\<lparr>currentTaskID := 0\<rparr>], TimerCounter := 2 ^ 32\<rparr>
   in \<exists>w T. thread_sleep Inr 0 10 h = Inr (h\<lparr>ts_threads := (ts_threads h)(0x9000 \<mapsto> T\<lparr>yield_target := w\<rparr>)\<rparr>) \<and> unat w = 10"
proof -
  let ?h = "two_cpus\<lparr>CPULocals := [(idle_cpu 0)\<lparr>currentTaskID := 0\<rparr>], TimerCounter := 2 ^ 32\<rparr>"
  have "\<exists>w. thread_sleep Inr 0 10 ?h = Inr (?h\<lparr>ts_threads := (ts_threads ?h)(0x9000 \<mapsto>
      ((new_thread 0 0 0xA000 0xB000)\<lparr>taskID := 0\<rparr>)\<lparr>yield_target := w\<rparr>)\<rparr>) \<and>
    unat w = (unat (TimerCounter ?h) + unat (10 :: u64)) mod 2 ^ 32 \<and>
    (2 ^ 32 \<le> unat (TimerCounter ?h) \<longrightarrow> w \<le> TimerCounter ?h)"
    by (rule thread_sleep_wraps [where i = 0]) (simp_all add: two_cpus_sel idle_cpu_def)
  then show ?thesis by (simp add: Let_def) blast
qed

end
