(* ===== verification/Printf.thy ===== *)
theory Printf
  imports Scheduler
begin

text \<open>
  The formatted output of the kernel, \<^verbatim>\<open>kernel/utils/system.c\<close>. A format is the array of its characters with
  the terminating zero; reading past the array is a wild access. The variable arguments are the 64-bit slots
  of the calling convention, of which \<^verbatim>\<open>va_arg\<close> takes the low bits its type needs. The sink is the function
  pointer of \<^verbatim>\<open>printf_function_t\<close>: either the debug port \<^verbatim>\<open>0xE9\<close> or a buffer in memory. The number
  buffer of 32 characters is the list of the characters written to it so far.
\<close>

section \<open>Data\<close>

datatype writer = Printf_write_char_e8 | Printf_write_char_str

record printf_function_t =
  pf_write :: writer
  pf_data :: u64
  pf_currentPos :: u64
  pf_size :: u64

record sink =
  sk_func :: printf_function_t
  sk_mem :: bytes
  sk_port :: "u8 list"

definition PRINT_FLAG_LEFT :: "'a::len word" where "PRINT_FLAG_LEFT = 0x1"
definition PRINT_FLAG_PLUS :: "'a::len word" where "PRINT_FLAG_PLUS = 0x2"
definition PRINT_FLAG_SPACE :: "'a::len word" where "PRINT_FLAG_SPACE = 0x4"
definition PRINT_FLAG_HASH :: "'a::len word" where "PRINT_FLAG_HASH = 0x8"
definition PRINT_FLAG_ZEROPAD :: "'a::len word" where "PRINT_FLAG_ZEROPAD = 0x10"
definition PRINT_FLAG_PRECISION :: "'a::len word" where "PRINT_FLAG_PRECISION = 0x20"
definition PRINT_FLAG_CHAR :: "'a::len word" where "PRINT_FLAG_CHAR = 0x40"
definition PRINT_FLAG_SHORT :: "'a::len word" where "PRINT_FLAG_SHORT = 0x80"
definition PRINT_FLAG_LONG :: "'a::len word" where "PRINT_FLAG_LONG = 0x100"
definition PRINT_FLAG_LONG_LONG :: "'a::len word" where "PRINT_FLAG_LONG_LONG = 0x200"
definition PRINT_FLAG_UPPERCASE :: "'a::len word" where "PRINT_FLAG_UPPERCASE = 0x400"

lemmas print_flags = PRINT_FLAG_LEFT_def PRINT_FLAG_PLUS_def PRINT_FLAG_SPACE_def PRINT_FLAG_HASH_def
  PRINT_FLAG_ZEROPAD_def PRINT_FLAG_PRECISION_def PRINT_FLAG_CHAR_def PRINT_FLAG_SHORT_def
  PRINT_FLAG_LONG_def PRINT_FLAG_LONG_LONG_def PRINT_FLAG_UPPERCASE_def

abbreviation PRINTF_NTOA_BUFFER_SIZE :: nat where "PRINTF_NTOA_BUFFER_SIZE \<equiv> 32"

text \<open>A flag test: \<^verbatim>\<open>flags & f\<close> as a truth value.\<close>

definition has :: "'a::len word \<Rightarrow> 'a word \<Rightarrow> bool" where
  "has flags f \<longleftrightarrow> flags AND f \<noteq> 0"

section \<open>Sinks\<close>

definition printf_write_char_e8 :: "u8 \<Rightarrow> sink \<Rightarrow> sink" where
  "printf_write_char_e8 c s = (let f = sk_func s in
     if pf_size f = 0 \<or> pf_size f < pf_currentPos f
     then s\<lparr>sk_port := sk_port s @ [c], sk_func := f\<lparr>pf_currentPos := pf_currentPos f + 1\<rparr>\<rparr>
     else s)"

definition printf_write_char_str :: "u8 \<Rightarrow> sink \<Rightarrow> sink" where
  "printf_write_char_str c s = (let f = sk_func s in
     if pf_data f \<noteq> 0 \<and> (pf_size f = 0 \<or> pf_size f < pf_currentPos f)
     then s\<lparr>sk_mem := (sk_mem s)(phys_of (pf_data f + pf_currentPos f) := c),
            sk_func := f\<lparr>pf_currentPos := pf_currentPos f + 1\<rparr>\<rparr>
     else s)"

definition fwrite :: "u8 \<Rightarrow> sink \<Rightarrow> sink" where
  "fwrite c s = (case pf_write (sk_func s) of
     Printf_write_char_e8 \<Rightarrow> printf_write_char_e8 c s
   | Printf_write_char_str \<Rightarrow> printf_write_char_str c s)"

fun write_spaces :: "nat \<Rightarrow> sink \<Rightarrow> sink" where
  "write_spaces 0 s = s"
| "write_spaces (Suc n) s = write_spaces n (fwrite 0x20 s)"

fun write_all :: "u8 list \<Rightarrow> sink \<Rightarrow> sink" where
  "write_all [] s = s"
| "write_all (c # cs) s = write_all cs (fwrite c s)"

section \<open>Numbers\<close>

definition out_rev :: "u8 list \<Rightarrow> u32 \<Rightarrow> u32 \<Rightarrow> sink \<Rightarrow> sink" where
  "out_rev buf width flags s =
     (let len = length buf;
          (idx, s) = (if \<not> has flags PRINT_FLAG_LEFT \<and> \<not> has flags PRINT_FLAG_ZEROPAD
                      then (unat width - len, write_spaces (unat width - len) s) else (0, s));
          s = write_all (rev buf) s;
          idx = idx + len
      in if has flags PRINT_FLAG_LEFT then write_spaces (unat width - idx) s else s)"

function pad_loop :: "nat \<Rightarrow> u8 list \<Rightarrow> u8 list" where
  "pad_loop n buf =
     (if length buf < n \<and> length buf < PRINTF_NTOA_BUFFER_SIZE then pad_loop n (buf @ [0x30]) else buf)"
  by pat_completeness auto
termination
  by (relation "measure (\<lambda>(n, buf). n - length buf)") auto

declare pad_loop.simps [simp del]

definition pad_zeros :: "bool \<Rightarrow> u32 \<Rightarrow> u32 \<Rightarrow> u32 \<Rightarrow> u8 list \<Rightarrow> u8 list \<times> u32" where
  "pad_zeros negative prec width flags buf =
     (if \<not> has flags PRINT_FLAG_LEFT then
        let width = (if width \<noteq> 0 \<and> has flags PRINT_FLAG_ZEROPAD \<and>
                       (negative \<or> has flags (PRINT_FLAG_PLUS OR PRINT_FLAG_SPACE)) then width - 1 else width);
            buf = pad_loop (unat prec) buf;
            buf = (if has flags PRINT_FLAG_ZEROPAD then pad_loop (unat width) buf else buf)
        in (buf, width)
      else (buf, width))"

definition hash_prefix :: "u32 \<Rightarrow> u32 \<Rightarrow> u32 \<Rightarrow> u32 \<Rightarrow> u8 list \<Rightarrow> u8 list" where
  "hash_prefix base prec width flags buf =
     (if has flags PRINT_FLAG_HASH then
        let buf = (if \<not> has flags PRINT_FLAG_PRECISION \<and> buf \<noteq> [] \<and>
                      (length buf = unat prec \<or> length buf = unat width)
                   then (let buf = butlast buf in if buf \<noteq> [] \<and> base = 16 then butlast buf else buf)
                   else buf);
            room = (\<lambda>buf. length buf < PRINTF_NTOA_BUFFER_SIZE);
            buf = (if base = 16 \<and> \<not> has flags PRINT_FLAG_UPPERCASE \<and> room buf then buf @ [0x78]
                   else if base = 16 \<and> has flags PRINT_FLAG_UPPERCASE \<and> room buf then buf @ [0x58]
                   else if base = 2 \<and> room buf then buf @ [0x62]
                   else buf)
        in if room buf then buf @ [0x30] else buf
      else buf)"

definition sign_prefix :: "bool \<Rightarrow> u32 \<Rightarrow> u8 list \<Rightarrow> u8 list" where
  "sign_prefix negative flags buf =
     (if length buf < PRINTF_NTOA_BUFFER_SIZE then
        if negative then buf @ [0x2D]
        else if has flags PRINT_FLAG_PLUS then buf @ [0x2B]
        else if has flags PRINT_FLAG_SPACE then buf @ [0x20]
        else buf
      else buf)"

definition ntoa_format :: "u8 list \<Rightarrow> bool \<Rightarrow> u32 \<Rightarrow> u32 \<Rightarrow> u32 \<Rightarrow> u32 \<Rightarrow> sink \<Rightarrow> sink" where
  "ntoa_format buf negative base prec width flags s =
     (let (buf, width) = pad_zeros negative prec width flags buf;
          buf = hash_prefix base prec width flags buf;
          buf = sign_prefix negative flags buf
      in out_rev buf width flags s)"

text \<open>
  The digit loop. The test of the letter's case is a constant of the source, not the flag: the letter
  is always a capital one.
\<close>

definition digit_char :: "u8 \<Rightarrow> u8" where
  "digit_char digit = (if digit < 10 then 0x30 + digit
     else (if (PRINT_FLAG_UPPERCASE :: u32) \<noteq> 0 then 0x41 else 0x61) + digit - 10)"

function ntoa_loop :: "u64 \<Rightarrow> u32 \<Rightarrow> u8 list \<Rightarrow> u8 list" where
  "ntoa_loop val base buf =
     (let buf' = buf @ [digit_char (ucast (val mod ucast base))];
          val' = val div ucast base
      in if val' \<noteq> 0 \<and> length buf' < PRINTF_NTOA_BUFFER_SIZE then ntoa_loop val' base buf' else buf')"
  by pat_completeness auto
termination
  by (relation "measure (\<lambda>(v, b, buf). 32 - length buf)") auto

declare ntoa_loop.simps [simp del]

definition ntoa_long :: "u64 \<Rightarrow> bool \<Rightarrow> u32 \<Rightarrow> u32 \<Rightarrow> u32 \<Rightarrow> u32 \<Rightarrow> sink \<Rightarrow> sink" where
  "ntoa_long val negative base prec width flags s =
     (let flags = (if val = 0 then flags AND NOT PRINT_FLAG_HASH else flags);
          buf = (if \<not> has flags PRINT_FLAG_PRECISION \<or> val \<noteq> 0 then ntoa_loop val base [] else [])
      in ntoa_format buf negative base prec width flags s)"

definition ntoa_long_long :: "u64 \<Rightarrow> bool \<Rightarrow> u32 \<Rightarrow> u32 \<Rightarrow> u32 \<Rightarrow> u32 \<Rightarrow> sink \<Rightarrow> sink" where
  "ntoa_long_long val negative base prec width flags s =
     (let flags = (if val = 0 then flags AND NOT PRINT_FLAG_HASH else flags);
          buf = (if \<not> has flags PRINT_FLAG_PRECISION \<or> val \<noteq> 0 then ntoa_loop val base [] else [])
      in ntoa_format buf negative base prec width flags s)"

section \<open>Directives\<close>

text \<open>The character under the format pointer, and the next argument slot.\<close>

definition peek :: "u8 list \<Rightarrow> u8 exec" where
  "peek fmt = (case fmt of [] \<Rightarrow> Inl WildAccess | c # _ \<Rightarrow> Inr c)"

definition va_arg :: "u64 list \<Rightarrow> (u64 \<times> u64 list) exec" where
  "va_arg args = (case args of [] \<Rightarrow> Inl WildAccess | a # as \<Rightarrow> Inr (a, as))"

definition isdigit :: "u8 \<Rightarrow> bool" where
  "isdigit c \<longleftrightarrow> c - 0x30 \<le> 9"

fun parse_flags :: "u8 list \<Rightarrow> u16 \<Rightarrow> (u16 \<times> u8 list) exec" where
  "parse_flags [] flags = Inl WildAccess"
| "parse_flags (c # cs) flags =
     (if c = 0x2D then parse_flags cs (flags OR PRINT_FLAG_LEFT)
      else if c = 0x2B then parse_flags cs (flags OR PRINT_FLAG_PLUS)
      else if c = 0x20 then parse_flags cs (flags OR PRINT_FLAG_SPACE)
      else if c = 0x23 then parse_flags cs (flags OR PRINT_FLAG_HASH)
      else if c = 0x30 then parse_flags cs (flags OR PRINT_FLAG_ZEROPAD)
      else Inr (flags, c # cs))"

fun parse_number :: "u8 list \<Rightarrow> u32 \<Rightarrow> (u32 \<times> u8 list) exec" where
  "parse_number [] n = Inl WildAccess"
| "parse_number (c # cs) n =
     (if isdigit c then parse_number cs (n * 10 + ucast (c - 0x30)) else Inr (n, c # cs))"

definition parse_width :: "u8 list \<Rightarrow> u64 list \<Rightarrow> u16 \<Rightarrow> (u32 \<times> u16 \<times> u8 list \<times> u64 list) exec" where
  "parse_width fmt args flags =
     bindr (peek fmt) (\<lambda>c.
     if isdigit c then bindr (parse_number fmt 0) (\<lambda>(width, fmt). Inr (width, flags, fmt, args))
     else if c = 0x2A then
       bindr (va_arg args) (\<lambda>(a, args).
       let w = ucast a :: u32 in
       if w <s 0 then Inr (- w, flags OR PRINT_FLAG_LEFT, tl fmt, args)
       else Inr (w, flags, tl fmt, args))
     else Inr (0, flags, fmt, args))"

definition parse_precision :: "u8 list \<Rightarrow> u64 list \<Rightarrow> u16 \<Rightarrow> (u32 \<times> u16 \<times> u8 list \<times> u64 list) exec" where
  "parse_precision fmt args flags =
     bindr (peek fmt) (\<lambda>c.
     if c = 0x2E then
       let fmt = tl fmt; flags = flags OR PRINT_FLAG_PRECISION in
       bindr (peek fmt) (\<lambda>c.
       if isdigit c then bindr (parse_number fmt 0) (\<lambda>(prec, fmt). Inr (prec, flags, fmt, args))
       else if c = 0x2A then
         bindr (va_arg args) (\<lambda>(a, args).
         let p = ucast a :: u32 in Inr (if 0 <s p then p else 0, flags, tl fmt, args))
       else Inr (0, flags, fmt, args))
     else Inr (0, flags, fmt, args))"

definition parse_length :: "u8 list \<Rightarrow> u16 \<Rightarrow> (u16 \<times> u8 list) exec" where
  "parse_length fmt flags =
     bindr (peek fmt) (\<lambda>c.
     if c = 0x6C then
       let fmt = tl fmt; flags = flags OR PRINT_FLAG_LONG in
       bindr (peek fmt) (\<lambda>c. if c = 0x6C then Inr (flags OR PRINT_FLAG_LONG_LONG, tl fmt) else Inr (flags, fmt))
     else if c = 0x68 then
       let fmt = tl fmt; flags = flags OR PRINT_FLAG_SHORT in
       bindr (peek fmt) (\<lambda>c. if c = 0x68 then Inr (flags OR PRINT_FLAG_CHAR, tl fmt) else Inr (flags, fmt))
     else if c = 0x6A then Inr (flags OR PRINT_FLAG_LONG, tl fmt)
     else if c = 0x7A then Inr (flags OR PRINT_FLAG_LONG, tl fmt)
     else Inr (flags, fmt))"

text \<open>The conversions \<^verbatim>\<open>d i u x X o b\<close>: the base, the flags the letter clears, and the value by width.\<close>

definition conv_base :: "u8 \<Rightarrow> u32" where
  "conv_base c = (if c = 0x78 \<or> c = 0x58 then 16 else if c = 0x6F then 8 else if c = 0x62 then 2 else 10)"

definition conv_flags :: "u8 \<Rightarrow> u16 \<Rightarrow> u16" where
  "conv_flags c flags =
     (let flags = (if conv_base c = 10 then flags AND NOT PRINT_FLAG_HASH else flags);
          flags = (if c = 0x58 then flags OR PRINT_FLAG_UPPERCASE else flags);
          flags = (if c \<noteq> 0x69 \<and> c \<noteq> 0x64
                   then flags AND NOT (PRINT_FLAG_PLUS OR PRINT_FLAG_SPACE) else flags)
      in if has flags PRINT_FLAG_PRECISION then flags AND NOT PRINT_FLAG_ZEROPAD else flags)"

definition conv_signed :: "u64 \<Rightarrow> u16 \<Rightarrow> u32 \<Rightarrow> u32 \<Rightarrow> u32 \<Rightarrow> sink \<Rightarrow> sink" where
  "conv_signed a flags base prec width s =
     (if has flags PRINT_FLAG_LONG_LONG then
        ntoa_long_long (if 0 <s a then a else 0 - a) (a <s 0) base prec width (ucast flags) s
      else if has flags PRINT_FLAG_LONG then
        ntoa_long (if 0 <s a then a else 0 - a) (a <s 0) base prec width (ucast flags) s
      else
        let v = (if has flags PRINT_FLAG_CHAR then scast (ucast a :: u8)
                 else if has flags PRINT_FLAG_SHORT then scast (ucast a :: u16)
                 else ucast a) :: u32
        in ntoa_long (ucast (if 0 <s v then v else 0 - v)) (v <s 0) base prec width (ucast flags) s)"

definition conv_unsigned :: "u64 \<Rightarrow> u16 \<Rightarrow> u32 \<Rightarrow> u32 \<Rightarrow> u32 \<Rightarrow> sink \<Rightarrow> sink" where
  "conv_unsigned a flags base prec width s =
     (if has flags PRINT_FLAG_LONG_LONG then ntoa_long_long a False base prec width (ucast flags) s
      else if has flags PRINT_FLAG_LONG then ntoa_long_long a False base prec width (ucast flags) s
      else
        let v = (if has flags PRINT_FLAG_CHAR then ucast (ucast a :: u8)
                 else if has flags PRINT_FLAG_SHORT then ucast (ucast a :: u16)
                 else ucast a) :: u32
        in ntoa_long_long (ucast v) False base prec width (ucast flags) s)"

definition conv_char :: "u64 \<Rightarrow> u16 \<Rightarrow> u32 \<Rightarrow> sink \<Rightarrow> sink" where
  "conv_char a flags width s =
     (let s = (if \<not> has flags PRINT_FLAG_LEFT then write_spaces (unat width - 1) s else s);
          s = fwrite (ucast a) s
      in if has flags PRINT_FLAG_LEFT then write_spaces (unat width - 1) s else s)"

text \<open>
  \<^verbatim>\<open>%s\<close>: the first loop measures the string (a limit of zero means none), the second one
  writes it; the character behind the limit is read before the limit is tested.
\<close>

partial_function (option) scan_loop :: "bytes \<Rightarrow> u64 \<Rightarrow> u64 \<Rightarrow> u64 option" where
  "scan_loop m s maxsize =
     (if m (phys_of s) \<noteq> 0 \<and> maxsize \<noteq> 0 then scan_loop m (s + 1) (maxsize - 1) else Some s)"

partial_function (option) put_loop :: "bool \<Rightarrow> u64 \<Rightarrow> u32 \<Rightarrow> sink \<Rightarrow> sink option" where
  "put_loop limited p prec s =
     (let c = sk_mem s (phys_of p) in
      if c \<noteq> 0 \<and> (\<not> limited \<or> prec \<noteq> 0)
      then put_loop limited (p + 1) (if limited then prec - 1 else prec) (fwrite c s)
      else Some s)"

text \<open>
  \<^verbatim>\<open>while(l++ < width)\<close>: the spaces before the string leave \<open>l\<close> one past the width, so that
  with \<^verbatim>\<open>-\<close> only the second such loop writes.
\<close>

definition conv_string :: "u64 \<Rightarrow> u16 \<Rightarrow> u32 \<Rightarrow> u32 \<Rightarrow> sink \<Rightarrow> sink exec" where
  "conv_string p flags prec width s =
     (let maxsize = (if prec \<noteq> 0 then ucast prec else -1) in
      case scan_loop (sk_mem s) p maxsize of
        None \<Rightarrow> Inl HaltLoop
      | Some e \<Rightarrow>
          let l = ucast (e - p) :: u32;
              l = (if has flags PRINT_FLAG_PRECISION then (if l < prec then l else prec) else l);
              s = (if \<not> has flags PRINT_FLAG_LEFT then write_spaces (unat width - unat l) s else s)
          in case put_loop (has flags PRINT_FLAG_PRECISION) p prec s of
               None \<Rightarrow> Inl HaltLoop
             | Some s \<Rightarrow> Inr (if has flags PRINT_FLAG_LEFT then write_spaces (unat width - unat l) s else s))"

definition conv_pointer :: "u64 \<Rightarrow> u16 \<Rightarrow> u32 \<Rightarrow> sink \<Rightarrow> sink" where
  "conv_pointer a flags prec s =
     ntoa_long_long a False 16 prec 16 (ucast (flags OR (PRINT_FLAG_ZEROPAD OR PRINT_FLAG_UPPERCASE))) s"

definition convert ::
    "u8 list \<Rightarrow> u64 list \<Rightarrow> u16 \<Rightarrow> u32 \<Rightarrow> u32 \<Rightarrow> sink \<Rightarrow> (u8 list \<times> u64 list \<times> sink) exec" where
  "convert fmt args flags width prec s =
     bindr (peek fmt) (\<lambda>c.
     if c \<in> {0x64, 0x69, 0x75, 0x78, 0x58, 0x6F, 0x62} then
       let flags = conv_flags c flags in
       bindr (va_arg args) (\<lambda>(a, args).
       Inr (tl fmt, args, if c = 0x69 \<or> c = 0x64 then conv_signed a flags (conv_base c) prec width s
                          else conv_unsigned a flags (conv_base c) prec width s))
     else if c = 0x63 then
       bindr (va_arg args) (\<lambda>(a, args). Inr (tl fmt, args, conv_char a flags width s))
     else if c = 0x73 then
       bindr (va_arg args) (\<lambda>(a, args).
       bindr (conv_string a flags prec width s) (\<lambda>s. Inr (tl fmt, args, s)))
     else if c = 0x70 then
       bindr (va_arg args) (\<lambda>(a, args). Inr (tl fmt, args, conv_pointer a flags prec s))
     else Inr (tl fmt, args, fwrite c s))"

definition directive :: "u8 list \<Rightarrow> u64 list \<Rightarrow> sink \<Rightarrow> (u8 list \<times> u64 list \<times> sink) exec" where
  "directive fmt args s =
     bindr (parse_flags fmt 0) (\<lambda>(flags, fmt).
     bindr (parse_width fmt args flags) (\<lambda>(width, flags, fmt, args).
     bindr (parse_precision fmt args flags) (\<lambda>(prec, flags, fmt, args).
     bindr (parse_length fmt flags) (\<lambda>(flags, fmt).
       convert fmt args flags width prec s))))"

section \<open>Formats shrink\<close>

lemma parse_flags_length: "parse_flags cs fl = Inr (fl', cs') \<Longrightarrow> length cs' \<le> length cs"
  by (induction cs fl rule: parse_flags.induct) (auto split: if_splits)

lemma parse_number_length: "parse_number cs n = Inr (n', cs') \<Longrightarrow> length cs' \<le> length cs"
  by (induction cs n rule: parse_number.induct) (auto split: if_splits)

lemma parse_width_length:
  "parse_width cs args fl = Inr (w, fl', cs', args') \<Longrightarrow> length cs' \<le> length cs"
  by (auto simp: parse_width_def Let_def dest!: parse_number_length split: if_splits)

lemma parse_precision_length:
  "parse_precision cs args fl = Inr (p, fl', cs', args') \<Longrightarrow> length cs' \<le> length cs"
  by (auto simp: parse_precision_def Let_def dest!: parse_number_length split: if_splits) linarith

lemma parse_length_length: "parse_length cs fl = Inr (fl', cs') \<Longrightarrow> length cs' \<le> length cs"
  by (auto simp: parse_length_def Let_def split: if_splits)

lemma convert_length: "convert cs args fl w p s = Inr (cs', args', s') \<Longrightarrow> length cs' \<le> length cs"
  by (auto simp: convert_def Let_def split: if_splits)

lemma directive_length: "directive cs args s = Inr (cs', args', s') \<Longrightarrow> length cs' \<le> length cs"
  unfolding directive_def
  by (auto dest!: parse_flags_length parse_width_length parse_precision_length parse_length_length convert_length)

section \<open>Formatting\<close>

function vsn_loop :: "u8 list \<Rightarrow> u64 list \<Rightarrow> sink \<Rightarrow> sink exec" where
  "vsn_loop [] args s = Inl WildAccess"
| "vsn_loop (c # cs) args s =
     (if c = 0 then Inr s
      else if c = 0x25 then bindr (directive cs args s) (\<lambda>(cs, args, s). vsn_loop cs args s)
      else vsn_loop cs args (fwrite c s))"
  by pat_completeness auto
termination
  by (relation "measure (\<lambda>(cs, args, s). length cs)") (auto dest: directive_length)

definition vsnprintf_internal :: "u8 list \<Rightarrow> u64 list \<Rightarrow> sink \<Rightarrow> (u32 \<times> sink) exec" where
  "vsnprintf_internal format args s =
     bindr (vsn_loop format args s) (\<lambda>s.
     let s = fwrite 0 s in Inr (ucast (pf_currentPos (sk_func s)), s))"

text \<open>The machine with the debug port and the locks of the printing routines.\<close>

record console = tasks +
  port_e9 :: "u8 list"
  PrintLock :: lock
  PrintLock2 :: lock
  print_block :: u32

definition run_print ::
    "printf_function_t \<Rightarrow> u8 list \<Rightarrow> u64 list \<Rightarrow> 'x console_scheme \<Rightarrow> (u32 \<times> 'x console_scheme) exec" where
  "run_print func format args h =
     bindr (vsnprintf_internal format args
              \<lparr>sk_func = func, sk_mem = km_mem (lh_k h), sk_port = port_e9 h\<rparr>) (\<lambda>(ret, s).
       Inr (ret, h\<lparr>lh_k := (lh_k h)\<lparr>km_mem := sk_mem s\<rparr>, port_e9 := sk_port s\<rparr>))"

definition sprintf :: "u64 \<Rightarrow> u8 list \<Rightarrow> u64 list \<Rightarrow> 'x console_scheme \<Rightarrow> (u32 \<times> 'x console_scheme) exec" where
  "sprintf str format args h =
     bindr (spin_acquire_exec (PrintLock h)) (\<lambda>b.
     bindr (run_print \<lparr>pf_write = Printf_write_char_str, pf_data = str, pf_currentPos = 0, pf_size = 0\<rparr>
              format args (h\<lparr>PrintLock := b\<rparr>)) (\<lambda>(ret, h).
       Inr (ret, h\<lparr>PrintLock := UNLOCKED\<rparr>)))"

definition printf :: "u8 list \<Rightarrow> u64 list \<Rightarrow> 'x console_scheme \<Rightarrow> (u32 \<times> 'x console_scheme) exec" where
  "printf format args h =
     bindr (spin_acquire_exec (PrintLock h)) (\<lambda>b.
     bindr (run_print \<lparr>pf_write = Printf_write_char_e8, pf_data = 0, pf_currentPos = 0, pf_size = 0\<rparr>
              format args (h\<lparr>PrintLock := b\<rparr>)) (\<lambda>(ret, h).
       Inr (ret, h\<lparr>PrintLock := UNLOCKED\<rparr>)))"

definition printf_scheduler :: "u8 list \<Rightarrow> u64 list \<Rightarrow> 'x console_scheme \<Rightarrow> (u32 \<times> 'x console_scheme) exec" where
  "printf_scheduler format args h =
     bindr (spin_acquire_exec (PrintLock2 h)) (\<lambda>b.
     bindr (run_print \<lparr>pf_write = Printf_write_char_e8, pf_data = 0, pf_currentPos = 0, pf_size = 0\<rparr>
              format args (h\<lparr>PrintLock2 := b\<rparr>)) (\<lambda>(ret, h).
       Inr (ret, h\<lparr>PrintLock2 := UNLOCKED\<rparr>)))"

definition qemu_debug_puts_urgent :: "u64 \<Rightarrow> 'x console_scheme \<Rightarrow> 'x console_scheme exec" where
  "qemu_debug_puts_urgent str h =
     (case strlen (km_mem (lh_k h)) (phys_of str) of
        None \<Rightarrow> Inl HaltLoop
      | Some n \<Rightarrow> Inr (h\<lparr>port_e9 := port_e9 h @ bytes_at (km_mem (lh_k h)) (phys_of str) n,
          print_block := snd (locked_dec (snd (locked_inc (print_block h))))\<rparr>))"

section \<open>Digits and their value\<close>

text \<open>The value of a number written with the most significant digit first.\<close>

definition digit_value :: "u8 \<Rightarrow> nat" where
  "digit_value c = (if c < 0x41 then unat (c - 0x30) else unat (c - 0x41) + 10)"

fun number_value :: "nat \<Rightarrow> u8 list \<Rightarrow> nat" where
  "number_value b [] = 0"
| "number_value b (c # cs) = digit_value c * b ^ length cs + number_value b cs"

lemma number_value_append:
  "number_value b (cs @ ds) = number_value b cs * b ^ length ds + number_value b ds"
  by (induction cs) (simp_all add: algebra_simps power_add)

lemma digit_value_char: "d < 16 \<Longrightarrow> digit_value (digit_char (of_nat d)) = d"
proof -
  assume "d < 16"
  then have "d \<in> set [0..<16]" by simp
  moreover have "\<forall>d \<in> set [0..<16]. digit_value (digit_char (of_nat d)) = d"
    by (simp add: upt_rec digit_value_def digit_char_def print_flags)
  ultimately show ?thesis by blast
qed

definition max_digits :: "nat \<Rightarrow> nat" where
  "max_digits b = (if b = 2 then 64 else if b = 8 then 22 else if b = 10 then 20 else 16)"

lemma ntoa_loop_digits:
  assumes "unat base = b" "1 < b" "b \<le> 16" "length buf < 32"
  shows "\<exists>ds. ntoa_loop v base buf = buf @ ds \<and> length ds \<le> 32 - length buf \<and> ds \<noteq> [] \<and>
    number_value b (rev ds) = unat v mod b ^ (32 - length buf) \<and> (\<forall>k. unat v < b ^ Suc k \<longrightarrow> length ds \<le> Suc k)"
  using assms(4)
proof (induction "32 - length buf" arbitrary: v buf)
  case (Suc n)
  let ?d = "unat v mod b" and ?v = "v div ucast base"
  have b: "unat (ucast base :: u64) = b"
    using assms(1) unat_u32_less [of base] by (simp add: unsigned_ucast_eq take_bit_nat_eq_self)
  have d: "ucast (v mod ucast base) = (of_nat ?d :: u8)"
    using of_nat_unat [of "v mod ucast base", where 'a = "8 word"] by (simp add: b unat_mod)
  have v: "unat ?v = unat v div b"
    by (simp add: unat_div b)
  let ?c = "digit_char (of_nat ?d)"
  have c: "digit_value ?c = ?d"
    using assms(2,3) by (intro digit_value_char) (rule less_le_trans [OF mod_less_divisor], auto)
  have step: "ntoa_loop v base buf = (if ?v \<noteq> 0 \<and> length buf < 31 then ntoa_loop ?v base (buf @ [?c]) else buf @ [?c])"
    by (subst ntoa_loop.simps) (simp add: d Let_def)
  show ?case
  proof (cases "?v \<noteq> 0 \<and> length buf < 31")
    case True
    then obtain ds where ds: "ntoa_loop ?v base (buf @ [?c]) = (buf @ [?c]) @ ds" "length ds \<le> 31 - length buf"
        "number_value b (rev ds) = unat v div b mod b ^ (31 - length buf)"
        "\<forall>k. unat v div b < b ^ Suc k \<longrightarrow> length ds \<le> Suc k"
    proof -
      have "n = 32 - length (buf @ [?c])" "length (buf @ [?c]) < 32"
        using Suc.hyps(2) True by simp_all
      from Suc.hyps(1) [OF this, of ?v] that show thesis by (auto simp: v)
    qed
    have "unat v mod (b * b ^ n) = ?d + b * (unat v div b mod b ^ n)"
      using mod_mult2_eq [of "unat v" b "b ^ n"] by simp
    moreover have "32 - length buf = Suc n" "31 - length buf = n"
      using Suc.hyps(2) by simp_all
    moreover have "length ds \<le> k" if "unat v < b ^ Suc k" for k
    proof (cases k)
      case 0
      with that v True show ?thesis by (auto simp: unat_eq_zero)
    next
      case (Suc j)
      have "unat v div b < b ^ k"
        using that assms(2) by (simp add: less_mult_imp_div_less mult.commute)
      with ds(4) Suc show ?thesis by simp
    qed
    ultimately show ?thesis
      using ds(1-3) True step c by (auto simp: number_value_append)
  next
    case False
    have "unat v mod b ^ (32 - length buf) = ?d"
    proof (cases "?v = 0")
      case True
      then have "unat v < b"
        using v assms(2) by (metis div_eq_0_iff not_one_less_zero unat_0)
      moreover have "b ^ 1 \<le> b ^ (32 - length buf)"
        using assms(2) Suc.prems by (intro power_increasing) auto
      ultimately show ?thesis by simp
    next
      case False
      with \<open>\<not> (?v \<noteq> 0 \<and> length buf < 31)\<close> Suc.prems have "32 - length buf = 1"
        by simp
      then show ?thesis by simp
    qed
    then show ?thesis
      using False step c Suc.prems by (intro exI [of _ "[?c]"]) auto
  qed
qed simp

section \<open>What reaches the sink\<close>

lemma write_all_append: "write_all (cs @ ds) s = write_all ds (write_all cs s)"
  by (induction cs arbitrary: s) simp_all

lemma write_spaces_all: "write_spaces n s = write_all (replicate n 0x20) s"
  by (induction n arbitrary: s) simp_all

lemma write_all_e8:
  assumes "pf_write (sk_func s) = Printf_write_char_e8" "pf_size (sk_func s) = 0"
  shows "write_all cs s = s\<lparr>sk_port := sk_port s @ cs,
    sk_func := (sk_func s)\<lparr>pf_currentPos := pf_currentPos (sk_func s) + of_nat (length cs)\<rparr>\<rparr>"
  using assms
  by (induction cs arbitrary: s) (simp_all add: fwrite_def printf_write_char_e8_def Let_def algebra_simps)

lemma ntoa_format_plain:
  assumes "\<not> has flags PRINT_FLAG_LEFT" "\<not> has flags PRINT_FLAG_ZEROPAD" "\<not> has flags PRINT_FLAG_HASH"
  shows "ntoa_format buf negative base 0 0 flags s = write_all (rev (sign_prefix negative flags buf)) s"
  using assms by (simp add: ntoa_format_def pad_zeros_def hash_prefix_def out_rev_def pad_loop.simps [of 0])

lemma ucast_of_nat_u32: "(ucast (of_nat n :: u64) :: u32) = of_nat n"
  by (rule word_unat_eq_iff [THEN iffD2])
    (simp add: unsigned_ucast_eq unat_of_nat take_bit_nat_def mod_mod_cancel)

lemma printf_run:
  assumes "PrintLock h" "\<And>s. vsn_loop fmt args s = Inr (write_all cs s)"
  shows "printf fmt args h = Inr (of_nat (length cs + 1), h\<lparr>port_e9 := port_e9 h @ cs @ [0]\<rparr>)"
proof -
  have "vsnprintf_internal fmt args s = (let s = write_all (cs @ [0]) s in Inr (ucast (pf_currentPos (sk_func s)), s))" for s
    by (simp add: vsnprintf_internal_def assms(2) write_all_append Let_def)
  moreover have "h\<lparr>lh_k := (lh_k h)\<lparr>km_mem := km_mem (lh_k h)\<rparr>, port_e9 := p, PrintLock := True\<rparr> = h\<lparr>port_e9 := p\<rparr>" for p
    using assms(1) by (intro console.equality) simp_all
  ultimately show ?thesis
    using assms(1) ucast_of_nat_u32 [of "length cs + 1"]
    by (simp add: printf_def run_print_def write_all_e8 Let_def)
qed

lemma unat_abs_sint: "unat (if v <s 0 then - v else v) = nat \<bar>sint v\<bar>" for v :: u64
proof -
  have bnd: "\<bar>sint v\<bar> < 18446744073709551616"
    using sint_ge [of v] sint_lt [of v] by simp
  have "(if v <s 0 then - v else v) = word_of_int \<bar>sint v\<bar>"
    by (simp add: word_sless_alt)
  also have "unat \<dots> = nat \<bar>sint v\<bar>"
    using bnd by (simp add: unat_eq_nat_uint uint_word_of_int)
  finally show ?thesis .
qed

text \<open>The run of the directive \<^verbatim>\<open>%l\<close> followed by a number conversion.\<close>

lemma directive_long:
  assumes "c \<in> {0x64, 0x75, 0x78, 0x58, 0x6F, 0x62}"
  shows "directive [0x6C, c, 0] (v # args) s = Inr ([0], args,
     ntoa_format (ntoa_loop (if c = 0x64 \<and> v <s 0 then - v else v) (conv_base c) [])
       (c = 0x64 \<and> v <s 0) (conv_base c) 0 0 (if c = 0x58 then 0x500 else 0x100) s)"
proof -
  have "v = 0" if "\<not> 0 <s v" "\<not> v <s 0"
    using that by (meson signed.neqE)
  then have sg: "(if 0 <s v then v else 0 - v) = (if v <s 0 then - v else v)"
    by (auto dest: signed.less_asym)
  show ?thesis
    using assms
    by (elim insertE emptyE)
      (simp_all add: directive_def parse_width_def parse_precision_def parse_length_def peek_def isdigit_def convert_def
        va_arg_def conv_signed_def conv_unsigned_def conv_flags_def conv_base_def has_def print_flags sg
        ntoa_long_def ntoa_long_long_def Let_def)
qed

lemma vsn_long:
  assumes "c \<in> {0x64, 0x75, 0x78, 0x58, 0x6F, 0x62}"
  shows "vsn_loop [0x25, 0x6C, c, 0] (v # args) s = Inr (write_all (rev (sign_prefix (c = 0x64 \<and> v <s 0)
       (if c = 0x58 then 0x500 else 0x100)
       (ntoa_loop (if c = 0x64 \<and> v <s 0 then - v else v) (conv_base c) []))) s)"
  by (simp add: directive_long [OF assms] ntoa_format_plain has_def print_flags)


definition no_console :: console where
  "no_console = tasks.extend no_tasks
     \<lparr>port_e9 = [], PrintLock = True, PrintLock2 = True, print_block = 0\<rparr>"


text \<open>
  A format that ends in a lone percent sign makes the parser step over the terminating zero: it writes the zero
  and goes on reading behind the array.
\<close>

lemma vsn_trailing_percent:
  "\<forall>c\<in>set cs. c \<noteq> 0 \<and> c \<noteq> 0x25 \<Longrightarrow> vsn_loop (cs @ [0x25, 0]) args s = Inl WildAccess"
  by (induction cs arbitrary: s)
    (simp_all add: directive_def parse_width_def parse_precision_def parse_length_def peek_def isdigit_def convert_def)

end
