(* ===== verification/Gentree.thy ===== *)
theory Gentree
  imports Printf
begin

text \<open>
  The general trees at the end of the list part of \<^verbatim>\<open>kernel/utils/lists.c\<close>. A tree node carries a value and
  the list of its children; nodes and tree headers are typed stores over the addresses of the kernel heap,
  the lists of children are the lists of theory \<open>Lists\<close>.
\<close>

record gentree_node_t =
  gn_value :: u64
  gn_children :: u64

record gentree_t =
  gt_root :: u64
  gt_lock :: lock

record trees = console +
  tr_nodes :: "u64 \<rightharpoonup> gentree_node_t"
  tr_trees :: "u64 \<rightharpoonup> gentree_t"

section \<open>Operations\<close>

definition gentree_create :: "'x trees_scheme \<Rightarrow> (u64 \<times> 'x trees_scheme) exec" where
  "gentree_create h = bindr (kmalloc 40 (lh_k h)) (\<lambda>(tree, k).
     if tree = 0 then Inl NullDeref
     else Inr (tree, h\<lparr>lh_k := k, tr_trees := (tr_trees h)(tree \<mapsto> \<lparr>gt_root = 0, gt_lock = UNLOCKED\<rparr>)\<rparr>))"

definition gentree_node_create :: "u64 \<Rightarrow> 'x trees_scheme \<Rightarrow> (u64 \<times> 'x trees_scheme) exec" where
  "gentree_node_create val h =
     bindr (kmalloc 16 (lh_k h)) (\<lambda>(node, k).
     if node = 0 then Inl NullDeref
     else
       bindr (list_create (h\<lparr>lh_k := k\<rparr>)) (\<lambda>(children, h).
         Inr (node, h\<lparr>tr_nodes := (tr_nodes h)(node \<mapsto> \<lparr>gn_value = val, gn_children = children\<rparr>)\<rparr>)))"

definition set_tree :: "u64 \<Rightarrow> (gentree_t \<Rightarrow> gentree_t) \<Rightarrow> 'x trees_scheme \<Rightarrow> 'x trees_scheme exec" where
  "set_tree t f h = bindr (modify t f (tr_trees h)) (\<lambda>m. Inr (h\<lparr>tr_trees := m\<rparr>))"

definition tree_lock :: "u64 \<Rightarrow> 'x trees_scheme \<Rightarrow> 'x trees_scheme exec" where
  "tree_lock t h = bindr (load (tr_trees h) t) (\<lambda>T.
     bindr (spin_acquire_exec (gt_lock T)) (\<lambda>b. set_tree t (\<lambda>T. T\<lparr>gt_lock := b\<rparr>) h))"

definition tree_unlock :: "u64 \<Rightarrow> 'x trees_scheme \<Rightarrow> 'x trees_scheme exec" where
  "tree_unlock t h = set_tree t (\<lambda>T. T\<lparr>gt_lock := UNLOCKED\<rparr>) h"

definition gentree_insert :: "u64 \<Rightarrow> u64 \<Rightarrow> u64 \<Rightarrow> 'x trees_scheme \<Rightarrow> (u64 \<times> 'x trees_scheme) exec" where
  "gentree_insert tree subroot val h =
     bindr (tree_lock tree h) (\<lambda>h.
     bindr (gentree_node_create val h) (\<lambda>(node, h).
     bindr (load (tr_trees h) tree) (\<lambda>T.
     bindr (if gt_root T = 0 then set_tree tree (\<lambda>T. T\<lparr>gt_root := node\<rparr>) h
            else bindr (load (tr_nodes h) subroot) (\<lambda>S.
              bindr (list_push_front (gn_children S) node h) (\<lambda>(_, h). Inr h))) (\<lambda>h.
     bindr (tree_unlock tree h) (\<lambda>h. Inr (node, h))))))"

text \<open>
  The search for a parent. \<^verbatim>\<open>list_contains\<close> returns the length of the list when the value is absent, so the
  comparison with \<^verbatim>\<open>-1\<close> holds for every node and the loop over the children is never entered with lists
  that are shorter than \<open>2 ^ 64 - 1\<close>. A child's answer is the parent and the index; \<open>None\<close> for no index
  pointer is not needed, since the only caller passes one.
\<close>

partial_function (option) get_parent_loop ::
    "u64 \<Rightarrow> u64 \<Rightarrow> u64 \<Rightarrow> u64 \<Rightarrow> u64 \<Rightarrow> 'x trees_scheme \<Rightarrow> (u64 \<times> u64 \<times> 'x trees_scheme) exec option" where
  "get_parent_loop node subroot ch phase index h =
     (case load (tr_nodes h) subroot of Inl e \<Rightarrow> Some (Inl e) | Inr S \<Rightarrow>
      if phase = 0 then
        (case list_contains (gn_children S) node h of Inl e \<Rightarrow> Some (Inl e) | Inr (currentIndex, h) \<Rightarrow>
         if currentIndex \<noteq> -1 then Some (Inr (subroot, currentIndex, h))
         else (case list_lock (gn_children S) h of Inl e \<Rightarrow> Some (Inl e) | Inr h \<Rightarrow>
               (case load (lh_lists h) (gn_children S) of Inl e \<Rightarrow> Some (Inl e) | Inr L \<Rightarrow>
                get_parent_loop node subroot (l_root L) 1 index h)))
      else if ch = 0 then
        (case list_unlock (gn_children S) h of Inl e \<Rightarrow> Some (Inl e) | Inr h \<Rightarrow> Some (Inr (0, index, h)))
      else
        (case load (lh_nodes h) ch of Inl e \<Rightarrow> Some (Inl e) | Inr N \<Rightarrow>
        (case list_unlock (gn_children S) h of Inl e \<Rightarrow> Some (Inl e) | Inr h \<Rightarrow>
        Option.bind (get_parent_loop node (n_value N) 0 0 index h) (\<lambda>r. case r of
           Inl e \<Rightarrow> Some (Inl e)
         | Inr (returnNode, index, h) \<Rightarrow>
           (case list_lock (gn_children S) h of Inl e \<Rightarrow> Some (Inl e) | Inr h \<Rightarrow>
            if returnNode \<noteq> 0 then
              (case list_unlock (gn_children S) h of Inl e \<Rightarrow> Some (Inl e)
               | Inr h \<Rightarrow> Some (Inr (returnNode, index, h)))
            else (case load (lh_nodes h) ch of Inl e \<Rightarrow> Some (Inl e) | Inr N \<Rightarrow>
              get_parent_loop node subroot (n_next N) 1 index h))))))"

definition gentree_get_parent ::
    "u64 \<Rightarrow> u64 \<Rightarrow> u64 \<Rightarrow> 'x trees_scheme \<Rightarrow> (u64 \<times> u64 \<times> 'x trees_scheme) exec" where
  "gentree_get_parent tree node index h =
     bindr (tree_lock tree h) (\<lambda>h.
     bindr (load (tr_trees h) tree) (\<lambda>T.
     bindr (tree_unlock tree h) (\<lambda>h.
     if node = gt_root T then Inr (0, index, h)
     else run_loop (get_parent_loop node (gt_root T) 0 0 index h))))"

definition gentree_remove :: "u64 \<Rightarrow> u64 \<Rightarrow> 'x trees_scheme \<Rightarrow> 'x trees_scheme exec" where
  "gentree_remove tree node h =
     bindr (gentree_get_parent tree node (-1) h) (\<lambda>(parent, index, h).
     if parent \<noteq> 0 then
       bindr (load (tr_nodes h) parent) (\<lambda>P.
       bindr (list_remove_indexed (gn_children P) index h) (\<lambda>(nodeToFree, h).
       bindr (kfree nodeToFree (lh_k h)) (\<lambda>k.
         Inr (h\<lparr>lh_k := k, tr_nodes := (tr_nodes h)(nodeToFree := None)\<rparr>))))
     else Inr h)"

section \<open>Removal\<close>

lemma index_of_absent: "v \<notin> snd ` set ns \<Longrightarrow> index_of v ns = length ns"
  by (induction ns) (auto simp: index_of_def)

lemma get_parent_first:
  assumes "root \<noteq> 0" "tr_nodes h root = Some R" "list_ok h (gn_children R) ns" "length ns < 2 ^ 64 - 1"
  shows "get_parent_loop node root 0 0 index h = Some (Inr (root, of_nat (index_of node ns), h))"
proof -
  have "index_of node ns \<le> length ns"
    by (simp add: index_of_def length_takeWhile_le)
  then have "unat (of_nat (index_of node ns) :: u64) \<noteq> unat (- 1 :: u64)"
    using assms(4) by (simp add: unat_minus1)
  then have "of_nat (index_of node ns) \<noteq> (- 1 :: u64)" by metis
  then show ?thesis
    using assms(1,2) by (subst get_parent_loop.simps) (simp add: list_contains_ok [OF assms(3)])
qed

text \<open>The position of a child in the list of children, and what is left without it.\<close>

lemma index_of_present:
  assumes "v \<in> snd ` set ns"
  shows "index_of v ns < length ns" "snd (ns ! index_of v ns) = v"
proof -
  show l: "index_of v ns < length ns"
    using assms by (induction ns) (auto simp: index_of_def)
  show "snd (ns ! index_of v ns) = v"
    using nth_length_takeWhile [of "\<lambda>x. snd x \<noteq> v" ns] l by (simp add: index_of_def)
qed

lemma lheap_wf_release:
  assumes "lheap_wf X h A" "x \<in> X"
  obtains k where "kfree x (lh_k h) = Inr k" "lheap_wf (X - {x}) (h\<lparr>lh_k := k\<rparr>) A"
proof -
  let ?P = "dom A \<union> list_nodes A"
  have own: "heap_owns (lh_k h) (?P \<union> X)" and dis: "X \<inter> ?P = {}"
    using assms(1) by (simp_all add: lheap_wf_def)
  obtain k where k: "kfree x (lh_k h) = Inr k" "heap_owns k (?P \<union> X - {x})"
    using kpool.pool_free [OF own] assms(2) by blast
  moreover have "?P \<union> X - {x} = ?P \<union> (X - {x})"
    using dis assms(2) by blast
  ultimately have "lheap_wf (X - {x}) (h\<lparr>lh_k := k\<rparr>) A"
    using assms(1) by (auto simp: lheap_wf_def list_ok_def)
  with k(1) show thesis by (rule that)
qed

text \<open>
  C37. \<^verbatim>\<open>gentree_remove\<close> only works for children of the root. The search compares the index
  \<^verbatim>\<open>list_contains\<close> returns with \<^verbatim>\<open>-1\<close>, a value it never returns, so the root counts as the parent of every other node. A
  child of the root is found at its place, taken out of the list of children and released; for a node deeper in the tree,
  or one that is not in the tree at all, the index is the length of that list and the removal dereferences \<^verbatim>\<open>NULL\<close>.
\<close>

theorem gentree_remove_root_only:
  assumes "tree \<noteq> 0" "tr_trees h tree = Some \<lparr>gt_root = root, gt_lock = True\<rparr>" "root \<noteq> 0" "node \<noteq> root"
    and "tr_nodes h root = Some R" "list_ok h (gn_children R) ns" "length ns < 2 ^ 64 - 1"
  shows "gentree_get_parent tree node (-1) h = Inr (root, of_nat (index_of node ns), h) \<and>
    (node \<notin> snd ` set ns \<longrightarrow> gentree_remove tree node h = Inl NullDeref) \<and>
    (\<forall>X A. lheap_wf X h A \<and> A (gn_children R) = Some ns \<and> node \<in> snd ` set ns \<and> node \<in> X \<longrightarrow>
       (\<exists>h'. gentree_remove tree node h = Inr h' \<and> tr_nodes h' = (tr_nodes h)(node := None) \<and>
          lheap_wf (X - {node}) h' (A(gn_children R \<mapsto> take (index_of node ns) ns @ drop (Suc (index_of node ns)) ns))))"
proof -
  let ?i = "index_of node ns"
  have "h\<lparr>tr_trees := (tr_trees h)(tree \<mapsto> \<lparr>gt_root = root, gt_lock = True\<rparr>)\<rparr> = h"
    using assms(2) by (intro trees.equality) (simp_all add: fun_upd_idem)
  then have par: "gentree_get_parent tree node (-1) h = Inr (root, of_nat ?i, h)"
    using assms get_parent_first [OF assms(3,5-7)]
    by (simp add: gentree_get_parent_def tree_lock_def tree_unlock_def set_tree_def)
  moreover have "gentree_remove tree node h = Inl NullDeref" if "node \<notin> snd ` set ns"
  proof -
    have "list_remove_indexed (gn_children R) (of_nat (length ns)) h = Inl NullDeref"
      using assms(7) by (intro list_remove_indexed_out_of_range [OF assms(6)]) simp_all
    then show ?thesis
      using par assms(3,5) that by (simp add: gentree_remove_def index_of_absent)
  qed
  moreover have "\<exists>h'. gentree_remove tree node h = Inr h' \<and> tr_nodes h' = (tr_nodes h)(node := None) \<and>
      lheap_wf (X - {node}) h' (A(gn_children R \<mapsto> take ?i ns @ drop (Suc ?i) ns))"
    if child: "node \<in> snd ` set ns" "node \<in> X" and wf: "lheap_wf X h A" "A (gn_children R) = Some ns" for X A
  proof -
    note i = index_of_present [OF child(1)]
    have ui: "unat (of_nat ?i :: u64) = ?i"
      using i(1) assms(7) by (intro unat_of_nat_u64) simp
    have "length ns < 2 ^ 64"
      using assms(7) by linarith
    then obtain h1 where h1: "list_remove_indexed (gn_children R) (of_nat ?i) h = Inr (node, h1)"
        "lheap_wf X h1 (A(gn_children R \<mapsto> take ?i ns @ drop (Suc ?i) ns))" "lheap.more h1 = lheap.more h"
      using list_remove_indexed_ok [OF wf, of "of_nat ?i"] i unfolding ui by auto
    obtain k where k: "kfree node (lh_k h1) = Inr k"
        "lheap_wf (X - {node}) (h1\<lparr>lh_k := k\<rparr>) (A(gn_children R \<mapsto> take ?i ns @ drop (Suc ?i) ns))"
      by (rule lheap_wf_release [OF h1(2) child(2)])
    have same: "tr_nodes h1 = tr_nodes h"
      using h1(3) by (cases h, cases h1) simp
    let ?h = "h1\<lparr>lh_k := k, tr_nodes := (tr_nodes h1)(node := None)\<rparr>"
    have "gentree_remove tree node h = Inr ?h"
      using par assms(3,5) h1(1) k(1) by (simp add: gentree_remove_def)
    moreover have "lheap_wf (X - {node}) ?h (A(gn_children R \<mapsto> take ?i ns @ drop (Suc ?i) ns))"
      using k(2) by (simp add: lheap_wf_def list_ok_def)
    ultimately show ?thesis
      using same by (intro exI [of _ ?h]) simp
  qed
  ultimately show ?thesis by blast
qed

text \<open>A tree whose root has one child.\<close>

definition small_tree :: trees where
  "small_tree = console.extend (no_console\<lparr>
       lh_lists := [0x4000 \<mapsto> \<lparr>l_length = 1, l_root = 0x5000, l_tail = 0x5000, l_lock = True\<rparr>],
       lh_nodes := [0x5000 \<mapsto> \<lparr>n_value = 0x6000, n_previous = 0, n_next = 0\<rparr>]\<rparr>)
     \<lparr>tr_nodes = [0x3000 \<mapsto> \<lparr>gn_value = 0x7000, gn_children = 0x4000\<rparr>],
      tr_trees = [0x2000 \<mapsto> \<lparr>gt_root = 0x3000, gt_lock = True\<rparr>]\<rparr>"

text \<open>The same with its list, the node of the list and the child on the heap.\<close>

definition heap_tree :: trees where
  "heap_tree = console.extend (no_console\<lparr>lh_k := lh_k three_lheap,
       lh_lists := [block_addr 4 \<mapsto> \<lparr>l_length = 1, l_root = block_addr 6, l_tail = block_addr 6, l_lock = True\<rparr>],
       lh_nodes := [block_addr 6 \<mapsto> \<lparr>n_value = block_addr 8, n_previous = 0, n_next = 0\<rparr>]\<rparr>)
     \<lparr>tr_nodes = [0x3000 \<mapsto> \<lparr>gn_value = 0x7000, gn_children = block_addr 4\<rparr>],
      tr_trees = [0x2000 \<mapsto> \<lparr>gt_root = 0x3000, gt_lock = True\<rparr>]\<rparr>"

lemma heap_tree_wf: "lheap_wf {block_addr 8} heap_tree [block_addr 4 \<mapsto> [(block_addr 6, block_addr 8)]]"
proof -
  have bl: "block_addr 4 = 0xFFFF800000005000" "block_addr 6 = 0xFFFF800000007000" "block_addr 8 = 0xFFFF800000009000"
    by (simp_all add: block_addr_def MEM_PHYS_OFFSET_def)
  have "list_ok heap_tree (block_addr 4) [(block_addr 6, block_addr 8)]"
    by (simp add: list_ok_def heap_tree_def console.defs bl)
  moreover have "heap_owns (lh_k heap_tree) {block_addr 4, block_addr 6, block_addr 8}"
    unfolding heap_owns_def
    by (rule exI [of _ "{(4, 2), (6, 2), (8, 2), (10, 2)}"]) (use three_heap_inv in \<open>simp add: heap_tree_def console.defs\<close>)
  ultimately show ?thesis
    by (auto simp: lheap_wf_def list_nodes_def bl insert_commute split: if_splits)
qed

theorem gentree_remove_root_only_witness:
  "gentree_remove 0x2000 0x8000 heap_tree = Inl NullDeref \<and>
   (\<exists>h'. gentree_remove 0x2000 (block_addr 8) heap_tree = Inr h' \<and> lheap_wf {} h' [block_addr 4 \<mapsto> []])"
proof -
  have st: "tr_trees heap_tree 0x2000 = Some \<lparr>gt_root = 0x3000, gt_lock = True\<rparr>"
      "tr_nodes heap_tree 0x3000 = Some \<lparr>gn_value = 0x7000, gn_children = block_addr 4\<rparr>"
      "list_ok heap_tree (gn_children \<lparr>gn_value = 0x7000, gn_children = block_addr 4\<rparr>) [(block_addr 6, block_addr 8)]"
    using lheap_wf_list [OF heap_tree_wf] by (simp_all add: heap_tree_def console.defs)
  have "block_addr 8 \<noteq> 0x8000" "block_addr 8 \<noteq> 0x3000"
    by (simp_all add: block_addr_def MEM_PHYS_OFFSET_def)
  then have "gentree_remove 0x2000 0x8000 heap_tree = Inl NullDeref"
    using gentree_remove_root_only [OF _ st(1) _ _ st(2,3), of "0x8000"] by simp
  moreover
  have "\<exists>h'. gentree_remove 0x2000 (block_addr 8) heap_tree = Inr h' \<and> tr_nodes h' = (tr_nodes heap_tree)(block_addr 8 := None) \<and>
      lheap_wf ({block_addr 8} - {block_addr 8}) h' ([block_addr 4 \<mapsto> [(block_addr 6, block_addr 8)]](
        gn_children \<lparr>gn_value = 0x7000, gn_children = block_addr 4\<rparr> \<mapsto>
        take (index_of (block_addr 8) [(block_addr 6, block_addr 8)]) [(block_addr 6, block_addr 8)] @
        drop (Suc (index_of (block_addr 8) [(block_addr 6, block_addr 8)])) [(block_addr 6, block_addr 8)]))"
    by (rule gentree_remove_root_only [OF _ st(1) _ \<open>block_addr 8 \<noteq> 0x3000\<close> st(2,3), THEN conjunct2, THEN conjunct2, rule_format])
      (use heap_tree_wf in simp_all)
  then have "\<exists>h'. gentree_remove 0x2000 (block_addr 8) heap_tree = Inr h' \<and> lheap_wf {} h' [block_addr 4 \<mapsto> []]"
    by (auto simp: index_of_def)
  ultimately show ?thesis ..
qed

end
