(* ===== verification/Vfs.thy ===== *)
theory Vfs
  imports Gentree
begin

text \<open>
  The virtual file system switch, \<^verbatim>\<open>kernel/fs/vfs.c\<close>. Nodes, mount entries and directory entries are typed stores
  over kernel heap addresses; the mount tree is a tree of theory \<open>Gentree\<close>. Character strings are the lists of
  their characters before the terminating zero; a pointer into the path buffer of \<^verbatim>\<open>kopen\<close> is the pair of its
  offset and the string that starts there, \<open>None\<close> is \<^verbatim>\<open>NULL\<close>. The function pointers of a node are names of the
  functions the file systems install, and \<open>vfs_code\<close> says what a call of each of them does.
\<close>

section \<open>Data\<close>

datatype fs_fn = No_fn
  | Pipe_read | Pipe_write | Pipe_close
  | Devfs_finddir | Devfs_print_tree | Devfs_log_write | Devfs_log_ioctl
  | Partfs_read | Partfs_write | Partfs_lseek
  | Fat32_read | Fat32_lseek | Fat32_readdir | Fat32_finddir | Fat32_print_tree | Fat32_mount
  | Ext2_read | Ext2_lseek | Ext2_readdir | Ext2_finddir | Ext2_print_tree | Ext2_mount
  | Other_fn nat

record vfs_functions_t =
  fn_open :: fs_fn
  fn_close :: fs_fn
  fn_read :: fs_fn
  fn_write :: fs_fn
  fn_lseek :: fs_fn
  fn_ioctl :: fs_fn
  fn_finddir :: fs_fn
  fn_readdir :: fs_fn
  fn_create :: fs_fn
  fn_mount :: fs_fn
  fn_print_tree :: fs_fn

definition no_functions :: vfs_functions_t where
  "no_functions = \<lparr>fn_open = No_fn, fn_close = No_fn, fn_read = No_fn, fn_write = No_fn, fn_lseek = No_fn,
     fn_ioctl = No_fn, fn_finddir = No_fn, fn_readdir = No_fn, fn_create = No_fn, fn_mount = No_fn,
     fn_print_tree = No_fn\<rparr>"

record vfs_node_t =
  vn_name :: "u8 list"
  vn_data :: u64
  vn_flags :: u32
  vn_internIndex :: u64
  vn_size :: u64
  vn_referenceCount :: u64
  vn_offset :: u64
  vn_status :: u32
  vn_functions :: vfs_functions_t

text \<open>A node in freshly allocated memory, which \<^verbatim>\<open>pmm_alloc\<close> has cleared.\<close>

definition zero_node :: vfs_node_t where
  "zero_node = \<lparr>vn_name = [], vn_data = 0, vn_flags = 0, vn_internIndex = 0, vn_size = 0, vn_referenceCount = 0,
     vn_offset = 0, vn_status = 0, vn_functions = no_functions\<rparr>"

record vfs_entry_t =
  ve_name :: "u8 list"
  ve_node :: u64

record vsf_dirent_t =
  d_ino :: u64
  d_off :: u64
  d_reclen :: u16
  d_type :: u8
  d_name :: "u8 list"

record devfs_node_t =
  dn_name :: "u8 list"
  dn_data :: u64
  dn_flags :: u32
  dn_internIndex :: u64
  dn_functions :: vfs_functions_t

record devfs_entry_t =
  de_name :: "u8 list"
  de_node :: u64

record vfs = trees +
  vf_nodes :: "u64 \<rightharpoonup> vfs_node_t"
  vf_entries :: "u64 \<rightharpoonup> vfs_entry_t"
  vf_dirents :: "u64 \<rightharpoonup> vsf_dirent_t"
  VFSTree :: u64
  df_nodes :: "u64 \<rightharpoonup> devfs_node_t"
  df_entries :: "u64 \<rightharpoonup> devfs_entry_t"
  DevFSList :: u64

definition VFS_FILE :: u32 where "VFS_FILE = 0x01"
definition VFS_DIRECTORY :: u32 where "VFS_DIRECTORY = 0x02"
definition VFS_FILESYSTEM :: u32 where "VFS_FILESYSTEM = 0x04"
definition SEEK_SET :: u64 where "SEEK_SET = 0"
definition SEEK_CUR :: u64 where "SEEK_CUR = 1"
definition SEEK_END :: u64 where "SEEK_END = 2"
definition POLLIN :: u32 where "POLLIN = 0x01"
definition POLLOUT :: u32 where "POLLOUT = 0x02"
definition O_CREAT :: u32 where "O_CREAT = 0x0010"
definition O_NONBLOCK :: u64 where "O_NONBLOCK = 0x0400"
definition DT_DIR :: u8 where "DT_DIR = 4"
definition DT_REG :: u8 where "DT_REG = 8"

definition set_vnode :: "u64 \<Rightarrow> (vfs_node_t \<Rightarrow> vfs_node_t) \<Rightarrow> 'x vfs_scheme \<Rightarrow> 'x vfs_scheme exec" where
  "set_vnode n f h = bindr (modify n f (vf_nodes h)) (\<lambda>m. Inr (h\<lparr>vf_nodes := m\<rparr>))"

definition new_vnode :: "vfs_node_t \<Rightarrow> 'x vfs_scheme \<Rightarrow> (u64 \<times> 'x vfs_scheme) exec" where
  "new_vnode N h = bindr (kmalloc 1168 (lh_k h)) (\<lambda>(p, k).
     if p = 0 then Inl NullDeref
     else Inr (p, h\<lparr>lh_k := k, vf_nodes := (vf_nodes h)(p \<mapsto> N)\<rparr>))"

section \<open>Strings\<close>

text \<open>String literals, and the block \<^verbatim>\<open>strdup\<close> allocates for a copy.\<close>

definition str :: "string \<Rightarrow> u8 list" where
  "str s = map of_char s"

definition dup :: "u8 list \<Rightarrow> 'x lheap_scheme \<Rightarrow> (u64 \<times> 'x lheap_scheme) exec" where
  "dup s h = bindr (kmalloc (of_nat (length s + 1)) (lh_k h)) (\<lambda>(p, k).
     if p = 0 then Inl NullDeref else Inr (p, h\<lparr>lh_k := k\<rparr>))"

definition release :: "u64 \<Rightarrow> 'x lheap_scheme \<Rightarrow> 'x lheap_scheme exec" where
  "release p h = bindr (kfree p (lh_k h)) (\<lambda>k. Inr (h\<lparr>lh_k := k\<rparr>))"

text \<open>\<^verbatim>\<open>strsep(&path, "/")\<close>: the token with its offset, and what is left in \<^verbatim>\<open>path\<close>.\<close>

type_synonym path = "(nat \<times> u8 list) option"

definition sep :: "path \<Rightarrow> path \<times> path" where
  "sep p = (case p of
     None \<Rightarrow> (None, None)
   | Some (i, s) \<Rightarrow>
       let t = takeWhile (\<lambda>c. c \<noteq> 0x2F) s in
       (Some (i, t), if length t < length s then Some (i + length t + 1, drop (length t + 1) s) else None))"

fun strstr_at :: "u8 list \<Rightarrow> u8 list \<Rightarrow> u8 list option" where
  "strstr_at [] t = (if t = [] then Some [] else None)"
| "strstr_at (c # s) t = (if take (length t) (c # s) = t then Some (c # s) else strstr_at s t)"

text \<open>A message on the debug port, as \<^verbatim>\<open>printf\<close> sends it.\<close>

definition say :: "u8 list \<Rightarrow> 'x console_scheme \<Rightarrow> 'x console_scheme exec" where
  "say s h = bindr (spin_acquire_exec (PrintLock h)) (\<lambda>_. Inr (h\<lparr>port_e9 := port_e9 h @ s @ [0]\<rparr>))"

section \<open>Calls through the function table\<close>

record 's vfs_code =
  call_open :: "fs_fn \<Rightarrow> u64 \<Rightarrow> u32 \<Rightarrow> 's \<Rightarrow> (u64 \<times> 's) exec"
  call_close :: "fs_fn \<Rightarrow> u64 \<Rightarrow> 's \<Rightarrow> (u64 \<times> 's) exec"
  call_read :: "fs_fn \<Rightarrow> u64 \<Rightarrow> u64 \<Rightarrow> u64 \<Rightarrow> 's \<Rightarrow> (u64 \<times> 's) exec"
  call_write :: "fs_fn \<Rightarrow> u64 \<Rightarrow> u64 \<Rightarrow> u64 \<Rightarrow> 's \<Rightarrow> (u64 \<times> 's) exec"
  call_lseek :: "fs_fn \<Rightarrow> u64 \<Rightarrow> u64 \<Rightarrow> u64 \<Rightarrow> 's \<Rightarrow> (u64 \<times> 's) exec"
  call_ioctl :: "fs_fn \<Rightarrow> u64 \<Rightarrow> u64 \<Rightarrow> u64 \<Rightarrow> 's \<Rightarrow> (u64 \<times> 's) exec"
  call_finddir :: "fs_fn \<Rightarrow> u64 \<Rightarrow> u8 list \<Rightarrow> u8 list option \<Rightarrow> 's \<Rightarrow> (u64 \<times> u8 list option \<times> 's) exec"
  call_readdir :: "fs_fn \<Rightarrow> u64 \<Rightarrow> u64 \<Rightarrow> 's \<Rightarrow> (u64 \<times> 's) exec"
  call_create :: "fs_fn \<Rightarrow> u64 \<Rightarrow> u8 list \<Rightarrow> u32 \<Rightarrow> 's \<Rightarrow> (u64 \<times> 's) exec"
  call_mount :: "fs_fn \<Rightarrow> u64 \<Rightarrow> u8 list \<Rightarrow> u64 \<Rightarrow> u8 list \<Rightarrow> u64 \<Rightarrow> 's \<Rightarrow> (u64 \<times> 's) exec"
  call_print_tree :: "fs_fn \<Rightarrow> u64 \<Rightarrow> u64 \<Rightarrow> 's \<Rightarrow> 's exec"

text \<open>The function pointer of a node; \<^verbatim>\<open>!node\<close> and a missing flag give no function.\<close>

definition node_fn :: "(vfs_functions_t \<Rightarrow> fs_fn) \<Rightarrow> u64 \<Rightarrow> 'x vfs_scheme \<Rightarrow> fs_fn exec" where
  "node_fn f node h = (if node = 0 then Inr No_fn
     else bindr (load (vf_nodes h) node) (\<lambda>N. Inr (f (vn_functions N))))"

definition node_fn_flag :: "u32 \<Rightarrow> (vfs_functions_t \<Rightarrow> fs_fn) \<Rightarrow> u64 \<Rightarrow> 'x vfs_scheme \<Rightarrow> fs_fn exec" where
  "node_fn_flag flag f node h = (if node = 0 then Inr No_fn
     else bindr (load (vf_nodes h) node) (\<lambda>N. Inr (if vn_flags N AND flag = 0 then No_fn else f (vn_functions N))))"

definition vfs_open :: "'x vfs_scheme vfs_code \<Rightarrow> u64 \<Rightarrow> u32 \<Rightarrow> 'x vfs_scheme \<Rightarrow> 'x vfs_scheme exec" where
  "vfs_open code node flags h = bindr (node_fn fn_open node h) (\<lambda>f.
     if f = No_fn then Inr h else bindr (call_open code f node flags h) (\<lambda>(_, h). Inr h))"

definition vfs_close :: "'x vfs_scheme vfs_code \<Rightarrow> u64 \<Rightarrow> 'x vfs_scheme \<Rightarrow> 'x vfs_scheme exec" where
  "vfs_close code node h = bindr (node_fn fn_close node h) (\<lambda>f.
     if f = No_fn then Inr h else bindr (call_close code f node h) (\<lambda>(_, h). Inr h))"

definition vfs_read :: "'x vfs_scheme vfs_code \<Rightarrow> u64 \<Rightarrow> u64 \<Rightarrow> u64 \<Rightarrow> 'x vfs_scheme \<Rightarrow> (u64 \<times> 'x vfs_scheme) exec" where
  "vfs_read code node buffer sz h = bindr (node_fn fn_read node h) (\<lambda>f.
     if f = No_fn then Inr (-1, h) else call_read code f node buffer sz h)"

definition vfs_write :: "'x vfs_scheme vfs_code \<Rightarrow> u64 \<Rightarrow> u64 \<Rightarrow> u64 \<Rightarrow> 'x vfs_scheme \<Rightarrow> (u64 \<times> 'x vfs_scheme) exec" where
  "vfs_write code node buffer sz h = bindr (node_fn fn_write node h) (\<lambda>f.
     if f = No_fn then Inr (-1, h) else call_write code f node buffer sz h)"

definition vfs_lseek :: "'x vfs_scheme vfs_code \<Rightarrow> u64 \<Rightarrow> u64 \<Rightarrow> u64 \<Rightarrow> 'x vfs_scheme \<Rightarrow> (u64 \<times> 'x vfs_scheme) exec" where
  "vfs_lseek code node offset type h = bindr (node_fn fn_lseek node h) (\<lambda>f.
     if f = No_fn then Inr (-1, h) else call_lseek code f node offset type h)"

definition vfs_ioctl :: "'x vfs_scheme vfs_code \<Rightarrow> u64 \<Rightarrow> u64 \<Rightarrow> u64 \<Rightarrow> 'x vfs_scheme \<Rightarrow> (u64 \<times> 'x vfs_scheme) exec" where
  "vfs_ioctl code node request arg h = bindr (node_fn fn_ioctl node h) (\<lambda>f.
     if f = No_fn then Inr (-1, h) else call_ioctl code f node request arg h)"

definition vfs_finddir ::
    "'x vfs_scheme vfs_code \<Rightarrow> u64 \<Rightarrow> u8 list \<Rightarrow> u8 list option \<Rightarrow> 'x vfs_scheme \<Rightarrow> (u64 \<times> u8 list option \<times> 'x vfs_scheme) exec" where
  "vfs_finddir code node name path h = bindr (node_fn_flag VFS_DIRECTORY fn_finddir node h) (\<lambda>f.
     if f = No_fn then Inr (0, path, h) else call_finddir code f node name path h)"

definition vfs_readdir :: "'x vfs_scheme vfs_code \<Rightarrow> u64 \<Rightarrow> u64 \<Rightarrow> 'x vfs_scheme \<Rightarrow> (u64 \<times> 'x vfs_scheme) exec" where
  "vfs_readdir code node dirent h = bindr (node_fn_flag VFS_DIRECTORY fn_readdir node h) (\<lambda>f.
     if f = No_fn then Inr (-1, h) else call_readdir code f node dirent h)"

definition vfs_create :: "'x vfs_scheme vfs_code \<Rightarrow> u64 \<Rightarrow> u8 list \<Rightarrow> u32 \<Rightarrow> 'x vfs_scheme \<Rightarrow> (u64 \<times> 'x vfs_scheme) exec" where
  "vfs_create code node name flags h = bindr (node_fn_flag VFS_DIRECTORY fn_create node h) (\<lambda>f.
     if f = No_fn then Inr (0, h) else call_create code f node name flags h)"

definition vfs_node_mount ::
    "'x vfs_scheme vfs_code \<Rightarrow> u64 \<Rightarrow> u8 list \<Rightarrow> u64 \<Rightarrow> u8 list \<Rightarrow> u64 \<Rightarrow> 'x vfs_scheme \<Rightarrow> (u64 \<times> 'x vfs_scheme) exec" where
  "vfs_node_mount code node device flags path data h = bindr (node_fn_flag VFS_FILESYSTEM fn_mount node h) (\<lambda>f.
     if f = No_fn then Inr (-1, h) else call_mount code f node device flags path data h)"

section \<open>The mount tree\<close>

definition vfs_init_tree :: "'x vfs_scheme \<Rightarrow> 'x vfs_scheme exec" where
  "vfs_init_tree h =
     bindr (gentree_create h) (\<lambda>(tree, h).
     bindr (kmalloc 16 (lh_k h)) (\<lambda>(root, k).
     bindr (dup (str ''root'') (h\<lparr>VFSTree := tree, lh_k := k\<rparr>)) (\<lambda>(_, h).
     if root = 0 then Inl NullDeref
     else bindr (gentree_insert tree 0 root
                   (h\<lparr>vf_entries := (vf_entries h)(root \<mapsto> \<lparr>ve_name = str ''root'', ve_node = 0\<rparr>)\<rparr>)) (\<lambda>(_, h). Inr h))))"

text \<open>The entry of a tree node, and the \<^verbatim>\<open>foreach\<close> loop over the children.\<close>

definition entry_of :: "u64 \<Rightarrow> 'x vfs_scheme \<Rightarrow> (u64 \<times> vfs_entry_t) exec" where
  "entry_of node h = bindr (load (tr_nodes h) node) (\<lambda>G.
     bindr (load (vf_entries h) (gn_value G)) (\<lambda>E. Inr (gn_value G, E)))"

partial_function (option) child_loop :: "'x vfs_scheme \<Rightarrow> u8 list \<Rightarrow> u64 \<Rightarrow> u64 exec option" where
  "child_loop h tok ch =
     (if ch = 0 then Some (Inr 0)
      else case load (lh_nodes h) ch of Inl e \<Rightarrow> Some (Inl e) | Inr N \<Rightarrow>
       (case entry_of (n_value N) h of Inl e \<Rightarrow> Some (Inl e) | Inr E \<Rightarrow>
        if ve_name (snd E) = tok then Some (Inr (n_value N)) else child_loop h tok (n_next N)))"

definition find_child :: "u64 \<Rightarrow> u8 list \<Rightarrow> 'x vfs_scheme \<Rightarrow> (u64 \<times> 'x vfs_scheme) exec" where
  "find_child subroot tok h =
     bindr (load (tr_nodes h) subroot) (\<lambda>S.
     bindr (list_lock (gn_children S) h) (\<lambda>h.
     bindr (load (lh_lists h) (gn_children S)) (\<lambda>L.
     bindr (run_loop (child_loop h tok (l_root L))) (\<lambda>newChild.
     bindr (list_unlock (gn_children S) h) (\<lambda>h.
     if newChild = 0 then Inr (0, h)
     else
       bindr (load (tr_nodes h) newChild) (\<lambda>C.
       bindr (list_lock (gn_children C) h) (\<lambda>h.
       bindr (list_unlock (gn_children C) h) (\<lambda>h. Inr (newChild, h)))))))))"

lemma sep_shrinks:
  "sep p = (Some t, p') \<Longrightarrow> (case p' of None \<Rightarrow> 0 | Some (_, s) \<Rightarrow> Suc (length s)) < (case p of None \<Rightarrow> 0 | Some (_, s) \<Rightarrow> Suc (length s))"
  by (auto simp: sep_def Let_def split: option.splits if_splits)

function vfs_get_mountpoint_recursive :: "path \<Rightarrow> u64 \<Rightarrow> 'x vfs_scheme \<Rightarrow> (u64 \<times> path \<times> 'x vfs_scheme) exec" where
  "vfs_get_mountpoint_recursive path subroot h =
     (case sep path of (tok, path') \<Rightarrow>
      case tok of
        None \<Rightarrow> bindr (entry_of subroot h) (\<lambda>(_, E). Inr (ve_node E, path', h))
      | Some (i, t) \<Rightarrow>
          if t = [] then bindr (entry_of subroot h) (\<lambda>(_, E). Inr (ve_node E, path', h))
          else
            bindr (find_child subroot t h) (\<lambda>(newChild, h).
            if newChild = 0 then bindr (entry_of subroot h) (\<lambda>(_, E). Inr (ve_node E, Some (i, t), h))
            else vfs_get_mountpoint_recursive path' newChild h))"
  by pat_completeness auto
termination
  by (relation "measure (\<lambda>(p, s, h). case p of None \<Rightarrow> 0 | Some (_, s) \<Rightarrow> Suc (length s))")
    (auto dest!: sep_shrinks [OF sym])

declare vfs_get_mountpoint_recursive.simps [simp del]

definition vfs_get_mountpoint :: "path \<Rightarrow> 'x vfs_scheme \<Rightarrow> (u64 \<times> path \<times> 'x vfs_scheme) exec" where
  "vfs_get_mountpoint path h =
     (let path = (case path of None \<Rightarrow> None
        | Some (i, s) \<Rightarrow> Some (i, if 1 < length s \<and> last s = 0x2F then butlast s else s)) in
      case path of
        None \<Rightarrow> Inr (0, path, h)
      | Some (i, s) \<Rightarrow>
          if s = [] \<or> hd s \<noteq> 0x2F then Inr (0, path, h)
          else
            bindr (load (tr_trees h) (VFSTree h)) (\<lambda>T.
            if length s = 1 then bindr (entry_of (gt_root T) h) (\<lambda>(_, E). Inr (ve_node E, None, h))
            else vfs_get_mountpoint_recursive (Some (i + 1, tl s)) (gt_root T) h))"

section \<open>Opening\<close>

partial_function (option) kopen_loop ::
    "'x vfs_scheme vfs_code \<Rightarrow> u32 \<Rightarrow> u64 \<Rightarrow> u64 \<Rightarrow> u8 list option \<Rightarrow> 'x vfs_scheme \<Rightarrow> (bool \<times> u64 \<times> u64 \<times> 'x vfs_scheme) exec option" where
  "kopen_loop code flags startPoint nextNode newStart h =
     (case newStart of
        None \<Rightarrow> Some (Inr (True, startPoint, nextNode, h))
      | Some s \<Rightarrow>
          let tok = takeWhile (\<lambda>c. c \<noteq> 0x2F) s;
              newStart = (if length tok < length s then Some (drop (length tok + 1) s) else None)
          in (case vfs_finddir code startPoint tok newStart h of Inl e \<Rightarrow> Some (Inl e) | Inr r \<Rightarrow>
              (case r of (node, newStart, h) \<Rightarrow>
               if node = 0 then
                 if flags AND O_CREAT \<noteq> 0 then
                   (case vfs_create code startPoint tok flags h of Inl e \<Rightarrow> Some (Inl e)
                    | Inr r \<Rightarrow> Some (Inr (True, startPoint, fst r, snd r)))
                 else Some (Inr (False, startPoint, 0, h))
               else kopen_loop code flags node node newStart h)))"

definition kopen :: "'x vfs_scheme vfs_code \<Rightarrow> u8 list \<Rightarrow> u32 \<Rightarrow> 'x vfs_scheme \<Rightarrow> (u64 \<times> 'x vfs_scheme) exec" where
  "kopen code name flags h =
     bindr (dup name h) (\<lambda>(freeFilename, h).
     bindr (dup name h) (\<lambda>(save, h).
     bindr (vfs_get_mountpoint (Some (0, name)) h) (\<lambda>(startPoint, filename, h).
     if startPoint = 0 then bindr (release save h) (\<lambda>h. bindr (release freeFilename h) (\<lambda>h. Inr (0, h)))
     else
       let newStart = (case filename of None \<Rightarrow> None | Some (i, s) \<Rightarrow> strstr_at (drop i name) s) in
       bindr (run_loop (kopen_loop code flags startPoint 0 newStart h)) (\<lambda>(ok, startPoint, nextNode, h).
       if \<not> ok then bindr (release save h) (\<lambda>h. bindr (release freeFilename h) (\<lambda>h. Inr (0, h)))
       else
         let nextNode = (if nextNode = 0 then startPoint else nextNode) in
         bindr (vfs_open code nextNode flags h) (\<lambda>h.
         bindr (release save h) (\<lambda>h. bindr (release freeFilename h) (\<lambda>h. Inr (nextNode, h))))))))"

section \<open>Mounting\<close>

definition set_entry :: "u64 \<Rightarrow> (vfs_entry_t \<Rightarrow> vfs_entry_t) \<Rightarrow> 'x vfs_scheme \<Rightarrow> 'x vfs_scheme exec" where
  "set_entry e f h = bindr (modify e f (vf_entries h)) (\<lambda>m. Inr (h\<lparr>vf_entries := m\<rparr>))"

definition new_branch :: "u64 \<Rightarrow> u8 list \<Rightarrow> 'x vfs_scheme \<Rightarrow> (u64 \<times> 'x vfs_scheme) exec" where
  "new_branch subroot tok h =
     bindr (kmalloc 16 (lh_k h)) (\<lambda>(entry, k).
     bindr (dup tok (h\<lparr>lh_k := k\<rparr>)) (\<lambda>(_, h).
     if entry = 0 then Inl NullDeref
     else gentree_insert (VFSTree h) subroot entry
            (h\<lparr>vf_entries := (vf_entries h)(entry \<mapsto> \<lparr>ve_name = tok, ve_node = 0\<rparr>)\<rparr>)))"

text \<open>
  At the end of the path, an entry that already has a node makes the code print the path, which
  \<^verbatim>\<open>strsep\<close> has set to \<^verbatim>\<open>NULL\<close> by then.
\<close>

definition mount_here :: "u64 \<Rightarrow> u64 \<Rightarrow> 'x vfs_scheme \<Rightarrow> 'x vfs_scheme exec" where
  "mount_here subroot node h =
     bindr (entry_of subroot h) (\<lambda>(e, E).
     if ve_node E \<noteq> 0 then Inl NullDeref else set_entry e (\<lambda>E. E\<lparr>ve_node := node\<rparr>) h)"

function vfs_mount_recursive :: "path \<Rightarrow> u64 \<Rightarrow> u64 \<Rightarrow> 'x vfs_scheme \<Rightarrow> 'x vfs_scheme exec" where
  "vfs_mount_recursive path subroot node h =
     (case sep path of (tok, path') \<Rightarrow>
      case tok of
        None \<Rightarrow> mount_here subroot node h
      | Some (i, t) \<Rightarrow>
          if t = [] then
            (if path' = None then mount_here subroot node h
             else bindr (entry_of subroot h) (\<lambda>(e, E).
               if ve_node E \<noteq> 0
               then say (str ''[VFS] '' @ snd (the path') @ str '': Already mounted'' @ [10]) h
               else set_entry e (\<lambda>E. E\<lparr>ve_node := node\<rparr>) h))
          else
            bindr (find_child subroot t h) (\<lambda>(newChild, h).
            bindr (if newChild = 0 then new_branch subroot t h else Inr (newChild, h)) (\<lambda>(sub, h).
              vfs_mount_recursive path' sub node h)))"
  by pat_completeness auto
termination
  by (relation "measure (\<lambda>(p, s, n, h). case p of None \<Rightarrow> 0 | Some (_, s) \<Rightarrow> Suc (length s))")
    (auto dest!: sep_shrinks [OF sym])

declare vfs_mount_recursive.simps [simp del]

definition vfs_mount :: "u8 list \<Rightarrow> u64 \<Rightarrow> 'x vfs_scheme \<Rightarrow> 'x vfs_scheme exec" where
  "vfs_mount path node h =
     bindr (set_vnode node (\<lambda>N. N\<lparr>vn_referenceCount := -1\<rparr>) h) (\<lambda>h.
     bindr (load (tr_trees h) (VFSTree h)) (\<lambda>T.
     if path = [0x2F] then
       bindr (entry_of (gt_root T) h) (\<lambda>(e, E).
       if ve_node E \<noteq> 0 then say (str ''[VFS] '' @ path @ str '': Already mounted'' @ [10]) h
       else set_entry e (\<lambda>E. E\<lparr>ve_node := node\<rparr>) h)
     else if path = [] then Inl WildAccess
     else vfs_mount_recursive (Some (1, tl path)) (gt_root T) node h))"

section \<open>Printing the tree\<close>

definition hex :: "u64 \<Rightarrow> u8 list" where
  "hex v = rev (ntoa_loop v 16 [])"

definition say_spaces :: "u64 \<Rightarrow> 'x console_scheme \<Rightarrow> 'x console_scheme exec" where
  "say_spaces n h = for_exec 0 (unat n) (\<lambda>_. say [0x20]) h"

definition print_entry :: "'x vfs_scheme vfs_code \<Rightarrow> vfs_entry_t \<Rightarrow> u64 \<Rightarrow> 'x vfs_scheme \<Rightarrow> 'x vfs_scheme exec" where
  "print_entry code E parentOffset h =
     bindr (say_spaces parentOffset h) (\<lambda>h.
     if ve_node E \<noteq> 0 then
       bindr (load (vf_nodes h) (ve_node E)) (\<lambda>N.
       bindr (say (ve_name E @ str ''(0x'' @ hex (ve_node E) @ str '', '' @ vn_name N @ str '')'' @ [10]) h) (\<lambda>h.
       if fn_print_tree (vn_functions N) \<noteq> No_fn
       then call_print_tree code (fn_print_tree (vn_functions N)) (ve_node E)
              (parentOffset + of_nat (length (ve_name E)) + 1) h
       else Inr h))
     else say (ve_name E @ str ''(empty)'' @ [10]) h)"

partial_function (option) vfs_print_tree_recursive ::
    "'x vfs_scheme vfs_code \<Rightarrow> u64 \<Rightarrow> u64 \<Rightarrow> u64 option \<Rightarrow> 'x vfs_scheme \<Rightarrow> 'x vfs_scheme exec option" where
  "vfs_print_tree_recursive code node parentOffset ch h =
     (if node = 0 then Some (Inr h)
      else case load (tr_nodes h) node of Inl e \<Rightarrow> Some (Inl e) | Inr G \<Rightarrow>
       (case load (vf_entries h) (gn_value G) of Inl e \<Rightarrow> Some (Inl e) | Inr E \<Rightarrow>
        (case ch of
           None \<Rightarrow>
             (case print_entry code E parentOffset h of Inl e \<Rightarrow> Some (Inl e) | Inr h \<Rightarrow>
              (case load (lh_lists h) (gn_children G) of Inl e \<Rightarrow> Some (Inl e) | Inr L \<Rightarrow>
               vfs_print_tree_recursive code node parentOffset (Some (l_root L)) h))
         | Some c \<Rightarrow>
             if c = 0 then Some (Inr h)
             else (case load (lh_nodes h) c of Inl e \<Rightarrow> Some (Inl e) | Inr N \<Rightarrow>
               Option.bind (vfs_print_tree_recursive code (n_value N)
                   (parentOffset + of_nat (length (ve_name E)) + 1) None h) (\<lambda>r. case r of
                 Inl e \<Rightarrow> Some (Inl e)
               | Inr h \<Rightarrow> vfs_print_tree_recursive code node parentOffset (Some (n_next N)) h)))))"

definition vfs_print_tree :: "'x vfs_scheme vfs_code \<Rightarrow> 'x vfs_scheme \<Rightarrow> 'x vfs_scheme exec" where
  "vfs_print_tree code h =
     bindr (load (tr_trees h) (VFSTree h)) (\<lambda>T.
       run_loop (vfs_print_tree_recursive code (gt_root T) 0 None h))"

section \<open>Mount points\<close>

text \<open>
  The abstract mount tree: the address of the tree node, the name and the mounted node of its entry, and the
  children in the order of their list. \<open>resolve\<close> follows path components as long as children match and
  returns the node of the last one reached with the components that are left; \<open>join\<close> spells an absolute path.
\<close>

datatype mtree = MNode (m_ptr: u64) (m_name: "u8 list") (m_node: u64) (m_kids: "mtree list")

fun mrep :: "'x vfs_scheme \<Rightarrow> mtree \<Rightarrow> bool" where
  "mrep h (MNode p nm nd kids) \<longleftrightarrow> p \<noteq> 0 \<and> (\<exists>G ns. tr_nodes h p = Some G \<and> gn_value G \<noteq> 0 \<and>
     vf_entries h (gn_value G) = Some \<lparr>ve_name = nm, ve_node = nd\<rparr> \<and> list_ok h (gn_children G) ns \<and>
     map snd ns = map m_ptr kids) \<and> (\<forall>k\<in>set kids. mrep h k)"

fun resolve :: "mtree \<Rightarrow> u8 list list \<Rightarrow> u64 \<times> u8 list list" where
  "resolve t [] = (m_node t, [])"
| "resolve t (c # cs) = (case find (\<lambda>k. m_name k = c) (m_kids t) of
     None \<Rightarrow> (m_node t, c # cs) | Some k \<Rightarrow> resolve k cs)"

fun join :: "u8 list list \<Rightarrow> u8 list" where
  "join [] = []"
| "join (c # cs) = 0x2F # c @ join cs"

definition component :: "u8 list \<Rightarrow> bool" where
  "component c \<longleftrightarrow> c \<noteq> [] \<and> 0x2F \<notin> set c"

lemma mrep_entry: "mrep h t \<Longrightarrow> \<exists>e. entry_of (m_ptr t) h = Inr (e, \<lparr>ve_name = m_name t, ve_node = m_node t\<rparr>)"
  by (cases t) (auto simp: entry_of_def)

lemma child_loop_chain:
  assumes "fchain (lh_nodes h) ns" "map snd ns = map m_ptr kids"
    and "\<forall>k\<in>set kids. \<exists>e. entry_of (m_ptr k) h = Inr (e, \<lparr>ve_name = m_name k, ve_node = m_node k\<rparr>)"
  shows "child_loop h tok (first ns 0) = Some (Inr (case find (\<lambda>k. m_name k = tok) kids of None \<Rightarrow> 0 | Some k \<Rightarrow> m_ptr k))"
  using assms
proof (induction kids arbitrary: ns)
  case Nil
  then show ?case by (simp add: child_loop.simps)
next
  case (Cons k kids)
  then obtain n ns' where ns: "ns = (n, m_ptr k) # ns'" "map snd ns' = map m_ptr kids"
    by (cases ns) auto
  then obtain N where N: "n \<noteq> 0" "lh_nodes h n = Some N" "n_value N = m_ptr k" "n_next N = first ns' 0"
      "fchain (lh_nodes h) ns'"
    using Cons.prems(1) by auto
  obtain e where e: "entry_of (m_ptr k) h = Inr (e, \<lparr>ve_name = m_name k, ve_node = m_node k\<rparr>)"
    using Cons.prems(3) by auto
  have "child_loop h tok (first ns' 0) = Some (Inr (case find (\<lambda>k. m_name k = tok) kids of None \<Rightarrow> 0 | Some k \<Rightarrow> m_ptr k))"
    using Cons.IH [OF N(5) ns(2)] Cons.prems(3) by simp
  then show ?case
    using ns(1) N e by (subst child_loop.simps) simp
qed

lemma entry_of_lists [simp]: "entry_of p (h\<lparr>lh_lists := L\<rparr>) = entry_of p h"
  by (simp add: entry_of_def)

lemma find_child_ok:
  assumes "mrep h t"
  shows "find_child (m_ptr t) tok h = Inr (case find (\<lambda>k. m_name k = tok) (m_kids t) of None \<Rightarrow> 0 | Some k \<Rightarrow> m_ptr k, h)"
proof -
  obtain p nm nd kids where t: "t = MNode p nm nd kids"
    by (cases t)
  from assms t obtain G ns where G: "p \<noteq> 0" "tr_nodes h p = Some G" "list_ok h (gn_children G) ns"
      "map snd ns = map m_ptr kids" and kids: "\<forall>k\<in>set kids. mrep h k"
    by auto
  have ch: "fchain (lh_nodes h) ns" "gn_children G \<noteq> 0"
    using G(3) by (auto simp: list_ok_def intro: dseg_fchain)
  let ?h = "h\<lparr>lh_lists := (lh_lists h)(gn_children G \<mapsto> \<lparr>l_length = of_nat (length ns),
      l_root = first ns 0, l_tail = lastp 0 ns, l_lock = False\<rparr>)\<rparr>"
  let ?c = "case find (\<lambda>k. m_name k = tok) kids of None \<Rightarrow> 0 | Some k \<Rightarrow> m_ptr k"
  have loop: "child_loop ?h tok (first ns 0) = Some (Inr ?c)"
    using ch(1) kids by (intro child_loop_chain [OF _ G(4)]) (auto intro: mrep_entry)
  show ?thesis
  proof (cases "find (\<lambda>k. m_name k = tok) kids")
    case None
    then show ?thesis
      using G ch(2) loop t list_unlock_same [OF G(3)] by (simp add: find_child_def list_lock_ok [OF G(3)])
  next
    case (Some k)
    then have "mrep h k"
      using kids by (auto simp: find_Some_iff)
    then obtain C ms where C: "m_ptr k \<noteq> 0" "tr_nodes h (m_ptr k) = Some C" "list_ok h (gn_children C) ms"
      by (cases k) auto
    then show ?thesis
      using G ch(2) loop t Some list_unlock_same [OF G(3)] list_unlock_same [OF C(3)]
      by (simp add: find_child_def list_lock_ok [OF G(3)] list_lock_ok [OF C(3)])
  qed
qed

lemma component_takeWhile:
  assumes "component c"
  shows "takeWhile (\<lambda>x. x \<noteq> 0x2F) c = c" "takeWhile (\<lambda>x. x \<noteq> 0x2F) (c @ 0x2F # s) = c"
proof -
  have c: "\<forall>x\<in>set c. x \<noteq> 0x2F"
    using assms by (auto simp: component_def)
  then show "takeWhile (\<lambda>x. x \<noteq> 0x2F) c = c"
    by (simp add: takeWhile_eq_all_conv)
  show "takeWhile (\<lambda>x. x \<noteq> 0x2F) (c @ 0x2F # s) = c"
    using c by (subst takeWhile_append2) auto
qed

lemma sep_join:
  assumes "component c"
  shows "sep (Some (i, c @ join cs)) = (Some (i, c), if cs = [] then None else Some (i + length c + 1, tl (join cs)))"
  by (cases cs) (simp_all add: sep_def Let_def component_takeWhile [OF assms])

lemma join_eq_Nil [simp]: "join cs = [] \<longleftrightarrow> cs = []"
  by (cases cs) simp_all

lemma last_join: "cs \<noteq> [] \<Longrightarrow> last cs \<noteq> [] \<Longrightarrow> last (join cs) = last (last cs)"
  by (induction cs) auto

lemma get_mountpoint_resolve:
  assumes "mrep h t" "\<forall>d\<in>set cs. component d" "cs \<noteq> []"
  shows "\<exists>rest. vfs_get_mountpoint_recursive (Some (i, tl (join cs))) (m_ptr t) h = Inr (fst (resolve t cs), rest, h) \<and>
    (case snd (resolve t cs) of [] \<Rightarrow> rest = None
     | d # ds \<Rightarrow> \<exists>j. rest = Some (i + j, d) \<and> drop j (tl (join cs)) = d @ join ds)"
  using assms
proof (induction cs arbitrary: t i)
  case (Cons c cs)
  note run = vfs_get_mountpoint_recursive.simps
  have sp: "sep (Some (i, c @ join cs)) = (Some (i, c), if cs = [] then None else Some (i + length c + 1, tl (join cs)))"
    and c: "c \<noteq> []"
    using sep_join [of c i cs] Cons.prems(2) by (simp_all add: component_def)
  show ?case
  proof (cases "find (\<lambda>k. m_name k = c) (m_kids t)")
    case None
    then show ?thesis
      using sp c mrep_entry [OF Cons.prems(1)] find_child_ok [OF Cons.prems(1), of c]
      by (subst run) (auto intro!: exI [of _ 0])
  next
    case (Some k)
    then have k: "mrep h k"
      using Cons.prems(1) by (cases t) (auto simp: find_Some_iff)
    then have nz: "m_ptr k \<noteq> 0"
      by (cases k) auto
    have step: "vfs_get_mountpoint_recursive (Some (i, c @ join cs)) (m_ptr t) h =
        vfs_get_mountpoint_recursive (if cs = [] then None else Some (i + length c + 1, tl (join cs))) (m_ptr k) h"
      using sp c nz Some find_child_ok [OF Cons.prems(1), of c] by (subst run) simp
    show ?thesis
    proof (cases "cs = []")
      case True
      then show ?thesis
        using step Some mrep_entry [OF k] by (auto simp: sep_def run [of None])
    next
      case False
      obtain rest where r: "vfs_get_mountpoint_recursive (Some (i + length c + 1, tl (join cs))) (m_ptr k) h = Inr (fst (resolve k cs), rest, h)"
          "case snd (resolve k cs) of [] \<Rightarrow> rest = None
           | d # ds \<Rightarrow> \<exists>j. rest = Some (i + length c + 1 + j, d) \<and> drop j (tl (join cs)) = d @ join ds"
        using Cons.IH [OF k _ False, of "i + length c + 1"] Cons.prems(2) by auto
      have "drop (length c + 1 + j) (c @ join cs) = drop j (tl (join cs))" for j
        using False by (cases cs) simp_all
      then have "\<exists>j'. rest = Some (i + j', d) \<and> drop j' (c @ join cs) = d @ join ds"
        if "rest = Some (i + length c + 1 + j, d)" "drop j (tl (join cs)) = d @ join ds" for j d ds
        using that by (intro exI [of _ "length c + 1 + j"]) (simp add: add.assoc)
      then show ?thesis
        using r step False Some by (auto split: list.splits)
    qed
  qed
qed simp

text \<open>
  C10. Path resolution implements the abstract mount tree. When the machine represents the tree \<open>t\<close>,
  \<^verbatim>\<open>vfs_get_mountpoint\<close> of the absolute path with the components \<open>cs\<close>, with or without a trailing slash, returns
  the node mounted at the longest prefix of the path that is in the tree (\<^verbatim>\<open>NULL\<close> if nothing is mounted there) and
  leaves the machine as it was, every lock released. The path pointer it leaves is \<^verbatim>\<open>NULL\<close> when the whole path was found, and otherwise is the first
  component that was not, at the place of the original path where the unresolved rest begins.
\<close>

theorem vfs_get_mountpoint_resolves:
  assumes "VFSTree h \<noteq> 0" "tr_trees h (VFSTree h) = Some T" "gt_root T = m_ptr t" "mrep h t"
    and "cs \<noteq> []" "\<forall>d\<in>set cs. component d" "s = join cs \<or> s = join cs @ [0x2F]"
  shows "\<exists>rest. vfs_get_mountpoint (Some (0, s)) h = Inr (fst (resolve t cs), rest, h) \<and>
    (case snd (resolve t cs) of [] \<Rightarrow> rest = None
     | d # ds \<Rightarrow> \<exists>j. rest = Some (j, d) \<and> drop j (join cs) = d @ join ds)"
proof -
  obtain c cs' where cs: "cs = c # cs'"
    using assms(5) by (cases cs) auto
  have "component (last cs)"
    using assms(5,6) last_in_set [of cs] by blast
  then have "last (join cs) \<noteq> 0x2F"
    using assms(5) last_in_set [of "last cs"] by (metis component_def last_join)
  then have path: "(if 1 < length s \<and> last s = 0x2F then butlast s else s) = join cs"
    using assms(7) cs by (auto simp: butlast_append)
  obtain rest where r: "vfs_get_mountpoint_recursive (Some (1, tl (join cs))) (m_ptr t) h = Inr (fst (resolve t cs), rest, h)"
      "case snd (resolve t cs) of [] \<Rightarrow> rest = None
       | d # ds \<Rightarrow> \<exists>j. rest = Some (1 + j, d) \<and> drop j (tl (join cs)) = d @ join ds"
    using get_mountpoint_resolve [OF assms(4,6,5), of 1] by auto
  have "length (join cs) \<noteq> 1"
    using cs assms(6) by (auto simp: component_def)
  then have "vfs_get_mountpoint (Some (0, s)) h = Inr (fst (resolve t cs), rest, h)"
    using path r(1) assms(1-3) cs by (auto simp: vfs_get_mountpoint_def)
  moreover have "drop (1 + j) (join cs) = drop j (tl (join cs))" for j
    using cs by simp
  ultimately show ?thesis
    using r(2) by (auto split: list.splits)
qed

text \<open>A machine with a root file system and one mounted at \<^verbatim>\<open>/dev\<close>.\<close>

definition small_vfs :: vfs where
  "small_vfs = trees.extend (small_tree\<lparr>
       lh_lists := [0x4000 \<mapsto> \<lparr>l_length = 1, l_root = 0x5000, l_tail = 0x5000, l_lock = True\<rparr>,
         0x4800 \<mapsto> \<lparr>l_length = 0, l_root = 0, l_tail = 0, l_lock = True\<rparr>],
       tr_nodes := [0x3000 \<mapsto> \<lparr>gn_value = 0x7000, gn_children = 0x4000\<rparr>,
         0x6000 \<mapsto> \<lparr>gn_value = 0x7800, gn_children = 0x4800\<rparr>]\<rparr>)
     \<lparr>vf_nodes = Map.empty,
      vf_entries = [0x7000 \<mapsto> \<lparr>ve_name = str ''root'', ve_node = 0xA000\<rparr>,
        0x7800 \<mapsto> \<lparr>ve_name = str ''dev'', ve_node = 0xB000\<rparr>],
      vf_dirents = Map.empty, VFSTree = 0x2000, df_nodes = Map.empty, df_entries = Map.empty, DevFSList = 0\<rparr>"

theorem vfs_get_mountpoint_resolves_witness:
  "\<exists>j. vfs_get_mountpoint (Some (0, str ''/dev/log/'')) small_vfs = Inr (0xB000, Some (j, str ''log''), small_vfs) \<and>
     drop j (str ''/dev/log'') = str ''log''"
proof -
  let ?t = "MNode 0x3000 (str ''root'') 0xA000 [MNode 0x6000 (str ''dev'') 0xB000 []]"
  have "list_ok small_vfs 0x4000 [(0x5000, 0x6000)]" "list_ok small_vfs 0x4800 []"
    by (simp_all add: list_ok_def small_vfs_def small_tree_def trees.defs console.defs)
  then have "mrep small_vfs ?t"
    by (auto simp: small_vfs_def trees.defs)
  moreover have "VFSTree small_vfs = 0x2000" "tr_trees small_vfs 0x2000 = Some \<lparr>gt_root = 0x3000, gt_lock = True\<rparr>"
    by (simp_all add: small_vfs_def small_tree_def trees.defs console.defs)
  ultimately show ?thesis
    using vfs_get_mountpoint_resolves [of small_vfs "\<lparr>gt_root = 0x3000, gt_lock = True\<rparr>" ?t
        "[str ''dev'', str ''log'']" "str ''/dev/log/''"]
    by (auto simp: component_def str_def)
qed

end
