(* ===== verification/Devfs.thy ===== *)
theory Devfs
  imports Vfs
begin

text \<open>
  The device file system, \<^verbatim>\<open>kernel/fs/devfs/devfs.c\<close>: a list of named device nodes. Looking a device up
  allocates a new node with the functions and data of the device.
\<close>

section \<open>Operations\<close>

partial_function (option) devfs_loop :: "'x vfs_scheme \<Rightarrow> u8 list \<Rightarrow> u64 \<Rightarrow> u64 exec option" where
  "devfs_loop h name ch =
     (if ch = 0 then Some (Inr 0)
      else case load (lh_nodes h) ch of Inl e \<Rightarrow> Some (Inl e) | Inr N \<Rightarrow>
       (case load (df_entries h) (n_value N) of Inl e \<Rightarrow> Some (Inl e) | Inr E \<Rightarrow>
        if de_name E = name then Some (Inr (n_value N)) else devfs_loop h name (n_next N)))"

definition devfs_finddir ::
    "u64 \<Rightarrow> u8 list \<Rightarrow> u8 list option \<Rightarrow> 'x vfs_scheme \<Rightarrow> (u64 \<times> u8 list option \<times> 'x vfs_scheme) exec" where
  "devfs_finddir node_dev name path h =
     bindr (list_lock (DevFSList h) h) (\<lambda>h.
     bindr (load (lh_lists h) (DevFSList h)) (\<lambda>L.
     bindr (run_loop (devfs_loop h name (l_root L))) (\<lambda>entry.
     if entry = 0 then bindr (list_unlock (DevFSList h) h) (\<lambda>h. Inr (0, path, h))
     else
       bindr (load (df_entries h) entry) (\<lambda>E.
       bindr (load (df_nodes h) (de_node E)) (\<lambda>D.
       bindr (new_vnode (zero_node\<lparr>vn_functions := dn_functions D, vn_name := dn_name D, vn_flags := dn_flags D,
           vn_data := dn_data D, vn_internIndex := dn_internIndex D\<rparr>) h) (\<lambda>(node, h).
       bindr (list_unlock (DevFSList h) h) (\<lambda>h. Inr (node, path, h))))))))"

partial_function (option) devfs_print_loop :: "u64 \<Rightarrow> u64 \<Rightarrow> 'x vfs_scheme \<Rightarrow> 'x vfs_scheme exec option" where
  "devfs_print_loop parentOffset ch h =
     (if ch = 0 then Some (Inr h)
      else case load (lh_nodes h) ch of Inl e \<Rightarrow> Some (Inl e) | Inr N \<Rightarrow>
       (case load (df_entries h) (n_value N) of Inl e \<Rightarrow> Some (Inl e) | Inr E \<Rightarrow>
       (case load (df_nodes h) (de_node E) of Inl e \<Rightarrow> Some (Inl e) | Inr D \<Rightarrow>
       (case bindr (say_spaces parentOffset h)
               (say (de_name E @ str ''(0x'' @ hex (de_node E) @ str '', '' @ dn_name D @ str '')'' @ [10])) of
          Inl e \<Rightarrow> Some (Inl e) | Inr h \<Rightarrow> devfs_print_loop parentOffset (n_next N) h))))"

definition devfs_print_tree :: "u64 \<Rightarrow> u64 \<Rightarrow> 'x vfs_scheme \<Rightarrow> 'x vfs_scheme exec" where
  "devfs_print_tree node parentOffset h =
     bindr (list_lock (DevFSList h) h) (\<lambda>h.
     bindr (load (lh_lists h) (DevFSList h)) (\<lambda>L.
     bindr (run_loop (devfs_print_loop parentOffset (l_root L) h)) (\<lambda>h.
       list_unlock (DevFSList h) h)))"

definition devfs_mount :: "u8 list \<Rightarrow> u64 \<Rightarrow> 'x vfs_scheme \<Rightarrow> 'x vfs_scheme exec" where
  "devfs_mount name node h =
     bindr (kmalloc 16 (lh_k h)) (\<lambda>(entry, k).
     bindr (dup name (h\<lparr>lh_k := k\<rparr>)) (\<lambda>(_, h).
     if entry = 0 then Inl NullDeref
     else bindr (list_push_back (DevFSList h) entry
                   (h\<lparr>df_entries := (df_entries h)(entry \<mapsto> \<lparr>de_name = name, de_node = node\<rparr>)\<rparr>)) (\<lambda>(_, h). Inr h)))"

definition devfs_log_write :: "u64 \<Rightarrow> u64 \<Rightarrow> u64 \<Rightarrow> 'x vfs_scheme \<Rightarrow> (u64 \<times> 'x vfs_scheme) exec" where
  "devfs_log_write node buffer sz h =
     bindr (printf (str ''%.*s'' @ [0]) [sz, buffer] h) (\<lambda>(_, h). Inr (sz, h))"

definition TIOCGWINSZ :: u64 where "TIOCGWINSZ = 0x5413"

definition devfs_log_ioctl :: "u64 \<Rightarrow> u64 \<Rightarrow> u64 \<Rightarrow> 'x vfs_scheme \<Rightarrow> (u64 \<times> 'x vfs_scheme) exec" where
  "devfs_log_ioctl node request arg h = (if request = TIOCGWINSZ then Inr (0, h) else Inr (-1, h))"

definition new_devnode :: "devfs_node_t \<Rightarrow> 'x vfs_scheme \<Rightarrow> (u64 \<times> 'x vfs_scheme) exec" where
  "new_devnode D h = bindr (kmalloc 1136 (lh_k h)) (\<lambda>(p, k).
     if p = 0 then Inl NullDeref
     else Inr (p, h\<lparr>lh_k := k, df_nodes := (df_nodes h)(p \<mapsto> D)\<rparr>))"

definition devfs_init :: "'x vfs_scheme \<Rightarrow> 'x vfs_scheme exec" where
  "devfs_init h =
     bindr (list_create h) (\<lambda>(l, h).
     bindr (new_vnode (zero_node\<lparr>vn_name := str ''DevFS'', vn_flags := VFS_DIRECTORY,
         vn_functions := no_functions\<lparr>fn_finddir := Devfs_finddir, fn_print_tree := Devfs_print_tree\<rparr>\<rparr>)
         (h\<lparr>DevFSList := l\<rparr>)) (\<lambda>(devfsNode, h).
     bindr (vfs_mount (str ''/dev/'') devfsNode h) (\<lambda>h.
     bindr (new_devnode \<lparr>dn_name = str ''SerialLog'', dn_data = 0, dn_flags = 0, dn_internIndex = 0,
         dn_functions = no_functions\<lparr>fn_write := Devfs_log_write, fn_ioctl := Devfs_log_ioctl\<rparr>\<rparr> h) (\<lambda>(logNode, h).
       devfs_mount (str ''log'') logNode h))))"

section \<open>Devices by name\<close>

text \<open>
  The abstract device table: the devices in the order they were registered. The entries are
  objects of the heap that belong to no list.
\<close>

definition dev_rep :: "u64 set \<Rightarrow> 'x vfs_scheme \<Rightarrow> (u64 \<rightharpoonup> (u64 \<times> u64) list) \<Rightarrow> devfs_entry_t list \<Rightarrow> bool" where
  "dev_rep X h A es \<longleftrightarrow> lheap_wf X h A \<and> (\<exists>ns. A (DevFSList h) = Some ns \<and>
     map (\<lambda>x. df_entries h (snd x)) ns = map Some es \<and> snd ` set ns \<subseteq> X)"

lemma lheap_wf_alloc:
  assumes "lheap_wf X h A" "kmalloc sz (lh_k h) = Inr (p, k)" "p \<noteq> 0" "unat sz \<le> 35184372088832"
  shows "lheap_wf (insert p X) (h\<lparr>lh_k := k\<rparr>) A" "p \<notin> dom A \<union> list_nodes A \<union> X"
proof -
  have "heap_owns (lh_k h) (dom A \<union> list_nodes A \<union> X)"
    using assms(1) by (simp add: lheap_wf_def)
  then have "p \<notin> dom A \<union> list_nodes A \<union> X" "heap_owns k (insert p (dom A \<union> list_nodes A \<union> X))"
    using kpool.pool_fresh assms(2-4) by blast+
  then show "lheap_wf (insert p X) (h\<lparr>lh_k := k\<rparr>) A" "p \<notin> dom A \<union> list_nodes A \<union> X"
    using assms(1) by (auto simp: lheap_wf_def list_ok_def)
qed

lemma lheap_wf_cong:
  "lheap_wf X h A \<Longrightarrow> lh_k h' = lh_k h \<Longrightarrow> lh_lists h' = lh_lists h \<Longrightarrow> lh_nodes h' = lh_nodes h \<Longrightarrow> lheap_wf X h' A"
  by (simp add: lheap_wf_def list_ok_def)

lemma lheap_more_devfs:
  "lheap.more h' = lheap.more h \<Longrightarrow> DevFSList h' = DevFSList h \<and> df_entries h' = df_entries h \<and> df_nodes h' = df_nodes h"
  for h :: "'x vfs_scheme"
  by (cases h; cases h') simp

lemma devfs_loop_chain:
  assumes "fchain (lh_nodes h) ns" "map (\<lambda>x. df_entries h (snd x)) ns = map Some es" "0 \<notin> snd ` set ns"
  shows "(case find (\<lambda>E. de_name E = name) es of
      None \<Rightarrow> devfs_loop h name (first ns 0) = Some (Inr 0)
    | Some E \<Rightarrow> \<exists>p. p \<noteq> 0 \<and> devfs_loop h name (first ns 0) = Some (Inr p) \<and> df_entries h p = Some E)"
  using assms
proof (induction ns arbitrary: es)
  case Nil
  then show ?case by (simp add: devfs_loop.simps)
next
  case (Cons x ns)
  obtain n p where x: "x = (n, p)" by (cases x)
  from Cons.prems(2) x obtain E es' where es: "es = E # es'" "df_entries h p = Some E"
      "map (\<lambda>x. df_entries h (snd x)) ns = map Some es'"
    by (cases es) auto
  from Cons.prems(1,3) x obtain N where N: "n \<noteq> 0" "lh_nodes h n = Some N" "n_value N = p" "n_next N = first ns 0"
      "fchain (lh_nodes h) ns" "p \<noteq> 0"
    by auto
  have "0 \<notin> snd ` set ns"
    using Cons.prems(3) by simp
  moreover have "devfs_loop h name n = (if de_name E = name then Some (Inr p) else devfs_loop h name (first ns 0))"
    using es(2) N by (subst devfs_loop.simps) simp
  ultimately show ?case
    using Cons.IH [OF N(5) es(3)] x es(1,2) N(6) by (auto split: option.splits)
qed

lemma devfs_mount_rep:
  assumes "dev_rep X h A es" "length name < 35184372088832" "devfs_mount name node h = Inr h'"
  shows "\<exists>X' A'. dev_rep X' h' A' (es @ [\<lparr>de_name = name, de_node = node\<rparr>]) \<and> df_nodes h' = df_nodes h"
proof -
  from assms(1) obtain ns where wf: "lheap_wf X h A" and ns: "A (DevFSList h) = Some ns"
      "map (\<lambda>x. df_entries h (snd x)) ns = map Some es" "snd ` set ns \<subseteq> X"
    by (auto simp: dev_rep_def)
  from assms(3) obtain entry k p k2 n where e: "kmalloc 16 (lh_k h) = Inr (entry, k)" "entry \<noteq> 0"
      and p: "kmalloc (of_nat (length name + 1)) k = Inr (p, k2)" "p \<noteq> 0"
      and push: "list_push_back (DevFSList h) entry
        (h\<lparr>lh_k := k2, df_entries := (df_entries h)(entry \<mapsto> \<lparr>de_name = name, de_node = node\<rparr>)\<rparr>) = Inr (n, h')"
    by (auto simp: devfs_mount_def dup_def split: if_splits)
  have sz: "unat (of_nat (length name + 1) :: u64) \<le> 35184372088832"
  proof -
    have "unat (of_nat (length name + 1) :: u64) = length name + 1"
      using assms(2) by (intro unat_of_nat_u64) simp
    with assms(2) show ?thesis by simp
  qed
  note w1 = lheap_wf_alloc [OF wf e, simplified]
  have w2: "lheap_wf (insert p (insert entry X)) (h\<lparr>lh_k := k2\<rparr>) A"
    using lheap_wf_alloc(1) [OF w1(1) _ p(2) sz] p(1) by simp
  let ?h = "h\<lparr>lh_k := k2, df_entries := (df_entries h)(entry \<mapsto> \<lparr>de_name = name, de_node = node\<rparr>)\<rparr>"
  have w3: "lheap_wf (insert p (insert entry X)) ?h A"
    by (rule lheap_wf_cong [OF w2]) simp_all
  from list_push_back_ok [OF w3, of "DevFSList h" ns entry] ns(1) push
  have h': "lheap_wf (insert p (insert entry X)) h' (A(DevFSList h \<mapsto> ns @ [(n, entry)]))" "lheap.more h' = lheap.more ?h"
    by auto
  have sel: "DevFSList h' = DevFSList h" "df_entries h' = df_entries ?h" "df_nodes h' = df_nodes h"
    using lheap_more_devfs [OF h'(2)] by simp_all
  have "entry \<notin> snd ` set ns"
    using w1(2) ns(3) by blast
  then have "map (\<lambda>x. df_entries h' (snd x)) ns = map (\<lambda>x. df_entries h (snd x)) ns"
    unfolding sel(2) by (intro map_cong) auto
  then have "map (\<lambda>x. df_entries h' (snd x)) (ns @ [(n, entry)]) = map Some (es @ [\<lparr>de_name = name, de_node = node\<rparr>])"
    using ns(2) sel(2) by simp
  then show ?thesis
    using h'(1) ns(3) sel unfolding dev_rep_def
    by (intro exI [of _ "insert p (insert entry X)"] exI [of _ "A(DevFSList h \<mapsto> ns @ [(n, entry)])"]) auto
qed

text \<open>A lookup returns a new node for the first device of the name, or \<^verbatim>\<open>NULL\<close>.\<close>

definition device_view :: "devfs_node_t \<Rightarrow> vfs_node_t" where
  "device_view D = zero_node\<lparr>vn_functions := dn_functions D, vn_name := dn_name D, vn_flags := dn_flags D,
     vn_data := dn_data D, vn_internIndex := dn_internIndex D\<rparr>"

lemma devfs_finddir_rep:
  assumes "dev_rep X h A es" "find (\<lambda>E. de_name E = name) es = Some E" "df_nodes h (de_node E) = Some D" "de_node E \<noteq> 0"
  shows "devfs_finddir dev name path h = Inl NullDeref \<and> (\<exists>k. kmalloc 1168 (lh_k h) = Inr (0, k)) \<or>
    (\<exists>p k. devfs_finddir dev name path h = Inr (p, path, h\<lparr>lh_k := k, vf_nodes := (vf_nodes h)(p \<mapsto> device_view D)\<rparr>) \<and> p \<noteq> 0)"
proof -
  from assms(1) obtain ns where wf: "lheap_wf X h A" and ns: "A (DevFSList h) = Some ns"
      "map (\<lambda>x. df_entries h (snd x)) ns = map Some es" "snd ` set ns \<subseteq> X"
    by (auto simp: dev_rep_def)
  have ok: "list_ok h (DevFSList h) ns"
    by (rule lheap_wf_list [OF wf ns(1)])
  let ?L = "\<lparr>l_length = of_nat (length ns), l_root = first ns 0, l_tail = lastp 0 ns, l_lock = False\<rparr>"
  let ?h = "h\<lparr>lh_lists := (lh_lists h)(DevFSList h \<mapsto> ?L)\<rparr>"
  have own: "heap_owns (lh_k h) (dom A \<union> list_nodes A \<union> X)"
    using wf by (simp add: lheap_wf_def)
  then have "0 \<notin> X"
    using kpool.pool_nonnull by blast
  then have "0 \<notin> snd ` set ns" "fchain (lh_nodes ?h) ns"
    using ns(3) ok by (auto simp: list_ok_def intro: dseg_fchain)
  then obtain e where e: "e \<noteq> 0" "devfs_loop ?h name (first ns 0) = Some (Inr e)" "df_entries h e = Some E"
    using devfs_loop_chain [of ?h ns es name] ns(2) assms(2) by auto
  have run: "devfs_finddir dev name path h =
      bindr (new_vnode (device_view D) ?h) (\<lambda>(node, h). bindr (list_unlock (DevFSList h) h) (\<lambda>h. Inr (node, path, h)))"
    using e assms(3,4) list_ok_nonnull [OF ok] by (simp add: devfs_finddir_def list_lock_ok [OF ok] device_view_def)
  obtain p k where pk: "kmalloc 1168 (lh_k h) = Inr (p, k)"
    using kpool.pool_total [OF own] by blast
  have "list_unlock (DevFSList h) (?h\<lparr>lh_k := k, vf_nodes := (vf_nodes h)(p \<mapsto> device_view D)\<rparr>)
      = Inr (h\<lparr>lh_k := k, vf_nodes := (vf_nodes h)(p \<mapsto> device_view D)\<rparr>)"
    using ok by (simp add: list_run list_ok_def fun_upd_idem)
  then show ?thesis
    using run pk by (cases "p = 0") (auto simp: new_vnode_def)
qed

lemma find_snoc: "find P (xs @ [x]) = (case find P xs of None \<Rightarrow> if P x then Some x else None | Some y \<Rightarrow> Some y)"
  by (induction xs) auto

text \<open>
  C28. A registered device can be opened by its name. After \<^verbatim>\<open>devfs_mount\<close> of a device under a name that is not
  yet in the table, the table is the old one with the device at its end, and \<^verbatim>\<open>devfs_finddir\<close> of the name
  yields a new node with the name, flags, data, index and functions of the device, or dereferences
  \<^verbatim>\<open>NULL\<close> when there is no memory for the node; nothing else of the machine changes and the lock of the device list
  is free again.
\<close>

theorem devfs_mount_finddir:
  assumes "dev_rep X h A es" "length name < 35184372088832" "devfs_mount name node h = Inr h'"
    and "\<forall>E\<in>set es. de_name E \<noteq> name" "df_nodes h node = Some D" "node \<noteq> 0"
  shows "(\<exists>X' A'. dev_rep X' h' A' (es @ [\<lparr>de_name = name, de_node = node\<rparr>])) \<and>
    (devfs_finddir dev name path h' = Inl NullDeref \<and> (\<exists>k. kmalloc 1168 (lh_k h') = Inr (0, k)) \<or>
     (\<exists>p k. devfs_finddir dev name path h' =
        Inr (p, path, h'\<lparr>lh_k := k, vf_nodes := (vf_nodes h')(p \<mapsto> device_view D)\<rparr>) \<and> p \<noteq> 0))"
proof -
  let ?E = "\<lparr>de_name = name, de_node = node\<rparr>"
  obtain X' A' where r: "dev_rep X' h' A' (es @ [?E])" "df_nodes h' = df_nodes h"
    using devfs_mount_rep [OF assms(1-3)] by blast
  have "find (\<lambda>E. de_name E = name) es = None"
    using assms(4) by (simp add: find_None_iff)
  then have "find (\<lambda>E. de_name E = name) (es @ [?E]) = Some ?E"
    by (simp add: find_snoc)
  with devfs_finddir_rep [OF r(1) this, of D dev path] r assms(5,6) show ?thesis
    by auto
qed

text \<open>A machine with an empty device table.\<close>

definition log_node :: devfs_node_t where
  "log_node = \<lparr>dn_name = str ''SerialLog'', dn_data = 0, dn_flags = 0, dn_internIndex = 0,
     dn_functions = no_functions\<lparr>fn_write := Devfs_log_write, fn_ioctl := Devfs_log_ioctl\<rparr>\<rparr>"

definition empty_devfs :: vfs where
  "empty_devfs = small_vfs\<lparr>lh_k := lh_k one_lheap, lh_lists := lh_lists one_lheap, lh_nodes := lh_nodes one_lheap,
     DevFSList := block_addr 4, df_nodes := [0x7700 \<mapsto> log_node]\<rparr>"

lemma empty_devfs_rep: "dev_rep {} empty_devfs [block_addr 4 \<mapsto> []] []"
proof -
  have "lheap_wf {} empty_devfs [block_addr 4 \<mapsto> []]"
    by (rule lheap_wf_cong) (use one_wf in \<open>simp_all add: empty_devfs_def\<close>)
  then show ?thesis
    by (simp add: dev_rep_def empty_devfs_def)
qed

lemma kmalloc_tail_page:
  assumes "heap_tail k j" "0 < unat sz" "unat sz \<le> 4096" "j + 2 < PmmLength (km_pmm k)"
  obtains p k' where "kmalloc sz k = Inr (p, k')" "p \<noteq> 0" "heap_tail k' (j + 2)" "PmmLength (km_pmm k') = PmmLength (km_pmm k)"
proof -
  have "size_pages (unat sz) = 1"
  proof (cases "unat sz = 4096")
    case False
    then have "unat sz < 4096"
      using assms(3) by simp
    then show ?thesis
      using assms(2) by (simp add: size_pages_def)
  qed (simp add: size_pages_def)
  then show thesis
    using kmalloc_tail [OF assms(1), of sz] assms(3,4) that by (auto simp: numeral_2_eq_2)
qed

lemma empty_devfs_mount: "\<exists>h'. devfs_mount (str ''log'') 0x7700 empty_devfs = Inr h'"
proof -
  let ?h = empty_devfs
  have t: "heap_tail (lh_k ?h) 12" and len: "PmmLength (km_pmm (lh_k ?h)) = 64"
    using three_heap_inv by (auto simp: heap_tail_def three_lheap_def one_lheap_def empty_devfs_def)
  obtain e k where e: "kmalloc 16 (lh_k ?h) = Inr (e, k)" "e \<noteq> 0" "heap_tail k 14" "PmmLength (km_pmm k) = 64"
    by (rule kmalloc_tail_page [OF t, of 16]) (auto simp: len)
  obtain p k2 where p: "kmalloc 4 k = Inr (p, k2)" "p \<noteq> 0" "heap_tail k2 16" "PmmLength (km_pmm k2) = 64"
    by (rule kmalloc_tail_page [OF e(3), of 4]) (auto simp: e(4))
  obtain q k3 where q: "kmalloc 24 k2 = Inr (q, k3)" "q \<noteq> 0"
    by (rule kmalloc_tail_page [OF p(3), of 24]) (auto simp: p(4))
  let ?E = "\<lparr>de_name = str ''log'', de_node = 0x7700\<rparr>"
  let ?h2 = "?h\<lparr>lh_k := k2, df_entries := (df_entries ?h)(e \<mapsto> ?E)\<rparr>"
  have "list_ok ?h2 (block_addr 4) []"
    using one_wf by (simp add: lheap_wf_def list_ok_def empty_devfs_def)
  then have "\<exists>n h'. list_push_back (block_addr 4) e ?h2 = Inr (n, h')"
    using q list_ok_nonnull [of ?h2 "block_addr 4" "[]"]
    by (simp add: list_push_back_def list_lock_ok list_run)
  moreover have "DevFSList ?h = block_addr 4"
    by (simp add: empty_devfs_def)
  ultimately show ?thesis
    using e(1,2) p(1,2) by (auto simp: devfs_mount_def dup_def str_def)
qed

theorem devfs_mount_finddir_witness:
  "\<exists>h' A' X'. devfs_mount (str ''log'') 0x7700 empty_devfs = Inr h' \<and>
     dev_rep X' h' A' [\<lparr>de_name = str ''log'', de_node = 0x7700\<rparr>] \<and>
     (devfs_finddir 0 (str ''log'') None h' = Inl NullDeref \<or>
      (\<exists>p h''. devfs_finddir 0 (str ''log'') None h' = Inr (p, None, h'') \<and> vf_nodes h'' p = Some (device_view log_node)))"
proof -
  obtain h' where h': "devfs_mount (str ''log'') 0x7700 empty_devfs = Inr h'"
    using empty_devfs_mount by blast
  have "df_nodes empty_devfs 0x7700 = Some log_node"
    by (simp add: empty_devfs_def)
  with devfs_mount_finddir [OF empty_devfs_rep _ h', of log_node 0 None] h' show ?thesis
    by (auto simp: str_def)
qed

end
