(* ===== verification/Pipe.thy ===== *)
theory Pipe
  imports Vfs
begin

text \<open>
  Pipes, \<^verbatim>\<open>kernel/fs/pipe/pipe.c\<close>. The bytes in flight are in a heap block of kernel memory that \<^verbatim>\<open>krealloc\<close>
  grows and shrinks in steps of 32 KiB; the event of a pipe is the event counter at its offset inside the pipe
  object; the poll status is the status word of the reading node.
\<close>

section \<open>Data\<close>

record pipe_data_t =
  pd_buffer :: u64
  pd_size :: u64
  pd_reference_count :: u64
  pd_poll_status :: u64
  pd_lock :: lock
  pd_flags :: u64
  pd_readFirstData :: bool

record pipes = vfs +
  pp_pipes :: "u64 \<rightharpoonup> pipe_data_t"

definition PIPE_BUFFER_STEP :: u64 where
  "PIPE_BUFFER_STEP = 32768"

text \<open>\<^verbatim>\<open>&data->event\<close>.\<close>

definition pipe_event :: "u64 \<Rightarrow> u64" where
  "pipe_event data = data + 16"

definition set_pipe :: "u64 \<Rightarrow> (pipe_data_t \<Rightarrow> pipe_data_t) \<Rightarrow> 'x pipes_scheme \<Rightarrow> 'x pipes_scheme exec" where
  "set_pipe p f h = bindr (modify p f (pp_pipes h)) (\<lambda>m. Inr (h\<lparr>pp_pipes := m\<rparr>))"

definition pipe_lock :: "u64 \<Rightarrow> 'x pipes_scheme \<Rightarrow> 'x pipes_scheme exec" where
  "pipe_lock p h = bindr (load (pp_pipes h) p) (\<lambda>D.
     bindr (spin_acquire_exec (pd_lock D)) (\<lambda>b. set_pipe p (\<lambda>D. D\<lparr>pd_lock := b\<rparr>) h))"

definition pipe_unlock :: "u64 \<Rightarrow> 'x pipes_scheme \<Rightarrow> 'x pipes_scheme exec" where
  "pipe_unlock p h = set_pipe p (\<lambda>D. D\<lparr>pd_lock := UNLOCKED\<rparr>) h"

definition pipe_of :: "u64 \<Rightarrow> 'x pipes_scheme \<Rightarrow> u64 exec" where
  "pipe_of node h = bindr (load (vf_nodes h) node) (\<lambda>N. Inr (vn_data N))"

section \<open>Reading\<close>

text \<open>
  The waiting loop. It ends with the number of bytes to read, or without one when the wait was aborted. The two
  addresses are those of the locals of \<^verbatim>\<open>event_await\<close>.
\<close>

partial_function (option) read_wait ::
    "('x pipes_scheme \<Rightarrow> 'x pipes_scheme exec) \<Rightarrow> nat \<Rightarrow> u64 \<Rightarrow> u64 \<Rightarrow> u64 \<Rightarrow> u64 \<Rightarrow>
     'x pipes_scheme \<Rightarrow> (u64 option \<times> 'x pipes_scheme) exec option" where
  "read_wait resched cpu l1 l2 data sz h =
     (case load (pp_pipes h) data of Inl e \<Rightarrow> Some (Inl e) | Inr D \<Rightarrow>
      if \<not> sz > pd_size D then Some (Inr (Some sz, h))
      else if pd_flags D AND O_NONBLOCK \<noteq> 0 \<or> pd_reference_count D = 1 then Some (Inr (Some (pd_size D), h))
      else
        (case bindr (pipe_unlock data h) (event_await resched cpu l1 l2 (pipe_event data)) of
           Inl e \<Rightarrow> Some (Inl e)
         | Inr r \<Rightarrow>
             if \<not> fst r then
               (case say (str ''TODO: Errno'' @ [10]) (snd r) of Inl e \<Rightarrow> Some (Inl e) | Inr h \<Rightarrow> Some (Inr (None, h)))
             else (case pipe_lock data (snd r) of Inl e \<Rightarrow> Some (Inl e) | Inr h \<Rightarrow>
                   (case load (pp_pipes h) data of Inl e \<Rightarrow> Some (Inl e) | Inr D \<Rightarrow>
                    if pd_readFirstData D then Some (Inr (Some (pd_size D), h))
                    else read_wait resched cpu l1 l2 data sz h))))"

definition set_mem :: "(bytes \<Rightarrow> bytes) \<Rightarrow> 'x lheap_scheme \<Rightarrow> 'x lheap_scheme" where
  "set_mem f h = h\<lparr>lh_k := (lh_k h)\<lparr>km_mem := f (km_mem (lh_k h))\<rparr>\<rparr>"

text \<open>A copy between buffers; a null pointer is only touched when there is something to copy.\<close>

definition checked :: "u64 \<Rightarrow> u64 list \<Rightarrow> 'a \<Rightarrow> 'a exec" where
  "checked n ps x = (if n \<noteq> 0 \<and> 0 \<in> set ps then Inl NullDeref else Inr x)"

definition resize :: "u64 \<Rightarrow> u64 \<Rightarrow> 'x pipes_scheme \<Rightarrow> 'x pipes_scheme exec" where
  "resize data sz h = bindr (load (pp_pipes h) data) (\<lambda>D.
     bindr (krealloc (pd_buffer D) sz (lh_k h)) (\<lambda>(b, k).
       set_pipe data (\<lambda>D. D\<lparr>pd_buffer := b\<rparr>) (h\<lparr>lh_k := k\<rparr>)))"

definition pipe_take :: "u64 \<Rightarrow> u64 \<Rightarrow> u64 \<Rightarrow> 'x pipes_scheme \<Rightarrow> 'x pipes_scheme exec" where
  "pipe_take data buffer sz h =
     bindr (event_reset (pipe_event data) h) (\<lambda>h.
     bindr (load (pp_pipes h) data) (\<lambda>D.
     let pipeSizeSteps = ROUND_UP64 (pd_size D) PIPE_BUFFER_STEP;
         newPipeSize = pd_size D - sz;
         newPipeSizeSteps = ROUND_UP64 newPipeSize PIPE_BUFFER_STEP
     in
       bindr (checked sz [buffer, pd_buffer D]
                (set_mem (\<lambda>m. memcpy m (phys_of buffer) (phys_of (pd_buffer D)) (unat sz)) h)) (\<lambda>h.
       bindr (checked newPipeSize [pd_buffer D]
                (set_mem (\<lambda>m. memmove m (phys_of (pd_buffer D)) (phys_of (pd_buffer D + sz)) (unat newPipeSize)) h)) (\<lambda>h.
       bindr (if newPipeSizeSteps < pipeSizeSteps then resize data newPipeSizeSteps h else Inr h) (\<lambda>h.
       bindr (set_pipe data (\<lambda>D. D\<lparr>pd_size := newPipeSize\<rparr>) h) (\<lambda>h.
       if newPipeSize = 0 then set_vnode (pd_poll_status D) (\<lambda>N. N\<lparr>vn_status := 0\<rparr>) h else Inr h))))))"

definition pipe_read ::
    "('x pipes_scheme \<Rightarrow> 'x pipes_scheme exec) \<Rightarrow> nat \<Rightarrow> u64 \<Rightarrow> u64 \<Rightarrow>
     u64 \<Rightarrow> u64 \<Rightarrow> u64 \<Rightarrow> 'x pipes_scheme \<Rightarrow> (u64 \<times> 'x pipes_scheme) exec" where
  "pipe_read resched cpu l1 l2 node buffer sz h =
     bindr (pipe_of node h) (\<lambda>data.
     if data = 0 then Inr (-1, h)
     else
       bindr (pipe_lock data h) (\<lambda>h.
       bindr (run_loop (read_wait resched cpu l1 l2 data sz h)) (\<lambda>(r, h).
       case r of
         None \<Rightarrow> Inr (-1, h)
       | Some sz \<Rightarrow>
           bindr (pipe_take data buffer sz h) (\<lambda>h.
           bindr (pipe_unlock data h) (\<lambda>h. Inr (sz, h))))))"

section \<open>Writing, closing, creating\<close>

definition pipe_write :: "u64 \<Rightarrow> u64 \<Rightarrow> u64 \<Rightarrow> 'x pipes_scheme \<Rightarrow> (u64 \<times> 'x pipes_scheme) exec" where
  "pipe_write node buffer sz h =
     bindr (pipe_of node h) (\<lambda>data.
     if data = 0 then Inr (-1, h)
     else
       bindr (pipe_lock data h) (\<lambda>h.
       bindr (load (pp_pipes h) data) (\<lambda>D.
       let pipeSizeSteps = ROUND_UP64 (pd_size D) PIPE_BUFFER_STEP;
           newPipeSize = pd_size D + sz;
           newPipeSizeSteps = ROUND_UP64 newPipeSize PIPE_BUFFER_STEP
       in
         bindr (if newPipeSizeSteps > pipeSizeSteps then resize data newPipeSizeSteps h else Inr h) (\<lambda>h.
         bindr (load (pp_pipes h) data) (\<lambda>D.
         bindr (checked sz [buffer, pd_buffer D]
                  (set_mem (\<lambda>m. memcpy m (phys_of (pd_buffer D + pd_size D)) (phys_of buffer) (unat sz)) h)) (\<lambda>h.
         bindr (set_pipe data (\<lambda>D. D\<lparr>pd_size := newPipeSize\<rparr>) h) (\<lambda>h.
         bindr (set_vnode (pd_poll_status D) (\<lambda>N. N\<lparr>vn_status := POLLIN\<rparr>) h) (\<lambda>h.
         bindr (event_notify (pipe_event data) h) (\<lambda>h.
         bindr (pipe_unlock data h) (\<lambda>h. Inr (sz, h)))))))))))"

text \<open>
  Closing the last end releases the pipe and then stores into its lock: the store goes to
  memory that is no longer the pipe's.
\<close>

definition pipe_close :: "u64 \<Rightarrow> 'x pipes_scheme \<Rightarrow> (u64 \<times> 'x pipes_scheme) exec" where
  "pipe_close node h =
     bindr (pipe_of node h) (\<lambda>data.
     if data = 0 then Inr (-1, h)
     else
       bindr (pipe_lock data h) (\<lambda>h.
       bindr (set_pipe data (\<lambda>D. D\<lparr>pd_reference_count := pd_reference_count D - 1\<rparr>) h) (\<lambda>h.
       bindr (load (pp_pipes h) data) (\<lambda>D.
       if pd_reference_count D \<noteq> 0 then
         bindr (event_notify (pipe_event data) h) (\<lambda>h.
         bindr (pipe_unlock data h) (\<lambda>h. Inr (0, h)))
       else
         bindr (if pd_size D \<noteq> 0 then bindr (kfree (pd_buffer D) (lh_k h)) (\<lambda>k. Inr (h\<lparr>lh_k := k\<rparr>)) else Inr h) (\<lambda>h.
         bindr (kfree data (lh_k h)) (\<lambda>k.
         bindr (pipe_unlock data (h\<lparr>lh_k := k, pp_pipes := (pp_pipes h)(data := None)\<rparr>)) (\<lambda>h. Inr (0, h))))))))"

definition pipe_functions :: vfs_functions_t where
  "pipe_functions = no_functions\<lparr>fn_read := Pipe_read, fn_write := Pipe_write, fn_close := Pipe_close\<rparr>"

definition pipe_create :: "u64 \<Rightarrow> 'x pipes_scheme \<Rightarrow> (bool \<times> 'x pipes_scheme) exec" where
  "pipe_create pipeNodes h =
     bindr (kmalloc 88 (lh_k h)) (\<lambda>(newPipe, k).
     if newPipe = 0 then Inl NullDeref
     else
       bindr (event_reset (pipe_event newPipe) (h\<lparr>lh_k := k, ts_events := (ts_events h)(pipe_event newPipe \<mapsto> 0)\<rparr>)) (\<lambda>h.
       bindr (new_vnode (zero_node\<lparr>vn_functions := pipe_functions, vn_data := newPipe\<rparr>) h) (\<lambda>(readNode, h).
       bindr (new_vnode (zero_node\<lparr>vn_functions := pipe_functions, vn_data := newPipe, vn_status := POLLOUT\<rparr>) h) (\<lambda>(writeNode, h).
       let h = h\<lparr>pp_pipes := (pp_pipes h)(newPipe \<mapsto>
           \<lparr>pd_buffer = 0, pd_size = 0, pd_reference_count = 2, pd_poll_status = readNode, pd_lock = UNLOCKED,
            pd_flags = 0, pd_readFirstData = False\<rparr>)\<rparr>
       in
         bindr (arr_set (ts_arrays h) pipeNodes 0 readNode) (\<lambda>m.
         bindr (arr_set m pipeNodes 1 writeNode) (\<lambda>m. Inr (True, h\<lparr>ts_arrays := m\<rparr>)))))))"

definition pipe_set_read_at_first_data :: "u64 \<Rightarrow> bool \<Rightarrow> 'x pipes_scheme \<Rightarrow> 'x pipes_scheme exec" where
  "pipe_set_read_at_first_data pipe val h =
     bindr (pipe_of pipe h) (\<lambda>data. set_pipe data (\<lambda>D. D\<lparr>pd_readFirstData := val\<rparr>) h)"

section \<open>The buffer\<close>

text \<open>
  What a pipe keeps on the heap: nothing while it is empty, otherwise one block whose size is the number of
  bytes in flight rounded up to the step and that starts with them. \<open>B\<close> are the other live blocks.
\<close>

definition buf_ptr :: "(nat \<times> nat) option \<Rightarrow> u64" where
  "buf_ptr blk = (case blk of None \<Rightarrow> 0 | Some b \<Rightarrow> block_addr (fst b))"

definition block_data :: "nat \<times> nat \<Rightarrow> nat set" where
  "block_data b = {(fst b + 1) * 4096 ..< (fst b + snd b) * 4096}"

definition pipe_buf :: "kmem \<Rightarrow> (nat \<times> nat) set \<Rightarrow> (nat \<times> nat) option \<Rightarrow> u8 list \<Rightarrow> bool" where
  "pipe_buf k B blk q \<longleftrightarrow> heap_inv k (B \<union> set_option blk) \<and> set_option blk \<inter> B = {} \<and>
     (case blk of None \<Rightarrow> q = [] | Some b \<Rightarrow> q \<noteq> [] \<and> block_size k (fst b) = ROUND_UP (length q) 32768 \<and>
        bytes_at (km_mem k) ((fst b + 1) * 4096) (length q) = q)"

lemma ROUND_UP64_step:
  assumes "unat n \<le> 17592186044416"
  shows "unat (ROUND_UP64 n 32768) = ROUND_UP (unat n) 32768" "ROUND_UP (unat n) 32768 \<le> 35184372088832"
proof -
  have "n + 32768 - 1 = of_nat (unat n + 32767)"
    by simp
  moreover have "unat (of_nat (unat n + 32767) :: u64) = unat n + 32767"
    using assms by (intro unat_of_nat_u64) simp
  ultimately have "unat (n + 32768 - 1) = unat n + 32767"
    by (simp only:)
  then have "(n + 32768 - 1) div 32768 * 32768 = of_nat ((unat n + 32767) div 32768 * 32768)"
    by (simp add: word_arith_nat_div)
  moreover have "(unat n + 32767) div 32768 * 32768 < 18446744073709551616"
    using assms by linarith
  ultimately show "unat (ROUND_UP64 n 32768) = ROUND_UP (unat n) 32768"
    by (simp add: ROUND_UP64_def ROUND_UP_def del: of_nat_mult)
  show "ROUND_UP (unat n) 32768 \<le> 35184372088832"
    using ROUND_UP_less [of 32768 "unat n"] assms by simp
qed

lemma step_less_iff:
  assumes "unat a \<le> 17592186044416" "unat b \<le> 17592186044416"
  shows "ROUND_UP64 a PIPE_BUFFER_STEP < ROUND_UP64 b PIPE_BUFFER_STEP \<longleftrightarrow>
    ROUND_UP (unat a) 32768 < ROUND_UP (unat b) 32768"
  using ROUND_UP64_step(1) [OF assms(1)] ROUND_UP64_step(1) [OF assms(2)]
  by (simp add: word_less_nat_alt PIPE_BUFFER_STEP_def)

lemma bytes_at_Nil [simp]: "bytes_at m a n = [] \<longleftrightarrow> n = 0"
  using length_bytes_at [of m a n] by (metis bytes_at_0 length_0_conv)

lemma bytes_at_take: "n \<le> l \<Longrightarrow> take n (bytes_at m a l) = bytes_at m a n"
  by (rule nth_equalityI) simp_all

text \<open>Growing or shrinking the block keeps the bytes that fit and every other block.\<close>

lemma krealloc_buf:
  assumes "pipe_buf k B blk q" "sz \<noteq> 0" "unat sz \<le> 35184372088832"
  shows "\<exists>p k'. krealloc (buf_ptr blk) sz k = Inr (p, k') \<and> (p \<noteq> 0 \<longrightarrow>
    (\<exists>b. p = block_addr (fst b) \<and> b \<notin> B \<and> heap_inv k' (insert b B) \<and> block_size k' (fst b) = unat sz \<and>
       (\<forall>n. n \<le> length q \<longrightarrow> n \<le> unat sz \<longrightarrow> bytes_at (km_mem k') ((fst b + 1) * 4096) n = take n q) \<and>
       (\<forall>c\<in>B. \<forall>x\<in>block_bytes c. km_mem k' x = km_mem k x)))"
proof (cases blk)
  case None
  then have inv: "heap_inv k B" and q: "q = []"
    using assms(1) by (simp_all add: pipe_buf_def)
  obtain p k' where r: "kmalloc sz k = Inr (p, k')"
    using kmalloc_total [OF inv] by blast
  show ?thesis
  proof (cases "p = 0")
    case False
    from inv r False assms(3) obtain i where i: "p = block_addr i" "(i, size_pages (unat sz) + 1) \<notin> B"
        "heap_inv k' (insert (i, size_pages (unat sz) + 1) B)" "block_size k' i = unat sz"
        "\<forall>c\<in>B. block_bytes (i, size_pages (unat sz) + 1) \<inter> block_bytes c = {}"
        "\<forall>x. x \<notin> block_bytes (i, size_pages (unat sz) + 1) \<longrightarrow> km_mem k' x = km_mem k x"
      by (rule kmalloc_fresh) blast
    then have "\<forall>c\<in>B. \<forall>x\<in>block_bytes c. km_mem k' x = km_mem k x"
      by blast
    then show ?thesis
      using r None q i(1-4) by (intro exI [of _ p] exI [of _ k'] conjI impI exI [of _ "(i, size_pages (unat sz) + 1)"])
        (simp_all add: krealloc_def buf_ptr_def)
  qed (use r None in \<open>simp add: krealloc_def buf_ptr_def\<close>)
next
  case (Some b)
  obtain i n where b: "b = (i, n)" by (cases b)
  then have inv: "heap_inv k (insert (i, n) B)" and nB: "(i, n) \<notin> B" and sz: "block_size k i = ROUND_UP (length q) 32768"
      and q: "bytes_at (km_mem k) ((i + 1) * 4096) (length q) = q"
    using assms(1) Some by (simp_all add: pipe_buf_def)
  have i: "i < 34359738368"
    using heap_inv_bounds(2) [OF inv, of "(i, n)"] by simp
  have le: "length q \<le> block_size k i"
    using sz ROUND_UP_ge [of 32768 "length q"] by simp
  have B: "insert (i, n) B - {(i, n)} = B"
    using nB by blast
  obtain p k' where r: "krealloc (block_addr i) sz k = Inr (p, k')" "p \<noteq> 0 \<Longrightarrow>
      \<exists>j m. p = block_addr j \<and> (j, m) \<notin> B \<and> heap_inv k' (insert (j, m) B) \<and> block_size k' j = unat sz \<and>
       bytes_at (km_mem k') (phys_of p) (min (block_size k i) (unat sz)) =
       bytes_at (km_mem k) (phys_of (block_addr i)) (min (block_size k i) (unat sz)) \<and>
       (\<forall>b\<in>B. \<forall>x\<in>block_bytes b. km_mem k' x = km_mem k x)"
    using krealloc_spec [OF inv _ assms(2,3), of i n] unfolding B by blast
  show ?thesis
  proof (cases "p = 0")
    case False
    with r(2) obtain j m where j: "p = block_addr j" "(j, m) \<notin> B" "heap_inv k' (insert (j, m) B)" "block_size k' j = unat sz"
        "bytes_at (km_mem k') (phys_of p) (min (block_size k i) (unat sz)) =
         bytes_at (km_mem k) (phys_of (block_addr i)) (min (block_size k i) (unat sz))"
        "\<forall>b\<in>B. \<forall>x\<in>block_bytes b. km_mem k' x = km_mem k x"
      by blast
    have "j < 34359738368"
      using heap_inv_bounds(2) [OF j(3), of "(j, m)"] by simp
    then have cp: "bytes_at (km_mem k') ((j + 1) * 4096) (min (block_size k i) (unat sz)) =
        bytes_at (km_mem k) ((i + 1) * 4096) (min (block_size k i) (unat sz))"
      using j(1,5) i by (simp only: phys_of_block)
    have "bytes_at (km_mem k') ((j + 1) * 4096) c = take c q" if "c \<le> length q" "c \<le> unat sz" for c
    proof -
      have c: "c \<le> min (block_size k i) (unat sz)"
        using that le by simp
      have "bytes_at (km_mem k') ((j + 1) * 4096) c = bytes_at (km_mem k) ((i + 1) * 4096) c"
        using bytes_at_take [OF c] cp by metis
      also have "\<dots> = take c q"
        using q bytes_at_take [OF that(1)] by metis
      finally show ?thesis .
    qed
    then show ?thesis
      using r(1) j Some b by (intro exI [of _ p] exI [of _ k']) (auto simp: buf_ptr_def intro!: exI [of _ "(j, m)"])
  qed (use r Some b in \<open>simp add: buf_ptr_def\<close>)
qed

lemma phys_of_inside:
  assumes "i < 34359738368" "l \<le> 35184372088832"
  shows "phys_of (block_addr i + of_nat l) = (i + 1) * 4096 + l"
proof -
  have "block_addr i + of_nat l - MEM_PHYS_OFFSET = of_nat ((i + 1) * 4096 + l)"
    by (simp add: block_addr_def algebra_simps)
  moreover have "(i + 1) * 4096 + l < 18446744073709551616"
    using assms by simp
  ultimately show ?thesis
    by (simp add: phys_of_def del: of_nat_mult of_nat_add)
qed

text \<open>Stores into the data of a block keep the heap and every other block.\<close>

lemma heap_inv_store:
  assumes "heap_inv k B" "b \<in> B" "\<forall>x. x \<notin> block_data b \<longrightarrow> m x = km_mem k x"
  shows "heap_inv (k\<lparr>km_mem := m\<rparr>) B" "\<And>c. c \<in> B \<Longrightarrow> block_size (k\<lparr>km_mem := m\<rparr>) (fst c) = block_size k (fst c)"
    "\<And>c x. c \<in> B \<Longrightarrow> c \<noteq> b \<Longrightarrow> x \<in> block_bytes c \<Longrightarrow> m x = km_mem k x"
proof -
  have sub: "block_data b \<subseteq> block_bytes b"
    by (auto simp: block_data_def block_bytes_def)
  show other: "m x = km_mem k x" if "c \<in> B" "c \<noteq> b" "x \<in> block_bytes c" for c x
    using heap_inv_apart [OF assms(1) that(1) assms(2)] that sub assms(3) by blast
  have hdr: "m x = km_mem k x" if "(i, n) \<in> B" "i * 4096 \<le> x" "x < i * 4096 + 16" for i n x
  proof (cases "(i, n) = b")
    case True
    then show ?thesis
      using that(2,3) assms(3) by (auto simp: block_data_def)
  next
    case False
    have "0 < n"
      using heap_inv_bounds(3) [OF assms(1) that(1)] by simp
    then have "x \<in> block_bytes (i, n)"
      using that(2,3) by (cases n) (auto simp: block_bytes_def)
    with other that(1) False show ?thesis by blast
  qed
  show "heap_inv (k\<lparr>km_mem := m\<rparr>) B"
    by (rule heap_inv_mem_cong(1) [OF assms(1)]) (erule (2) hdr)
  show "block_size (k\<lparr>km_mem := m\<rparr>) (fst c) = block_size k (fst c)" if "c \<in> B" for c
    by (rule heap_inv_mem_cong(2) [OF assms(1), of _ "fst c" "snd c"], erule (2) hdr) (use that in simp)
qed

lemma block_data_fits: "heap_inv k B \<Longrightarrow> b \<in> B \<Longrightarrow> l \<le> block_size k (fst b) \<Longrightarrow>
  {(fst b + 1) * 4096 ..< (fst b + 1) * 4096 + l} \<subseteq> block_data b"
  using block_size_fits [of k B "fst b" "snd b"] by (auto simp: block_data_def)

lemma buf_append:
  assumes inv: "heap_inv k (insert b B)" "b \<notin> B" "block_size k (fst b) = ROUND_UP (length q + n) 32768"
    and q: "bytes_at (km_mem k) ((fst b + 1) * 4096) (length q) = q"
    and src: "c \<in> B" "{s ..< s + n} \<subseteq> block_data c" and n: "0 < n"
  defines "m \<equiv> memcpy (km_mem k) ((fst b + 1) * 4096 + length q) s n"
  shows "pipe_buf (k\<lparr>km_mem := m\<rparr>) B (Some b) (q @ bytes_at (km_mem k) s n)"
    "\<forall>d\<in>B. \<forall>x\<in>block_bytes d. m x = km_mem k x"
proof -
  let ?a = "(fst b + 1) * 4096"
  have "length q + n \<le> block_size k (fst b)"
    using inv(3) ROUND_UP_ge [of 32768 "length q + n"] by simp
  then have fit: "{?a ..< ?a + (length q + n)} \<subseteq> block_data b"
    by (rule block_data_fits [OF inv(1) insertI1])
  have sep: "block_data b \<inter> block_data c = {}"
    using heap_inv_apart [OF inv(1), of b c] src(1) inv(2) by (fastforce simp: block_data_def block_bytes_def)
  have "s + n - 1 \<in> block_data c" "s \<in> block_data c" "?a + length q \<in> block_data b" "?a + length q + n - 1 \<in> block_data b"
    using src(2) fit n by (auto simp: subset_iff)
  then have "?a + length q + n \<le> s \<or> s + n \<le> ?a + length q"
    using sep n by (auto simp: block_data_def disjoint_iff)
  then have m: "m = blit (km_mem k) (?a + length q) s n"
    unfolding m_def by (intro memcpy_eq) linarith
  have out: "\<forall>x. x \<notin> block_data b \<longrightarrow> m x = km_mem k x"
  proof (intro allI impI)
    fix x
    assume "x \<notin> block_data b"
    then have "x \<notin> {?a ..< ?a + (length q + n)}"
      using fit by blast
    then show "m x = km_mem k x"
      by (auto simp: m blit_def)
  qed
  note st = heap_inv_store [OF inv(1) insertI1 out]
  have "bytes_at m ?a (length q) = q"
    using q by (metis (no_types, lifting) bytes_at_cong blit_def leD m)
  moreover have "bytes_at m (?a + length q) n = bytes_at (km_mem k) s n"
    unfolding m by (rule bytes_at_blit_dest)
  ultimately show "pipe_buf (k\<lparr>km_mem := m\<rparr>) B (Some b) (q @ bytes_at (km_mem k) s n)"
    using st(1) st(2) [of b] inv(2,3) n by (simp add: pipe_buf_def bytes_at_add)
  show "\<forall>d\<in>B. \<forall>x\<in>block_bytes d. m x = km_mem k x"
    using st(3) inv(2) by blast
qed

section \<open>Pipes are queues of bytes\<close>

definition pipe_rep :: "'x pipes_scheme \<Rightarrow> u64 \<Rightarrow> (nat \<times> nat) set \<Rightarrow> u8 list \<Rightarrow> bool" where
  "pipe_rep h node B q \<longleftrightarrow> (\<exists>N D c blk. node \<noteq> 0 \<and> vf_nodes h node = Some N \<and> vn_data N \<noteq> 0 \<and>
     pp_pipes h (vn_data N) = Some D \<and> pd_lock D \<and> pd_buffer D = buf_ptr blk \<and> pd_size D = of_nat (length q) \<and>
     pipe_buf (lh_k h) B blk q \<and> pd_poll_status D \<noteq> 0 \<and> pd_poll_status D \<in> dom (vf_nodes h) \<and>
     pipe_event (vn_data N) \<noteq> 0 \<and> ts_events h (pipe_event (vn_data N)) = Some c \<and> unat c < 65536)"

lemma locked_inc_low: "unat c < 65536 \<Longrightarrow> unat (snd (locked_inc c)) < 65536"
  using locked_halves(2,3) [of c] by (simp add: div_eq_0_iff)

text \<open>Making room: the block of the pipe after the resize of \<^verbatim>\<open>pipe_write\<close>.\<close>

lemma grow_ok:
  assumes "pipe_buf k B blk q" "0 < n" "length q + n \<le> 17592186044416"
  defines "grow \<equiv> ROUND_UP (length q) 32768 < ROUND_UP (length q + n) 32768"
  obtains (oom) k' where "grow" "krealloc (buf_ptr blk) (ROUND_UP64 (of_nat (length q + n)) 32768) k = Inr (0, k')"
  | (room) b k' where "(if grow then krealloc (buf_ptr blk) (ROUND_UP64 (of_nat (length q + n)) 32768) k else Inr (buf_ptr blk, k)) = Inr (block_addr (fst b), k')"
      "b \<notin> B" "heap_inv k' (insert b B)" "block_size k' (fst b) = ROUND_UP (length q + n) 32768"
      "bytes_at (km_mem k') ((fst b + 1) * 4096) (length q) = q" "\<forall>c\<in>B. \<forall>x\<in>block_bytes c. km_mem k' x = km_mem k x"
proof (cases grow)
  case False
  have "ROUND_UP (length q) 32768 = ROUND_UP (length q + n) 32768"
    using False ROUND_UP_mono [of "length q" "length q + n" 32768] by (simp add: grow_def)
  moreover have "blk \<noteq> None"
  proof
    assume "blk = None"
    then have "q = []"
      using assms(1) by (simp add: pipe_buf_def)
    with calculation assms(2) ROUND_UP_eq_0_iff [of 32768 n] show False by simp
  qed
  ultimately show ?thesis
    using room [of "the blk" k] assms(1) False by (auto simp: pipe_buf_def buf_ptr_def)
next
  case True
  let ?sz = "ROUND_UP64 (of_nat (length q + n)) 32768 :: u64"
  have "unat (of_nat (length q + n) :: u64) = length q + n"
    using assms(3) by (intro unat_of_nat_u64) simp
  then have sz: "unat ?sz = ROUND_UP (length q + n) 32768" "unat ?sz \<le> 35184372088832"
    using ROUND_UP64_step [of "of_nat (length q + n)"] assms(3) by (simp_all only:)
  have "length q + n \<le> unat ?sz"
    unfolding sz(1) by (rule ROUND_UP_ge) simp
  then have "?sz \<noteq> 0" "length q \<le> unat ?sz"
    using assms(2) by auto
  with krealloc_buf [OF assms(1) this(1) sz(2)] obtain p k' where r: "krealloc (buf_ptr blk) ?sz k = Inr (p, k')"
      "p \<noteq> 0 \<Longrightarrow> \<exists>b. p = block_addr (fst b) \<and> b \<notin> B \<and> heap_inv k' (insert b B) \<and> block_size k' (fst b) = unat ?sz \<and>
         bytes_at (km_mem k') ((fst b + 1) * 4096) (length q) = q \<and>
         (\<forall>c\<in>B. \<forall>x\<in>block_bytes c. km_mem k' x = km_mem k x)"
    by (metis order_refl take_all_iff)
  show ?thesis
  proof (cases "p = 0")
    case True
    then show ?thesis
      using oom r(1) \<open>grow\<close> by simp
  next
    case False
    then show ?thesis
      using room r \<open>grow\<close> sz(1) by auto
  qed
qed

lemma pipe_write_spec:
  assumes rep: "pipe_rep h node B q" and src: "c \<in> B" "{phys_of buffer ..< phys_of buffer + unat sz} \<subseteq> block_data c"
    and sz: "buffer \<noteq> 0" "sz \<noteq> 0" "length q + unat sz \<le> 17592186044416"
  shows "(\<exists>p k'. krealloc p (ROUND_UP64 (of_nat (length q) + sz) 32768) (lh_k h) = Inr (0, k') \<and>
       pipe_write node buffer sz h = Inl NullDeref) \<or>
    (\<exists>h'. pipe_write node buffer sz h = Inr (sz, h') \<and>
       pipe_rep h' node B (q @ bytes_at (km_mem (lh_k h)) (phys_of buffer) (unat sz)) \<and>
       (\<forall>d\<in>B. \<forall>x\<in>block_bytes d. km_mem (lh_k h') x = km_mem (lh_k h) x))"
proof -
  let ?n = "unat sz"
  from rep obtain N D e blk where nd: "node \<noteq> 0" "vf_nodes h node = Some N" "vn_data N \<noteq> 0"
      "pp_pipes h (vn_data N) = Some D" "pd_lock D" "pd_buffer D = buf_ptr blk" "pd_size D = of_nat (length q)"
      "pipe_buf (lh_k h) B blk q" "pd_poll_status D \<noteq> 0" "pd_poll_status D \<in> dom (vf_nodes h)"
      "pipe_event (vn_data N) \<noteq> 0" "ts_events h (pipe_event (vn_data N)) = Some e" "unat e < 65536"
    unfolding pipe_rep_def by blast
  have n: "0 < ?n"
    using sz(2) by (simp add: unat_gt_0)
  have ls: "unat (of_nat (length q) :: u64) = length q" "pd_size D + sz = of_nat (length q + ?n)"
      "unat (of_nat (length q + ?n) :: u64) = length q + ?n"
    using sz(3) nd(7) by (simp, simp, intro unat_of_nat_u64) simp
  let ?grow = "ROUND_UP (length q) 32768 < ROUND_UP (length q + ?n) 32768"
  have g: "ROUND_UP64 (pd_size D) PIPE_BUFFER_STEP < ROUND_UP64 (pd_size D + sz) PIPE_BUFFER_STEP \<longleftrightarrow> ?grow"
    unfolding ls(2) unfolding nd(7)
    using step_less_iff [of "of_nat (length q)" "of_nat (length q + ?n)", unfolded ls(1,3)] sz(3) by linarith
  show ?thesis
    using nd(8) n sz(3)
  proof (cases rule: grow_ok)
    case (oom k')
    then have "pipe_write node buffer sz h = Inl NullDeref"
      using nd g sz by (simp add: pipe_write_def pipe_of_def pipe_lock_def set_pipe_def resize_def Let_def checked_def ls(2)
          PIPE_BUFFER_STEP_def)
    moreover have "(of_nat (length q + ?n) :: u64) = of_nat (length q) + sz"
      by simp
    ultimately show ?thesis
      using oom(2) by metis
  next
    case (room b k')
    let ?src = "bytes_at (km_mem k') (phys_of buffer) ?n"
    have i: "fst b < 34359738368"
      using heap_inv_bounds(2) [OF room(3), of b] by simp
    have "{phys_of buffer ..< phys_of buffer + ?n} \<subseteq> block_bytes c"
      using src(2) by (auto simp: block_data_def block_bytes_def)
    then have eqs: "?src = bytes_at (km_mem (lh_k h)) (phys_of buffer) ?n"
      using room(6) src(1) by (intro bytes_at_cong) auto
    let ?m = "memcpy (km_mem k') ((fst b + 1) * 4096 + length q) (phys_of buffer) ?n"
    note ap = buf_append [OF room(3,2,4,5) src n]
    have at: "phys_of (block_addr (fst b) + of_nat (length q)) = (fst b + 1) * 4096 + length q"
      using sz(3) by (intro phys_of_inside [OF i]) simp
    have nz: "block_addr (fst b) \<noteq> 0"
      by (rule kheap.ptr_nonnull [OF room(3)]) simp
    let ?D = "D\<lparr>pd_buffer := block_addr (fst b), pd_size := pd_size D + sz\<rparr>"
    let ?N = "\<lambda>N. N\<lparr>vn_status := POLLIN\<rparr>"
    obtain R where R: "vf_nodes h (pd_poll_status D) = Some R"
      using nd(10) by blast
    let ?h = "h\<lparr>lh_k := k'\<lparr>km_mem := ?m\<rparr>, pp_pipes := (pp_pipes h)(vn_data N \<mapsto> ?D),
        vf_nodes := (vf_nodes h)(pd_poll_status D \<mapsto> ?N R),
        ts_events := (ts_events h)(pipe_event (vn_data N) \<mapsto> snd (locked_inc e))\<rparr>"
    have upd: "D\<lparr>pd_lock := False, pd_buffer := x, pd_size := y, pd_lock := True\<rparr> = D\<lparr>pd_buffer := x, pd_size := y\<rparr>"
        "D\<lparr>pd_lock := False, pd_size := y, pd_lock := True\<rparr> = D\<lparr>pd_size := y\<rparr>" for x y
      using nd(5) by (simp_all add: pipe_data_t.equality)
    let ?data = "vn_data N" and ?Dl = "D\<lparr>pd_lock := False, pd_buffer := block_addr (fst b)\<rparr>"
    define hl where "hl = h\<lparr>pp_pipes := (pp_pipes h)(?data \<mapsto> D\<lparr>pd_lock := False\<rparr>)\<rparr>"
    define hr where "hr = h\<lparr>lh_k := k', pp_pipes := (pp_pipes h)(?data \<mapsto> ?Dl)\<rparr>"
    have lock: "pipe_lock ?data h = Inr hl" "load (pp_pipes hl) ?data = Inr (D\<lparr>pd_lock := False\<rparr>)"
      using nd(3-5) by (simp_all add: pipe_lock_def set_pipe_def hl_def)
    have res: "(if ROUND_UP64 (pd_size D + sz) PIPE_BUFFER_STEP > ROUND_UP64 (pd_size D) PIPE_BUFFER_STEP
        then resize ?data (ROUND_UP64 (pd_size D + sz) PIPE_BUFFER_STEP) hl else Inr hl) = Inr hr"
    proof (cases ?grow)
      case True
      then have "krealloc (pd_buffer D) (ROUND_UP64 (pd_size D + sz) PIPE_BUFFER_STEP) (lh_k h) = Inr (block_addr (fst b), k')"
        using room(1) unfolding ls(2) nd(6) PIPE_BUFFER_STEP_def by simp
      then show ?thesis
        using True nd(3) g by (simp add: resize_def set_pipe_def hl_def hr_def)
    next
      case False
      then have "block_addr (fst b) = pd_buffer D" "k' = lh_k h"
        using room(1) nd(6) by simp_all
      then show ?thesis
        using False g by (simp add: hl_def hr_def)
    qed
    have hr: "load (pp_pipes hr) ?data = Inr ?Dl" "lh_k hr = k'"
      using nd(3) by (simp_all add: hr_def)
    have at': "phys_of (block_addr (fst b) + pd_size D) = (fst b + 1) * 4096 + length q"
      using at nd(7) by simp
    have "pipe_write node buffer sz h =
        bindr (set_pipe ?data (\<lambda>D'. D'\<lparr>pd_size := pd_size D + sz\<rparr>) (hr\<lparr>lh_k := k'\<lparr>km_mem := ?m\<rparr>\<rparr>)) (\<lambda>h.
        bindr (set_vnode (pd_poll_status D) ?N h) (\<lambda>h.
        bindr (event_notify (pipe_event ?data) h) (\<lambda>h.
        bindr (pipe_unlock ?data h) (\<lambda>h. Inr (sz, h)))))"
      using nd(1-3) sz(1,2) nz
      by (simp add: pipe_write_def pipe_of_def lock res hr at' Let_def checked_def set_mem_def split del: if_split cong: if_cong)
    also have "\<dots> = Inr (sz, ?h)"
      using nd(3,9,11,12) R upd
      by (simp add: hr_def set_pipe_def set_vnode_def event_notify_def pipe_unlock_def)
    finally have run: "pipe_write node buffer sz h = Inr (sz, ?h)" .
    have "pipe_rep ?h node B (q @ ?src)"
      unfolding pipe_rep_def using nd ap(1) locked_inc_low R
      by (intro exI [of _ "if node = pd_poll_status D then ?N N else N"] exI [of _ ?D]
          exI [of _ "snd (locked_inc e)"] exI [of _ "Some b"]) (auto simp: buf_ptr_def)
    moreover have "\<forall>d\<in>B. \<forall>x\<in>block_bytes d. km_mem (lh_k ?h) x = km_mem (lh_k h) x"
      using ap(2) room(6) by simp
    ultimately show ?thesis
      using run unfolding eqs by blast
  qed
qed

text \<open>
  C7. A pipe is a queue of bytes. On a pipe that holds \<open>q\<close>, writing \<open>sz\<close> bytes from a buffer inside some other
  live heap block leaves \<open>q\<close> followed by those bytes in the pipe, returns \<open>sz\<close>, and touches no other live
  block. The only other outcome is that the heap is exhausted: \<^verbatim>\<open>krealloc\<close> then returns \<^verbatim>\<open>NULL\<close>, which
  \<^verbatim>\<open>pipe_write\<close> does not test before it copies through it.
\<close>

theorem pipe_write_appends:
  assumes "pipe_rep h node B q" "c \<in> B" "{phys_of buffer ..< phys_of buffer + unat sz} \<subseteq> block_data c"
    and "buffer \<noteq> 0" "sz \<noteq> 0" "length q + unat sz \<le> 17592186044416"
  shows "(\<exists>p k'. krealloc p (ROUND_UP64 (of_nat (length q) + sz) 32768) (lh_k h) = Inr (0, k') \<and>
       pipe_write node buffer sz h = Inl NullDeref) \<or>
    (\<exists>h'. pipe_write node buffer sz h = Inr (sz, h') \<and>
       pipe_rep h' node B (q @ bytes_at (km_mem (lh_k h)) (phys_of buffer) (unat sz)) \<and>
       (\<forall>d\<in>B. \<forall>x\<in>block_bytes d. km_mem (lh_k h') x = km_mem (lh_k h) x))"
  by (rule pipe_write_spec [OF assms])

text \<open>An empty pipe beside one live block of 100 bytes.\<close>

definition empty_pipe :: "kmem \<Rightarrow> pipes" where
  "empty_pipe k = vfs.extend (small_vfs\<lparr>lh_k := k, vf_nodes := [0x8000 \<mapsto> zero_node\<lparr>vn_data := 0x9000\<rparr>], ts_events := [0x9010 \<mapsto> 0]\<rparr>)
     (pipes.fields [0x9000 \<mapsto> \<lparr>pd_buffer = 0, pd_size = 0, pd_reference_count = 2, pd_poll_status = 0x8000,
        pd_lock = UNLOCKED, pd_flags = 0, pd_readFirstData = False\<rparr>])"

lemma empty_pipe_rep: "heap_inv k B \<Longrightarrow> pipe_rep (empty_pipe k) 0x8000 B []"
  by (simp add: pipe_rep_def empty_pipe_def vfs.defs pipes.defs trees.defs pipe_event_def pipe_buf_def buf_ptr_def
    exI [of _ None])

theorem pipe_write_appends_witness:
  "\<exists>k i n. heap_inv k {(i, n)} \<and> block_size k i = 100 \<and>
     ((\<exists>p k'. krealloc p 32768 k = Inr (0, k') \<and> pipe_write 0x8000 (block_addr i) 100 (empty_pipe k) = Inl NullDeref) \<or>
      (\<exists>h'. pipe_write 0x8000 (block_addr i) 100 (empty_pipe k) = Inr (100, h') \<and>
         pipe_rep h' 0x8000 {(i, n)} (bytes_at (km_mem k) ((i + 1) * 4096) 100)))"
proof -
  obtain k i n where k: "heap_inv k {(i, n)}" "block_size k i = 100"
    by (rule small_heap_block)
  have i: "i < 34359738368"
    using heap_inv_bounds(2) [OF k(1), of "(i, n)"] by simp
  have fit: "{phys_of (block_addr i) ..< phys_of (block_addr i) + unat (100 :: u64)} \<subseteq> block_data (i, n)"
    using block_data_fits [OF k(1), of "(i, n)" 100] k(2) by (simp add: phys_of_block [OF i])
  have nz: "block_addr i \<noteq> 0"
    using kheap.ptr_nonnull [OF k(1), of "(i, n)"] by simp
  have "ROUND_UP64 (of_nat (length ([] :: u8 list)) + 100) 32768 = (32768 :: u64)"
    by (simp add: ROUND_UP64_def)
  moreover have "lh_k (empty_pipe k) = k"
    by (simp add: empty_pipe_def vfs.defs trees.defs)
  ultimately show ?thesis
    using k pipe_write_appends [OF empty_pipe_rep [OF k(1)] _ fit nz] by (fastforce simp: phys_of_block [OF i])
qed

end
