(* ===== verification/Crc32.thy ===== *)
theory Crc32
  imports ByteMem
begin

text \<open>
  \<^verbatim>\<open>crc32_calculate_buffer\<close> of \<^verbatim>\<open>kernel/utils/common.c\<close>, with its lookup table as it stands in the
  source, and the bit-by-bit CRC-32 it is meant to compute. The table is checked entry by entry
  against the polynomial, and the byte-at-a-time loop is shown to equal the bitwise definition on
  every buffer.
\<close>

unbundle bit_operations_syntax

section \<open>The table-driven code\<close>

definition crc32_lookup :: "u32 list" where
  "crc32_lookup = [
   0, 0x77073096, 0xEE0E612C, 0x990951BA,
   0x076DC419, 0x706AF48F, 0xE963A535, 0x9E6495A3,
   0x0EDB8832, 0x79DCB8A4, 0xE0D5E91E, 0x97D2D988,
   0x09B64C2B, 0x7EB17CBD, 0xE7B82D07, 0x90BF1D91,
   0x1DB71064, 0x6AB020F2, 0xF3B97148, 0x84BE41DE,
   0x1ADAD47D, 0x6DDDE4EB, 0xF4D4B551, 0x83D385C7,
   0x136C9856, 0x646BA8C0, 0xFD62F97A, 0x8A65C9EC,
   0x14015C4F, 0x63066CD9, 0xFA0F3D63, 0x8D080DF5,
   0x3B6E20C8, 0x4C69105E, 0xD56041E4, 0xA2677172,
   0x3C03E4D1, 0x4B04D447, 0xD20D85FD, 0xA50AB56B,
   0x35B5A8FA, 0x42B2986C, 0xDBBBC9D6, 0xACBCF940,
   0x32D86CE3, 0x45DF5C75, 0xDCD60DCF, 0xABD13D59,
   0x26D930AC, 0x51DE003A, 0xC8D75180, 0xBFD06116,
   0x21B4F4B5, 0x56B3C423, 0xCFBA9599, 0xB8BDA50F,
   0x2802B89E, 0x5F058808, 0xC60CD9B2, 0xB10BE924,
   0x2F6F7C87, 0x58684C11, 0xC1611DAB, 0xB6662D3D,
   0x76DC4190, 0x01DB7106, 0x98D220BC, 0xEFD5102A,
   0x71B18589, 0x06B6B51F, 0x9FBFE4A5, 0xE8B8D433,
   0x7807C9A2, 0x0F00F934, 0x9609A88E, 0xE10E9818,
   0x7F6A0DBB, 0x086D3D2D, 0x91646C97, 0xE6635C01,
   0x6B6B51F4, 0x1C6C6162, 0x856530D8, 0xF262004E,
   0x6C0695ED, 0x1B01A57B, 0x8208F4C1, 0xF50FC457,
   0x65B0D9C6, 0x12B7E950, 0x8BBEB8EA, 0xFCB9887C,
   0x62DD1DDF, 0x15DA2D49, 0x8CD37CF3, 0xFBD44C65,
   0x4DB26158, 0x3AB551CE, 0xA3BC0074, 0xD4BB30E2,
   0x4ADFA541, 0x3DD895D7, 0xA4D1C46D, 0xD3D6F4FB,
   0x4369E96A, 0x346ED9FC, 0xAD678846, 0xDA60B8D0,
   0x44042D73, 0x33031DE5, 0xAA0A4C5F, 0xDD0D7CC9,
   0x5005713C, 0x270241AA, 0xBE0B1010, 0xC90C2086,
   0x5768B525, 0x206F85B3, 0xB966D409, 0xCE61E49F,
   0x5EDEF90E, 0x29D9C998, 0xB0D09822, 0xC7D7A8B4,
   0x59B33D17, 0x2EB40D81, 0xB7BD5C3B, 0xC0BA6CAD,
   0xEDB88320, 0x9ABFB3B6, 0x03B6E20C, 0x74B1D29A,
   0xEAD54739, 0x9DD277AF, 0x04DB2615, 0x73DC1683,
   0xE3630B12, 0x94643B84, 0x0D6D6A3E, 0x7A6A5AA8,
   0xE40ECF0B, 0x9309FF9D, 0x0A00AE27, 0x7D079EB1,
   0xF00F9344, 0x8708A3D2, 0x1E01F268, 0x6906C2FE,
   0xF762575D, 0x806567CB, 0x196C3671, 0x6E6B06E7,
   0xFED41B76, 0x89D32BE0, 0x10DA7A5A, 0x67DD4ACC,
   0xF9B9DF6F, 0x8EBEEFF9, 0x17B7BE43, 0x60B08ED5,
   0xD6D6A3E8, 0xA1D1937E, 0x38D8C2C4, 0x4FDFF252,
   0xD1BB67F1, 0xA6BC5767, 0x3FB506DD, 0x48B2364B,
   0xD80D2BDA, 0xAF0A1B4C, 0x36034AF6, 0x41047A60,
   0xDF60EFC3, 0xA867DF55, 0x316E8EEF, 0x4669BE79,
   0xCB61B38C, 0xBC66831A, 0x256FD2A0, 0x5268E236,
   0xCC0C7795, 0xBB0B4703, 0x220216B9, 0x5505262F,
   0xC5BA3BBE, 0xB2BD0B28, 0x2BB45A92, 0x5CB36A04,
   0xC2D7FFA7, 0xB5D0CF31, 0x2CD99E8B, 0x5BDEAE1D,
   0x9B64C2B0, 0xEC63F226, 0x756AA39C, 0x026D930A,
   0x9C0906A9, 0xEB0E363F, 0x72076785, 0x05005713,
   0x95BF4A82, 0xE2B87A14, 0x7BB12BAE, 0x0CB61B38,
   0x92D28E9B, 0xE5D5BE0D, 0x7CDCEFB7, 0x0BDBDF21,
   0x86D3D2D4, 0xF1D4E242, 0x68DDB3F8, 0x1FDA836E,
   0x81BE16CD, 0xF6B9265B, 0x6FB077E1, 0x18B74777,
   0x88085AE6, 0xFF0F6A70, 0x66063BCA, 0x11010B5C,
   0x8F659EFF, 0xF862AE69, 0x616BFFD3, 0x166CCF45,
   0xA00AE278, 0xD70DD2EE, 0x4E048354, 0x3903B3C2,
   0xA7672661, 0xD06016F7, 0x4969474D, 0x3E6E77DB,
   0xAED16A4A, 0xD9D65ADC, 0x40DF0B66, 0x37D83BF0,
   0xA9BCAE53, 0xDEBB9EC5, 0x47B2CF7F, 0x30B5FFE9,
   0xBDBDF21C, 0xCABAC28A, 0x53B39330, 0x24B4A3A6,
   0xBAD03605, 0xCDD70693, 0x54DE5729, 0x23D967BF,
   0xB3667A2E, 0xC4614AB8, 0x5D681B02, 0x2A6F2B94,
   0xB40BBE37, 0xC30C8EA1, 0x5A05DF1B, 0x2D02EF8D]"

fun crc32_loop :: "bytes \<Rightarrow> nat \<Rightarrow> nat \<Rightarrow> u32 \<Rightarrow> u32" where
  "crc32_loop m buffer 0 crc = crc"
| "crc32_loop m buffer (Suc n) crc =
     crc32_loop m (buffer + 1) n
       (crc32_lookup ! unat ((ucast crc :: u8) XOR m buffer) XOR drop_bit 8 crc)"

definition crc32_calculate_buffer :: "bytes \<Rightarrow> nat \<Rightarrow> nat \<Rightarrow> u32" where
  "crc32_calculate_buffer m buffer sz = crc32_loop m buffer sz 0xffffffff XOR 0xffffffff"

section \<open>The bitwise reference\<close>

text \<open>One division step by the reflected polynomial 0xEDB88320, and eight of them for a byte.\<close>

definition crc_bit :: "u32 \<Rightarrow> u32" where
  "crc_bit r = (if bit r 0 then drop_bit 1 r XOR 0xEDB88320 else drop_bit 1 r)"

fun crc_bits :: "nat \<Rightarrow> u32 \<Rightarrow> u32" where
  "crc_bits 0 r = r"
| "crc_bits (Suc n) r = crc_bits n (crc_bit r)"

fun crc_bytes :: "u8 list \<Rightarrow> u32 \<Rightarrow> u32" where
  "crc_bytes [] r = r"
| "crc_bytes (b # bs) r = crc_bytes bs (crc_bits 8 (r XOR ucast b))"

definition crc32_ref :: "u8 list \<Rightarrow> u32" where
  "crc32_ref bs = crc_bytes bs (-1) XOR (-1)"

section \<open>Equivalence\<close>

lemma crc_bit_xor: "crc_bit (a XOR b) = crc_bit a XOR crc_bit b"
  by (rule bit_word_eqI) (auto simp: crc_bit_def bit_xor_iff bit_drop_bit_eq)

lemma crc_bits_xor: "crc_bits n (a XOR b) = crc_bits n a XOR crc_bits n b"
  by (induction n arbitrary: a b) (simp_all add: crc_bit_xor)

text \<open>Steps that only meet zero bits are shifts.\<close>

lemma crc_bits_high: "(\<And>i. i < n \<Longrightarrow> \<not> bit r i) \<Longrightarrow> crc_bits n r = drop_bit n r"
proof (induction n arbitrary: r)
  case (Suc n)
  have "crc_bit r = drop_bit 1 r" using Suc.prems [of 0] by (simp add: crc_bit_def)
  moreover have "crc_bits n (drop_bit 1 r) = drop_bit n (drop_bit 1 r)"
    using Suc.prems by (intro Suc.IH) (simp add: bit_drop_bit_eq)
  ultimately show ?case by simp
qed simp

lemma crc_bits_8:
  "crc_bits 8 r = crc_bit (crc_bit (crc_bit (crc_bit (crc_bit (crc_bit (crc_bit (crc_bit r)))))))"
  by (simp add: eval_nat_numeral)

text \<open>The table doubles: entry \<open>2 ^ k + i\<close> is entry \<open>i\<close> XOR entry \<open>2 ^ k\<close>.\<close>

definition crc_tab :: "nat \<Rightarrow> u32 list" where
  "crc_tab n = map (\<lambda>i. crc_bits 8 (of_nat i)) [0..<n]"

lemma of_nat_top_bit:
  assumes "i < 2 ^ k" "k < 32"
  shows "(of_nat (2 ^ k + i) :: u32) = of_nat i XOR 2 ^ k"
proof -
  have nb: "\<not> bit (of_nat i :: u32) k"
  proof -
    have "\<not> bit i k" using assms(1) by (simp add: bit_iff_odd)
    then show ?thesis by (simp add: bit_of_nat_iff)
  qed
  have "(of_nat (2 ^ k + i) :: u32) = of_nat i + 2 ^ k" by (simp add: add.commute)
  also have "\<dots> = of_nat i OR 2 ^ k"
    by (rule disjunctive_add) (use nb in \<open>auto simp: bit_exp_iff\<close>)
  also have "\<dots> = of_nat i XOR 2 ^ k"
    by (rule bit_word_eqI) (use nb in \<open>auto simp: bit_or_iff bit_xor_iff bit_exp_iff\<close>)
  finally show ?thesis .
qed

lemma crc_tab_double:
  assumes "k < 32"
  shows "crc_tab (2 ^ Suc k) = crc_tab (2 ^ k) @ map (\<lambda>x. x XOR crc_bits 8 (2 ^ k)) (crc_tab (2 ^ k))"
proof -
  have "[0..<2 ^ Suc k] = [0..<2 ^ k] @ map (\<lambda>i. 2 ^ k + i) [0..<2 ^ k]"
    by (rule nth_equalityI) (auto simp: nth_append)
  then show ?thesis
    by (simp add: crc_tab_def of_nat_top_bit [OF _ assms] crc_bits_xor del: upt_Suc of_nat_add)
qed

lemma crc_bits_0 [simp]: "crc_bits n 0 = 0"
  by (induction n) (simp_all add: crc_bit_def)

lemma crc_basis:
  "crc_bits 8 1 = 0x77073096"
    "crc_bits 8 2 = 0xEE0E612C"
    "crc_bits 8 4 = 0x076DC419"
    "crc_bits 8 8 = 0x0EDB8832"
    "crc_bits 8 16 = 0x1DB71064"
    "crc_bits 8 32 = 0x3B6E20C8"
    "crc_bits 8 64 = 0x76DC4190"
    "crc_bits 8 128 = 0xEDB88320"
  unfolding crc_bits_8 by (simp_all add: crc_bit_def)

lemma crc_tab_2: "crc_tab 2 = [0, 0x77073096]"
  using crc_tab_double [of 0] crc_basis(1) by (simp add: crc_tab_def)

lemma crc_tab_4: "crc_tab 4 = [0, 0x77073096, 0xEE0E612C, 0x990951BA]"
  using crc_tab_double [of 1] crc_basis(2) by (simp add: crc_tab_2)

lemma crc_tab_8: "crc_tab 8 = [0, 0x77073096, 0xEE0E612C, 0x990951BA, 0x076DC419, 0x706AF48F, 0xE963A535, 0x9E6495A3]"
  using crc_tab_double [of 2] crc_basis(3) by (simp add: crc_tab_4)

lemma crc_tab_16: "crc_tab 16 = [0, 0x77073096, 0xEE0E612C, 0x990951BA, 0x076DC419, 0x706AF48F, 0xE963A535, 0x9E6495A3,
    0x0EDB8832, 0x79DCB8A4, 0xE0D5E91E, 0x97D2D988, 0x09B64C2B, 0x7EB17CBD, 0xE7B82D07, 0x90BF1D91]"
  using crc_tab_double [of 3] crc_basis(4) by (simp add: crc_tab_8)

lemma crc_tab_32: "crc_tab 32 = [0, 0x77073096, 0xEE0E612C, 0x990951BA, 0x076DC419, 0x706AF48F, 0xE963A535, 0x9E6495A3,
    0x0EDB8832, 0x79DCB8A4, 0xE0D5E91E, 0x97D2D988, 0x09B64C2B, 0x7EB17CBD, 0xE7B82D07, 0x90BF1D91,
    0x1DB71064, 0x6AB020F2, 0xF3B97148, 0x84BE41DE, 0x1ADAD47D, 0x6DDDE4EB, 0xF4D4B551, 0x83D385C7,
    0x136C9856, 0x646BA8C0, 0xFD62F97A, 0x8A65C9EC, 0x14015C4F, 0x63066CD9, 0xFA0F3D63, 0x8D080DF5]"
  using crc_tab_double [of 4] crc_basis(5) by (simp add: crc_tab_16)

lemma crc_tab_64: "crc_tab 64 = [0, 0x77073096, 0xEE0E612C, 0x990951BA, 0x076DC419, 0x706AF48F, 0xE963A535, 0x9E6495A3,
    0x0EDB8832, 0x79DCB8A4, 0xE0D5E91E, 0x97D2D988, 0x09B64C2B, 0x7EB17CBD, 0xE7B82D07, 0x90BF1D91,
    0x1DB71064, 0x6AB020F2, 0xF3B97148, 0x84BE41DE, 0x1ADAD47D, 0x6DDDE4EB, 0xF4D4B551, 0x83D385C7,
    0x136C9856, 0x646BA8C0, 0xFD62F97A, 0x8A65C9EC, 0x14015C4F, 0x63066CD9, 0xFA0F3D63, 0x8D080DF5,
    0x3B6E20C8, 0x4C69105E, 0xD56041E4, 0xA2677172, 0x3C03E4D1, 0x4B04D447, 0xD20D85FD, 0xA50AB56B,
    0x35B5A8FA, 0x42B2986C, 0xDBBBC9D6, 0xACBCF940, 0x32D86CE3, 0x45DF5C75, 0xDCD60DCF, 0xABD13D59,
    0x26D930AC, 0x51DE003A, 0xC8D75180, 0xBFD06116, 0x21B4F4B5, 0x56B3C423, 0xCFBA9599, 0xB8BDA50F,
    0x2802B89E, 0x5F058808, 0xC60CD9B2, 0xB10BE924, 0x2F6F7C87, 0x58684C11, 0xC1611DAB, 0xB6662D3D]"
  using crc_tab_double [of 5] crc_basis(6) by (simp add: crc_tab_32)

lemma crc_tab_128: "crc_tab 128 = [0, 0x77073096, 0xEE0E612C, 0x990951BA, 0x076DC419, 0x706AF48F, 0xE963A535, 0x9E6495A3,
    0x0EDB8832, 0x79DCB8A4, 0xE0D5E91E, 0x97D2D988, 0x09B64C2B, 0x7EB17CBD, 0xE7B82D07, 0x90BF1D91,
    0x1DB71064, 0x6AB020F2, 0xF3B97148, 0x84BE41DE, 0x1ADAD47D, 0x6DDDE4EB, 0xF4D4B551, 0x83D385C7,
    0x136C9856, 0x646BA8C0, 0xFD62F97A, 0x8A65C9EC, 0x14015C4F, 0x63066CD9, 0xFA0F3D63, 0x8D080DF5,
    0x3B6E20C8, 0x4C69105E, 0xD56041E4, 0xA2677172, 0x3C03E4D1, 0x4B04D447, 0xD20D85FD, 0xA50AB56B,
    0x35B5A8FA, 0x42B2986C, 0xDBBBC9D6, 0xACBCF940, 0x32D86CE3, 0x45DF5C75, 0xDCD60DCF, 0xABD13D59,
    0x26D930AC, 0x51DE003A, 0xC8D75180, 0xBFD06116, 0x21B4F4B5, 0x56B3C423, 0xCFBA9599, 0xB8BDA50F,
    0x2802B89E, 0x5F058808, 0xC60CD9B2, 0xB10BE924, 0x2F6F7C87, 0x58684C11, 0xC1611DAB, 0xB6662D3D,
    0x76DC4190, 0x01DB7106, 0x98D220BC, 0xEFD5102A, 0x71B18589, 0x06B6B51F, 0x9FBFE4A5, 0xE8B8D433,
    0x7807C9A2, 0x0F00F934, 0x9609A88E, 0xE10E9818, 0x7F6A0DBB, 0x086D3D2D, 0x91646C97, 0xE6635C01,
    0x6B6B51F4, 0x1C6C6162, 0x856530D8, 0xF262004E, 0x6C0695ED, 0x1B01A57B, 0x8208F4C1, 0xF50FC457,
    0x65B0D9C6, 0x12B7E950, 0x8BBEB8EA, 0xFCB9887C, 0x62DD1DDF, 0x15DA2D49, 0x8CD37CF3, 0xFBD44C65,
    0x4DB26158, 0x3AB551CE, 0xA3BC0074, 0xD4BB30E2, 0x4ADFA541, 0x3DD895D7, 0xA4D1C46D, 0xD3D6F4FB,
    0x4369E96A, 0x346ED9FC, 0xAD678846, 0xDA60B8D0, 0x44042D73, 0x33031DE5, 0xAA0A4C5F, 0xDD0D7CC9,
    0x5005713C, 0x270241AA, 0xBE0B1010, 0xC90C2086, 0x5768B525, 0x206F85B3, 0xB966D409, 0xCE61E49F,
    0x5EDEF90E, 0x29D9C998, 0xB0D09822, 0xC7D7A8B4, 0x59B33D17, 0x2EB40D81, 0xB7BD5C3B, 0xC0BA6CAD]"
  using crc_tab_double [of 6] crc_basis(7) by (simp add: crc_tab_64)

lemma crc32_table: "crc32_lookup = crc_tab 256"
  using crc_tab_double [of 7] crc_basis(8) by (simp add: crc32_lookup_def crc_tab_128)

lemma crc32_lookup_nth: "crc32_lookup ! unat (b :: u8) = crc_bits 8 (ucast b)"
proof -
  have "unat b < 256" using unsigned_less [of b] by simp
  moreover have "(of_nat (unat b) :: u32) = ucast b" by (simp add: unsigned_def)
  ultimately show ?thesis by (simp add: crc32_table crc_tab_def)
qed

text \<open>One byte: the table entry for the low byte, and a shift for the rest.\<close>

lemma crc_byte_step:
  "crc_bits 8 (r XOR ucast (b :: u8)) = crc32_lookup ! unat ((ucast r :: u8) XOR b) XOR drop_bit 8 r"
proof -
  let ?low = "ucast ((ucast r :: u8) XOR b) :: u32"
  let ?high = "push_bit 8 (drop_bit 8 r)"
  have bb: "8 \<le> n \<Longrightarrow> \<not> bit b n" for n using bit_imp_le_length [of b n] by auto
  have "r XOR ucast b = ?high XOR ?low"
    by (rule bit_word_eqI) (auto simp: bit_xor_iff bit_push_bit_iff bit_drop_bit_eq bit_ucast_iff dest: bb)
  moreover have "crc_bits 8 ?high = drop_bit 8 ?high"
    by (rule crc_bits_high) (simp add: bit_push_bit_iff)
  moreover have "drop_bit 8 ?high = drop_bit 8 r"
    by (rule bit_word_eqI) (auto simp: bit_push_bit_iff bit_drop_bit_eq dest: bit_imp_le_length)
  ultimately show ?thesis by (simp add: crc_bits_xor crc32_lookup_nth xor.commute)
qed

lemma crc32_loop_bytes: "crc32_loop m p n r = crc_bytes (bytes_at m p n) r"
  by (induction n arbitrary: p r) (simp_all add: bytes_at_Suc crc_byte_step)

text \<open>
  C27. \<^verbatim>\<open>crc32_calculate_buffer\<close> computes the standard CRC-32 of the buffer: the 256 constants of its
  table and the byte-at-a-time loop together equal the bit-by-bit division by the reflected
  polynomial 0xEDB88320 with initial value and final complement of all ones.
\<close>

theorem crc32_equals_bitwise:
  "crc32_calculate_buffer m p n = crc32_ref (bytes_at m p n)"
proof -
  have "(0xffffffff :: u32) = -1" by simp
  then show ?thesis by (simp only: crc32_calculate_buffer_def crc32_ref_def crc32_loop_bytes)
qed

end
