(* ===== verification/Partfs.thy ===== *)
theory Partfs
  imports Devfs Pipe Crc32
begin

text \<open>
  Partitions of a disk, \<^verbatim>\<open>kernel/fs/partfs/partfs.c\<close>: the GUID partition table is read and checked, every used
  entry becomes a device whose reads and writes are passed on to the disk, shifted by the start of the partition.
  The code behind the disk node is the \<open>vfs_code\<close> argument; the address of a local that is handed to it is an
  argument too.
\<close>

section \<open>Data\<close>

record partfs_entry_t =
  pe_deviceNode :: u64
  pe_first_lba :: u64
  pe_lba_count :: u64
  pe_lock :: lock
  pe_offsetDirty :: bool

record parts = pipes +
  pf_entries :: "u64 \<rightharpoonup> partfs_entry_t"

text \<open>The fields of the packed headers that the code reads.\<close>

record gpt_header_t =
  gh_header_checksum :: u32
  gh_start_lba :: u64
  gh_count :: u32
  gh_entry_length :: u32
  gh_parition_table_checksum :: u32

definition read32 :: "bytes \<Rightarrow> nat \<Rightarrow> u32" where
  "read32 m a = ucast (read_le m a 4)"

definition gpt_header :: "bytes \<Rightarrow> nat \<Rightarrow> gpt_header_t" where
  "gpt_header m a = \<lparr>gh_header_checksum = read32 m (a + 16), gh_start_lba = read64 m (a + 72), gh_count = read32 m (a + 80),
     gh_entry_length = read32 m (a + 84), gh_parition_table_checksum = read32 m (a + 88)\<rparr>"

record gpt_partition_header_t =
  gp_type_guid :: "u64 \<times> u64"
  gp_start_lba :: u64
  gp_end_lba :: u64

definition gpt_partition_header :: "bytes \<Rightarrow> nat \<Rightarrow> gpt_partition_header_t" where
  "gpt_partition_header m a = \<lparr>gp_type_guid = (read64 m a, read64 m (a + 8)), gp_start_lba = read64 m (a + 32),
     gp_end_lba = read64 m (a + 40)\<rparr>"

definition set_part :: "u64 \<Rightarrow> (partfs_entry_t \<Rightarrow> partfs_entry_t) \<Rightarrow> 'x parts_scheme \<Rightarrow> 'x parts_scheme exec" where
  "set_part p f h = bindr (modify p f (pf_entries h)) (\<lambda>m. Inr (h\<lparr>pf_entries := m\<rparr>))"

definition part_lock :: "u64 \<Rightarrow> 'x parts_scheme \<Rightarrow> 'x parts_scheme exec" where
  "part_lock p h = bindr (load (pf_entries h) p) (\<lambda>E.
     bindr (spin_acquire_exec (pe_lock E)) (\<lambda>b. set_part p (\<lambda>E. E\<lparr>pe_lock := b\<rparr>) h))"

definition part_unlock :: "u64 \<Rightarrow> 'x parts_scheme \<Rightarrow> 'x parts_scheme exec" where
  "part_unlock p h = set_part p (\<lambda>E. E\<lparr>pe_lock := UNLOCKED\<rparr>) h"

section \<open>Reading, writing, seeking\<close>

text \<open>The number of bytes that are left of a request at an offset in the partition.\<close>

definition clamp :: "partfs_entry_t \<Rightarrow> u64 \<Rightarrow> u64 \<Rightarrow> u64" where
  "clamp E offset sz = (if offset + sz \<ge> pe_lba_count E * 0x200 then pe_lba_count E * 0x200 - offset else sz)"

definition sync_offset :: "'x parts_scheme vfs_code \<Rightarrow> u64 \<Rightarrow> u64 \<Rightarrow> 'x parts_scheme \<Rightarrow> 'x parts_scheme exec" where
  "sync_offset code entry offset h =
     bindr (load (pf_entries h) entry) (\<lambda>E.
     if pe_offsetDirty E then
       bindr (vfs_lseek code (pe_deviceNode E) (pe_first_lba E * 0x200 + offset) SEEK_SET h) (\<lambda>(_, h).
         set_part entry (\<lambda>E. E\<lparr>pe_offsetDirty := False\<rparr>) h)
     else Inr h)"

definition partfs_read :: "'x parts_scheme vfs_code \<Rightarrow> u64 \<Rightarrow> u64 \<Rightarrow> u64 \<Rightarrow> 'x parts_scheme \<Rightarrow> (u64 \<times> 'x parts_scheme) exec" where
  "partfs_read code node buffer sz h =
     bindr (load (vf_nodes h) node) (\<lambda>N.
     let entry = vn_data N in
     bindr (part_lock entry h) (\<lambda>h.
     bindr (load (pf_entries h) entry) (\<lambda>E.
     let sz = clamp E (vn_offset N) sz in
     bindr (sync_offset code entry (vn_offset N) h) (\<lambda>h.
     bindr (load (pf_entries h) entry) (\<lambda>E.
     bindr (vfs_read code (pe_deviceNode E) buffer sz h) (\<lambda>(count, h).
     if count = -1 then bindr (part_unlock entry h) (\<lambda>h. Inr (-1, h))
     else
       bindr (set_vnode node (\<lambda>N. N\<lparr>vn_offset := vn_offset N + count\<rparr>) h) (\<lambda>h.
       bindr (part_unlock entry h) (\<lambda>h. Inr (count, h)))))))))"

definition partfs_write :: "'x parts_scheme vfs_code \<Rightarrow> u64 \<Rightarrow> u64 \<Rightarrow> u64 \<Rightarrow> 'x parts_scheme \<Rightarrow> (u64 \<times> 'x parts_scheme) exec" where
  "partfs_write code node buffer sz h =
     bindr (load (vf_nodes h) node) (\<lambda>N.
     let entry = vn_data N in
     bindr (part_lock entry h) (\<lambda>h.
     bindr (load (pf_entries h) entry) (\<lambda>E.
     let sz = clamp E (vn_offset N) sz in
     bindr (sync_offset code entry (vn_offset N) h) (\<lambda>h.
     bindr (load (pf_entries h) entry) (\<lambda>E.
     bindr (vfs_write code (pe_deviceNode E) buffer sz h) (\<lambda>(count, h).
     if count = -1 then bindr (part_unlock entry h) (\<lambda>h. Inr (-1, h))
     else
       bindr (set_vnode node (\<lambda>N. N\<lparr>vn_offset := vn_offset N + count\<rparr>) h) (\<lambda>h.
       bindr (part_unlock entry h) (\<lambda>h. Inr (count, h)))))))))"

text \<open>
  The new offset of a seek. All the numbers are unsigned, so the tests for negative ones are constant: the
  one of \<^verbatim>\<open>SEEK_END\<close> refuses every offset.
\<close>

definition part_target :: "partfs_entry_t \<Rightarrow> u64 \<Rightarrow> u64 \<Rightarrow> u64 \<Rightarrow> u64 option" where
  "part_target E cur offset type =
     (let len = (pe_first_lba E + pe_lba_count E) * 0x200 in
      if type = SEEK_SET then if offset \<ge> len then None else Some offset
      else if type = SEEK_END then if len + offset < 0 \<or> offset \<ge> 0 then None else Some (len + offset)
      else if type = SEEK_CUR then if cur + offset \<ge> len \<or> cur + offset < 0 then None else Some (cur + offset)
      else None)"

definition partfs_lseek :: "u64 \<Rightarrow> u64 \<Rightarrow> u64 \<Rightarrow> 'x parts_scheme \<Rightarrow> (u64 \<times> 'x parts_scheme) exec" where
  "partfs_lseek node offset type h =
     bindr (load (vf_nodes h) node) (\<lambda>N.
     let entry = vn_data N in
     bindr (part_lock entry h) (\<lambda>h.
     bindr (load (pf_entries h) entry) (\<lambda>E.
     case part_target E (vn_offset N) offset type of
       None \<Rightarrow> bindr (part_unlock entry h) (\<lambda>h. Inr (-1, h))
     | Some off \<Rightarrow>
         bindr (set_vnode node (\<lambda>N. N\<lparr>vn_offset := off\<rparr>) h) (\<lambda>h.
         bindr (set_part entry (\<lambda>E. E\<lparr>pe_offsetDirty := True\<rparr>) h) (\<lambda>h.
         bindr (part_unlock entry h) (\<lambda>h. Inr (off, h)))))))"

section \<open>The partition table\<close>

text \<open>What \<^verbatim>\<open>%d\<close> prints for an argument.\<close>

definition dec :: "u64 \<Rightarrow> u8 list" where
  "dec v = (case vsnprintf_internal (str ''%d'' @ [0]) [v]
       \<lparr>sk_func = \<lparr>pf_write = Printf_write_char_e8, pf_data = 0, pf_currentPos = 0, pf_size = 0\<rparr>, sk_mem = \<lambda>_. 0, sk_port = []\<rparr> of
     Inl _ \<Rightarrow> [] | Inr (_, s) \<Rightarrow> butlast (sk_port s))"

definition partition_functions :: vfs_functions_t where
  "partition_functions = no_functions\<lparr>fn_read := Partfs_read, fn_write := Partfs_write, fn_lseek := Partfs_lseek\<rparr>"

text \<open>One entry of the partition array; the name of the device has to fit in 256 characters.\<close>

definition add_partition :: "u8 list \<Rightarrow> u64 \<Rightarrow> u64 \<Rightarrow> u64 \<Rightarrow> nat \<Rightarrow> 'x parts_scheme \<Rightarrow> 'x parts_scheme exec" where
  "add_partition deviceName deviceNode partitionArray entry_stride i h =
     (let P = gpt_partition_header (km_mem (lh_k h)) (phys_of (partitionArray + 128 * (of_nat i * entry_stride))) in
      if gp_type_guid P = (0, 0) then Inr h
      else
        bindr (kmalloc 152 (lh_k h)) (\<lambda>(entry, k).
        if entry = 0 then Inl NullDeref
        else
          let E = \<lparr>pe_deviceNode = deviceNode, pe_first_lba = gp_start_lba P, pe_lba_count = gp_end_lba P - gp_start_lba P,
                   pe_lock = UNLOCKED, pe_offsetDirty = True\<rparr>;
              name = deviceName @ str ''p'' @ dec (of_nat i)
          in
            bindr (new_devnode \<lparr>dn_name = str ''PartFS'', dn_data = entry, dn_flags = 0, dn_internIndex = 0,
                     dn_functions = partition_functions\<rparr>
                   (h\<lparr>lh_k := k, pf_entries := (pf_entries h)(entry \<mapsto> E)\<rparr>)) (\<lambda>(node, h).
            if length name \<ge> 256 then Inl WildAccess
            else
              bindr (devfs_mount name node h) (\<lambda>h.
                say (str ''Part PartFS: '' @ dec (pe_first_lba E) @ str '' -> '' @ dec (pe_lba_count E) @ [10]) h))))"

definition partfs_enumerate_gpt ::
    "'x parts_scheme vfs_code \<Rightarrow> u64 \<Rightarrow> u8 list \<Rightarrow> u64 \<Rightarrow> 'x parts_scheme \<Rightarrow> (bool \<times> 'x parts_scheme) exec" where
  "partfs_enumerate_gpt code header deviceName deviceNode h =
     bindr (vfs_lseek code deviceNode 0x200 SEEK_SET h) (\<lambda>(_, h).
     bindr (vfs_read code deviceNode header 92 h) (\<lambda>(_, h).
     let H = gpt_header (km_mem (lh_k h)) (phys_of header);
         savedCrc = gh_header_checksum H;
         headerCrc = crc32_calculate_buffer (write_le (km_mem (lh_k h)) (phys_of header + 16) 4 0) (phys_of header) 92
     in
       if headerCrc \<noteq> savedCrc then
         bindr (say (str ''[PartFS] GPT Header Checksum mismatch'') h) (\<lambda>h. Inr (False, h))
       else
         let entry_stride = ucast (gh_entry_length H) div 128;
             paritionArraySize = 128 * entry_stride * ucast (gh_count H)
         in
           bindr (kmalloc paritionArraySize (lh_k h)) (\<lambda>(partitionArray, k).
           bindr (vfs_lseek code deviceNode (gh_start_lba H * 0x200) SEEK_SET (h\<lparr>lh_k := k\<rparr>)) (\<lambda>(_, h).
           bindr (vfs_read code deviceNode partitionArray paritionArraySize h) (\<lambda>(_, h).
           bindr (checked paritionArraySize [partitionArray]
                    (crc32_calculate_buffer (km_mem (lh_k h)) (phys_of partitionArray) (unat paritionArraySize))) (\<lambda>paritionArrayCrc.
           if paritionArrayCrc \<noteq> gh_parition_table_checksum H then
             bindr (say (str ''[PartFS] GPT Parition Array Checksum mismatch'') h) (\<lambda>h.
             bindr (release partitionArray h) (\<lambda>h. Inr (False, h)))
           else
             bindr (for_exec 0 (unat (gh_count H)) (add_partition deviceName deviceNode partitionArray entry_stride) h) (\<lambda>h.
             bindr (release partitionArray h) (\<lambda>h. Inr (True, h)))))))))"

text \<open>
  A device path that does not fit in the block of 1024 bytes overruns it. When no table is found the path, which
  has been released already, is released again.
\<close>

definition partfs_init :: "'x parts_scheme vfs_code \<Rightarrow> u64 \<Rightarrow> u8 list \<Rightarrow> 'x parts_scheme \<Rightarrow> 'x parts_scheme exec" where
  "partfs_init code header device h =
     bindr (kmalloc 1024 (lh_k h)) (\<lambda>(devicePath, k).
     if devicePath = 0 then Inl NullDeref
     else
       let path = str ''/dev/'' @ device in
       if length path \<ge> 1024 then Inl WildAccess
       else
         bindr (kopen code path 0 (h\<lparr>lh_k := k\<rparr>)) (\<lambda>(deviceNode, h).
         bindr (release devicePath h) (\<lambda>h.
         if deviceNode = 0 then Inr h
         else
           bindr (partfs_enumerate_gpt code header device deviceNode h) (\<lambda>(ok, h).
           if \<not> ok then
             bindr (say (str ''[PartFS] No GPT parititions found'' @ [10]) h) (release devicePath)
           else Inr h))))"

section \<open>Sequential reading\<close>

text \<open>
  What a file with an offset promises to the code that reads it: a read delivers the bytes from the offset on and
  moves the offset past them. Then reads in a row deliver the file in order.
\<close>

lemma write_bytes_append: "write_bytes m a (xs @ ys) = write_bytes (write_bytes m a xs) (a + length xs) ys"
  by (induction xs arbitrary: m a) simp_all

locale byte_source =
  fixes stands :: "'s \<Rightarrow> nat \<Rightarrow> bool" and fetch :: "u64 \<Rightarrow> u64 \<Rightarrow> 's \<Rightarrow> (u64 \<times> 's) exec"
    and mem :: "'s \<Rightarrow> bytes" and total :: nat and content :: "nat \<Rightarrow> u8"
  assumes fetch: "stands s off \<Longrightarrow> off \<le> total \<Longrightarrow> off + unat sz < 18446744073709551616 \<Longrightarrow>
    \<exists>s' n. fetch buffer sz s = Inr (n, s') \<and> unat n = min (unat sz) (total - off) \<and> stands s' (off + unat n) \<and>
      mem s' = write_bytes (mem s) (phys_of buffer) (map content [off..<off + unat n])"
begin

lemma fetch_all:
  assumes "stands s off" "off + unat sz \<le> total" "total < 18446744073709551616"
  obtains s' where "fetch buffer sz s = Inr (sz, s')" "stands s' (off + unat sz)"
    "mem s' = write_bytes (mem s) (phys_of buffer) (map content [off..<off + unat sz])"
proof -
  obtain s' n where r: "fetch buffer sz s = Inr (n, s')" "unat n = min (unat sz) (total - off)" "stands s' (off + unat n)"
      "mem s' = write_bytes (mem s) (phys_of buffer) (map content [off..<off + unat n])"
    using fetch [OF assms(1), of sz buffer] assms(2,3) by auto
  then have "unat n = unat sz"
    using assms(2) by simp
  then have "n = sz"
    by (rule unsigned_word_eqI)
  with r that show thesis by simp
qed

lemma fetch_twice:
  assumes "stands s off" "off + unat a + unat b \<le> total" "total < 18446744073709551616" "phys_of (buffer + a) = phys_of buffer + unat a"
  obtains s1 s2 where "fetch buffer a s = Inr (a, s1)" "fetch (buffer + a) b s1 = Inr (b, s2)" "stands s2 (off + unat a + unat b)"
    "mem s2 = write_bytes (mem s) (phys_of buffer) (map content [off..<off + unat a + unat b])"
proof -
  obtain s1 where 1: "fetch buffer a s = Inr (a, s1)" "stands s1 (off + unat a)"
      "mem s1 = write_bytes (mem s) (phys_of buffer) (map content [off..<off + unat a])"
    by (rule fetch_all [OF assms(1), of a buffer]) (use assms(2,3) in auto)
  obtain s2 where 2: "fetch (buffer + a) b s1 = Inr (b, s2)" "stands s2 (off + unat a + unat b)"
      "mem s2 = write_bytes (mem s1) (phys_of (buffer + a)) (map content [off + unat a..<off + unat a + unat b])"
    by (rule fetch_all [OF 1(2) assms(2,3), of "buffer + a"])
  have "mem s2 = write_bytes (mem s) (phys_of buffer) (map content [off..<off + unat a + unat b])"
    unfolding 2(3) 1(3) assms(4) by (simp add: write_bytes_append upt_add_eq_append [of off "off + unat a"])
  with 1(1) 2(1,2) that show thesis by blast
qed

end

section \<open>A partition is a slice of the disk\<close>

text \<open>
  What the driver of the disk promises: seeking sets the offset of the disk node, reading copies the bytes from that
  offset on and moves it past them.
\<close>

definition is_disk :: "vfs_node_t \<Rightarrow> bool" where
  "is_disk M \<longleftrightarrow> fn_read (vn_functions M) \<noteq> No_fn \<and> fn_lseek (vn_functions M) \<noteq> No_fn"

definition disk_ok :: "'x parts_scheme vfs_code \<Rightarrow> u64 \<Rightarrow> (nat \<Rightarrow> u8) \<Rightarrow> nat \<Rightarrow> bool" where
  "disk_ok code dev disk len \<longleftrightarrow>
     (\<forall>h M pos. vf_nodes h dev = Some M \<and> is_disk M \<and> unat pos \<le> len \<longrightarrow>
        vfs_lseek code dev pos SEEK_SET h = Inr (pos, h\<lparr>vf_nodes := (vf_nodes h)(dev \<mapsto> M\<lparr>vn_offset := pos\<rparr>)\<rparr>)) \<and>
     (\<forall>h M buffer n. vf_nodes h dev = Some M \<and> is_disk M \<and> unat (vn_offset M) + unat n \<le> len \<longrightarrow>
        vfs_read code dev buffer n h = Inr (n, set_mem (\<lambda>m. write_bytes m (phys_of buffer)
            (map disk [unat (vn_offset M)..<unat (vn_offset M) + unat n]))
          (h\<lparr>vf_nodes := (vf_nodes h)(dev \<mapsto> M\<lparr>vn_offset := vn_offset M + n\<rparr>)\<rparr>)))"

text \<open>
  A partition node at an offset, whose entry is marked as dirty or not, with the disk at a place of its own: all nodes
  of the partitions of a disk share the node of the disk, and all nodes of a partition share its entry.
\<close>

definition part_node :: "'x parts_scheme \<Rightarrow> u64 \<Rightarrow> u64 \<Rightarrow> u64 \<Rightarrow> u64 \<Rightarrow> u64 \<Rightarrow> bool \<Rightarrow> u64 \<Rightarrow> bool" where
  "part_node h node dev start count off dirty pos \<longleftrightarrow> (\<exists>N M E. node \<noteq> 0 \<and> dev \<noteq> 0 \<and> node \<noteq> dev \<and>
     vf_nodes h node = Some N \<and> vf_nodes h dev = Some M \<and> is_disk M \<and> vn_offset N = off \<and> vn_offset M = pos \<and>
     vn_data N \<noteq> 0 \<and> pf_entries h (vn_data N) = Some E \<and> pe_deviceNode E = dev \<and> pe_first_lba E = start \<and>
     pe_lba_count E = count \<and> pe_lock E \<and> pe_offsetDirty E = dirty)"

text \<open>Where the next read of the node takes its bytes from.\<close>

definition read_place :: "u64 \<Rightarrow> u64 \<Rightarrow> bool \<Rightarrow> u64 \<Rightarrow> u64" where
  "read_place start off dirty pos = (if dirty then start * 512 + off else pos)"

text \<open>The good case: unless the entry is marked, the disk stands at the place of the offset.\<close>

definition part_at :: "'x parts_scheme \<Rightarrow> u64 \<Rightarrow> u64 \<Rightarrow> u64 \<Rightarrow> u64 \<Rightarrow> u64 \<Rightarrow> bool" where
  "part_at h node dev start count off \<longleftrightarrow>
     (\<exists>dirty pos. part_node h node dev start count off dirty pos \<and> read_place start off dirty pos = start * 512 + off)"

lemma disk_readD: "disk_ok code dev disk len \<Longrightarrow> vf_nodes h dev = Some M \<Longrightarrow> is_disk M \<Longrightarrow>
  unat (vn_offset M) + unat n \<le> len \<Longrightarrow> vfs_read code dev buffer n h = Inr (n, set_mem (\<lambda>m. write_bytes m (phys_of buffer)
    (map disk [unat (vn_offset M)..<unat (vn_offset M) + unat n]))
    (h\<lparr>vf_nodes := (vf_nodes h)(dev \<mapsto> M\<lparr>vn_offset := vn_offset M + n\<rparr>)\<rparr>))"
  unfolding disk_ok_def by blast

lemma clamp_min:
  assumes "unat (pe_lba_count E) * 512 < 18446744073709551616" "unat off \<le> unat (pe_lba_count E) * 512"
    and "unat off + unat sz < 18446744073709551616"
  shows "unat (clamp E off sz) = min (unat sz) (unat (pe_lba_count E) * 512 - unat off)"
proof -
  have a: "unat (pe_lba_count E * 0x200) = unat (pe_lba_count E) * 512"
    using assms(1) by (simp add: unat_word_ariths)
  have b: "unat (off + sz) = unat off + unat sz"
    using assms(3) by (simp add: unat_word_ariths)
  have "unat (pe_lba_count E * 0x200 - off) = unat (pe_lba_count E) * 512 - unat off"
    using assms(2) a by (simp add: unat_sub_if_size)
  then show ?thesis
    using a b by (auto simp: clamp_def word_le_nat_alt min_def)
qed

lemma sync_offset_ok:
  assumes "disk_ok code dev disk len" "pf_entries h entry = Some E" "entry \<noteq> 0" "pe_deviceNode E = dev" "vf_nodes h dev = Some M" "is_disk M"
    and "p = read_place (pe_first_lba E) off (pe_offsetDirty E) (vn_offset M)" "unat p \<le> len"
  shows "sync_offset code entry off h = Inr (h\<lparr>vf_nodes := (vf_nodes h)(dev \<mapsto> M\<lparr>vn_offset := p\<rparr>),
     pf_entries := (pf_entries h)(entry \<mapsto> E\<lparr>pe_offsetDirty := False\<rparr>)\<rparr>)"
proof (cases "pe_offsetDirty E")
  case True
  then have p: "p = pe_first_lba E * 512 + off"
    using assms(7) by (simp add: read_place_def)
  have "vfs_lseek code dev p SEEK_SET h = Inr (p, h\<lparr>vf_nodes := (vf_nodes h)(dev \<mapsto> M\<lparr>vn_offset := p\<rparr>)\<rparr>)"
    using assms(1,5,6,8) unfolding disk_ok_def by blast
  then show ?thesis
    using True assms(2-4) by (simp add: sync_offset_def set_part_def p)
next
  case False
  then have "M\<lparr>vn_offset := p\<rparr> = M" "E\<lparr>pe_offsetDirty := False\<rparr> = E"
    using assms(7) by (simp_all add: read_place_def)
  then show ?thesis
    using False assms(2,3,5) by (simp add: sync_offset_def fun_upd_idem)
qed

lemma partfs_read_place:
  assumes disk: "disk_ok code dev disk len" "len < 18446744073709551615" "(unat start + unat count) * 512 \<le> len"
    and part: "part_node h node dev start count off dirty pos" "unat off \<le> unat count * 512" "unat off + unat sz < 18446744073709551616"
    and p: "p = read_place start off dirty pos" "\<not> dirty \<longrightarrow> unat pos + unat sz \<le> len \<or> pos = start * 512 + off"
  shows "\<exists>h' n. unat n = min (unat sz) (unat count * 512 - unat off) \<and>
    partfs_read code node buffer sz h = Inr (n, h') \<and> part_node h' node dev start count (off + n) False (p + n) \<and>
    km_mem (lh_k h') = write_bytes (km_mem (lh_k h)) (phys_of buffer) (map disk [unat p..<unat p + unat n])"
proof -
  from part(1) obtain N M E where nd: "node \<noteq> 0" "dev \<noteq> 0" "node \<noteq> dev" "vf_nodes h node = Some N"
      "vf_nodes h dev = Some M" "vn_offset N = off" "vn_data N \<noteq> 0" "pf_entries h (vn_data N) = Some E"
      "pe_deviceNode E = dev" "pe_first_lba E = start" "pe_lba_count E = count" "pe_lock E"
      "pe_offsetDirty E = dirty" "vn_offset M = pos" and dk: "is_disk M"
    unfolding part_node_def by blast
  let ?n = "clamp E off sz" and ?e = "vn_data N"
  have n: "unat ?n = min (unat sz) (unat count * 512 - unat off)"
    using clamp_min [of E off sz] nd(11) disk(2,3) part(2,3) by simp
  have at: "unat (start * 512 + off) = unat start * 512 + unat off"
    using disk(2,3) part(2) by (simp add: unat_word_ariths)
  have fits: "unat p + unat ?n \<le> len"
  proof (cases "p = start * 512 + off")
    case True
    then show ?thesis
      using at n part(2) disk(3) by simp
  next
    case False
    then have "unat pos + unat sz \<le> len" "p = pos"
      using p by (auto simp: read_place_def split: if_splits)
    then show ?thesis
      using n by simp
  qed
  have "unat ?n < 18446744073709551615"
    using fits disk(2) by linarith
  then have "?n \<noteq> -1"
    by (auto simp: unat_minus1)
  let ?El = "E\<lparr>pe_lock := False\<rparr>"
  define hl where "hl = h\<lparr>pf_entries := (pf_entries h)(?e \<mapsto> ?El)\<rparr>"
  have lock: "part_lock ?e h = Inr hl"
    using nd(7,8,12) by (simp add: part_lock_def set_part_def hl_def)
  let ?M = "M\<lparr>vn_offset := p\<rparr>"
  define hs where "hs = h\<lparr>vf_nodes := (vf_nodes h)(dev \<mapsto> ?M), pf_entries := (pf_entries h)(?e \<mapsto> E\<lparr>pe_lock := False, pe_offsetDirty := False\<rparr>)\<rparr>"
  have sync: "sync_offset code ?e off hl = Inr hs"
    using sync_offset_ok [OF disk(1), of hl ?e ?El M p off] nd dk p(1) fits by (simp add: hl_def hs_def)
  have rd: "vfs_read code dev buffer ?n hs = Inr (?n, set_mem (\<lambda>m. write_bytes m (phys_of buffer)
      (map disk [unat p..<unat p + unat ?n])) (hs\<lparr>vf_nodes := (vf_nodes hs)(dev \<mapsto> ?M\<lparr>vn_offset := p + ?n\<rparr>)\<rparr>))"
    using disk_readD [OF disk(1), of hs ?M ?n buffer] dk fits by (simp add: hs_def is_disk_def)
  have ld: "load (pf_entries hl) ?e = Inr ?El" "load (pf_entries hs) ?e = Inr (E\<lparr>pe_lock := False, pe_offsetDirty := False\<rparr>)"
      "clamp ?El off sz = ?n"
    using nd(7) by (simp_all add: hl_def hs_def clamp_def)
  define hr where "hr = set_mem (\<lambda>m. write_bytes m (phys_of buffer) (map disk [unat p..<unat p + unat ?n]))
      (hs\<lparr>vf_nodes := (vf_nodes hs)(dev \<mapsto> ?M\<lparr>vn_offset := p + ?n\<rparr>)\<rparr>)"
  let ?h = "hr\<lparr>vf_nodes := (vf_nodes hr)(node \<mapsto> N\<lparr>vn_offset := off + ?n\<rparr>),
      pf_entries := (pf_entries hr)(?e \<mapsto> E\<lparr>pe_offsetDirty := False, pe_lock := True\<rparr>)\<rparr>"
  have "partfs_read code node buffer sz h = bindr (set_vnode node (\<lambda>N. N\<lparr>vn_offset := vn_offset N + ?n\<rparr>) hr) (\<lambda>h.
      bindr (part_unlock ?e h) (\<lambda>h. Inr (?n, h)))"
    using nd(1,4,6,9) lock sync ld rd [folded hr_def] \<open>?n \<noteq> -1\<close>
    by (simp add: partfs_read_def Let_def)
  also have "\<dots> = Inr (?n, ?h)"
    using nd by (simp add: set_vnode_def part_unlock_def set_part_def hr_def hs_def set_mem_def)
  finally have run: "partfs_read code node buffer sz h = Inr (?n, ?h)" .
  have "part_node ?h node dev start count (off + ?n) False (p + ?n)"
    unfolding part_node_def using nd dk
    by (intro exI [of _ "N\<lparr>vn_offset := off + ?n\<rparr>"] exI [of _ "?M\<lparr>vn_offset := p + ?n\<rparr>"]
        exI [of _ "E\<lparr>pe_offsetDirty := False, pe_lock := True\<rparr>"]) (simp add: hr_def hs_def set_mem_def is_disk_def)
  moreover have "km_mem (lh_k ?h) = write_bytes (km_mem (lh_k h)) (phys_of buffer) (map disk [unat p..<unat p + unat ?n])"
    by (simp add: hr_def hs_def set_mem_def)
  ultimately show ?thesis
    using run n by blast
qed

lemma partfs_read_part:
  assumes disk: "disk_ok code dev disk len" "len < 18446744073709551615" "(unat start + unat count) * 512 \<le> len"
    and part: "part_at h node dev start count off" "unat off \<le> unat count * 512" "unat off + unat sz < 18446744073709551616"
  shows "\<exists>h' n. unat n = min (unat sz) (unat count * 512 - unat off) \<and>
    partfs_read code node buffer sz h = Inr (n, h') \<and> part_at h' node dev start count (off + n) \<and>
    km_mem (lh_k h') = write_bytes (km_mem (lh_k h)) (phys_of buffer)
      (map disk [unat start * 512 + unat off..<unat start * 512 + unat off + unat n])"
proof -
  from part(1) obtain dirty pos where d: "part_node h node dev start count off dirty pos"
      "read_place start off dirty pos = start * 512 + off"
    unfolding part_at_def by blast
  have at: "unat (start * 512 + off) = unat start * 512 + unat off"
    using disk(2,3) part(2) by (simp add: unat_word_ariths)
  have "\<not> dirty \<longrightarrow> unat pos + unat sz \<le> len \<or> pos = start * 512 + off"
    using d(2) by (auto simp: read_place_def)
  from partfs_read_place [OF disk d(1) part(2,3) d(2) [symmetric] this, of buffer] obtain h' n where
      "unat n = min (unat sz) (unat count * 512 - unat off)" "partfs_read code node buffer sz h = Inr (n, h')"
      "part_node h' node dev start count (off + n) False (start * 512 + off + n)"
      "km_mem (lh_k h') = write_bytes (km_mem (lh_k h)) (phys_of buffer)
        (map disk [unat start * 512 + unat off..<unat start * 512 + unat off + unat n])"
    unfolding at by blast
  moreover from this(3) have "part_at h' node dev start count (off + n)"
    unfolding part_at_def read_place_def by (metis add.assoc)
  ultimately show ?thesis by blast
qed

interpretation part: byte_source
    "\<lambda>h off. disk_ok code dev disk len \<and> len < 18446744073709551615 \<and> (unat start + unat count) * 512 \<le> len \<and>
       off \<le> unat count * 512 \<and> part_at h node dev start count (of_nat off)"
    "partfs_read code node" "\<lambda>h. km_mem (lh_k h)" "unat count * 512" "\<lambda>p. disk (unat start * 512 + p)"
  for code dev disk len start count node
proof (unfold_locales, elim conjE)
  fix s :: "'a parts_scheme" and off and sz buffer :: u64
  assume a: "off \<le> unat count * 512" "off + unat sz < 18446744073709551616" "disk_ok code dev disk len" "len < 18446744073709551615"
    "(unat start + unat count) * 512 \<le> len" "part_at s node dev start count (of_nat off)"
  have off: "unat (of_nat off :: u64) = off"
    using a(2) by (intro unat_of_nat_u64) simp
  obtain s' n where r: "unat n = min (unat sz) (unat count * 512 - off)" "partfs_read code node buffer sz s = Inr (n, s')"
      "part_at s' node dev start count (of_nat off + n)"
      "km_mem (lh_k s') = write_bytes (km_mem (lh_k s)) (phys_of buffer) (map disk [unat start * 512 + off..<unat start * 512 + off + unat n])"
    using partfs_read_part [OF a(3-6), of sz buffer] a(1,2) unfolding off by auto
  moreover have "of_nat (off + unat n) = (of_nat off + n :: u64)"
    by simp
  moreover have "off + unat n \<le> unat count * 512"
    using r(1) a(1) by linarith
  moreover have "map disk [unat start * 512 + off..<unat start * 512 + off + unat n] = map (\<lambda>p. disk (unat start * 512 + p)) [off..<off + unat n]"
    by (rule nth_equalityI) (simp_all add: add.assoc)
  ultimately show "\<exists>s' n. partfs_read code node buffer sz s = Inr (n, s') \<and> unat n = min (unat sz) (unat count * 512 - off) \<and>
      (disk_ok code dev disk len \<and> len < 18446744073709551615 \<and> (unat start + unat count) * 512 \<le> len \<and>
       off + unat n \<le> unat count * 512 \<and> part_at s' node dev start count (of_nat (off + unat n))) \<and>
      km_mem (lh_k s') = write_bytes (km_mem (lh_k s)) (phys_of buffer) (map (\<lambda>p. disk (unat start * 512 + p)) [off..<off + unat n])"
    using a by (intro exI [of _ s'] exI [of _ n]) (simp only: simp_thms)
qed

text \<open>
  C11. On a disk whose driver keeps its promises, a read at an offset inside a partition returns as many bytes as were
  asked for but none past the end of the partition, stores nothing else, and moves the node and the disk past them. When
  the entry of the partition is marked as dirty, the bytes are those of the disk from the start of the partition plus the
  offset on. When it is not, \<^verbatim>\<open>partfs_read\<close> trusts the place where the disk stands and returns the bytes from there,
  whatever the offset of the node: they are the bytes of the partition at the offset if the disk was left there, which
  holds after a read of the same node, and other bytes of the disk when another node of the partition, another
  partition or a reader of the whole disk has moved it in between. The place is assumed to be inside the disk.
\<close>

theorem partfs_read_slice:
  assumes disk: "disk_ok code dev disk len" "len < 18446744073709551615" "(unat start + unat count) * 512 \<le> len"
    and part: "part_node h node dev start count off dirty pos" "unat off \<le> unat count * 512" "unat off + unat sz < 18446744073709551616"
    and p: "p = (if dirty then start * 512 + off else pos)" "\<not> dirty \<longrightarrow> unat pos + unat sz \<le> len \<or> pos = start * 512 + off"
  shows "\<exists>h' n. unat n = min (unat sz) (unat count * 512 - unat off) \<and>
    partfs_read code node buffer sz h = Inr (n, h') \<and> part_node h' node dev start count (off + n) False (p + n) \<and>
    km_mem (lh_k h') = write_bytes (km_mem (lh_k h)) (phys_of buffer) (map disk [unat p..<unat p + unat n]) \<and>
    (p = start * 512 + off \<longrightarrow> unat p = unat start * 512 + unat off \<and> p + n = start * 512 + (off + n))"
proof -
  have "unat (start * 512 + off) = unat start * 512 + unat off"
    using disk(2,3) part(2) by (simp add: unat_word_ariths)
  then have "p = start * 512 + off \<longrightarrow> unat p = unat start * 512 + unat off \<and> p + n = start * 512 + (off + n)" for n
    by (simp add: add.assoc)
  then show ?thesis
    using partfs_read_place [OF disk part p(1) [folded read_place_def] p(2), of buffer] by blast
qed

text \<open>A disk in memory and a partition of four sectors in it.\<close>

definition ram_disk :: "(nat \<Rightarrow> u8) \<Rightarrow> 'x parts_scheme vfs_code" where
  "ram_disk disk = \<lparr>call_open = \<lambda>_ _ _ h. Inr (0, h), call_close = \<lambda>_ _ h. Inr (0, h),
     call_read = \<lambda>_ node buffer n h. bindr (load (vf_nodes h) node) (\<lambda>M.
       Inr (n, set_mem (\<lambda>m. write_bytes m (phys_of buffer) (map disk [unat (vn_offset M)..<unat (vn_offset M) + unat n]))
         (h\<lparr>vf_nodes := (vf_nodes h)(node \<mapsto> M\<lparr>vn_offset := vn_offset M + n\<rparr>)\<rparr>))),
     call_write = \<lambda>_ _ _ _ h. Inr (-1, h),
     call_lseek = \<lambda>_ node pos _ h. bindr (set_vnode node (\<lambda>M. M\<lparr>vn_offset := pos\<rparr>) h) (\<lambda>h. Inr (pos, h)),
     call_ioctl = \<lambda>_ _ _ _ h. Inr (-1, h), call_finddir = \<lambda>_ _ _ path h. Inr (0, path, h),
     call_readdir = \<lambda>_ _ _ h. Inr (-1, h), call_create = \<lambda>_ _ _ _ h. Inr (0, h),
     call_mount = \<lambda>_ _ _ _ _ _ h. Inr (-1, h), call_print_tree = \<lambda>_ _ _ h. Inr h\<rparr>"

lemma ram_disk_ok: "dev \<noteq> 0 \<Longrightarrow> disk_ok (ram_disk disk) dev disk len"
  by (simp add: disk_ok_def ram_disk_def vfs_lseek_def vfs_read_def node_fn_def is_disk_def set_vnode_def)

definition small_part :: parts where
  "small_part = pipes.extend ((empty_pipe small_heap)\<lparr>vf_nodes :=
       [0xA000 \<mapsto> zero_node\<lparr>vn_functions := no_functions\<lparr>fn_read := Other_fn 0, fn_lseek := Other_fn 1\<rparr>\<rparr>,
        0xB000 \<mapsto> zero_node\<lparr>vn_data := 0xC000, vn_offset := 2000\<rparr>]\<rparr>)
     \<lparr>pf_entries = [0xC000 \<mapsto> \<lparr>pe_deviceNode = 0xA000, pe_first_lba = 8, pe_lba_count = 4, pe_lock = True, pe_offsetDirty = True\<rparr>]\<rparr>"

lemma small_part_node: "part_node small_part 0xB000 0xA000 8 4 2000 True 0"
  by (simp add: part_node_def small_part_def pipes.defs is_disk_def zero_node_def)

text \<open>The same partition after another reader has left the disk at byte 700, the entry not being marked.\<close>

definition moved_part :: parts where
  "moved_part = small_part\<lparr>vf_nodes := (vf_nodes small_part)(0xA000 \<mapsto>
       zero_node\<lparr>vn_offset := 700, vn_functions := no_functions\<lparr>fn_read := Other_fn 0, fn_lseek := Other_fn 1\<rparr>\<rparr>),
     pf_entries := [0xC000 \<mapsto> \<lparr>pe_deviceNode = 0xA000, pe_first_lba = 8, pe_lba_count = 4, pe_lock = True, pe_offsetDirty = False\<rparr>]\<rparr>"

lemma moved_part_node: "part_node moved_part 0xB000 0xA000 8 4 2000 False 700"
  by (simp add: part_node_def moved_part_def small_part_def pipes.defs is_disk_def)

theorem partfs_read_slice_witness:
  "(\<exists>h'. partfs_read (ram_disk of_nat) 0xB000 (block_addr 7) 100 small_part = Inr (48, h') \<and>
      bytes_at (km_mem (lh_k h')) (8 * 4096) 48 = map of_nat [6096..<6144]) \<and>
   (\<exists>h'. partfs_read (ram_disk of_nat) 0xB000 (block_addr 7) 100 moved_part = Inr (48, h') \<and>
      bytes_at (km_mem (lh_k h')) (8 * 4096) 48 = map of_nat [700..<748])"
proof -
  have buf: "phys_of (block_addr 7) = 8 * 4096"
    by (simp add: phys_of_block)
  have run: "\<exists>h'. partfs_read (ram_disk of_nat) 0xB000 (block_addr 7) 100 h = Inr (48, h') \<and>
      bytes_at (km_mem (lh_k h')) (8 * 4096) 48 = map of_nat [unat p..<unat p + 48]"
    if "part_node h 0xB000 0xA000 8 4 2000 dirty pos" "p = (if dirty then 8 * 512 + 2000 else pos)" "\<not> dirty \<longrightarrow> unat pos \<le> 9900"
    for h :: parts and dirty pos p
  proof -
    have "\<exists>h' n. unat n = min (unat (100 :: u64)) (unat (4 :: u64) * 512 - unat (2000 :: u64)) \<and>
        partfs_read (ram_disk of_nat) 0xB000 (block_addr 7) 100 h = Inr (n, h') \<and> part_node h' 0xB000 0xA000 8 4 (2000 + n) False (p + n) \<and>
        km_mem (lh_k h') = write_bytes (km_mem (lh_k h)) (phys_of (block_addr 7)) (map of_nat [unat p..<unat p + unat n]) \<and>
        (p = 8 * 512 + 2000 \<longrightarrow> unat p = unat (8 :: u64) * 512 + unat (2000 :: u64) \<and> p + n = 8 * 512 + (2000 + n))"
      by (rule partfs_read_slice [OF ram_disk_ok _ _ that(1) _ _ that(2), where len = 10000]) (use that(3) in auto)
    then obtain h' n where r: "unat n = 48" "partfs_read (ram_disk of_nat) 0xB000 (block_addr 7) 100 h = Inr (n, h')"
        "km_mem (lh_k h') = write_bytes (km_mem (lh_k h)) (8 * 4096) (map of_nat [unat p..<unat p + unat n])"
      unfolding buf by auto
    have "n = 48"
      using r(1) by (intro unsigned_word_eqI) simp
    moreover have "bytes_at (km_mem (lh_k h')) (8 * 4096) (length (map of_nat [unat p..<unat p + unat n] :: u8 list)) =
        map of_nat [unat p..<unat p + unat n]"
      unfolding r(3) by (rule bytes_at_write_bytes)
    ultimately show ?thesis
      using r(1,2) by simp
  qed
  show ?thesis
    using run [OF small_part_node, of 6096] run [OF moved_part_node, of 700] by (simp del: upt_rec_numeral)
qed

end
