(* ===== verification/Fat32.thy ===== *)
theory Fat32
  imports Partfs
begin

text \<open>
  The FAT32 file system, \<^verbatim>\<open>kernel/fs/fat32/fat32.c\<close>. The allocation table, the directory entries and the file
  data go through kernel memory as in the code; the address of the local \<^verbatim>\<open>entry\<close> that the disk driver fills is
  an argument, as are the first contents of the uninitialised array \<^verbatim>\<open>entry_name\<close>. The function
  \<^verbatim>\<open>fat32_index_directories\<close> has no caller.
\<close>

section \<open>Data\<close>

record fat32fs_custom_data_t =
  fc_deviceNode :: u64
  fc_sector_length :: u16
  fc_sectors_per_cluster :: u8
  fc_reserved_sectors :: u16
  fc_fat_count :: u8
  fc_sectors_per_fat :: u32
  fc_root_dir_cluster :: u32
  fc_begin_cluster :: u32
  fc_lock :: lock

text \<open>A directory entry is its 32 bytes; the accessors are the fields of the two packed views of it.\<close>

type_synonym fat32_entry_t = "u8 list"

definition ent_name :: "fat32_entry_t \<Rightarrow> u8 list" where "ent_name e = take 11 e"
definition ent_attribute :: "fat32_entry_t \<Rightarrow> u8" where "ent_attribute e = e ! 11"
definition ent_first_cluster_hi :: "fat32_entry_t \<Rightarrow> u16" where
  "ent_first_cluster_hi e = ucast (e ! 20) OR push_bit 8 (ucast (e ! 21))"
definition ent_first_cluster_lo :: "fat32_entry_t \<Rightarrow> u16" where
  "ent_first_cluster_lo e = ucast (e ! 26) OR push_bit 8 (ucast (e ! 27))"
definition ent_size :: "fat32_entry_t \<Rightarrow> u32" where
  "ent_size e = ucast (e ! 28) OR push_bit 8 (ucast (e ! 29)) OR push_bit 16 (ucast (e ! 30)) OR push_bit 24 (ucast (e ! 31))"
definition lfn_order :: "fat32_entry_t \<Rightarrow> u8" where "lfn_order e = e ! 0"

text \<open>The 13 characters of a long name entry, every second byte of its three name fields.\<close>

definition lfn_chars :: "fat32_entry_t \<Rightarrow> u8 list" where
  "lfn_chars e = map (\<lambda>i. e ! i) [1, 3, 5, 7, 9, 14, 16, 18, 20, 22, 24, 28, 30]"

record fat32fs_device_t =
  fv_customData :: u64
  fv_entry :: fat32_entry_t
  fv_cluster :: u32

record fats = parts +
  ff_custom :: "u64 \<rightharpoonup> fat32fs_custom_data_t"
  ff_devices :: "u64 \<rightharpoonup> fat32fs_device_t"

definition set_custom :: "u64 \<Rightarrow> (fat32fs_custom_data_t \<Rightarrow> fat32fs_custom_data_t) \<Rightarrow> 'x fats_scheme \<Rightarrow> 'x fats_scheme exec" where
  "set_custom p f h = bindr (modify p f (ff_custom h)) (\<lambda>m. Inr (h\<lparr>ff_custom := m\<rparr>))"

definition fat_lock :: "u64 \<Rightarrow> 'x fats_scheme \<Rightarrow> 'x fats_scheme exec" where
  "fat_lock p h = bindr (load (ff_custom h) p) (\<lambda>C.
     bindr (spin_acquire_exec (fc_lock C)) (\<lambda>b. set_custom p (\<lambda>C. C\<lparr>fc_lock := b\<rparr>) h))"

definition fat_unlock :: "u64 \<Rightarrow> 'x fats_scheme \<Rightarrow> 'x fats_scheme exec" where
  "fat_unlock p h = set_custom p (\<lambda>C. C\<lparr>fc_lock := UNLOCKED\<rparr>) h"

section \<open>Sectors, clusters and the allocation table\<close>

definition SECTOR_TO_OFFSET :: "u64 \<Rightarrow> u64" where
  "SECTOR_TO_OFFSET x = push_bit 9 x"

definition CLUSTER_TO_OFFSET :: "u64 \<Rightarrow> u64 \<Rightarrow> u64 \<Rightarrow> u64" where
  "CLUSTER_TO_OFFSET x base sectors = SECTOR_TO_OFFSET (base + (x - 2) * sectors)"

definition read_device_offset ::
    "'x fats_scheme vfs_code \<Rightarrow> u64 \<Rightarrow> u64 \<Rightarrow> u64 \<Rightarrow> u64 \<Rightarrow> 'x fats_scheme \<Rightarrow> (u64 \<times> 'x fats_scheme) exec" where
  "read_device_offset code node offset buffer sz h =
     bindr (vfs_lseek code node offset SEEK_SET h) (\<lambda>(_, h). vfs_read code node buffer sz h)"

definition fat_length :: "fat32fs_custom_data_t \<Rightarrow> u64" where
  "fat_length C = ucast (fc_sectors_per_fat C * 512)"

definition cluster_size :: "fat32fs_custom_data_t \<Rightarrow> u64" where
  "cluster_size C = ucast (fc_sectors_per_cluster C) * 512"

text \<open>The offset of a place in a cluster.\<close>

definition in_cluster :: "fat32fs_custom_data_t \<Rightarrow> u64 \<Rightarrow> u64 \<Rightarrow> u64" where
  "in_cluster C cluster off =
     CLUSTER_TO_OFFSET cluster (ucast (fc_begin_cluster C)) (ucast (fc_sectors_per_cluster C)) + off"

definition fat32_read_fat_entry ::
    "'x fats_scheme vfs_code \<Rightarrow> u64 \<Rightarrow> u32 \<Rightarrow> u64 \<Rightarrow> u64 \<Rightarrow> 'x fats_scheme \<Rightarrow> (bool \<times> 'x fats_scheme) exec" where
  "fat32_read_fat_entry code data cluster index entry h =
     (if cluster < 2 \<or> cluster \<ge> 0x0FFFFFF8 then Inr (False, h)
      else
        bindr (load (ff_custom h) data) (\<lambda>C.
        bindr (read_device_offset code (fc_deviceNode C) (in_cluster C (ucast cluster) (index * 32)) entry 32 h) (\<lambda>(_, h).
          Inr (km_mem (lh_k h) (phys_of entry) \<noteq> 0, h))))"

definition entry_at :: "u64 \<Rightarrow> 'x fats_scheme \<Rightarrow> fat32_entry_t" where
  "entry_at entry h = bytes_at (km_mem (lh_k h)) (phys_of entry) 32"

definition fat32_get_next_cluster :: "u32 \<Rightarrow> u64 \<Rightarrow> u32 \<Rightarrow> 'x fats_scheme \<Rightarrow> u32 exec" where
  "fat32_get_next_cluster cluster fat len h =
     (if cluster \<ge> len div 4 then Inr 0
      else if fat = 0 then Inl NullDeref
      else
        let next = read32 (km_mem (lh_k h)) (phys_of (fat + 4 * ucast cluster)) in
        if next \<ge> 0x0FFFFFF8 then Inr 0 else Inr next)"

text \<open>The allocation table is read into a new block at the start of every operation.\<close>

definition read_fat :: "'x fats_scheme vfs_code \<Rightarrow> u64 \<Rightarrow> 'x fats_scheme \<Rightarrow> (u64 \<times> 'x fats_scheme) exec" where
  "read_fat code data h =
     bindr (load (ff_custom h) data) (\<lambda>C.
     bindr (kmalloc (fat_length C) (lh_k h)) (\<lambda>(fat, k).
     bindr (read_device_offset code (fc_deviceNode C) (SECTOR_TO_OFFSET (ucast (fc_reserved_sectors C))) fat (fat_length C)
              (h\<lparr>lh_k := k\<rparr>)) (\<lambda>(_, h). Inr (fat, h))))"

section \<open>Reading a file\<close>

definition first_cluster :: "fat32_entry_t \<Rightarrow> u64" where
  "first_cluster e = scast (push_bit 16 (ucast (ent_first_cluster_hi e)) OR ucast (ent_first_cluster_lo e) :: u32)"

fun skip_clusters :: "nat \<Rightarrow> u64 \<Rightarrow> u64 \<Rightarrow> u64 \<Rightarrow> 'x fats_scheme \<Rightarrow> u64 exec" where
  "skip_clusters 0 cluster fat len h = Inr cluster"
| "skip_clusters (Suc n) cluster fat len h =
     bindr (fat32_get_next_cluster (ucast cluster) fat (ucast len) h) (\<lambda>c. skip_clusters n (ucast c) fat len h)"

function read_clusters ::
    "'x fats_scheme vfs_code \<Rightarrow> fat32fs_custom_data_t \<Rightarrow> u64 \<Rightarrow> u64 \<Rightarrow> u64 \<Rightarrow> u64 \<Rightarrow> u64 \<Rightarrow> u64 \<Rightarrow>
     'x fats_scheme \<Rightarrow> 'x fats_scheme exec" where
  "read_clusters code C fat buffer read_size savedOffset cluster index h =
     (if \<not> index < read_size then Inr h
      else if cluster_size C = 0 then Inl DivideError
      else
        let within = savedOffset mod cluster_size C;
            readCount = (if cluster_size C - within > read_size - index then read_size - index else cluster_size C - within)
        in
          bindr (read_device_offset code (fc_deviceNode C) (in_cluster C cluster within) (buffer + index) readCount h) (\<lambda>(_, h).
          let index' = index + readCount in
          bindr (if index' < read_size then bindr (fat32_get_next_cluster (ucast cluster) fat (ucast (fat_length C)) h) (\<lambda>c. Inr (ucast c))
                 else Inr cluster) (\<lambda>cluster.
            read_clusters code C fat buffer read_size 0 cluster index' h)))"
  by pat_completeness auto

lemma read_count_step:
  fixes cs within read_size index :: u64
  assumes "index < read_size" "within < cs"
  defines "n \<equiv> (if cs - within > read_size - index then read_size - index else cs - within)"
  shows "unat n = min (unat cs - unat within) (unat read_size - unat index)" "unat (index + n) = unat index + unat n"
    "0 < unat n" "unat index + unat n \<le> unat read_size"
proof -
  have lt: "unat index < unat read_size" "unat within < unat cs"
    using assms(1,2) by (simp_all add: word_less_nat_alt)
  have a: "unat (cs - within) = unat cs - unat within" "unat (read_size - index) = unat read_size - unat index"
    using lt by (simp_all add: unat_sub_if_size)
  show n: "unat n = min (unat cs - unat within) (unat read_size - unat index)"
    using a by (auto simp: n_def word_less_nat_alt min_def)
  show "0 < unat n" "unat index + unat n \<le> unat read_size"
    unfolding n using lt by auto
  then have "unat index + unat n < 18446744073709551616"
    using unat_u64_less [of read_size] by (simp del: unat_u64_less)
  then show "unat (index + n) = unat index + unat n"
    by (simp add: unat_word_ariths)
qed

termination read_clusters
proof (relation "measure (\<lambda>(code, C, fat, buffer, read_size, savedOffset, cluster, index, h). unat read_size - unat index)", goal_cases)
  case (2 code C fat buffer read_size savedOffset cluster index h within n x y h' index' c)
  have "within < cluster_size C"
    using 2(2,3) by (simp add: word_mod_less_divisor word_neq_0_conv)
  moreover have "index < read_size" "unat index < unat read_size"
    using 2(1) by (simp_all add: word_less_nat_alt)
  ultimately have "unat index < unat index'" "unat index < unat read_size"
    using read_count_step(2,3) [of index read_size within "cluster_size C"] 2(4,7) by simp_all
  then show ?case
    by simp
qed simp

declare read_clusters.simps [simp del]

definition fat32_read :: "'x fats_scheme vfs_code \<Rightarrow> u64 \<Rightarrow> u64 \<Rightarrow> u64 \<Rightarrow> 'x fats_scheme \<Rightarrow> (u64 \<times> 'x fats_scheme) exec" where
  "fat32_read code node buffer sz h =
     bindr (load (vf_nodes h) node) (\<lambda>N.
     bindr (load (ff_devices h) (vn_data N)) (\<lambda>V.
     let data = fv_customData V in
     bindr (fat_lock data h) (\<lambda>h.
     bindr (read_fat code data h) (\<lambda>(fat, h).
     bindr (load (vf_nodes h) node) (\<lambda>N.
     bindr (load (ff_custom h) data) (\<lambda>C.
     let len = ucast (ent_size (fv_entry V));
         read_size = (if vn_offset N + sz \<ge> len then len - vn_offset N else sz)
     in
       if cluster_size C = 0 then Inl DivideError
       else
         bindr (skip_clusters (unat (vn_offset N div cluster_size C)) (first_cluster (fv_entry V)) fat (fat_length C) h) (\<lambda>cluster.
         bindr (read_clusters code C fat buffer read_size (vn_offset N) cluster 0 h) (\<lambda>h.
         bindr (release fat h) (\<lambda>h.
         bindr (set_vnode node (\<lambda>N. N\<lparr>vn_offset := vn_offset N + read_size\<rparr>) h) (\<lambda>h.
         bindr (fat_unlock data h) (\<lambda>h. Inr (read_size, h)))))))))))) "

text \<open>
  The new offset of a seek: \<^verbatim>\<open>length\<close> and \<^verbatim>\<open>offset\<close> are signed, but a sum with the unsigned \<^verbatim>\<open>node->offset\<close> is not.
\<close>

definition fat32_target :: "u64 \<Rightarrow> u64 \<Rightarrow> u64 \<Rightarrow> u64 \<Rightarrow> u64 option" where
  "fat32_target len cur offset type =
     (if type = SEEK_SET then if sint offset \<ge> sint len then None else Some offset
      else if type = SEEK_END then if sint (len + offset) < 0 \<or> sint offset \<ge> 0 then None else Some (len + offset)
      else if type = SEEK_CUR then if cur + offset \<ge> len \<or> cur + offset < 0 then None else Some (cur + offset)
      else None)"

definition fat32_lseek :: "u64 \<Rightarrow> u64 \<Rightarrow> u64 \<Rightarrow> 'x fats_scheme \<Rightarrow> (u64 \<times> 'x fats_scheme) exec" where
  "fat32_lseek node offset type h =
     bindr (load (vf_nodes h) node) (\<lambda>N.
     bindr (load (ff_devices h) (vn_data N)) (\<lambda>V.
     let data = fv_customData V in
     bindr (fat_lock data h) (\<lambda>h.
     case fat32_target (ucast (ent_size (fv_entry V))) (vn_offset N) offset type of
       None \<Rightarrow> bindr (fat_unlock data h) (\<lambda>h. Inr (-1, h))
     | Some off \<Rightarrow>
         bindr (set_vnode node (\<lambda>N. N\<lparr>vn_offset := off\<rparr>) h) (\<lambda>h.
         bindr (fat_unlock data h) (\<lambda>h. Inr (off, h))))))"

section \<open>Names\<close>

text \<open>
  A long name entry is copied into the array for the name. The order of the entry is taken modulo 32; for an order
  of zero the index is 255 and the store is past the array.
\<close>

definition put_at :: "nat \<Rightarrow> u8 list \<Rightarrow> u8 list \<Rightarrow> u8 list exec" where
  "put_at pos cs xs = (if pos + length cs \<le> length xs then Inr (take pos xs @ cs @ drop (pos + length cs) xs) else Inl WildAccess)"

definition long_name :: "fat32_entry_t \<Rightarrow> bool \<Rightarrow> u8 list \<Rightarrow> (bool \<times> u8 list) exec" where
  "long_name e ready entry_name =
     (let index = unat ((lfn_order e AND 0x1F) - 1);
          last = (lfn_order e AND 0x40 \<noteq> 0)
      in bindr (if last then put entry_name (index * 14) 0 else Inr entry_name) (\<lambda>entry_name.
         bindr (put_at (index * 13) (lfn_chars e) entry_name) (\<lambda>entry_name.
           Inr (ready \<or> last, entry_name))))"

text \<open>\<^verbatim>\<open>strcpy\<close> and \<^verbatim>\<open>strcmp\<close> from an array: without a zero in it they run past its end.\<close>

definition array_string :: "u8 list \<Rightarrow> u8 list exec" where
  "array_string xs = (if 0 \<in> set xs then Inr (takeWhile (\<lambda>c. c \<noteq> 0) xs) else Inl WildAccess)"

fun array_streq :: "u8 list \<Rightarrow> u8 list \<Rightarrow> bool exec" where
  "array_streq [] t = Inl WildAccess"
| "array_streq (c # s) t =
     (let d = (case t of [] \<Rightarrow> 0 | d # _ \<Rightarrow> d) in
      if c \<noteq> d then Inr False else if c = 0 then Inr True else array_streq s (tl t))"

definition toupper :: "u8 \<Rightarrow> u8" where
  "toupper c = (if c \<ge> 0x61 \<and> c \<le> 0x7A then c - 0x20 else c)"

definition fit :: "nat \<Rightarrow> u8 list \<Rightarrow> u8 list" where
  "fit n s = take n s @ replicate (n - length s) 0x20"

text \<open>
  Whether the 8.3 name of an entry differs from a path component. The test for an extension looks at the byte
  in front of the first dot; for a component that starts with a dot, or is empty, that is \<open>pre\<close>, the byte in memory
  before the component.
\<close>

definition fat32_compare_fs_ent_and_path :: "u8 \<Rightarrow> u8 list \<Rightarrow> u8 list \<Rightarrow> bool exec" where
  "fat32_compare_fs_ent_and_path pre real_name path =
     (let stem = takeWhile (\<lambda>c. c \<noteq> 0x2E) path;
          ext = drop (length stem) path;
          before = (if stem = [] then pre else last stem)
      in
        bindr (if before = 0x2E then
                 if stem = [] then Inl WildAccess
                 else Inr (fit 8 (take (length stem - 1) stem) @ fit 3 ext)
               else Inr (fit 8 path @ fit 3 [])) (\<lambda>name.
          Inr (take 11 real_name \<noteq> map toupper name)))"

text \<open>The printed form of an 8.3 name in a directory listing.\<close>

definition blank :: "u8 \<Rightarrow> bool" where
  "blank c \<longleftrightarrow> c = 0 \<or> c = 0xFF \<or> c = 0x20"

definition short_name :: "u8 list \<Rightarrow> u8 list exec" where
  "short_name name =
     (let base = dropWhile blank (rev (take 8 name)); ext = take 3 (drop 8 name) in
      if base = [] then Inl WildAccess
      else Inr (takeWhile (\<lambda>c. c \<noteq> 0) (rev base @ (if \<exists>c \<in> set ext. blank c then [] else 0x2E # ext))))"

section \<open>Listing a directory\<close>

text \<open>
  The loop over the entries of a directory ends with the entry that is reported, its cluster and index and the name
  collected so far, or without one. The boundary of a cluster is only noticed after the entry behind it has
  been read.
\<close>

partial_function (option) readdir_loop ::
    "'x fats_scheme vfs_code \<Rightarrow> u64 \<Rightarrow> u64 \<Rightarrow> fat32fs_custom_data_t \<Rightarrow> u64 \<Rightarrow> u64 \<Rightarrow> u64 \<Rightarrow> bool \<Rightarrow> u8 list \<Rightarrow>
     'x fats_scheme \<Rightarrow> ((u64 \<times> u64 \<times> bool \<times> u8 list) option \<times> 'x fats_scheme) exec option" where
  "readdir_loop code data entry C fat cluster i ready entry_name h =
     (case fat32_read_fat_entry code data (ucast cluster) i entry h of Inl e \<Rightarrow> Some (Inl e) | Inr r \<Rightarrow>
      (case r of (found, h) \<Rightarrow>
       if \<not> found then Some (Inr (None, h))
       else
         let e = entry_at entry h in
         if i = ucast (fc_sectors_per_cluster C) * 16 then
           (case fat32_get_next_cluster (ucast cluster) fat (ucast (fat_length C)) h of Inl e \<Rightarrow> Some (Inl e) | Inr c \<Rightarrow>
            if c = 0 then Some (Inr (None, h)) else readdir_loop code data entry C fat (ucast c) 0 ready entry_name h)
         else if e ! 0 = 0xE5 then readdir_loop code data entry C fat cluster (i + 1) ready entry_name h
         else if ent_attribute e = 0x0F then
           (case long_name e ready entry_name of Inl e \<Rightarrow> Some (Inl e) | Inr q \<Rightarrow>
            readdir_loop code data entry C fat cluster (i + 1) (fst q) (snd q) h)
         else Some (Inr (Some (cluster, i, ready, entry_name), h))))"

definition set_dirent :: "u64 \<Rightarrow> (vsf_dirent_t \<Rightarrow> vsf_dirent_t) \<Rightarrow> 'x fats_scheme \<Rightarrow> 'x fats_scheme exec" where
  "set_dirent p f h = bindr (modify p f (vf_dirents h)) (\<lambda>m. Inr (h\<lparr>vf_dirents := m\<rparr>))"

definition fat32_readdir ::
    "'x fats_scheme vfs_code \<Rightarrow> u64 \<Rightarrow> u8 list \<Rightarrow> u64 \<Rightarrow> u64 \<Rightarrow> 'x fats_scheme \<Rightarrow> (u64 \<times> 'x fats_scheme) exec" where
  "fat32_readdir code entry entry_name node_dev dirent h =
     bindr (load (vf_nodes h) node_dev) (\<lambda>N.
     bindr (load (ff_devices h) (vn_data N)) (\<lambda>V.
     let data = fv_customData V in
     bindr (fat_lock data h) (\<lambda>h.
     bindr (read_fat code data h) (\<lambda>(fat, h).
     bindr (load (ff_custom h) data) (\<lambda>C.
     bindr (load (vf_dirents h) dirent) (\<lambda>D.
     let i = d_ino D AND 0xFFFFFFFF;
         cluster = (let c = drop_bit 32 (d_ino D) in if c = 0 then ucast (fv_cluster V) else c)
     in
       bindr (run_loop (readdir_loop code data entry C fat cluster i False entry_name h)) (\<lambda>(r, h).
       case r of
         None \<Rightarrow> bindr (release fat h) (\<lambda>h. bindr (fat_unlock data h) (\<lambda>h. Inr (-1, h)))
       | Some (cluster, i, ready, entry_name) \<Rightarrow>
           let e = entry_at entry h in
           bindr (if ready then array_string entry_name else short_name (ent_name e)) (\<lambda>name.
           bindr (set_dirent dirent (\<lambda>D. D\<lparr>d_ino := push_bit 32 cluster OR ((i + 1) AND 0xFFFFFFFF), d_reclen := 1048,
                    d_type := if ent_attribute e AND 0x10 \<noteq> 0 then DT_DIR else DT_REG, d_name := name\<rparr>) h) (\<lambda>h.
           bindr (release fat h) (\<lambda>h.
           bindr (fat_unlock data h) (\<lambda>h. Inr (0, h))))))))))))"

section \<open>Looking a file up\<close>

datatype fat_found = Fat_none | Fat_file fat32_entry_t | Fat_dir fat32_entry_t u32

definition name_matches :: "u8 \<Rightarrow> bool \<Rightarrow> u8 list \<Rightarrow> fat32_entry_t \<Rightarrow> u8 list \<Rightarrow> bool exec" where
  "name_matches pre ready entry_name e subPath =
     (if ready then array_streq entry_name subPath
      else bindr (fat32_compare_fs_ent_and_path pre (ent_name e) subPath) (\<lambda>r. Inr (\<not> r)))"

definition new_cluster :: "fat32_entry_t \<Rightarrow> u32" where
  "new_cluster e = push_bit 16 (ucast (ent_first_cluster_hi e)) OR ucast (ent_first_cluster_lo e)"

text \<open>One turn of the loop: it ends with what was found or goes on with the rest of the path, the cluster, the
  index and the long name collected so far.\<close>

type_synonym dir_cursor = "u8 list \<times> u32 \<times> u64 \<times> bool \<times> u8 list"

definition finddir_step ::
    "'x fats_scheme vfs_code \<Rightarrow> u64 \<Rightarrow> u64 \<Rightarrow> u8 \<Rightarrow> fat32fs_custom_data_t \<Rightarrow> u64 \<Rightarrow> dir_cursor \<Rightarrow>
     'x fats_scheme \<Rightarrow> ((dir_cursor + fat_found) \<times> 'x fats_scheme) exec" where
  "finddir_step code data entry pre C fat cur h = (case cur of (path, cluster, i, ready, entry_name) \<Rightarrow>
     bindr (fat32_read_fat_entry code data cluster i entry h) (\<lambda>(found, h).
     if \<not> found then Inr (Inr Fat_none, h)
     else
       let e = entry_at entry h in
       if i = ucast (fc_sectors_per_cluster C) * 16 then
         bindr (fat32_get_next_cluster cluster fat (ucast (fat_length C)) h) (\<lambda>c.
           Inr (Inl (path, c, 0, ready, entry_name), h))
       else if e ! 0 = 0xE5 then Inr (Inl (path, cluster, i + 1, ready, entry_name), h)
       else if ent_attribute e = 0x0F then
         bindr (long_name e ready entry_name) (\<lambda>(ready, entry_name). Inr (Inl (path, cluster, i + 1, ready, entry_name), h))
       else
         let subPath = takeWhile (\<lambda>c. c \<noteq> 0x2F) path;
             pathIsAFile = (subPath = path)
         in
           bindr (name_matches pre ready entry_name e subPath) (\<lambda>match.
           if ent_attribute e AND 0x20 \<noteq> 0 \<and> pathIsAFile \<and> match then Inr (Inr (Fat_file e), h)
           else if ent_attribute e AND 0x10 \<noteq> 0 \<and> pathIsAFile \<and> match then Inr (Inr (Fat_dir e (new_cluster e)), h)
           else if ent_attribute e AND 0x10 \<noteq> 0 \<and> \<not> pathIsAFile \<and> match then
             Inr (Inl (drop (length subPath + 1) path, new_cluster e, 1, False, replicate 512 0), h)
           else Inr (Inl (path, cluster, i + 1, False, replicate 512 0), h))))"

partial_function (option) finddir_loop ::
    "'x fats_scheme vfs_code \<Rightarrow> u64 \<Rightarrow> u64 \<Rightarrow> u8 \<Rightarrow> fat32fs_custom_data_t \<Rightarrow> u64 \<Rightarrow> dir_cursor \<Rightarrow>
     'x fats_scheme \<Rightarrow> (fat_found \<times> 'x fats_scheme) exec option" where
  "finddir_loop code data entry pre C fat cur h =
     (case finddir_step code data entry pre C fat cur h of Inl e \<Rightarrow> Some (Inl e) | Inr r \<Rightarrow>
      (case fst r of
         Inl cur \<Rightarrow> finddir_loop code data entry pre C fat cur (snd r)
       | Inr f \<Rightarrow> Some (Inr (f, snd r))))"

text \<open>The node for a file or a directory that was found.\<close>

definition fat_node :: "u64 \<Rightarrow> u8 list \<Rightarrow> fat_found \<Rightarrow> 'x fats_scheme \<Rightarrow> (u64 \<times> 'x fats_scheme) exec" where
  "fat_node data path r h =
     bindr (new_vnode zero_node h) (\<lambda>(node, h).
     bindr (kmalloc 48 (lh_k h)) (\<lambda>(device, k).
     if device = 0 then Inl NullDeref
     else
       let h = h\<lparr>lh_k := k\<rparr> in
       case r of
         Fat_none \<Rightarrow> Inr (0, h)
       | Fat_file e \<Rightarrow>
           bindr (set_vnode node (\<lambda>N. N\<lparr>vn_name := path, vn_flags := vn_flags N OR VFS_FILE, vn_data := device,
                    vn_functions := (vn_functions N)\<lparr>fn_read := Fat32_read, fn_lseek := Fat32_lseek\<rparr>\<rparr>)
                  (h\<lparr>ff_devices := (ff_devices h)(device \<mapsto> \<lparr>fv_customData = data, fv_entry = e, fv_cluster = 0\<rparr>)\<rparr>)) (\<lambda>h.
             Inr (node, h))
       | Fat_dir e c \<Rightarrow>
           bindr (set_vnode node (\<lambda>N. N\<lparr>vn_name := path, vn_flags := vn_flags N OR VFS_DIRECTORY, vn_data := device,
                    vn_functions := (vn_functions N)\<lparr>fn_readdir := Fat32_readdir\<rparr>\<rparr>)
                  (h\<lparr>ff_devices := (ff_devices h)(device \<mapsto> \<lparr>fv_customData = data, fv_entry = e, fv_cluster = c\<rparr>)\<rparr>)) (\<lambda>h.
             Inr (node, h))))"

definition fat32_finddir ::
    "'x fats_scheme vfs_code \<Rightarrow> u64 \<Rightarrow> u8 \<Rightarrow> u8 list \<Rightarrow> u64 \<Rightarrow> u8 list \<Rightarrow> u8 list option \<Rightarrow> 'x fats_scheme \<Rightarrow>
     (u64 \<times> u8 list option \<times> 'x fats_scheme) exec" where
  "fat32_finddir code entry pre entry_name node_dev name last_path h =
     bindr (load (vf_nodes h) node_dev) (\<lambda>N.
     let data = vn_data N in
     bindr (fat_lock data h) (\<lambda>h.
     let path = (case last_path of None \<Rightarrow> name | Some l \<Rightarrow> if l = [] then name else name @ [0x2F] @ l) in
     if length path \<ge> 1024 then Inl WildAccess
     else
       bindr (read_fat code data h) (\<lambda>(fat, h).
       bindr (load (ff_custom h) data) (\<lambda>C.
       bindr (run_loop (finddir_loop code data entry pre C fat (path, fc_root_dir_cluster C, 0, False, entry_name) h)) (\<lambda>(r, h).
       if r = Fat_none then
         bindr (release fat h) (\<lambda>h. bindr (fat_unlock data h) (\<lambda>h. Inr (0, last_path, h)))
       else
         bindr (fat_node data path r h) (\<lambda>(node, h).
         bindr (release fat h) (\<lambda>h.
         bindr (fat_unlock data h) (\<lambda>h. Inr (node, None, h)))))))))"

definition fat32_print_tree :: "u64 \<Rightarrow> u64 \<Rightarrow> 'x fats_scheme \<Rightarrow> 'x fats_scheme exec" where
  "fat32_print_tree node parentOffset h = Inr h"

section \<open>Mounting\<close>

text \<open>
  The fields of the superblock are read into the new object, at their offsets in it; the signature is read into a
  local. A volume that was mounted is reported with the value of an error too.
\<close>

definition superblock :: "u64 \<Rightarrow> u64 \<Rightarrow> 'x fats_scheme \<Rightarrow> fat32fs_custom_data_t" where
  "superblock deviceNode customData h =
     (let m = km_mem (lh_k h); a = phys_of customData in
      \<lparr>fc_deviceNode = deviceNode, fc_sector_length = ucast (read_le m (a + 8) 2), fc_sectors_per_cluster = m (a + 10),
       fc_reserved_sectors = ucast (read_le m (a + 12) 2), fc_fat_count = m (a + 14), fc_sectors_per_fat = read32 m (a + 16),
       fc_root_dir_cluster = read32 m (a + 20), fc_begin_cluster = 0, fc_lock = UNLOCKED\<rparr>)"

fun read_fields :: "'x fats_scheme vfs_code \<Rightarrow> u64 \<Rightarrow> (u64 \<times> u64 \<times> u64) list \<Rightarrow> 'x fats_scheme \<Rightarrow> 'x fats_scheme exec" where
  "read_fields code node [] h = Inr h"
| "read_fields code node ((offset, buffer, n) # fs) h =
     bindr (read_device_offset code node offset buffer n h) (\<lambda>(_, h). read_fields code node fs h)"

definition fat32_mount ::
    "'x fats_scheme vfs_code \<Rightarrow> u64 \<Rightarrow> u64 \<Rightarrow> u8 list \<Rightarrow> u64 \<Rightarrow> u8 list \<Rightarrow> u64 \<Rightarrow> 'x fats_scheme \<Rightarrow> (u64 \<times> 'x fats_scheme) exec" where
  "fat32_mount code signature node device flags path data h =
     bindr (kopen code device (ucast flags) h) (\<lambda>(deviceNode, h).
     if deviceNode = 0 then Inr (-1, h)
     else
       bindr (kmalloc 64 (lh_k h)) (\<lambda>(customData, k).
       if customData = 0 then Inl NullDeref
       else
         bindr (read_fields code deviceNode
             [(0x0B, customData + 8, 2), (0x0D, customData + 10, 1), (0x0E, customData + 12, 2), (0x10, customData + 14, 1),
              (0x24, customData + 16, 4), (0x2C, customData + 20, 4)] (h\<lparr>lh_k := k\<rparr>)) (\<lambda>h.
         bindr (read_device_offset code deviceNode 0x1FE signature 2
                  (set_mem (\<lambda>m. write_le m (phys_of signature) 2 0) h)) (\<lambda>(_, h).
         if read_le (km_mem (lh_k h)) (phys_of signature) 2 \<noteq> 0xAA55 then
           bindr (say (str ''[FAT32] Wrong signature'' @ [10]) h) (\<lambda>h.
           bindr (release customData h) (\<lambda>h.
           bindr (vfs_close code deviceNode h) (\<lambda>h.
           bindr (release deviceNode h) (\<lambda>h. Inr (-1, h\<lparr>vf_nodes := (vf_nodes h)(deviceNode := None)\<rparr>)))))
         else
           let S = superblock deviceNode customData h;
               C = S\<lparr>fc_begin_cluster := ucast (fc_reserved_sectors S) + ucast (fc_fat_count S) * fc_sectors_per_fat S\<rparr>
           in
             bindr (new_vnode (zero_node\<lparr>vn_name := str ''Fat32'', vn_data := customData, vn_flags := VFS_DIRECTORY,
                 vn_functions := no_functions\<lparr>fn_finddir := Fat32_finddir, fn_print_tree := Fat32_print_tree\<rparr>\<rparr>)
               (h\<lparr>ff_custom := (ff_custom h)(customData \<mapsto> C)\<rparr>)) (\<lambda>(fat32Node, h).
             bindr (vfs_mount path fat32Node h) (\<lambda>h. Inr (-1, h)))))))"

definition fat32_init :: "'x fats_scheme \<Rightarrow> 'x fats_scheme exec" where
  "fat32_init h =
     bindr (new_devnode \<lparr>dn_name = str ''Fat32Dev'', dn_data = 0, dn_flags = VFS_FILESYSTEM, dn_internIndex = 0,
         dn_functions = no_functions\<lparr>fn_mount := Fat32_mount\<rparr>\<rparr> h) (\<lambda>(fat32Node, h).
       devfs_mount (str ''fat32'') fat32Node h)"

section \<open>Short names\<close>

lemma toupper_space [simp]: "toupper c = 0x20 \<longleftrightarrow> c = 0x20"
proof
  assume a: "toupper c = 0x20"
  show "c = 0x20"
  proof (cases "c \<ge> 0x61 \<and> c \<le> 0x7A")
    case True
    then have "c = 0x40"
      using a by (simp add: toupper_def eq_diff_eq)
    with True show ?thesis by simp
  qed (use a in \<open>auto simp: toupper_def split: if_splits\<close>)
qed (simp add: toupper_def)

lemma length_fit [simp]: "length (fit n s) = n"
  by (simp add: fit_def)

lemma takeWhile_stem: "x \<notin> set s \<Longrightarrow> takeWhile (\<lambda>c. c \<noteq> x) (s @ x # t) = s" "x \<notin> set s \<Longrightarrow> takeWhile (\<lambda>c. c \<noteq> x) s = s"
  by (induction s) auto

text \<open>
  C38. The comparison of a path component with the 8.3 name of a directory entry recognises names without an
  extension, but no name with one: for a stem of one to eight characters and an extension that does not start with
  a blank, the entry that the file has on the disk is reported as different, because the code looks for the dot in
  front of the dot.
\<close>

theorem fat32_extension_never_matches:
  assumes "stem \<noteq> []" "length stem \<le> 8" "0x2E \<notin> set stem" "ext \<noteq> []" "hd ext \<noteq> 0x20"
  shows "fat32_compare_fs_ent_and_path pre (map toupper (fit 8 stem @ fit 3 [])) stem = Inr False \<and>
    fat32_compare_fs_ent_and_path pre (map toupper (fit 8 stem @ fit 3 ext)) (stem @ 0x2E # ext) = Inr True"
proof -
  have dot: "last stem \<noteq> 0x2E"
    using assms(1,3) last_in_set by metis
  then have "fat32_compare_fs_ent_and_path pre (map toupper (fit 8 stem @ fit 3 [])) stem = Inr False"
    using assms(1,3) by (simp add: fat32_compare_fs_ent_and_path_def Let_def takeWhile_stem take_map)
  moreover have "map toupper (fit 3 ext) ! 0 \<noteq> map toupper (fit 3 []) ! 0"
    using assms(4,5) by (cases ext) (simp_all add: fit_def toupper_def [of "0x20"])
  then have "map toupper (fit 8 stem @ fit 3 ext) \<noteq> map toupper (fit 8 (stem @ 0x2E # ext) @ fit 3 [])"
    by (metis (no_types, lifting) append_eq_append_conv length_fit length_map map_append)
  then have "fat32_compare_fs_ent_and_path pre (map toupper (fit 8 stem @ fit 3 ext)) (stem @ 0x2E # ext) = Inr True"
    using assms(1,3) dot by (simp add: fat32_compare_fs_ent_and_path_def Let_def takeWhile_stem)
  ultimately show ?thesis ..
qed

theorem fat32_extension_never_matches_witness:
  "fat32_compare_fs_ent_and_path 0 (str ''README  TXT'') (str ''readme.txt'') = Inr True"
proof -
  have "map toupper (fit 8 (str ''readme'') @ fit 3 (str ''txt'')) = str ''README  TXT''"
    by code_simp
  moreover have "str ''readme'' @ 0x2E # str ''txt'' = str ''readme.txt''"
    by code_simp
  moreover have "0x2E \<notin> set (str ''readme'')" "hd (str ''txt'') \<noteq> 0x20" "str ''readme'' \<noteq> []" "str ''txt'' \<noteq> []" "length (str ''readme'') \<le> 8"
    by code_simp+
  ultimately show ?thesis
    using fat32_extension_never_matches [of "str ''readme''" "str ''txt''" 0] by simp
qed

end
