(* ===== verification/FatFile.thy ===== *)
theory FatFile
  imports Fat32
begin

text \<open>
  What a read of a FAT32 file returns: the bytes of the file as the allocation table on the disk strings its
  clusters together. The driver of the disk is only known by its contract \<open>disk_ok\<close>.
\<close>

section \<open>The file on the disk\<close>

definition next_cluster :: "bytes \<Rightarrow> fat32fs_custom_data_t \<Rightarrow> u32 \<Rightarrow> u32" where
  "next_cluster disk C c =
     (if c \<ge> ucast (fat_length C) div 4 then 0
      else let n = read32 disk (unat (fc_reserved_sectors C) * 512 + 4 * unat c) in if n \<ge> 0x0FFFFFF8 then 0 else n)"

fun nth_cluster :: "bytes \<Rightarrow> fat32fs_custom_data_t \<Rightarrow> u32 \<Rightarrow> nat \<Rightarrow> u32" where
  "nth_cluster disk C c 0 = c"
| "nth_cluster disk C c (Suc n) = nth_cluster disk C (next_cluster disk C c) n"

definition csize :: "fat32fs_custom_data_t \<Rightarrow> nat" where
  "csize C = unat (fc_sectors_per_cluster C) * 512"

definition cluster_base :: "fat32fs_custom_data_t \<Rightarrow> u32 \<Rightarrow> nat" where
  "cluster_base C c = unat (fc_begin_cluster C) * 512 + (unat c - 2) * csize C"

definition file_byte :: "bytes \<Rightarrow> fat32fs_custom_data_t \<Rightarrow> u32 \<Rightarrow> nat \<Rightarrow> u8" where
  "file_byte disk C c p = disk (cluster_base C (nth_cluster disk C c (p div csize C)) + p mod csize C)"

text \<open>The clusters of the first \<open>n\<close> bytes of the file are on the disk.\<close>

definition chain_ok :: "bytes \<Rightarrow> nat \<Rightarrow> fat32fs_custom_data_t \<Rightarrow> u32 \<Rightarrow> nat \<Rightarrow> bool" where
  "chain_ok disk len C c n \<longleftrightarrow> (\<forall>q. q * csize C < n \<longrightarrow>
     2 \<le> unat (nth_cluster disk C c q) \<and> cluster_base C (nth_cluster disk C c q) + csize C \<le> len)"

lemma nth_cluster_Suc: "nth_cluster disk C c (Suc n) = next_cluster disk C (nth_cluster disk C c n)"
  by (induction n arbitrary: c) simp_all

lemma lock_irrelevant [simp]:
  "fat_length (C\<lparr>fc_lock := b\<rparr>) = fat_length C" "cluster_size (C\<lparr>fc_lock := b\<rparr>) = cluster_size C" "csize (C\<lparr>fc_lock := b\<rparr>) = csize C"
  "next_cluster disk (C\<lparr>fc_lock := b\<rparr>) c = next_cluster disk C c" "cluster_base (C\<lparr>fc_lock := b\<rparr>) c = cluster_base C c"
  "in_cluster (C\<lparr>fc_lock := b\<rparr>) x y = in_cluster C x y"
  by (simp_all add: fat_length_def cluster_size_def csize_def next_cluster_def cluster_base_def in_cluster_def)

lemma lock_irrelevant_chain [simp]:
  "nth_cluster disk (C\<lparr>fc_lock := b\<rparr>) c n = nth_cluster disk C c n"
  by (induction n arbitrary: c) simp_all

lemma unat_cluster_size: "unat (cluster_size C) = csize C"
proof -
  have "unat (fc_sectors_per_cluster C) * 512 < 18446744073709551616"
    using unat_u8_lt [of "fc_sectors_per_cluster C"] by simp
  then show ?thesis
    by (simp add: cluster_size_def csize_def unat_word_ariths unsigned_ucast_eq take_bit_nat_eq_self)
qed

lemma unat_fat_length: "unat (fat_length C) < 4294967296" "unat (ucast (fat_length C) :: u32) = unat (fat_length C)"
proof -
  show "unat (fat_length C) < 4294967296"
    using unat_u32_less [of "fc_sectors_per_fat C * 512"]
    by (simp add: fat_length_def unsigned_ucast_eq take_bit_nat_eq_self)
  then show "unat (ucast (fat_length C) :: u32) = unat (fat_length C)"
    by (simp add: unsigned_ucast_eq take_bit_nat_eq_self)
qed

lemma unat_in_cluster:
  assumes "2 \<le> unat c" "unat within < csize C"
  shows "unat (in_cluster C (ucast c) within) = cluster_base C c + unat within"
proof -
  let ?b = "unat (fc_begin_cluster C)" and ?s = "unat (fc_sectors_per_cluster C)" and ?c = "unat c"
  have "?b < 4294967296" "?s < 256" "?c < 4294967296"
    using unat_u32_less unat_u8_lt by blast+
  then have "(?c - 2) * ?s \<le> 4294967296 * 256"
    by (intro mult_le_mono) simp_all
  then have bound: "(?b + (?c - 2) * ?s) * 512 + unat within < 18446744073709551616"
    using \<open>?b < _\<close> \<open>?s < _\<close> assms(2) by (simp add: csize_def)
  have "in_cluster C (ucast c) within = of_nat ((?b + (?c - 2) * ?s) * 512 + unat within)"
    using assms(1) by (simp add: in_cluster_def CLUSTER_TO_OFFSET_def SECTOR_TO_OFFSET_def push_bit_eq_mult of_nat_diff
        unsigned_ucast_eq)
  then have "unat (in_cluster C (ucast c) within) = (?b + (?c - 2) * ?s) * 512 + unat within"
    using bound by (simp only: unat_of_nat_u64)
  then show ?thesis
    by (simp add: cluster_base_def csize_def algebra_simps)
qed

section \<open>The table in memory\<close>

definition loaded :: "'x fats_scheme \<Rightarrow> nat \<Rightarrow> bytes \<Rightarrow> fat32fs_custom_data_t \<Rightarrow> bool" where
  "loaded h i disk C \<longleftrightarrow> i < 34359738368 \<and> (\<forall>j<unat (fat_length C). km_mem (lh_k h) ((i + 1) * 4096 + j) =
     disk (unat (fc_reserved_sectors C) * 512 + j))"

lemma read_le_shift: "(\<And>j. j < k \<Longrightarrow> m (a + j) = m' (b + j)) \<Longrightarrow> read_le m a k = read_le m' b k"
proof (induction k arbitrary: a b)
  case (Suc k)
  have "read_le m (Suc a) k = read_le m' (Suc b) k"
    using Suc.prems [of "Suc _"] by (intro Suc.IH) simp
  then show ?case
    using Suc.prems [of 0] by simp
qed simp

lemma ucast_up_down [simp]: "(ucast (ucast (c :: u32) :: u64) :: u32) = c"
  by (rule unsigned_word_eqI) (simp add: unsigned_ucast_eq take_bit_word_eq_self)

lemma next_cluster_loaded:
  assumes "loaded h i disk C" "block_addr i \<noteq> 0"
  shows "fat32_get_next_cluster c (block_addr i) (ucast (fat_length C)) h = Inr (next_cluster disk C c)"
proof (cases "c \<ge> ucast (fat_length C) div 4")
  case False
  let ?r = "unat (fc_reserved_sectors C) * 512"
  have "unat c < unat (fat_length C) div 4"
    using False unat_fat_length(2) [of C] by (simp add: word_le_nat_alt unat_div_distrib)
  then have c: "4 * unat c + 4 \<le> unat (fat_length C)" "4 * unat c \<le> 35184372088832"
    using unat_fat_length(1) [of C] by linarith+
  have "(4 * ucast c :: u64) = of_nat (4 * unat c)"
    by (simp add: unsigned_ucast_eq)
  then have at: "phys_of (block_addr i + 4 * ucast c) = (i + 1) * 4096 + 4 * unat c"
    using phys_of_inside [of i "4 * unat c"] c(2) assms(1) unfolding loaded_def by metis
  have "read_le (km_mem (lh_k h)) ((i + 1) * 4096 + 4 * unat c) 4 = read_le disk (?r + 4 * unat c) 4"
    using assms(1) c(1) unfolding loaded_def by (intro read_le_shift) (simp add: add.assoc)
  then show ?thesis
    using False assms(2) at by (simp add: fat32_get_next_cluster_def next_cluster_def Let_def read32_def)
qed (simp add: fat32_get_next_cluster_def next_cluster_def)

lemma skip_clusters_ok:
  assumes "loaded h i disk C" "block_addr i \<noteq> 0"
  shows "skip_clusters n (ucast c) (block_addr i) (fat_length C) h = Inr (ucast (nth_cluster disk C c n))"
proof (induction n arbitrary: c)
  case (Suc n)
  with next_cluster_loaded [OF assms, of c] show ?case by simp
qed simp

text \<open>A read at a place of the disk.\<close>

lemma read_device_ok:
  assumes "disk_ok code dev disk len" "vf_nodes h dev = Some M" "is_disk M" "unat pos + unat n \<le> len"
  shows "read_device_offset code dev pos buffer n h =
    Inr (n, set_mem (\<lambda>m. write_bytes m (phys_of buffer) (map disk [unat pos..<unat pos + unat n]))
      (h\<lparr>vf_nodes := (vf_nodes h)(dev \<mapsto> M\<lparr>vn_offset := pos + n\<rparr>)\<rparr>))"
proof -
  let ?h = "h\<lparr>vf_nodes := (vf_nodes h)(dev \<mapsto> M\<lparr>vn_offset := pos\<rparr>)\<rparr>"
  have "unat pos \<le> len"
    using assms(4) by simp
  then have "vfs_lseek code dev pos SEEK_SET h = Inr (pos, ?h)"
    using assms(1-3) unfolding disk_ok_def by blast
  moreover have "is_disk (M\<lparr>vn_offset := pos\<rparr>)"
    using assms(3) by (simp add: is_disk_def)
  ultimately show ?thesis
    using disk_readD [OF assms(1), of ?h "M\<lparr>vn_offset := pos\<rparr>" n buffer] assms(4) by (simp add: read_device_offset_def)
qed

lemma map_shift: "(\<And>j. j < n \<Longrightarrow> f (a + j) = g (b + j)) \<Longrightarrow> map f [a..<a + n] = map g [b..<b + n]"
  by (rule nth_equalityI) simp_all

text \<open>The bytes of one read stay in one cluster.\<close>

lemma file_bytes_cluster:
  assumes "p mod csize C + n \<le> csize C"
  shows "map disk [cluster_base C (nth_cluster disk C c (p div csize C)) + p mod csize C..<
      cluster_base C (nth_cluster disk C c (p div csize C)) + p mod csize C + n] = map (file_byte disk C c) [p..<p + n]"
proof (rule map_shift)
  fix j
  assume j: "j < n"
  let ?s = "csize C"
  have "p mod ?s + j < ?s"
    using assms j by simp
  then have "(p + j) div ?s = p div ?s" "(p + j) mod ?s = p mod ?s + j"
    using div_mult_mod_eq [of p ?s] by (metis add.assoc div_eq_0_iff div_mult_self3 add.right_neutral less_nat_zero_code,
        metis add.assoc mod_less mod_mult_self3)
  then show "disk (cluster_base C (nth_cluster disk C c (p div ?s)) + p mod ?s + j) = file_byte disk C c (p + j)"
    by (simp add: file_byte_def add.assoc)
qed

section \<open>The loop over the clusters\<close>

lemma set_mem_simps [simp]:
  "vf_nodes (set_mem f h) = vf_nodes h" "lh_k (set_mem f h) = (lh_k h)\<lparr>km_mem := f (km_mem (lh_k h))\<rparr>"
  "set_mem f (set_mem g h) = set_mem (\<lambda>m. f (g m)) h" "set_mem (\<lambda>m. m) h = h"
  "(set_mem f h)\<lparr>vf_nodes := v\<rparr> = set_mem f (h\<lparr>vf_nodes := v\<rparr>)"
  for h :: "'x vfs_scheme"
  by (simp_all add: set_mem_def)

lemma loaded_write:
  assumes "loaded h i disk C" "{a..<a + length xs} \<inter> {(i + 1) * 4096..<(i + 1) * 4096 + unat (fat_length C)} = {}"
  shows "loaded (set_mem (\<lambda>m. write_bytes m a xs) h\<lparr>vf_nodes := v\<rparr>) i disk C"
proof -
  have "write_bytes (km_mem (lh_k h)) a xs ((i + 1) * 4096 + j) = km_mem (lh_k h) ((i + 1) * 4096 + j)"
    if "j < unat (fat_length C)" for j
    using assms(2) that by (intro write_bytes_outside) (auto simp: disjoint_iff)
  with assms(1) show ?thesis
    unfolding loaded_def by (simp add: set_mem_def)
qed

lemma read_clusters_step:
  assumes "index < read_size" "cluster_size C \<noteq> 0"
    and "(if cluster_size C - savedOffset mod cluster_size C > read_size - index then read_size - index
      else cluster_size C - savedOffset mod cluster_size C) = n"
    and "read_device_offset code (fc_deviceNode C) (in_cluster C cluster (savedOffset mod cluster_size C)) (buffer + index) n h = Inr (x, h1)"
  shows "read_clusters code C fat buffer read_size savedOffset cluster index h =
    bindr (if index + n < read_size then bindr (fat32_get_next_cluster (ucast cluster) fat (ucast (fat_length C)) h1) (\<lambda>c. Inr (ucast c))
      else Inr cluster) (\<lambda>cluster. read_clusters code C fat buffer read_size 0 cluster (index + n) h1)"
  by (subst read_clusters.simps) (simp add: Let_def assms split del: if_split)

lemma read_clusters_ok:
  assumes disk: "disk_ok code dev disk len" "fc_deviceNode C = dev" "csize C \<noteq> 0"
    and chain: "chain_ok disk len C c (off + unat read_size)"
    and buf: "\<forall>j\<le>unat read_size. phys_of (buffer + of_nat j) = pb + j"
    and fat: "block_addr i \<noteq> 0" "{pb..<pb + unat read_size} \<inter> {(i + 1) * 4096..<(i + 1) * 4096 + unat (fat_length C)} = {}"
  shows "loaded h i disk C \<Longrightarrow> vf_nodes h dev = Some M \<Longrightarrow> is_disk M \<Longrightarrow> unat index \<le> unat read_size \<Longrightarrow>
    (unat index < unat read_size \<longrightarrow> unat savedOffset mod csize C = (off + unat index) mod csize C \<and>
      cluster = ucast (nth_cluster disk C c ((off + unat index) div csize C))) \<Longrightarrow>
    \<exists>M'. is_disk M' \<and> read_clusters code C (block_addr i) buffer read_size savedOffset cluster index h =
      Inr (set_mem (\<lambda>m. write_bytes m (pb + unat index) (map (file_byte disk C c) [off + unat index..<off + unat read_size]))
        (h\<lparr>vf_nodes := (vf_nodes h)(dev \<mapsto> M')\<rparr>))"
proof (induction "unat read_size - unat index" arbitrary: index savedOffset cluster h M rule: less_induct)
  case less
  show ?case
  proof (cases "unat index < unat read_size")
    case False
    then have "\<not> index < read_size" "unat index = unat read_size"
      using less.prems(4) by (simp_all add: word_less_nat_alt)
    then show ?thesis
      using less.prems(2,3) by (intro exI [of _ M]) (simp add: read_clusters.simps fun_upd_idem)
  next
    case True
    let ?s = "csize C" and ?p = "off + unat index" and ?within = "savedOffset mod cluster_size C"
    let ?q = "nth_cluster disk C c (?p div ?s)"
    have lt: "index < read_size"
      using True by (simp add: word_less_nat_alt)
    have w: "unat ?within = ?p mod ?s" and cl: "cluster = ucast ?q"
      using less.prems(5) True by (simp_all add: unat_mod_distrib unat_cluster_size)
    then have wl: "unat ?within < ?s" "?within < cluster_size C"
      using disk(3) by (simp_all add: word_less_nat_alt unat_cluster_size)
    define n where "n = (if cluster_size C - ?within > read_size - index then read_size - index else cluster_size C - ?within)"
    have cs: "cluster_size C \<noteq> 0"
      using wl(2) by auto
    note n = read_count_step [OF lt wl(2), folded n_def]
    have "?p div ?s * ?s < off + unat read_size"
      using True div_times_less_eq_dividend [of ?p ?s] by linarith
    then have q: "2 \<le> unat ?q" "cluster_base C ?q + ?s \<le> len"
      using chain unfolding chain_ok_def by blast+
    let ?pos = "in_cluster C (ucast ?q) ?within"
    have pos: "unat ?pos = cluster_base C ?q + ?p mod ?s"
      using unat_in_cluster [OF q(1) wl(1)] w by simp
    have fit: "?p mod ?s + unat n \<le> ?s"
      using n(1) w wl(1) by (simp add: unat_cluster_size)
    let ?bs = "map (file_byte disk C c) [?p..<?p + unat n]" and ?M = "M\<lparr>vn_offset := ?pos + n\<rparr>" and ?i = "index + n"
    define h1 where "h1 = set_mem (\<lambda>m. write_bytes m (pb + unat index) ?bs) (h\<lparr>vf_nodes := (vf_nodes h)(dev \<mapsto> ?M)\<rparr>)"
    have "phys_of (buffer + index) = pb + unat index"
      using buf [rule_format, of "unat index"] True by simp
    then have rd: "read_device_offset code dev ?pos (buffer + index) n h = Inr (n, h1)"
      using read_device_ok [OF disk(1) less.prems(2,3), of ?pos n "buffer + index"] pos fit q(2)
      by (simp add: file_bytes_cluster [OF fit] h1_def)
    have h1: "loaded h1 i disk C" "vf_nodes h1 dev = Some ?M" "is_disk ?M"
      using loaded_write [OF less.prems(1), of "pb + unat index" ?bs] fat(2) n(4) less.prems(3)
      by (auto simp: h1_def is_disk_def disjoint_iff)
    define cl' where "cl' = (if ?i < read_size then ucast (next_cluster disk C ?q) else cluster)"
    have "(if ?i < read_size then bindr (fat32_get_next_cluster (ucast cluster) (block_addr i) (ucast (fat_length C)) h1) (\<lambda>c. Inr (ucast c))
        else Inr cluster) = Inr cl'"
      using next_cluster_loaded [OF h1(1) fat(1), of ?q] by (simp add: cl'_def cl)
    then have run: "read_clusters code C (block_addr i) buffer read_size savedOffset cluster index h =
        read_clusters code C (block_addr i) buffer read_size 0 cl' ?i h1"
      using read_clusters_step [OF lt, of C savedOffset n code cluster buffer h n h1 "block_addr i"] rd disk(2) cl cs
      by (simp add: n_def split del: if_split)
    have step: "unat (0 :: u64) mod ?s = (off + unat ?i) mod ?s \<and> cl' = ucast (nth_cluster disk C c ((off + unat ?i) div ?s))"
      if "unat ?i < unat read_size"
    proof -
      have "unat n = ?s - ?p mod ?s" "?p mod ?s < ?s"
        using that n(1,2) w wl(1) by (simp_all add: unat_cluster_size min_def split: if_splits)
      then have "off + unat ?i = Suc (?p div ?s) * ?s"
        using div_mult_mod_eq [of ?p ?s] n(2) unfolding mult_Suc by linarith
      then have "(off + unat ?i) mod ?s = 0" "(off + unat ?i) div ?s = Suc (?p div ?s)"
        using disk(3) by (simp_all del: mult_Suc)
      then show ?thesis
        using that by (simp add: cl'_def word_less_nat_alt nth_cluster_Suc del: nth_cluster.simps)
    qed
    have dec: "unat read_size - unat ?i < unat read_size - unat index" "unat ?i \<le> unat read_size"
      using n(2-4) True by linarith+
    obtain M' where M': "is_disk M'" "read_clusters code C (block_addr i) buffer read_size 0 cl' ?i h1 =
        Inr (set_mem (\<lambda>m. write_bytes m (pb + unat ?i) (map (file_byte disk C c) [off + unat ?i..<off + unat read_size]))
          (h1\<lparr>vf_nodes := (vf_nodes h1)(dev \<mapsto> M')\<rparr>))"
      using less.hyps [OF dec(1) h1 dec(2), of 0 cl'] step by blast
    have "[?p..<off + unat read_size] = [?p..<?p + unat n] @ [?p + unat n..<off + unat read_size]"
      using upt_add_eq_append [of ?p "?p + unat n" "unat read_size - unat index - unat n"] n(4) by simp
    then have "write_bytes m (pb + unat index) (map (file_byte disk C c) [?p..<off + unat read_size]) =
        write_bytes (write_bytes m (pb + unat index) ?bs) (pb + unat ?i) (map (file_byte disk C c) [off + unat ?i..<off + unat read_size])" for m
      using n(2) by (simp add: write_bytes_append add.assoc)
    then show ?thesis
      using run M' by (intro exI [of _ M']) (simp add: h1_def)
  qed
qed

section \<open>Reading a file\<close>

definition file_at :: "'x fats_scheme \<Rightarrow> u64 \<Rightarrow> u64 \<Rightarrow> u64 \<Rightarrow> fat32fs_custom_data_t \<Rightarrow> fat32_entry_t \<Rightarrow> u64 \<Rightarrow> bool" where
  "file_at h node dev data C e off \<longleftrightarrow> (\<exists>N V M. node \<noteq> 0 \<and> dev \<noteq> 0 \<and> node \<noteq> dev \<and> data \<noteq> 0 \<and>
     vf_nodes h node = Some N \<and> vn_offset N = off \<and> vn_data N \<noteq> 0 \<and> ff_devices h (vn_data N) = Some V \<and>
     fv_customData V = data \<and> fv_entry V = e \<and> ff_custom h data = Some C \<and> fc_lock C \<and> fc_deviceNode C = dev \<and>
     vf_nodes h dev = Some M \<and> is_disk M)"

definition entry_cluster :: "fat32_entry_t \<Rightarrow> u32" where
  "entry_cluster e = push_bit 16 (ucast (ent_first_cluster_hi e)) OR ucast (ent_first_cluster_lo e)"

lemma scast_low: "unat (w :: u32) < 2147483648 \<Longrightarrow> (scast w :: u64) = ucast w"
proof -
  assume "unat w < 2147483648"
  then have "int (unat w) < 2147483648"
    by linarith
  then have "uint w < 2147483648"
    by simp
  then have "sint w = uint w"
    using signed_take_bit_int_eq_self [of 31 "uint w"] unsigned_greater_eq [of w, where 'a = int] by (simp add: sint_uint)
  moreover have "(scast w :: u64) = of_int (sint w)" "(ucast w :: u64) = of_int (uint w)"
    by (simp_all only: of_int_sint of_int_uint)
  ultimately show ?thesis
    by (simp only:)
qed

lemma first_cluster_entry: "unat (entry_cluster e) < 2147483648 \<Longrightarrow> first_cluster e = ucast (entry_cluster e)"
  unfolding first_cluster_def entry_cluster_def by (rule scast_low)

text \<open>The allocation table is loaded into a new block.\<close>

lemma read_fat_ok:
  assumes inv: "heap_inv (lh_k h) B" and oom: "kmalloc (fat_length C) (lh_k h) = Inr (fat, k)" "fat \<noteq> 0"
    and disk: "disk_ok code (fc_deviceNode C) disk len" "unat (fc_reserved_sectors C) * 512 + unat (fat_length C) \<le> len"
    and st: "data \<noteq> 0" "ff_custom h data = Some C" "vf_nodes h (fc_deviceNode C) = Some M" "is_disk M"
  obtains i n M' k' where "read_fat code data h = Inr (block_addr i, h\<lparr>lh_k := k', vf_nodes := (vf_nodes h)(fc_deviceNode C \<mapsto> M')\<rparr>)"
    "is_disk M'" "(i, n) \<notin> B" "heap_inv k' (insert (i, n) B)" "block_size k' i = unat (fat_length C)"
    "loaded (h\<lparr>lh_k := k', vf_nodes := (vf_nodes h)(fc_deviceNode C \<mapsto> M')\<rparr>) i disk C"
    "\<forall>b\<in>B. \<forall>x\<in>block_bytes b. km_mem k' x = km_mem (lh_k h) x"
    "(\<lambda>j. \<not> (i \<le> j \<and> j < i + n) \<and> PmmBitmap (km_pmm k') j) = PmmBitmap (km_pmm (lh_k h))"
proof -
  let ?l = "fat_length C" and ?r = "unat (fc_reserved_sectors C) * 512" and ?dev = "fc_deviceNode C"
  have lim: "unat ?l \<le> 35184372088832"
    using unat_fat_length(1) [of C] by simp
  then obtain i where i: "fat = block_addr i" "(i, size_pages (unat ?l) + 1) \<notin> B"
      "heap_inv k (insert (i, size_pages (unat ?l) + 1) B)" "block_size k i = unat ?l"
      "\<forall>c\<in>B. block_bytes (i, size_pages (unat ?l) + 1) \<inter> block_bytes c = {}"
      "\<forall>x. x \<notin> block_bytes (i, size_pages (unat ?l) + 1) \<longrightarrow> km_mem k x = km_mem (lh_k h) x"
    using kmalloc_fresh [OF inv oom] by metis
  let ?n = "size_pages (unat ?l) + 1" and ?bs = "map disk [?r..<?r + unat ?l]"
  have il: "i < 34359738368"
    using heap_inv_bounds(2) [OF i(3), of "(i, ?n)"] by simp
  have "kmalloc ?l (lh_k h) = Inr (block_addr i, k)" "i < 34359738367"
    using oom(1) i(1) heap_inv_bounds(2) [OF i(3), of "(i, ?n)"] by simp_all
  note bits = kmalloc_unmark [OF inv this(1) lim this(2)]
  let ?pos = "SECTOR_TO_OFFSET (ucast (fc_reserved_sectors C))"
  have "unat (fc_reserved_sectors C) < 65536"
    by (rule unat_u16_less)
  then have pos: "unat ?pos = ?r"
    by (simp add: SECTOR_TO_OFFSET_def push_bit_eq_mult unat_word_ariths unsigned_ucast_eq take_bit_nat_eq_self)
  let ?m = "write_bytes (km_mem k) ((i + 1) * 4096) ?bs" and ?M = "M\<lparr>vn_offset := ?pos + ?l\<rparr>"
  let ?h = "h\<lparr>lh_k := k\<lparr>km_mem := ?m\<rparr>, vf_nodes := (vf_nodes h)(?dev \<mapsto> ?M)\<rparr>"
  have "read_fat code data h = Inr (block_addr i, ?h)"
    using read_device_ok [OF disk(1), of "h\<lparr>lh_k := k\<rparr>" M ?pos ?l fat] pos disk(2) st oom(1) i(1) phys_of_block [OF il]
    by (simp add: read_fat_def set_mem_def)
  moreover have "\<forall>x. x \<notin> block_data (i, ?n) \<longrightarrow> ?m x = km_mem k x"
  proof (intro allI impI)
    fix x
    assume "x \<notin> block_data (i, ?n)"
    then have "x \<notin> {(i + 1) * 4096..<(i + 1) * 4096 + unat ?l}"
      using block_data_fits [OF i(3) insertI1, of "unat ?l"] i(4) by auto
    then show "?m x = km_mem k x"
      by (intro write_bytes_outside) auto
  qed
  note st = heap_inv_store [OF i(3) insertI1 this]
  have "loaded ?h i disk C"
    unfolding loaded_def
  proof (intro conjI allI impI)
    fix j
    assume j: "j < unat ?l"
    have "bytes_at ?m ((i + 1) * 4096) (length ?bs) ! j = ?bs ! j"
      by (simp only: bytes_at_write_bytes)
    with j show "km_mem (lh_k ?h) ((i + 1) * 4096 + j) = disk (?r + j)" by simp
  qed (rule il)
  moreover have "\<forall>b\<in>B. \<forall>x\<in>block_bytes b. ?m x = km_mem (lh_k h) x"
    using st(3) i(2,5,6) by (metis disjoint_iff insertI2)
  ultimately show thesis
    using that [of i ?M "k\<lparr>km_mem := ?m\<rparr>" ?n] st(1) st(2) [of "(i, ?n)"] i(2,4) bits \<open>is_disk M\<close> by (simp add: is_disk_def)
qed

lemma phys_of_add: "phys_of p + j < 18446744073709551616 \<Longrightarrow> phys_of (p + of_nat j) = phys_of p + j"
proof -
  assume a: "phys_of p + j < 18446744073709551616"
  have "p + of_nat j - MEM_PHYS_OFFSET = of_nat (phys_of p + j)"
    by (simp add: phys_of_def algebra_simps)
  then show ?thesis
    using a unat_of_nat_u64 [of "phys_of p + j"] by (simp only: phys_of_def)
qed

lemma chain_ok_mono: "chain_ok disk len C c n \<Longrightarrow> m \<le> n \<Longrightarrow> chain_ok disk len C c m"
  unfolding chain_ok_def by (meson less_le_trans)

lemma lock_irrelevant_file [simp]:
  "file_byte disk (C\<lparr>fc_lock := b\<rparr>) c = file_byte disk C c" "chain_ok disk len (C\<lparr>fc_lock := b\<rparr>) c n = chain_ok disk len C c n"
  "loaded h i disk (C\<lparr>fc_lock := b\<rparr>) = loaded h i disk C"
  by (simp_all add: file_byte_def chain_ok_def loaded_def fun_eq_iff)

text \<open>The number of bytes a read returns.\<close>

lemma read_size_min:
  fixes sz off len :: u64
  assumes "unat off \<le> unat len" "unat off + unat sz < 18446744073709551616"
  shows "unat (if off + sz \<ge> len then len - off else sz) = min (unat sz) (unat len - unat off)"
proof -
  have "unat (off + sz) = unat off + unat sz" "unat (len - off) = unat len - unat off"
    using assms by (simp_all add: unat_word_ariths unat_sub_if_size)
  then show ?thesis
    by (auto simp: word_le_nat_alt min_def)
qed

text \<open>
  The part of \<^verbatim>\<open>fat32_read\<close> that moves data: with the table in block \<open>i\<close>, the bytes of the file are in the buffer
  and the table is released again.
\<close>

lemma read_file_data:
  assumes disk: "disk_ok code dev disk len" "fc_deviceNode C = dev" "csize C \<noteq> 0" "chain_ok disk len C c (unat off + unat n)"
    and heap: "heap_inv (lh_k h) (insert (i, m) B)" "(i, m) \<notin> B" "block_size (lh_k h) i = unat (fat_length C)" "loaded h i disk C"
    and buf: "b \<in> B" "{phys_of buffer..<phys_of buffer + unat n} \<subseteq> block_data b"
    and st: "vf_nodes h dev = Some M" "is_disk M"
  obtains k' M' where "bindr (skip_clusters (unat (off div cluster_size C)) (ucast c) (block_addr i) (fat_length C) h) (\<lambda>cluster.
        bindr (read_clusters code C (block_addr i) buffer n off cluster 0 h) (release (block_addr i))) =
      Inr (h\<lparr>lh_k := k', vf_nodes := (vf_nodes h)(dev \<mapsto> M')\<rparr>)"
    "is_disk M'" "heap_inv k' B"
    "km_mem k' = write_bytes (km_mem (lh_k h)) (phys_of buffer) (map (file_byte disk C c) [unat off..<unat off + unat n])"
    "PmmBitmap (km_pmm k') = (\<lambda>j. \<not> (i \<le> j \<and> j < i + m) \<and> PmmBitmap (km_pmm (lh_k h)) j)"
proof -
  let ?pb = "phys_of buffer" and ?bs = "map (file_byte disk C c) [unat off..<unat off + unat n]"
  have nz: "block_addr i \<noteq> 0"
    using kheap.ptr_nonnull [OF heap(1), of "(i, m)"] by simp
  have "?pb + unat n < 18446744073709551616 \<or> unat n = 0"
  proof (cases "unat n = 0")
    case False
    then have "?pb + unat n - 1 \<in> block_data b"
      using buf(2) by (auto simp: subset_iff)
    moreover have "fst b + snd b < 34359738368"
      using heap_inv_block [OF heap(1), of b] buf(1) by (cases b) (simp add: block_ok_def)
    ultimately have "?pb + unat n \<le> 34359738368 * 4096"
      by (auto simp: block_data_def)
    then show ?thesis by simp
  qed simp
  then have at: "\<forall>j\<le>unat n. phys_of (buffer + of_nat j) = ?pb + j"
    using phys_of_add by (auto simp: not_less)
  have fitb: "{(i + 1) * 4096..<(i + 1) * 4096 + unat (fat_length C)} \<subseteq> block_data (i, m)"
    using block_data_fits [OF heap(1) insertI1, of "unat (fat_length C)"] heap(3) by simp
  have sep: "block_data (i, m) \<inter> block_data b = {}"
    using heap_inv_apart [OF heap(1), of "(i, m)" b] buf(1) heap(2) by (fastforce simp: block_data_def block_bytes_def)
  then have apart: "{?pb..<?pb + unat n} \<inter> {(i + 1) * 4096..<(i + 1) * 4096 + unat (fat_length C)} = {}"
    using fitb buf(2) by blast
  let ?cl = "ucast (nth_cluster disk C c (unat off div csize C)) :: u64"
  have skip: "skip_clusters (unat (off div cluster_size C)) (ucast c) (block_addr i) (fat_length C) h = Inr ?cl"
    using skip_clusters_ok [OF heap(4) nz] by (simp add: unat_div_distrib unat_cluster_size)
  obtain M' where M': "is_disk M'" "read_clusters code C (block_addr i) buffer n off ?cl 0 h =
      Inr (set_mem (\<lambda>mem. write_bytes mem ?pb ?bs) (h\<lparr>vf_nodes := (vf_nodes h)(dev \<mapsto> M')\<rparr>))"
    using read_clusters_ok [OF disk(1-3,4) at nz apart heap(4) st, of 0 off ?cl] by auto
  let ?k = "(lh_k h)\<lparr>km_mem := write_bytes (km_mem (lh_k h)) ?pb ?bs\<rparr>"
  have "\<forall>x. x \<notin> block_data b \<longrightarrow> write_bytes (km_mem (lh_k h)) ?pb ?bs x = km_mem (lh_k h) x"
    using buf(2) by (intro allI impI write_bytes_outside) (auto simp: subset_iff not_less)
  then have "heap_inv ?k (insert (i, m) B)"
    using heap_inv_store(1) [OF heap(1), of b] buf(1) by blast
  then obtain k' where k': "kfree (block_addr i) ?k = Inr k'" "heap_inv k' (insert (i, m) B - {(i, m)})" "km_mem k' = km_mem ?k"
      "PmmBitmap (km_pmm k') = (\<lambda>j. \<not> (i \<le> j \<and> j < i + m) \<and> PmmBitmap (km_pmm (lh_k h)) j)"
    using kfree_ok [of ?k "insert (i, m) B" i m] by auto
  moreover have "insert (i, m) B - {(i, m)} = B"
    using heap(2) by blast
  ultimately show thesis
    using that [of M' k'] skip M' by (simp add: release_def set_mem_def)
qed

text \<open>
  C5. On a disk whose driver keeps its promises and whose clusters of the file are inside the disk,
  \<^verbatim>\<open>fat32_read\<close> at an offset up to the end of the file fills the buffer with the bytes of the file from that offset
  on, in the order in which the allocation table chains its clusters, as many as were asked for but none past the
  end of the file; it returns their number and advances the offset by it. The copy of the table is released: the page
  bitmap is bit for bit the one from before, the blocks that were live still are, and no other byte of them changes.
  The heap must have room for the table.
\<close>

theorem fat32_read_returns_file:
  assumes disk: "disk_ok code dev disk len" "unat (fc_reserved_sectors C) * 512 + unat (fat_length C) \<le> len" "csize C \<noteq> 0"
      "chain_ok disk len C (entry_cluster e) (unat (ent_size e))" "unat (entry_cluster e) < 2147483648"
    and fil: "file_at h node dev data C e off" "unat off \<le> unat (ent_size e)" "unat off + unat sz < 18446744073709551616"
    and heap: "heap_inv (lh_k h) B" "kmalloc (fat_length C) (lh_k h) = Inr (fat, k)" "fat \<noteq> 0"
    and buf: "b \<in> B" "{phys_of buffer..<phys_of buffer + unat sz} \<subseteq> block_data b"
  shows "\<exists>h' n. unat n = min (unat sz) (unat (ent_size e) - unat off) \<and> fat32_read code node buffer sz h = Inr (n, h') \<and>
    file_at h' node dev data C e (off + n) \<and> heap_inv (lh_k h') B \<and>
    PmmBitmap (km_pmm (lh_k h')) = PmmBitmap (km_pmm (lh_k h)) \<and>
    bytes_at (km_mem (lh_k h')) (phys_of buffer) (unat n) = map (file_byte disk C (entry_cluster e)) [unat off..<unat off + unat n] \<and>
    (\<forall>d\<in>B. \<forall>x\<in>block_bytes d. x \<notin> {phys_of buffer..<phys_of buffer + unat n} \<longrightarrow> km_mem (lh_k h') x = km_mem (lh_k h) x)"
proof -
  from fil(1) obtain N V M where nd: "node \<noteq> 0" "dev \<noteq> 0" "node \<noteq> dev" "data \<noteq> 0" "vf_nodes h node = Some N"
      "vn_offset N = off" "vn_data N \<noteq> 0" "ff_devices h (vn_data N) = Some V" "fv_customData V = data" "fv_entry V = e"
      "ff_custom h data = Some C" "fc_lock C" "fc_deviceNode C = dev" "vf_nodes h dev = Some M" "is_disk M"
    unfolding file_at_def by blast
  let ?C = "C\<lparr>fc_lock := False\<rparr>" and ?c = "entry_cluster e" and ?l = "ucast (ent_size e) :: u64"
  let ?n = "if off + sz \<ge> ?l then ?l - off else sz"
  have l: "unat ?l = unat (ent_size e)"
    using unat_u32_less [of "ent_size e"] by (simp add: unsigned_ucast_eq take_bit_nat_eq_self)
  then have n: "unat ?n = min (unat sz) (unat (ent_size e) - unat off)"
    using read_size_min [of off ?l sz] fil(2,3) by simp
  define hl where "hl = h\<lparr>ff_custom := (ff_custom h)(data \<mapsto> ?C)\<rparr>"
  have lock: "fat_lock data h = Inr hl"
    using nd(4,11,12) by (simp add: fat_lock_def set_custom_def hl_def)
  have dv: "fc_deviceNode ?C = dev"
    using nd(13) by simp
  have pre: "heap_inv (lh_k hl) B" "kmalloc (fat_length ?C) (lh_k hl) = Inr (fat, k)" "disk_ok code (fc_deviceNode ?C) disk len"
      "unat (fc_reserved_sectors ?C) * 512 + unat (fat_length ?C) \<le> len" "ff_custom hl data = Some ?C" "vf_nodes hl (fc_deviceNode ?C) = Some M"
    using heap(1,2) disk(1,2) nd(13,14) by (simp_all add: hl_def)
  obtain i m M1 k1 where
      rf: "read_fat code data hl = Inr (block_addr i, hl\<lparr>lh_k := k1, vf_nodes := (vf_nodes hl)(dev \<mapsto> M1)\<rparr>)"
        "is_disk M1" "(i, m) \<notin> B" "heap_inv k1 (insert (i, m) B)" "block_size k1 i = unat (fat_length ?C)"
        "loaded (hl\<lparr>lh_k := k1, vf_nodes := (vf_nodes hl)(dev \<mapsto> M1)\<rparr>) i disk ?C"
        "\<forall>b\<in>B. \<forall>x\<in>block_bytes b. km_mem k1 x = km_mem (lh_k hl) x"
        "(\<lambda>j. \<not> (i \<le> j \<and> j < i + m) \<and> PmmBitmap (km_pmm k1) j) = PmmBitmap (km_pmm (lh_k hl))"
    by (rule read_fat_ok [OF pre(1,2) heap(3) pre(3,4) nd(4) pre(5,6) nd(15), unfolded dv])
  define h1 where "h1 = hl\<lparr>lh_k := k1, vf_nodes := (vf_nodes hl)(dev \<mapsto> M1)\<rparr>"
  have h1: "lh_k h1 = k1" "vf_nodes h1 = (vf_nodes h)(dev \<mapsto> M1)" "ff_custom h1 = (ff_custom h)(data \<mapsto> ?C)" "ff_devices h1 = ff_devices h"
    by (simp_all add: h1_def hl_def)
  define n where "n = ?n"
  have nn: "unat n = min (unat sz) (unat (ent_size e) - unat off)"
    using n by (simp add: n_def)
  then have le: "unat n \<le> unat sz" "unat off + unat n \<le> unat (ent_size e)"
    using fil(2) by simp_all
  note rf = rf(1) [folded h1_def] rf(2-5) rf(6) [folded h1_def] rf(7,8)
  have prd: "csize ?C \<noteq> 0" "chain_ok disk len ?C ?c (unat off + unat n)" "heap_inv (lh_k h1) (insert (i, m) B)"
      "block_size (lh_k h1) i = unat (fat_length ?C)" "{phys_of buffer..<phys_of buffer + unat n} \<subseteq> block_data b" "vf_nodes h1 dev = Some M1"
    using disk(3) chain_ok_mono [OF disk(4) le(2)] rf(4,5) buf(2) le(1) h1 by auto
  obtain k2 M2 where rd: "bindr (skip_clusters (unat (off div cluster_size ?C)) (ucast ?c) (block_addr i) (fat_length ?C) h1) (\<lambda>cluster.
        bindr (read_clusters code ?C (block_addr i) buffer n off cluster 0 h1) (release (block_addr i))) =
      Inr (h1\<lparr>lh_k := k2, vf_nodes := (vf_nodes h1)(dev \<mapsto> M2)\<rparr>)" "is_disk M2" "heap_inv k2 B"
      "km_mem k2 = write_bytes (km_mem (lh_k h1)) (phys_of buffer) (map (file_byte disk ?C ?c) [unat off..<unat off + unat n])"
      "PmmBitmap (km_pmm k2) = (\<lambda>j. \<not> (i \<le> j \<and> j < i + m) \<and> PmmBitmap (km_pmm (lh_k h1)) j)"
    by (rule read_file_data [OF disk(1) dv prd(1-3) rf(3) prd(4) rf(6) buf(1) prd(5,6) rf(2)])
  have rd4: "km_mem k2 = write_bytes (km_mem k1) (phys_of buffer) (map (file_byte disk C ?c) [unat off..<unat off + unat n])"
    using rd(4) h1(1) by simp
  have bits: "PmmBitmap (km_pmm k2) = PmmBitmap (km_pmm (lh_k h))"
    using rd(5) rf(8) h1(1) by (simp add: hl_def)
  have ld: "load (vf_nodes h1) node = Inr N" "load (ff_custom h1) data = Inr ?C" "cluster_size ?C \<noteq> 0"
    using nd(1,3-5) h1 disk(3) unat_cluster_size [of C] by (auto simp: unat_eq_zero)
  define h2 where "h2 = h1\<lparr>lh_k := k2, vf_nodes := (vf_nodes h1)(dev \<mapsto> M2)\<rparr>"
  let ?h = "h2\<lparr>vf_nodes := (vf_nodes h2)(node \<mapsto> N\<lparr>vn_offset := off + n\<rparr>), ff_custom := (ff_custom h2)(data \<mapsto> C)\<rparr>"
  have "fat32_read code node buffer sz h =
      bindr (bindr (skip_clusters (unat (off div cluster_size ?C)) (ucast ?c) (block_addr i) (fat_length ?C) h1) (\<lambda>cluster.
        bindr (read_clusters code ?C (block_addr i) buffer n off cluster 0 h1) (release (block_addr i)))) (\<lambda>h.
      bindr (set_vnode node (\<lambda>N. N\<lparr>vn_offset := vn_offset N + n\<rparr>) h) (\<lambda>h.
      bindr (fat_unlock data h) (\<lambda>h. Inr (n, h))))"
    using nd(1,5-10) lock rf(1) ld first_cluster_entry [OF disk(5)]
    by (simp add: fat32_read_def Let_def n_def bindr_assoc)
  also have "\<dots> = bindr (set_vnode node (\<lambda>N. N\<lparr>vn_offset := vn_offset N + n\<rparr>) h2) (\<lambda>h.
      bindr (fat_unlock data h) (\<lambda>h. Inr (n, h)))"
    unfolding rd(1) h2_def by simp
  also have "\<dots> = Inr (n, ?h)"
  proof -
    have "vf_nodes h2 node = Some N" "ff_custom h2 data = Some ?C" "?C\<lparr>fc_lock := UNLOCKED\<rparr> = C"
      using nd(3,5,12) h1 by (simp_all add: h2_def)
    then show ?thesis
      using nd(1,4,6) by (simp add: set_vnode_def fat_unlock_def set_custom_def)
  qed
  finally have run: "fat32_read code node buffer sz h = Inr (n, ?h)" .
  have at: "file_at ?h node dev data C e (off + n)"
    unfolding file_at_def using nd rd(2) h1
    by (intro exI [of _ "N\<lparr>vn_offset := off + n\<rparr>"] exI [of _ V] exI [of _ M2]) (simp add: h2_def)
  let ?bs = "map (file_byte disk C ?c) [unat off..<unat off + unat n]"
  have "bytes_at (km_mem k2) (phys_of buffer) (length ?bs) = ?bs"
    unfolding rd4 by (rule bytes_at_write_bytes)
  moreover have "km_mem k2 x = km_mem (lh_k h) x" if "d \<in> B" "x \<in> block_bytes d" "x \<notin> {phys_of buffer..<phys_of buffer + unat n}" for d x
  proof -
    have "km_mem k2 x = km_mem k1 x"
      unfolding rd4 using that(3) by (intro write_bytes_outside) auto
    then show ?thesis
      using rf(7) that(1,2) by (simp add: hl_def)
  qed
  ultimately show ?thesis
    using run nn at rd(3) bits by (intro exI [of _ ?h] exI [of _ n]) (simp add: h2_def)
qed

text \<open>
  A disk with one file of 600 bytes in the clusters 2 and 4, opened at offset 500, beside a live block of 200 bytes.
\<close>

definition sample_disk :: bytes where
  "sample_disk = (\<lambda>x. of_nat x)(520 := 4, 521 := 0, 522 := 0, 523 := 0)"

definition sample_custom :: fat32fs_custom_data_t where
  "sample_custom = \<lparr>fc_deviceNode = 0xA000, fc_sector_length = 512, fc_sectors_per_cluster = 1, fc_reserved_sectors = 1,
     fc_fat_count = 1, fc_sectors_per_fat = 1, fc_root_dir_cluster = 3, fc_begin_cluster = 2, fc_lock = True\<rparr>"

definition sample_entry :: fat32_entry_t where
  "sample_entry = str ''DATA       '' @ [0x20] @ replicate 14 0 @ [2, 0, 88, 2, 0, 0]"

definition small_fat :: "kmem \<Rightarrow> fats" where
  "small_fat k = parts.extend (small_part\<lparr>lh_k := k, vf_nodes := (vf_nodes small_part)(0xB000 \<mapsto> zero_node\<lparr>vn_data := 0xD000, vn_offset := 500\<rparr>)\<rparr>)
     \<lparr>ff_custom = [0xE000 \<mapsto> sample_custom],
      ff_devices = [0xD000 \<mapsto> \<lparr>fv_customData = 0xE000, fv_entry = sample_entry, fv_cluster = 0\<rparr>]\<rparr>"

lemma small_fat_file: "file_at (small_fat k) 0xB000 0xA000 0xE000 sample_custom sample_entry 500" "lh_k (small_fat k) = k"
  by (simp_all add: file_at_def small_fat_def small_part_def parts.defs pipes.defs sample_custom_def is_disk_def)

lemma sample_sizes: "csize sample_custom = 512" "fat_length sample_custom = 512" "ent_size sample_entry = 600"
    "entry_cluster sample_entry = 2" "next_cluster sample_disk sample_custom 2 = 4"
  by code_simp+

lemma sample_bytes: "map (file_byte sample_disk sample_custom 2) [500..<600] = map sample_disk ([1524..<1536] @ [2048..<2136])"
proof -
  have base: "cluster_base sample_custom 2 = 1024" "cluster_base sample_custom 4 = 2048"
    by (simp_all add: cluster_base_def sample_sizes) (simp_all add: sample_custom_def)
  have "map (file_byte sample_disk sample_custom 2) [500..<500 + 12] = map sample_disk [1524..<1524 + 12]"
    by (rule map_shift) (simp add: file_byte_def sample_sizes base)
  moreover have "map (file_byte sample_disk sample_custom 2) [512..<512 + 88] = map sample_disk [2048..<2048 + 88]"
  proof (rule map_shift)
    fix j :: nat
    assume "j < 88"
    then have "(512 + j) div 512 = Suc 0" "(512 + j) mod 512 = j"
      by simp_all
    then show "file_byte sample_disk sample_custom 2 (512 + j) = sample_disk (2048 + j)"
      by (simp add: file_byte_def sample_sizes base)
  qed
  moreover have "[500..<600] = [500..<500 + 12] @ [512..<512 + (88 :: nat)]"
    using upt_add_eq_append [of 500 512 88] by (simp del: upt_rec_numeral)
  ultimately show ?thesis
    by (simp del: upt_rec_numeral)
qed

lemma sample_chain: "chain_ok sample_disk 4096 sample_custom 2 600"
  unfolding chain_ok_def
proof (intro allI impI)
  fix q
  assume "q * csize sample_custom < 600"
  then have "q = 0 \<or> q = Suc 0"
    by (auto simp: sample_sizes)
  then show "2 \<le> unat (nth_cluster sample_disk sample_custom 2 q) \<and>
      cluster_base sample_custom (nth_cluster sample_disk sample_custom 2 q) + csize sample_custom \<le> 4096"
    by (auto simp: sample_sizes cluster_base_def) (simp_all add: sample_custom_def)
qed

text \<open>A heap with one live block and room for more.\<close>

lemma roomy_block:
  obtains k i n fat k' where "heap_inv k {(i, n)}" "block_size k i = 200" "kmalloc 512 k = Inr (fat, k')" "fat \<noteq> 0"
proof -
  have "heap_tail small_heap 3"
    using small_heap_inv by (auto simp: heap_tail_def small_heap_def)
  moreover have len: "PmmLength (km_pmm small_heap) = 64"
    by (simp add: small_heap_def)
  ultimately obtain p k where p: "kmalloc 200 small_heap = Inr (p, k)" "p \<noteq> 0" "heap_tail k 5" "PmmLength (km_pmm k) = 64"
    using kmalloc_tail_page [of small_heap 3 200] by auto
  obtain fat k' where "kmalloc 512 k = Inr (fat, k')" "fat \<noteq> 0"
    by (rule kmalloc_tail_page [OF p(3), of 512]) (simp_all add: p(4))
  moreover obtain i where "heap_inv k {(i, size_pages (unat (200 :: u64)) + 1)}" "block_size k i = 200"
    using kmalloc_fresh [OF small_heap_inv p(1,2)] by auto
  ultimately show thesis
    using that by blast
qed

theorem fat32_read_returns_file_witness:
  "\<exists>k i n h'. heap_inv k {(i, n)} \<and> fat32_read (ram_disk sample_disk) 0xB000 (block_addr i) 200 (small_fat k) = Inr (100, h') \<and>
     PmmBitmap (km_pmm (lh_k h')) = PmmBitmap (km_pmm k) \<and> bytes_at (km_mem (lh_k h')) ((i + 1) * 4096) 100 = map sample_disk ([1524..<1536] @ [2048..<2136])"
proof -
  obtain k i n fat k' where k: "heap_inv k {(i, n)}" "block_size k i = 200" "kmalloc 512 k = Inr (fat, k')" "fat \<noteq> 0"
    by (rule roomy_block)
  have i: "i < 34359738368"
    using heap_inv_bounds(2) [OF k(1), of "(i, n)"] by simp
  have fit: "{phys_of (block_addr i)..<phys_of (block_addr i) + unat (200 :: u64)} \<subseteq> block_data (i, n)"
    using block_data_fits [OF k(1), of "(i, n)" 200] k(2) by (simp add: phys_of_block [OF i])
  have "\<exists>h' n. unat n = 100 \<and> fat32_read (ram_disk sample_disk) 0xB000 (block_addr i) 200 (small_fat k) = Inr (n, h') \<and>
      PmmBitmap (km_pmm (lh_k h')) = PmmBitmap (km_pmm k) \<and> bytes_at (km_mem (lh_k h')) ((i + 1) * 4096) (unat n) = map (file_byte sample_disk sample_custom 2) [500..<500 + unat n]"
    using fat32_read_returns_file [where code = "ram_disk sample_disk" and dev = "0xA000" and disk = sample_disk and len = 4096 and
        C = sample_custom and e = sample_entry and h = "small_fat k" and node = "0xB000" and data = "0xE000" and off = 500 and sz = 200 and
        B = "{(i, n)}" and fat = fat and k = k' and b = "(i, n)" and buffer = "block_addr i", OF ram_disk_ok _ _ _ _ small_fat_file(1)]
      k fit sample_chain small_fat_file(2) [of k] phys_of_block [OF i]
    by (auto simp: sample_sizes sample_custom_def [THEN arg_cong, of fc_reserved_sectors])
  then obtain h' n where r: "unat n = 100" "fat32_read (ram_disk sample_disk) 0xB000 (block_addr i) 200 (small_fat k) = Inr (n, h')"
      "PmmBitmap (km_pmm (lh_k h')) = PmmBitmap (km_pmm k)" "bytes_at (km_mem (lh_k h')) ((i + 1) * 4096) (unat n) = map (file_byte sample_disk sample_custom 2) [500..<500 + unat n]"
    by blast
  have "n = 100"
    using r(1) by (intro unsigned_word_eqI) simp
  then show ?thesis
    using k(1) r sample_bytes by (simp del: upt_rec_numeral) blast
qed

end
