(* ===== verification/Ext2.thy ===== *)
theory Ext2
  imports FatFile
begin

text \<open>
  The ext2 file system, \<^verbatim>\<open>kernel/fs/ext2/ext2.c\<close>, read-only as in the code. The local variables that the disk driver
  fills are in memory, at the addresses of a frame; what the code reads out of them afterwards are the bytes there.
\<close>

section \<open>Data\<close>

text \<open>The fields of the two superblocks that the code uses, and the values it derives from them.\<close>

record ext2fs_custom_data_t =
  xc_deviceNode :: u64
  xc_inodes :: u32
  xc_blocks :: u32
  xc_start_block :: u32
  xc_log2_block_size :: u32
  xc_log2_fragment_size :: u32
  xc_blocks_per_group :: u32
  xc_inodes_per_group :: u32
  xc_major_version :: u32
  xc_inode_structure_size :: u16
  xc_blockSize :: u32
  xc_fragmentSize :: u32
  xc_groupCount :: u32
  xc_singlyStartBlockIndex :: u32
  xc_doublyStartBlockIndex :: u32
  xc_triplyStartBlockIndex :: u32
  xc_tempBlockData :: u64
  xc_lock :: lock

text \<open>An inode is its 128 bytes.\<close>

type_synonym ext2_inode_data_t = "u8 list"

definition le16 :: "u8 list \<Rightarrow> nat \<Rightarrow> u16" where
  "le16 e i = ucast (e ! i) OR push_bit 8 (ucast (e ! (i + 1)))"

definition le32 :: "u8 list \<Rightarrow> nat \<Rightarrow> u32" where
  "le32 e i = ucast (le16 e i) OR push_bit 16 (ucast (le16 e (i + 2)))"

definition ino_type_and_perms :: "ext2_inode_data_t \<Rightarrow> u16" where "ino_type_and_perms e = le16 e 0"
definition ino_size_lo :: "ext2_inode_data_t \<Rightarrow> u32" where "ino_size_lo e = le32 e 4"
definition ino_direct_block_pointers :: "ext2_inode_data_t \<Rightarrow> u32 list" where
  "ino_direct_block_pointers e = map (\<lambda>i. le32 e (40 + 4 * i)) [0..<12]"
definition ino_doubly_indirect_block_pointer :: "ext2_inode_data_t \<Rightarrow> u32" where "ino_doubly_indirect_block_pointer e = le32 e 92"

record ext2_inode_addr_info_t =
  ia_block_group :: u32
  ia_inode_table_block_offset :: u32
  ia_inode_block_address_offset :: u32

record ext2fs_device_t =
  xd_data :: u64
  xd_inode :: u32
  xd_inodeData :: ext2_inode_data_t

record exts = fats +
  ex_custom :: "u64 \<rightharpoonup> ext2fs_custom_data_t"
  ex_devices :: "u64 \<rightharpoonup> ext2fs_device_t"

text \<open>The addresses of the locals that are filled by the driver.\<close>

record ext2_frame =
  fr_group :: u64
  fr_result :: u64
  fr_singly :: u64
  fr_doubly :: u64
  fr_inode :: u64
  fr_signature :: u64

definition EXT2_SIGNATURE :: u16 where "EXT2_SIGNATURE = 0xEF53"
definition EXT2_INODE_ROOT :: u32 where "EXT2_INODE_ROOT = 2"
definition EXT2_INODE_DIRECTORY :: u16 where "EXT2_INODE_DIRECTORY = 0x4000"

definition set_ext2 :: "u64 \<Rightarrow> (ext2fs_custom_data_t \<Rightarrow> ext2fs_custom_data_t) \<Rightarrow> 'x exts_scheme \<Rightarrow> 'x exts_scheme exec" where
  "set_ext2 p f h = bindr (modify p f (ex_custom h)) (\<lambda>m. Inr (h\<lparr>ex_custom := m\<rparr>))"

definition ext2_lock :: "u64 \<Rightarrow> 'x exts_scheme \<Rightarrow> 'x exts_scheme exec" where
  "ext2_lock p h = bindr (load (ex_custom h) p) (\<lambda>C.
     bindr (spin_acquire_exec (xc_lock C)) (\<lambda>b. set_ext2 p (\<lambda>C. C\<lparr>xc_lock := b\<rparr>) h))"

definition ext2_unlock :: "u64 \<Rightarrow> 'x exts_scheme \<Rightarrow> 'x exts_scheme exec" where
  "ext2_unlock p h = set_ext2 p (\<lambda>C. C\<lparr>xc_lock := UNLOCKED\<rparr>) h"

section \<open>Blocks and inodes\<close>

definition block_shift :: "ext2fs_custom_data_t \<Rightarrow> nat" where
  "block_shift C = unat (10 + xc_log2_block_size C)"

definition read_device_block ::
    "'x exts_scheme vfs_code \<Rightarrow> ext2fs_custom_data_t \<Rightarrow> u64 \<Rightarrow> u64 \<Rightarrow> u64 \<Rightarrow> 'x exts_scheme \<Rightarrow> (u64 \<times> 'x exts_scheme) exec" where
  "read_device_block code C block buffer sz h = read_device_offset code (xc_deviceNode C) (push_bit (block_shift C) block) buffer sz h"

definition read_device_block_offset ::
    "'x exts_scheme vfs_code \<Rightarrow> ext2fs_custom_data_t \<Rightarrow> u64 \<Rightarrow> u64 \<Rightarrow> u64 \<Rightarrow> u64 \<Rightarrow> 'x exts_scheme \<Rightarrow> (u64 \<times> 'x exts_scheme) exec" where
  "read_device_block_offset code C block offset buffer sz h =
     read_device_offset code (xc_deviceNode C) (push_bit (block_shift C) block + offset) buffer sz h"

definition get_inode_addr_info :: "ext2fs_custom_data_t \<Rightarrow> u32 \<Rightarrow> ext2_inode_addr_info_t exec" where
  "get_inode_addr_info C inode =
     (if xc_inodes_per_group C = 0 \<or> xc_blockSize C = 0 then Inl DivideError
      else
        let index = (inode - 1) mod xc_inodes_per_group C;
            at = index * ucast (xc_inode_structure_size C)
        in Inr \<lparr>ia_block_group = (inode - 1) div xc_inodes_per_group C, ia_inode_table_block_offset = at div xc_blockSize C,
                ia_inode_block_address_offset = at mod xc_blockSize C\<rparr>)"

definition ext2_read_inode_struct ::
    "'x exts_scheme vfs_code \<Rightarrow> ext2_frame \<Rightarrow> ext2fs_custom_data_t \<Rightarrow> u32 \<Rightarrow> u64 \<Rightarrow> 'x exts_scheme \<Rightarrow> 'x exts_scheme exec" where
  "ext2_read_inode_struct code fr C inode out h =
     bindr (get_inode_addr_info C inode) (\<lambda>I.
     let blockNumber = ia_block_group I * xc_blocks_per_group C + xc_start_block C + 1 in
     bindr (read_device_block code C (ucast blockNumber) (fr_group fr) 32 h) (\<lambda>(_, h).
     let sizeToRead = (if ucast (xc_inode_structure_size C) > (128 :: u32) then 128 else ucast (xc_inode_structure_size C));
         blockNumber = read32 (km_mem (lh_k h)) (phys_of (fr_group fr) + 8) + ia_inode_table_block_offset I
     in
       bindr (read_device_block_offset code C (ucast blockNumber) (ucast (ia_inode_block_address_offset I)) out (ucast (sizeToRead :: u32)) h) (\<lambda>(_, h).
         Inr h)))"

text \<open>A local \<^verbatim>\<open>inodeData = {0}\<close> that \<^verbatim>\<open>ext2_read_inode_struct\<close> fills.\<close>

definition fetch_inode ::
    "'x exts_scheme vfs_code \<Rightarrow> ext2_frame \<Rightarrow> ext2fs_custom_data_t \<Rightarrow> u32 \<Rightarrow> 'x exts_scheme \<Rightarrow> (ext2_inode_data_t \<times> 'x exts_scheme) exec" where
  "fetch_inode code fr C inode h =
     bindr (ext2_read_inode_struct code fr C inode (fr_inode fr) (set_mem (\<lambda>m. write_bytes m (phys_of (fr_inode fr)) (replicate 128 0)) h)) (\<lambda>h.
       Inr (bytes_at (km_mem (lh_k h)) (phys_of (fr_inode fr)) 128, h))"

definition mask_common :: "ext2fs_custom_data_t \<Rightarrow> u32" where
  "mask_common C = NOT (push_bit (unat (8 + xc_log2_block_size C)) 0xFFFFFFFF)"

text \<open>One step through an indirect block: two bytes of a pointer of four are read into a local.\<close>

definition indirect ::
    "'x exts_scheme vfs_code \<Rightarrow> ext2fs_custom_data_t \<Rightarrow> u32 \<Rightarrow> u32 \<Rightarrow> u64 \<Rightarrow> 'x exts_scheme \<Rightarrow> (u32 \<times> 'x exts_scheme) exec" where
  "indirect code C block index local h =
     bindr (read_device_block_offset code C (ucast block) (ucast (push_bit 2 index)) local 2 h) (\<lambda>(_, h).
       Inr (read32 (km_mem (lh_k h)) (phys_of local), h))"

text \<open>
  The block of a file. The test for the singly indirect range repeats the first test, so those blocks are looked up
  like doubly indirect ones, with an offset that has wrapped around.
\<close>

definition getBlockFromFileBlockOffset ::
    "'x exts_scheme vfs_code \<Rightarrow> ext2_frame \<Rightarrow> ext2fs_custom_data_t \<Rightarrow> ext2_inode_data_t \<Rightarrow> u64 \<Rightarrow> 'x exts_scheme \<Rightarrow> (u32 \<times> 'x exts_scheme) exec" where
  "getBlockFromFileBlockOffset code fr C inode blockOffset h =
     (let m = mask_common C; s = unat (8 + xc_log2_block_size C); t = unat (18 + xc_log2_block_size C) in
      if blockOffset < ucast (xc_singlyStartBlockIndex C) then
        bindr (elem (ino_direct_block_pointers inode) (unat blockOffset)) (\<lambda>b. Inr (b, h))
      else if blockOffset < ucast (xc_doublyStartBlockIndex C) then
        let off = blockOffset - ucast (xc_doublyStartBlockIndex C);
            doublyOffset = ucast (drop_bit s off) AND m;
            singlyOffset = ucast (off AND ucast m)
        in
          bindr (indirect code C (ino_doubly_indirect_block_pointer inode) doublyOffset (fr_singly fr) h) (\<lambda>(singlyBlock, h).
            indirect code C singlyBlock singlyOffset (fr_result fr) h)
      else
        let off = blockOffset - ucast (xc_triplyStartBlockIndex C);
            triplyOffset = ucast (drop_bit t off) AND m;
            doublyOffset = ucast (drop_bit s off) AND m;
            singlyOffset = ucast (off AND ucast m)
        in
          bindr (indirect code C (ino_doubly_indirect_block_pointer inode) triplyOffset (fr_doubly fr) h) (\<lambda>(doublyBlock, h).
          bindr (indirect code C doublyBlock doublyOffset (fr_singly fr) h) (\<lambda>(singlyBlock, h).
            indirect code C singlyBlock singlyOffset (fr_result fr) h)))"

definition getBlockFromFileOffset ::
    "'x exts_scheme vfs_code \<Rightarrow> ext2_frame \<Rightarrow> ext2fs_custom_data_t \<Rightarrow> ext2_inode_data_t \<Rightarrow> u64 \<Rightarrow> 'x exts_scheme \<Rightarrow> (u32 \<times> 'x exts_scheme) exec" where
  "getBlockFromFileOffset code fr C inode offset h = getBlockFromFileBlockOffset code fr C inode (drop_bit (block_shift C) offset) h"

section \<open>Reading and seeking\<close>

text \<open>
  The loop over the blocks of a long read. The state is what is left to read, the bytes read so far, the next block,
  the offset into it and the size of the next piece. Every piece goes to the start of the buffer.
\<close>

partial_function (option) ext2_read_loop ::
    "'x exts_scheme vfs_code \<Rightarrow> ext2_frame \<Rightarrow> ext2fs_custom_data_t \<Rightarrow> ext2_inode_data_t \<Rightarrow> u64 \<Rightarrow> u64 \<Rightarrow>
     u64 \<times> u64 \<times> u32 \<times> u32 \<times> u64 \<Rightarrow> 'x exts_scheme \<Rightarrow> (u64 \<times> 'x exts_scheme) exec option" where
  "ext2_read_loop code fr C inode node buffer st h =
     (case st of (sz, readSize, relativeBlock, inBlockOffset, dataToRead) \<Rightarrow>
      if sz = 0 then Some (Inr (readSize, h))
      else case load (vf_nodes h) node of Inl e \<Rightarrow> Some (Inl e) | Inr N \<Rightarrow>
        let fileSize = ucast (ino_size_lo inode);
            dataToRead = (if vn_offset N + dataToRead > fileSize then fileSize - vn_offset N else dataToRead)
        in
          (case bindr (getBlockFromFileBlockOffset code fr C inode (ucast relativeBlock) h) (\<lambda>(readBlock, h).
                 if readBlock < 2 then Inr (True, h)
                 else
                   bindr (read_device_block_offset code C (ucast readBlock) (ucast inBlockOffset) buffer dataToRead h) (\<lambda>(_, h).
                   bindr (set_vnode node (\<lambda>N. N\<lparr>vn_offset := vn_offset N + dataToRead\<rparr>) h) (\<lambda>h. Inr (False, h)))) of
             Inl e \<Rightarrow> Some (Inl e)
           | Inr r \<Rightarrow>
               if fst r then Some (Inr (-1, snd r))
               else if vn_offset N + dataToRead \<ge> fileSize then Some (Inr (readSize + dataToRead, snd r))
               else
                 let sz = sz - dataToRead in
                 ext2_read_loop code fr C inode node buffer
                   (sz, readSize + dataToRead, relativeBlock + 1, 0, if sz > ucast (xc_blockSize C) then ucast (xc_blockSize C) else sz) (snd r)))"

definition ext2_read :: "'x exts_scheme vfs_code \<Rightarrow> ext2_frame \<Rightarrow> u64 \<Rightarrow> u64 \<Rightarrow> u64 \<Rightarrow> 'x exts_scheme \<Rightarrow> (u64 \<times> 'x exts_scheme) exec" where
  "ext2_read code fr node buffer sz h =
     bindr (load (vf_nodes h) node) (\<lambda>N.
     bindr (load (ex_devices h) (vn_data N)) (\<lambda>V.
     let data = xd_data V in
     bindr (ext2_lock data h) (\<lambda>h.
     bindr (load (ex_custom h) data) (\<lambda>C.
     let relativeBlock = ucast (drop_bit (block_shift C) (vn_offset N)) :: u32;
         inBlockOffset = ucast (vn_offset N AND ucast (mask_common C)) :: u32
     in
       bindr (if ucast inBlockOffset + sz > ucast (xc_blockSize C) then
                run_loop (ext2_read_loop code fr C (xd_inodeData V) node buffer
                  (sz, 0, relativeBlock, inBlockOffset, ucast (xc_blockSize C - inBlockOffset)) h)
              else
                bindr (getBlockFromFileBlockOffset code fr C (xd_inodeData V) (ucast relativeBlock) h) (\<lambda>(readBlock, h).
                if readBlock \<ge> 2 then
                  bindr (read_device_block_offset code C (ucast readBlock) (ucast inBlockOffset) buffer sz h) (\<lambda>(_, h). Inr (sz, h))
                else Inr (-1, h))) (\<lambda>(readSize, h).
       bindr (ext2_unlock data h) (\<lambda>h. Inr (readSize, h)))))))"

text \<open>The new offset of a seek; \<^verbatim>\<open>length\<close> is unsigned here, \<^verbatim>\<open>offset\<close> is signed.\<close>

definition ext2_target :: "u64 \<Rightarrow> u64 \<Rightarrow> u64 \<Rightarrow> u64 \<Rightarrow> u64 option" where
  "ext2_target len cur offset type =
     (if type = SEEK_SET then if offset \<ge> len then None else Some offset
      else if type = SEEK_END then if len + offset < 0 \<or> sint offset \<ge> 0 then None else Some (len + offset)
      else if type = SEEK_CUR then if cur + offset \<ge> len \<or> cur + offset < 0 then None else Some (cur + offset)
      else None)"

definition ext2_lseek :: "u64 \<Rightarrow> u64 \<Rightarrow> u64 \<Rightarrow> 'x exts_scheme \<Rightarrow> (u64 \<times> 'x exts_scheme) exec" where
  "ext2_lseek node offset type h =
     bindr (load (vf_nodes h) node) (\<lambda>N.
     bindr (load (ex_devices h) (vn_data N)) (\<lambda>V.
     bindr (ext2_lock (xd_data V) h) (\<lambda>h.
     case ext2_target (ucast (ino_size_lo (xd_inodeData V))) (vn_offset N) offset type of
       None \<Rightarrow> bindr (ext2_unlock (xd_data V) h) (\<lambda>h. Inr (-1, h))
     | Some off \<Rightarrow>
         bindr (set_vnode node (\<lambda>N. N\<lparr>vn_offset := off\<rparr>) h) (\<lambda>h.
         bindr (ext2_unlock (xd_data V) h) (\<lambda>h. Inr (off, h))))))"

definition ext2_readdir :: "u64 \<Rightarrow> u64 \<Rightarrow> 'x exts_scheme \<Rightarrow> (u64 \<times> 'x exts_scheme) exec" where
  "ext2_readdir node_dev dirent h = Inr (-1, h)"

section \<open>Looking a file up\<close>

text \<open>The fields of a directory entry at an address.\<close>

definition de_inode :: "'x exts_scheme \<Rightarrow> u64 \<Rightarrow> u32" where "de_inode h p = read32 (km_mem (lh_k h)) (phys_of p)"
definition de_size :: "'x exts_scheme \<Rightarrow> u64 \<Rightarrow> u16" where "de_size h p = ucast (read_le (km_mem (lh_k h)) (phys_of p + 4) 2)"
definition de_size_lo :: "'x exts_scheme \<Rightarrow> u64 \<Rightarrow> u8" where "de_size_lo h p = km_mem (lh_k h) (phys_of p + 6)"
definition de_entry_name :: "'x exts_scheme \<Rightarrow> u64 \<Rightarrow> u8 list" where
  "de_entry_name h p = takeWhile (\<lambda>c. c \<noteq> 0) (bytes_at (km_mem (lh_k h)) (phys_of p + 8) (unat (de_size_lo h p)))"

text \<open>Where the walk over a directory stands: the entry, what is left of the directory, the offset and the block.\<close>

type_synonym dir_walk = "u64 \<times> u32 \<times> u32 \<times> u32"

definition dir_chunk :: "ext2fs_custom_data_t \<Rightarrow> u32 \<Rightarrow> u64" where
  "dir_chunk C n = ucast (if n > xc_blockSize C then xc_blockSize C else n)"

definition dir_start ::
    "'x exts_scheme vfs_code \<Rightarrow> ext2_frame \<Rightarrow> ext2fs_custom_data_t \<Rightarrow> ext2_inode_data_t \<Rightarrow> 'x exts_scheme \<Rightarrow> (u64 \<times> 'x exts_scheme) exec" where
  "dir_start code fr C inode h =
     bindr (kmalloc (dir_chunk C (ino_size_lo inode)) (lh_k h)) (\<lambda>(tempData, k).
     bindr (getBlockFromFileBlockOffset code fr C inode 0 (h\<lparr>lh_k := k\<rparr>)) (\<lambda>(b, h).
     bindr (read_device_block code C (ucast b) tempData (dir_chunk C (ino_size_lo inode)) h) (\<lambda>(_, h). Inr (tempData, h))))"

definition dir_next ::
    "'x exts_scheme vfs_code \<Rightarrow> ext2_frame \<Rightarrow> ext2fs_custom_data_t \<Rightarrow> ext2_inode_data_t \<Rightarrow> u64 \<Rightarrow> dir_walk \<Rightarrow>
     'x exts_scheme \<Rightarrow> (dir_walk \<times> 'x exts_scheme) exec" where
  "dir_next code fr C inode tempData w h =
     (case w of (entry, dataToRead, offset, current_block) \<Rightarrow>
      let dataToRead = dataToRead - ucast (de_size h entry);
          offset = offset + ucast (de_size h entry)
      in
        if offset \<ge> xc_blockSize C then
          bindr (getBlockFromFileBlockOffset code fr C inode (ucast (current_block + 1)) h) (\<lambda>(b, h).
          bindr (read_device_block code C (ucast b) tempData (dir_chunk C dataToRead) h) (\<lambda>(_, h).
            Inr ((tempData, dataToRead, 0, current_block + 1), h)))
        else Inr ((entry + ucast (de_size h entry), dataToRead, offset, current_block), h))"

text \<open>
  One entry: the inode to return, if any, with what is left of the path when the search goes on below it. A
  component in the middle of the path that matches a plain file has the block of the directory released, and the
  walk goes on in it.
\<close>

definition visit_entry ::
    "'x exts_scheme vfs_code \<Rightarrow> ext2_frame \<Rightarrow> ext2fs_custom_data_t \<Rightarrow> u8 list \<Rightarrow> bool \<Rightarrow> u64 \<Rightarrow> u64 \<Rightarrow> 'x exts_scheme \<Rightarrow>
     (bool \<times> bool \<times> 'x exts_scheme) exec" where
  "visit_entry code fr C subPath pathIsAFile tempData entry h =
     bindr (fetch_inode code fr C (de_inode h entry) h) (\<lambda>(child, h).
     if de_entry_name h entry = subPath then
       bindr (if \<not> pathIsAFile then release tempData h else Inr h) (\<lambda>h.
         Inr (pathIsAFile \<or> ino_type_and_perms child AND EXT2_INODE_DIRECTORY \<noteq> 0, \<not> pathIsAFile, h))
     else Inr (False, False, h))"

partial_function (option) find_loop ::
    "'x exts_scheme vfs_code \<Rightarrow> ext2_frame \<Rightarrow> ext2fs_custom_data_t \<Rightarrow> ext2_inode_data_t \<Rightarrow> u8 list \<Rightarrow> bool \<Rightarrow> u64 \<Rightarrow>
     dir_walk \<times> bool \<Rightarrow> 'x exts_scheme \<Rightarrow> (u32 \<times> bool \<times> 'x exts_scheme) exec option" where
  "find_loop code fr C inode subPath pathIsAFile tempData w h =
     (if sint (fst (snd (fst w))) \<le> 0 then
        (case release tempData h of Inl e \<Rightarrow> Some (Inl e) | Inr h \<Rightarrow> Some (Inr (0, snd w, h)))
      else if tempData = 0 then Some (Inl NullDeref)
      else case visit_entry code fr C subPath pathIsAFile tempData (fst (fst w)) h of Inl e \<Rightarrow> Some (Inl e) | Inr r \<Rightarrow>
        (case r of (found, onward, h) \<Rightarrow>
         if found then Some (Inr (de_inode h (fst (fst w)), onward, h))
         else (case dir_next code fr C inode tempData (fst w) h of Inl e \<Rightarrow> Some (Inl e) | Inr q \<Rightarrow>
           find_loop code fr C inode subPath pathIsAFile tempData (fst q, snd w \<or> onward) (snd q))))"

text \<open>The result is the inode, the rest of the path, and whether to go on with it.\<close>

definition find_file_inode_recursive ::
    "'x exts_scheme vfs_code \<Rightarrow> ext2_frame \<Rightarrow> ext2fs_custom_data_t \<Rightarrow> u32 \<Rightarrow> u8 list \<Rightarrow> 'x exts_scheme \<Rightarrow>
     (u32 \<times> u8 list \<times> bool \<times> 'x exts_scheme) exec" where
  "find_file_inode_recursive code fr C inode path h =
     (let subPath = takeWhile (\<lambda>c. c \<noteq> 0x2F) path;
          pathIsAFile = (subPath = path);
          rest = (\<lambda>onward. if onward then drop (length subPath + 1) path else path)
      in
        if subPath = [0x2E] then Inr (inode, rest (\<not> pathIsAFile), \<not> pathIsAFile, h)
        else
          bindr (fetch_inode code fr C inode h) (\<lambda>(inodeData, h).
          if ino_type_and_perms inodeData AND EXT2_INODE_DIRECTORY = 0 then Inr (0, path, False, h)
          else
            bindr (dir_start code fr C inodeData h) (\<lambda>(tempData, h).
            bindr (run_loop (find_loop code fr C inodeData subPath pathIsAFile tempData
                     ((tempData, ino_size_lo inodeData, 0, 0), False) h)) (\<lambda>(i, onward, h).
              Inr (i, rest onward, onward, h)))))"

partial_function (option) finddir_walk ::
    "'x exts_scheme vfs_code \<Rightarrow> ext2_frame \<Rightarrow> ext2fs_custom_data_t \<Rightarrow> u32 \<Rightarrow> u8 list \<Rightarrow> 'x exts_scheme \<Rightarrow> (u32 \<times> 'x exts_scheme) exec option" where
  "finddir_walk code fr C inode path h =
     (case find_file_inode_recursive code fr C inode path h of Inl e \<Rightarrow> Some (Inl e) | Inr r \<Rightarrow>
      (case r of (i, path, onward, h) \<Rightarrow>
       if i = 0 \<or> \<not> onward then Some (Inr (i, h)) else finddir_walk code fr C i path h))"

definition ext2_finddir ::
    "'x exts_scheme vfs_code \<Rightarrow> ext2_frame \<Rightarrow> u64 \<Rightarrow> u8 list \<Rightarrow> u8 list option \<Rightarrow> 'x exts_scheme \<Rightarrow> (u64 \<times> u8 list option \<times> 'x exts_scheme) exec" where
  "ext2_finddir code fr node_dev name last_path h =
     bindr (load (vf_nodes h) node_dev) (\<lambda>N.
     let data = vn_data N in
     bindr (ext2_lock data h) (\<lambda>h.
     let path = (case last_path of None \<Rightarrow> name | Some l \<Rightarrow> if l = [] then name else name @ [0x2F] @ l) in
     if length path \<ge> 1024 then Inl WildAccess
     else
       bindr (load (ex_custom h) data) (\<lambda>C.
       bindr (if path = [] then Inr (EXT2_INODE_ROOT, h) else run_loop (finddir_walk code fr C EXT2_INODE_ROOT path h)) (\<lambda>(inode, h).
       if inode = 0 then bindr (ext2_unlock data h) (\<lambda>h. Inr (0, last_path, h))
       else
         bindr (fetch_inode code fr C inode h) (\<lambda>(inodeData, h).
         bindr (new_vnode zero_node h) (\<lambda>(node, h).
         bindr (kmalloc 144 (lh_k h)) (\<lambda>(device, k).
         if device = 0 then Inl NullDeref
         else
           bindr (set_vnode node (\<lambda>N. N\<lparr>vn_name := path, vn_flags := vn_flags N OR VFS_FILE, vn_data := device,
                    vn_functions := if ino_type_and_perms inodeData AND EXT2_INODE_DIRECTORY \<noteq> 0
                      then no_functions\<lparr>fn_readdir := Ext2_readdir\<rparr>
                      else no_functions\<lparr>fn_read := Ext2_read, fn_lseek := Ext2_lseek\<rparr>\<rparr>)
                  (h\<lparr>lh_k := k, ex_devices := (ex_devices h)(device \<mapsto> \<lparr>xd_data = data, xd_inode = inode, xd_inodeData = inodeData\<rparr>)\<rparr>)) (\<lambda>h.
           bindr (ext2_unlock data h) (\<lambda>h. Inr (node, None, h)))))))))) "

section \<open>Printing the tree\<close>

text \<open>What \<^verbatim>\<open>%*.*s\<close> prints for the name of an entry: at most its length, filled up with blanks on the left.\<close>

definition padded_name :: "'x exts_scheme \<Rightarrow> u64 \<Rightarrow> u8 list" where
  "padded_name h p = replicate (unat (de_size_lo h p) - length (de_entry_name h p)) 0x20 @ de_entry_name h p"

definition say_entry :: "string \<Rightarrow> u64 \<Rightarrow> u64 \<Rightarrow> 'x exts_scheme \<Rightarrow> 'x exts_scheme exec" where
  "say_entry kind parentOffset entry h =
     bindr (say_spaces parentOffset h) (say (padded_name h entry @ str kind @ dec (ucast (de_inode h entry)) @ str '')'' @ [10]))"

text \<open>
  The walk over one directory (\<open>Some\<close>: its inode data, its block and the position) or the start of it (\<open>None\<close>); a
  subdirectory is printed before the walk goes on.
\<close>

partial_function (option) print_directory ::
    "'x exts_scheme vfs_code \<Rightarrow> ext2_frame \<Rightarrow> ext2fs_custom_data_t \<Rightarrow> u32 \<Rightarrow> u32 \<Rightarrow> u64 \<Rightarrow>
     (ext2_inode_data_t \<times> u64 \<times> dir_walk) option \<Rightarrow> 'x exts_scheme \<Rightarrow> 'x exts_scheme exec option" where
  "print_directory code fr C parent_inode inode parentOffset st h =
     (case st of
        None \<Rightarrow>
          (case fetch_inode code fr C inode h of Inl e \<Rightarrow> Some (Inl e) | Inr r \<Rightarrow>
           if ino_type_and_perms (fst r) AND EXT2_INODE_DIRECTORY = 0 then Some (Inr (snd r))
           else (case dir_start code fr C (fst r) (snd r) of Inl e \<Rightarrow> Some (Inl e) | Inr q \<Rightarrow>
             print_directory code fr C parent_inode inode parentOffset
               (Some (fst r, fst q, (fst q, ino_size_lo (fst r), 0, 0))) (snd q)))
      | Some w \<Rightarrow>
          let node = fst w; tempData = fst (snd w); entry = fst (snd (snd w)) in
          if sint (fst (snd (snd (snd w)))) \<le> 0 then Some (release tempData h)
          else if tempData = 0 then Some (Inl NullDeref)
          else
            Option.bind
              (if de_inode h entry = 0 \<or> de_inode h entry = parent_inode \<or> de_inode h entry = inode then Some (Inr h)
               else (case fetch_inode code fr C (de_inode h entry) h of Inl e \<Rightarrow> Some (Inl e) | Inr r \<Rightarrow>
                 if ino_type_and_perms (fst r) AND EXT2_INODE_DIRECTORY \<noteq> 0 then
                   (case say_entry ''(dir inode='' parentOffset entry (snd r) of Inl e \<Rightarrow> Some (Inl e) | Inr h \<Rightarrow>
                    print_directory code fr C inode (de_inode h entry) (parentOffset + ucast (de_size_lo h entry) + 1) None h)
                 else Some (say_entry ''(file inode='' parentOffset entry (snd r))))
              (\<lambda>x. case x of Inl e \<Rightarrow> Some (Inl e) | Inr h \<Rightarrow>
                (case dir_next code fr C node tempData (snd (snd w)) h of Inl e \<Rightarrow> Some (Inl e) | Inr q \<Rightarrow>
                 print_directory code fr C parent_inode inode parentOffset (Some (node, tempData, fst q)) (snd q))))"

definition parse_and_print_directory_recursive ::
    "'x exts_scheme vfs_code \<Rightarrow> ext2_frame \<Rightarrow> ext2fs_custom_data_t \<Rightarrow> u32 \<Rightarrow> u32 \<Rightarrow> u64 \<Rightarrow> 'x exts_scheme \<Rightarrow> 'x exts_scheme exec" where
  "parse_and_print_directory_recursive code fr C parent_inode inode parentOffset h =
     run_loop (print_directory code fr C parent_inode inode parentOffset None h)"

definition ext2_print_tree :: "'x exts_scheme vfs_code \<Rightarrow> ext2_frame \<Rightarrow> u64 \<Rightarrow> u64 \<Rightarrow> 'x exts_scheme \<Rightarrow> 'x exts_scheme exec" where
  "ext2_print_tree code fr node parentOffset h =
     bindr (load (vf_nodes h) node) (\<lambda>N.
     bindr (ext2_lock (vn_data N) h) (\<lambda>h.
     bindr (load (ex_custom h) (vn_data N)) (\<lambda>C.
     bindr (parse_and_print_directory_recursive code fr C EXT2_INODE_ROOT EXT2_INODE_ROOT parentOffset h) (ext2_unlock (vn_data N)))))"

section \<open>Mounting\<close>

text \<open>The superblocks lie in the new object, the first 8 bytes into it, the second 92.\<close>

definition ext2_superblock :: "u64 \<Rightarrow> u64 \<Rightarrow> 'x exts_scheme \<Rightarrow> ext2fs_custom_data_t" where
  "ext2_superblock deviceNode customData h =
     (let m = km_mem (lh_k h); a = phys_of customData + 8 in
      \<lparr>xc_deviceNode = deviceNode, xc_inodes = read32 m a, xc_blocks = read32 m (a + 4), xc_start_block = read32 m (a + 20),
       xc_log2_block_size = read32 m (a + 24), xc_log2_fragment_size = read32 m (a + 28), xc_blocks_per_group = read32 m (a + 32),
       xc_inodes_per_group = read32 m (a + 40), xc_major_version = read32 m (a + 76),
       xc_inode_structure_size = ucast (read_le m (a + 84 + 4) 2), xc_blockSize = 0, xc_fragmentSize = 0, xc_groupCount = 0,
       xc_singlyStartBlockIndex = 0, xc_doublyStartBlockIndex = 0, xc_triplyStartBlockIndex = 0, xc_tempBlockData = 0,
       xc_lock = UNLOCKED\<rparr>)"

definition shift_size :: "u32 \<Rightarrow> u32" where
  "shift_size l = (if sint l < 0 then drop_bit (unat (- l)) 0x400 else push_bit (unat l) 0x400)"

definition group_count :: "u32 \<Rightarrow> u32 \<Rightarrow> u32" where
  "group_count n per = n div per + (if n mod per \<noteq> 0 then 1 else 0)"

definition with_sizes :: "ext2fs_custom_data_t \<Rightarrow> ext2fs_custom_data_t" where
  "with_sizes S =
     (let bs = push_bit (unat (xc_log2_block_size S)) 0x400; per = bs div 4 in
      S\<lparr>xc_blockSize := bs, xc_fragmentSize := shift_size (xc_log2_fragment_size S),
        xc_groupCount := group_count (xc_blocks S) (xc_blocks_per_group S), xc_singlyStartBlockIndex := 12,
        xc_doublyStartBlockIndex := 12 + per, xc_triplyStartBlockIndex := 12 + per + per * per\<rparr>)"

definition abandon :: "'x exts_scheme vfs_code \<Rightarrow> u64 \<Rightarrow> u64 \<Rightarrow> 'x exts_scheme \<Rightarrow> (u64 \<times> 'x exts_scheme) exec" where
  "abandon code customData deviceNode h =
     bindr (release customData h) (\<lambda>h.
     bindr (vfs_close code deviceNode h) (\<lambda>h.
     bindr (release deviceNode h) (\<lambda>h. Inr (-1, h\<lparr>vf_nodes := (vf_nodes h)(deviceNode := None)\<rparr>))))"

definition ext2_mount ::
    "'x exts_scheme vfs_code \<Rightarrow> ext2_frame \<Rightarrow> u64 \<Rightarrow> u8 list \<Rightarrow> u64 \<Rightarrow> u8 list \<Rightarrow> u64 \<Rightarrow> 'x exts_scheme \<Rightarrow> (u64 \<times> 'x exts_scheme) exec" where
  "ext2_mount code fr node device flags path data h =
     bindr (kopen code device (ucast flags) h) (\<lambda>(deviceNode, h).
     if deviceNode = 0 then Inr (-1, h)
     else
       bindr (kmalloc 1096 (lh_k h)) (\<lambda>(customData, k).
       if customData = 0 then Inl NullDeref
       else
         bindr (read_device_offset code deviceNode 0x438 (fr_signature fr) 2 (h\<lparr>lh_k := k\<rparr>)) (\<lambda>(_, h).
         let signature = ucast (read_le (km_mem (lh_k h)) (phys_of (fr_signature fr)) 2) :: u16 in
         if signature \<noteq> EXT2_SIGNATURE then
           bindr (say (str ''[EXT2] Wrong signature 0x'' @ hex (ucast signature) @ [10]) h) (abandon code customData deviceNode)
         else
           bindr (read_device_offset code deviceNode 0x400 (customData + 8) 84 h) (\<lambda>(_, h).
           let h = set_mem (\<lambda>m. write_bytes m (phys_of customData + 92) (replicate 940 0)) h in
           bindr (if xc_major_version (ext2_superblock deviceNode customData h) \<ge> 1 then
                    bindr (read_device_offset code deviceNode 0x454 (customData + 92) 940 h) (\<lambda>(_, h). Inr h)
                  else Inr (set_mem (\<lambda>m. write_le (write_le m (phys_of customData + 92) 4 11) (phys_of customData + 96) 2 128) h)) (\<lambda>h.
           let S = ext2_superblock deviceNode customData h in
           if xc_blocks_per_group S = 0 \<or> xc_inodes_per_group S = 0 then Inl DivideError
           else if group_count (xc_inodes S) (xc_inodes_per_group S) \<noteq> group_count (xc_blocks S) (xc_blocks_per_group S) then
             bindr (say (str ''[EXT2] Group count mismatch'' @ [10]) h) (abandon code customData deviceNode)
           else
             let C = with_sizes S in
             bindr (kmalloc (ucast (xc_blockSize C)) (lh_k h)) (\<lambda>(tempBlockData, k).
             bindr (new_vnode (zero_node\<lparr>vn_name := str ''Ext2'', vn_data := customData, vn_flags := VFS_DIRECTORY,
                 vn_functions := no_functions\<lparr>fn_finddir := Ext2_finddir, fn_print_tree := Ext2_print_tree\<rparr>\<rparr>)
               (h\<lparr>lh_k := k, ex_custom := (ex_custom h)(customData \<mapsto> C\<lparr>xc_tempBlockData := tempBlockData\<rparr>)\<rparr>)) (\<lambda>(ext2Node, h).
             bindr (vfs_mount path ext2Node h) (\<lambda>h. Inr (-1, h)))))))))"

definition ext2_init :: "'x exts_scheme \<Rightarrow> 'x exts_scheme exec" where
  "ext2_init h =
     bindr (new_devnode \<lparr>dn_name = str ''Ext2Dev'', dn_data = 0, dn_flags = VFS_FILESYSTEM, dn_internIndex = 0,
         dn_functions = no_functions\<lparr>fn_mount := Ext2_mount\<rparr>\<rparr> h) (\<lambda>(ext2Node, h).
       devfs_mount (str ''ext2'') ext2Node h)"

text \<open>The file systems are registered after the root of the mount tree and the devices.\<close>

definition vfs_init :: "'x exts_scheme \<Rightarrow> 'x exts_scheme exec" where
  "vfs_init h = bindr (vfs_init_tree h) (\<lambda>h. bindr (devfs_init h) (\<lambda>h. bindr (fat32_init h) ext2_init))"

section \<open>Reads inside one block\<close>

definition ext2_file :: "'x exts_scheme \<Rightarrow> u64 \<Rightarrow> u64 \<Rightarrow> ext2fs_custom_data_t \<Rightarrow> ext2_inode_data_t \<Rightarrow> u64 \<Rightarrow> bool" where
  "ext2_file h node dev C inode off \<longleftrightarrow> (\<exists>N V M. node \<noteq> 0 \<and> dev \<noteq> 0 \<and> node \<noteq> dev \<and> vf_nodes h node = Some N \<and> vn_offset N = off \<and>
     vn_data N \<noteq> 0 \<and> ex_devices h (vn_data N) = Some V \<and> xd_inodeData V = inode \<and> xd_data V \<noteq> 0 \<and>
     ex_custom h (xd_data V) = Some C \<and> xc_lock C \<and> xc_deviceNode C = dev \<and> vf_nodes h dev = Some M \<and> is_disk M)"

text \<open>The block size of a volume, a power of two from 1 KiB on.\<close>

definition bsize :: "ext2fs_custom_data_t \<Rightarrow> nat" where
  "bsize C = 2 ^ (10 + unat (xc_log2_block_size C))"

definition geometry_ok :: "ext2fs_custom_data_t \<Rightarrow> bool" where
  "geometry_ok C \<longleftrightarrow> unat (xc_log2_block_size C) \<le> 20 \<and> unat (xc_blockSize C) = bsize C \<and> xc_singlyStartBlockIndex C = 12"

lemma with_sizes_geometry:
  assumes "unat (xc_log2_block_size C) \<le> 20"
  shows "geometry_ok (with_sizes C)"
proof -
  let ?l = "unat (xc_log2_block_size C)"
  have "(2 :: nat) ^ (10 + ?l) \<le> 2 ^ 30"
    using assms by (intro power_increasing) simp_all
  then have "1024 * (2 :: nat) ^ ?l < 4294967296"
    by (simp add: power_add)
  moreover have "push_bit ?l (0x400 :: u32) = of_nat (1024 * 2 ^ ?l)"
    by (simp add: push_bit_eq_mult)
  ultimately have "unat (push_bit ?l (0x400 :: u32)) = 1024 * 2 ^ ?l"
    by (simp add: unsigned_of_nat take_bit_nat_eq_self del: of_nat_mult of_nat_power)
  then show ?thesis
    using assms by (simp add: geometry_ok_def with_sizes_def Let_def bsize_def power_add)
qed

lemma shifts:
  assumes "unat (xc_log2_block_size C) \<le> 20"
  shows "block_shift C = 10 + unat (xc_log2_block_size C)" "unat (8 + xc_log2_block_size C) = 8 + unat (xc_log2_block_size C)"
  using assms by (simp_all add: block_shift_def unat_word_ariths)

lemma in_block_offset:
  fixes off :: u64
  assumes "unat (xc_log2_block_size C) \<le> 20"
  shows "unat (ucast (off AND ucast (mask_common C)) :: u32) = unat off mod (bsize C div 4)"
proof -
  let ?n = "8 + unat (xc_log2_block_size C)"
  have "(0xFFFFFFFF :: u32) = - 1"
    by simp
  then have "mask_common C = mask ?n"
    unfolding mask_common_def shifts [OF assms] by (simp only: push_bit_minus_one_eq_not_mask bit.double_compl)
  moreover have "(ucast (mask ?n :: u32) :: u64) = mask ?n"
    using assms by (intro bit_word_eqI) (auto simp: bit_unsigned_iff bit_mask_iff)
  ultimately have "off AND ucast (mask_common C) = take_bit ?n off"
    by (simp add: take_bit_eq_mask)
  moreover have "unat (ucast (take_bit ?n off) :: u32) = take_bit ?n (unat off)"
    using assms by (simp add: unsigned_ucast_eq unsigned_take_bit_eq take_bit_take_bit min_def)
  moreover have "bsize C div 4 = 2 ^ ?n"
    by (simp add: bsize_def power_add)
  ultimately show ?thesis
    by (simp add: take_bit_eq_mod)
qed

lemma block_index:
  fixes off :: u64
  assumes "unat (xc_log2_block_size C) \<le> 20"
  shows "unat (drop_bit (block_shift C) off) = unat off div bsize C"
proof -
  have "unat (drop_bit (block_shift C) off) = drop_bit (block_shift C) (unat off)"
    by (simp only: unsigned_drop_bit_eq) (simp add: take_bit_nat_eq_self)
  then show ?thesis
    by (simp add: shifts [OF assms] bsize_def drop_bit_eq_div)
qed

lemma unat_up: "unat (ucast (v :: u32) :: u64) = unat v"
  using unat_u32_less [of v] by (simp add: unsigned_ucast_eq take_bit_nat_eq_self)

lemma ucast_small:
  assumes "unat (w :: u64) < 4294967296"
  shows "unat (ucast (ucast w :: u32) :: u64) = unat w"
proof -
  have "unat (ucast w :: u32) = unat w"
    using assms by (simp add: unsigned_ucast_eq take_bit_nat_eq_self)
  then show ?thesis
    by (simp only: unat_up)
qed

lemma direct_block:
  assumes "geometry_ok C" "unat w < 12"
  shows "getBlockFromFileBlockOffset code fr C inode w h = Inr (ino_direct_block_pointers inode ! unat w, h)"
proof -
  have "w < ucast (xc_singlyStartBlockIndex C)"
    using assms by (simp add: geometry_ok_def word_less_nat_alt)
  moreover have "length (ino_direct_block_pointers inode) = 12"
    by (simp add: ino_direct_block_pointers_def)
  ultimately show ?thesis
    using assms(2) by (simp add: getBlockFromFileBlockOffset_def)
qed

lemma ext2_lock_irrelevant [simp]:
  "block_shift (C\<lparr>xc_lock := l\<rparr>) = block_shift C" "mask_common (C\<lparr>xc_lock := l\<rparr>) = mask_common C" "geometry_ok (C\<lparr>xc_lock := l\<rparr>) = geometry_ok C"
  by (simp_all add: block_shift_def mask_common_def geometry_ok_def bsize_def)

lemma block_place:
  assumes "unat (xc_log2_block_size C) \<le> 20" "unat b * bsize C + unat x < 18446744073709551616"
  shows "unat (push_bit (block_shift C) (ucast (b :: u32)) + (ucast (x :: u32) :: u64)) = unat b * bsize C + unat x"
proof -
  have "push_bit (block_shift C) (ucast b) + ucast x = (of_nat (unat b * bsize C + unat x) :: u64)"
    by (simp add: shifts [OF assms(1)] bsize_def push_bit_eq_mult unsigned_ucast_eq)
  then show ?thesis
    using assms(2) by (simp only: unat_of_nat_u64)
qed

text \<open>
  C33. A read that stays inside one of the first twelve blocks of a file returns the requested number of bytes. They
  come from the block that the inode names for the offset, but from the place in it that the offset has modulo a
  quarter of the block size, because the mask for the offset is that of the pointers in a block: they are the bytes
  of the file only in the first quarter of a block. The offset of the node does not move, and the end of the
  file is not respected.
\<close>

theorem ext2_read_one_block:
  assumes disk: "disk_ok code dev disk len" "len < 18446744073709551616" "geometry_ok C"
    and fil: "ext2_file h node dev C inode off" "unat off div bsize C < 12"
    and blk: "b = ino_direct_block_pointers inode ! (unat off div bsize C)" "2 \<le> b" "(unat b + 1) * bsize C \<le> len"
      "unat off mod (bsize C div 4) + unat sz \<le> bsize C"
  shows "\<exists>h'. ext2_read code fr node buffer sz h = Inr (sz, h') \<and> ext2_file h' node dev C inode off \<and>
    km_mem (lh_k h') = write_bytes (km_mem (lh_k h)) (phys_of buffer)
      (map disk [unat b * bsize C + unat off mod (bsize C div 4)..<unat b * bsize C + unat off mod (bsize C div 4) + unat sz])"
proof -
  from fil(1) obtain N V M where nd: "node \<noteq> 0" "dev \<noteq> 0" "node \<noteq> dev" "vf_nodes h node = Some N" "vn_offset N = off"
      "vn_data N \<noteq> 0" "ex_devices h (vn_data N) = Some V" "xd_inodeData V = inode" "xd_data V \<noteq> 0" "ex_custom h (xd_data V) = Some C"
      "xc_lock C" "xc_deviceNode C = dev" "vf_nodes h dev = Some M" "is_disk M"
    unfolding ext2_file_def by blast
  have geo: "unat (xc_log2_block_size C) \<le> 20" "unat (xc_blockSize C) = bsize C" "xc_singlyStartBlockIndex C = 12"
    using disk(3) by (simp_all add: geometry_ok_def)
  let ?data = "xd_data V" and ?C = "C\<lparr>xc_lock := False\<rparr>" and ?x = "ucast (off AND ucast (mask_common C)) :: u32"
  let ?r = "ucast (drop_bit (block_shift C) off) :: u32"
  have x: "unat ?x = unat off mod (bsize C div 4)"
    by (rule in_block_offset [OF geo(1)])
  have le: "bsize C \<le> 1073741824"
  proof -
    have "(2 :: nat) ^ (10 + unat (xc_log2_block_size C)) \<le> 2 ^ 30"
      using geo(1) by (intro power_increasing) simp_all
    then show ?thesis by (simp add: bsize_def)
  qed
  have r: "unat (ucast ?r :: u64) = unat off div bsize C"
    using ucast_small [of "drop_bit (block_shift C) off"] block_index [OF geo(1), of off] fil(2) by simp
  define hl where "hl = h\<lparr>ex_custom := (ex_custom h)(?data \<mapsto> ?C)\<rparr>"
  have lock: "ext2_lock ?data h = Inr hl" "load (ex_custom hl) ?data = Inr ?C"
    using nd(9-11) by (simp_all add: ext2_lock_def set_ext2_def hl_def)
  have get: "getBlockFromFileBlockOffset code fr ?C inode (ucast ?r) hl = Inr (b, hl)"
    using direct_block [of ?C "ucast ?r" code fr inode hl] disk(3) r fil(2) blk(1) by simp
  have ux: "unat (ucast ?x :: u64) = unat ?x" "unat (ucast (xc_blockSize C) :: u64) = bsize C"
    by (simp_all only: unat_up geo(2))
  have "unat (ucast ?x + sz) = unat ?x + unat sz"
    using ux(1) x blk(4) le by (simp add: unat_word_ariths)
  then have short: "\<not> ucast ?x + sz > ucast (xc_blockSize C)"
    using ux(2) x blk(4) by (simp add: word_less_nat_alt)
  let ?pos = "push_bit (block_shift C) (ucast b) + ucast ?x :: u64"
  have "unat b * bsize C + unat ?x + unat sz \<le> len"
    using blk(3,4) x by simp
  then have pos: "unat ?pos = unat b * bsize C + unat ?x" "unat ?pos + unat sz \<le> len"
    using block_place [OF geo(1), of b ?x] disk(2) by simp_all
  let ?M = "M\<lparr>vn_offset := ?pos + sz\<rparr>"
  let ?f = "\<lambda>m. write_bytes m (phys_of buffer) (map disk [unat ?pos..<unat ?pos + unat sz])"
  have rd: "read_device_block_offset code ?C (ucast b) (ucast ?x) buffer sz hl =
      Inr (sz, set_mem ?f (hl\<lparr>vf_nodes := (vf_nodes hl)(dev \<mapsto> ?M)\<rparr>))"
    using read_device_ok [OF disk(1) _ nd(14) pos(2), of hl buffer] nd(12,13)
    by (simp add: read_device_block_offset_def hl_def)
  let ?h = "set_mem ?f (h\<lparr>vf_nodes := (vf_nodes h)(dev \<mapsto> ?M)\<rparr>)"
  have "ext2_read code fr node buffer sz h = bindr (ext2_unlock ?data (set_mem ?f (hl\<lparr>vf_nodes := (vf_nodes hl)(dev \<mapsto> ?M)\<rparr>))) (\<lambda>h. Inr (sz, h))"
    using nd(1,4-8) lock get short rd blk(2) by (simp add: ext2_read_def Let_def)
  also have "\<dots> = Inr (sz, ?h)"
    using nd(9-11) by (simp add: ext2_unlock_def set_ext2_def hl_def set_mem_def fun_upd_idem)
  finally have "ext2_read code fr node buffer sz h = Inr (sz, ?h)" .
  moreover have "ext2_file ?h node dev C inode off"
    unfolding ext2_file_def using nd
    by (intro exI [of _ N] exI [of _ V] exI [of _ ?M]) (simp add: set_mem_def is_disk_def)
  ultimately show ?thesis
    using pos(1) x by (intro exI [of _ ?h]) simp
qed

text \<open>A volume of 1 KiB blocks and a file whose first block is 5, at offset 300.\<close>

definition sample_volume :: ext2fs_custom_data_t where
  "sample_volume = with_sizes \<lparr>xc_deviceNode = 0xA000, xc_inodes = 16, xc_blocks = 64, xc_start_block = 1, xc_log2_block_size = 0,
     xc_log2_fragment_size = 0, xc_blocks_per_group = 64, xc_inodes_per_group = 16, xc_major_version = 1, xc_inode_structure_size = 128,
     xc_blockSize = 0, xc_fragmentSize = 0, xc_groupCount = 0, xc_singlyStartBlockIndex = 0, xc_doublyStartBlockIndex = 0,
     xc_triplyStartBlockIndex = 0, xc_tempBlockData = 0, xc_lock = True\<rparr>"

definition sample_inode :: ext2_inode_data_t where
  "sample_inode = (replicate 128 0)[40 := 5]"

definition sample_frame :: ext2_frame where
  "sample_frame = \<lparr>fr_group = block_addr 9, fr_result = block_addr 10, fr_singly = block_addr 11, fr_doubly = block_addr 12,
     fr_inode = block_addr 13, fr_signature = block_addr 14\<rparr>"

definition small_ext :: exts where
  "small_ext = fats.extend ((small_fat small_heap)\<lparr>vf_nodes := (vf_nodes small_part)(0xB000 \<mapsto> zero_node\<lparr>vn_data := 0xD000, vn_offset := 300\<rparr>)\<rparr>)
     \<lparr>ex_custom = [0xE000 \<mapsto> sample_volume],
      ex_devices = [0xD000 \<mapsto> \<lparr>xd_data = 0xE000, xd_inode = 12, xd_inodeData = sample_inode\<rparr>]\<rparr>"

lemma small_ext_file: "ext2_file small_ext 0xB000 0xA000 sample_volume sample_inode 300"
  by (simp add: ext2_file_def small_ext_def small_part_def fats.defs pipes.defs sample_volume_def with_sizes_def Let_def is_disk_def)

theorem ext2_read_one_block_witness:
  "\<exists>h'. ext2_read (ram_disk of_nat) sample_frame 0xB000 (block_addr 7) 100 small_ext = Inr (100, h') \<and>
     bytes_at (km_mem (lh_k h')) (8 * 4096) 100 = map of_nat [5164..<5264]"
proof -
  have geo: "geometry_ok sample_volume"
    unfolding sample_volume_def by (rule with_sizes_geometry) simp
  have bs: "bsize sample_volume = 1024"
    by (simp add: bsize_def sample_volume_def with_sizes_def Let_def)
  have b: "ino_direct_block_pointers sample_inode ! 0 = 5"
    by code_simp
  have "\<exists>h'. ext2_read (ram_disk of_nat) sample_frame 0xB000 (block_addr 7) 100 small_ext = Inr (100, h') \<and>
      km_mem (lh_k h') = write_bytes (km_mem (lh_k small_ext)) (phys_of (block_addr 7)) (map of_nat [5164..<5264])"
    using ext2_read_one_block [OF ram_disk_ok _ geo small_ext_file, of 8192 5 100 of_nat sample_frame "block_addr 7"] bs b
    by (auto simp del: upt_rec_numeral)
  then obtain h' where r: "ext2_read (ram_disk of_nat) sample_frame 0xB000 (block_addr 7) 100 small_ext = Inr (100, h')"
      "km_mem (lh_k h') = write_bytes (km_mem (lh_k small_ext)) (8 * 4096) (map of_nat [5164..<5264])"
    by (auto simp: phys_of_block simp del: upt_rec_numeral)
  have "bytes_at (km_mem (lh_k h')) (8 * 4096) (length (map of_nat [5164..<5264] :: u8 list)) = map of_nat [5164..<5264]"
    unfolding r(2) by (rule bytes_at_write_bytes)
  with r(1) show ?thesis
    by (simp del: upt_rec_numeral)
qed

end
