(* ===== verification/PipeRead.thy ===== *)
theory PipeRead
  imports Pipe
begin

text \<open>
  The reading side of a pipe as a queue of bytes: a read that need not wait takes the oldest bytes out of the pipe.
\<close>

section \<open>Moving the bytes\<close>

text \<open>
  The two copies of \<^verbatim>\<open>pipe_read\<close>: the first bytes of the block go to a buffer in some other block, the rest moves to
  the front. What the block holds afterwards starts with the rest.
\<close>

lemma buf_take:
  assumes inv: "heap_inv k (insert b B)" "b \<notin> B" "length q \<le> block_size k (fst b)"
    and q: "bytes_at (km_mem k) ((fst b + 1) * 4096) (length q) = q" "n \<le> length q" "0 < n"
    and dst: "c \<in> B" "{d ..< d + n} \<subseteq> block_data c"
  defines "a \<equiv> (fst b + 1) * 4096"
  defines "m \<equiv> memmove (memcpy (km_mem k) d a n) a (a + n) (length q - n)"
  shows "heap_inv (k\<lparr>km_mem := m\<rparr>) (insert b B)" "block_size (k\<lparr>km_mem := m\<rparr>) (fst b) = block_size k (fst b)"
    "bytes_at m a (length q - n) = drop n q" "bytes_at m d n = take n q"
    "\<forall>e\<in>B. \<forall>x\<in>block_bytes e. x \<notin> {d ..< d + n} \<longrightarrow> m x = km_mem k x"
proof -
  have fit: "{a ..< a + length q} \<subseteq> block_data b"
    unfolding a_def by (rule block_data_fits [OF inv(1) insertI1 inv(3)])
  have sep: "block_data b \<inter> block_data c = {}"
    using heap_inv_apart [OF inv(1), of b c] dst(1) inv(2) by (fastforce simp: block_data_def block_bytes_def)
  have "a \<le> a + n - 1" "a + n - 1 < a + length q" "a < a + length q"
    using q(2,3) by linarith+
  then have "d \<in> block_data c" "d + n - 1 \<in> block_data c" "a \<in> block_data b" "a + n - 1 \<in> block_data b"
    using subsetD [OF dst(2)] subsetD [OF fit] q(3) by simp_all
  then have apart: "d + n \<le> a \<or> a + n \<le> d"
    using sep q(3) by (auto simp: block_data_def disjoint_iff)
  let ?m1 = "blit (km_mem k) d a n"
  have m1: "memcpy (km_mem k) d a n = ?m1"
    using apart by (intro memcpy_eq) linarith
  have m: "m = blit ?m1 a (a + n) (length q - n)"
    unfolding m_def m1 by (rule memmove_blit)
  have out1: "\<forall>x. x \<notin> block_data c \<longrightarrow> ?m1 x = km_mem k x"
    using dst(2) by (auto simp: blit_def subset_iff)
  note st1 = heap_inv_store [OF inv(1) insertI2 [OF dst(1)] out1]
  have out2: "\<forall>x. x \<notin> block_data b \<longrightarrow> m x = km_mem (k\<lparr>km_mem := ?m1\<rparr>) x"
  proof (intro allI impI)
    fix x
    assume "x \<notin> block_data b"
    then have "x \<notin> {a ..< a + length q}"
      using fit by blast
    then show "m x = km_mem (k\<lparr>km_mem := ?m1\<rparr>) x"
      by (auto simp: m blit_def)
  qed
  note st2 = heap_inv_store [OF st1(1) insertI1 out2]
  show "heap_inv (k\<lparr>km_mem := m\<rparr>) (insert b B)" "block_size (k\<lparr>km_mem := m\<rparr>) (fst b) = block_size k (fst b)"
    using st2(1) st2(2) [OF insertI1] st1(2) [OF insertI1] by simp_all
  have same: "?m1 x = km_mem k x" if "x \<in> block_data b" for x
    using out1 that sep by blast
  have "bytes_at ?m1 a (length q) = bytes_at (km_mem k) a (length q)"
    using same fit by (intro bytes_at_cong) (auto simp: subset_iff)
  then have q1: "bytes_at ?m1 a (length q) = q"
    using q(1) by (simp only: a_def)
  have "bytes_at m a (length q - n) = bytes_at ?m1 (a + n) (length q - n)"
    unfolding m by (rule bytes_at_blit_dest)
  also have "\<dots> = drop n q"
    using q1 bytes_at_add [of ?m1 a n "length q - n"] q(2) by (metis append_eq_conv_conj le_add_diff_inverse length_bytes_at)
  finally show "bytes_at m a (length q - n) = drop n q" .
  have "bytes_at m d n = bytes_at ?m1 d n"
  proof (rule bytes_at_cong)
    fix x
    assume "d \<le> x" "x < d + n"
    then have "x \<in> block_data c"
      using subsetD [OF dst(2)] by simp
    then have "x \<notin> block_data b"
      using sep by blast
    then show "m x = ?m1 x"
      using out2 by simp
  qed
  also have "\<dots> = bytes_at (km_mem k) a n"
    by (rule bytes_at_blit_dest)
  also have "\<dots> = take n q"
    using bytes_at_take [OF q(2)] q(1) by (metis a_def)
  finally show "bytes_at m d n = take n q" .
  show "\<forall>e\<in>B. \<forall>x\<in>block_bytes e. x \<notin> {d ..< d + n} \<longrightarrow> m x = km_mem k x"
  proof (intro ballI impI)
    fix e x
    assume e: "e \<in> B" "x \<in> block_bytes e" and x: "x \<notin> {d ..< d + n}"
    have "e \<noteq> b"
      using e(1) inv(2) by blast
    then have "m x = ?m1 x"
      using st2(3) e by simp
    also have "\<dots> = km_mem k x"
      using x unfolding blit_def by (intro if_not_P) simp
    finally show "m x = km_mem k x" .
  qed
qed

text \<open>Giving memory back: the block of the pipe after the resize of \<^verbatim>\<open>pipe_read\<close>.\<close>

lemma shrink_ok:
  assumes inv: "heap_inv k (insert b B)" "b \<notin> B" "block_size k (fst b) = ROUND_UP l 32768"
    and rest: "bytes_at (km_mem k) ((fst b + 1) * 4096) (length r) = r" "length r < l" "l \<le> 17592186044416"
  defines "small \<equiv> ROUND_UP (length r) 32768 < ROUND_UP l 32768"
  obtains (oom) k' where "small" "r \<noteq> []" "krealloc (block_addr (fst b)) (ROUND_UP64 (of_nat (length r)) 32768) k = Inr (0, k')"
  | (shrunk) blk k' where "(if small then krealloc (block_addr (fst b)) (ROUND_UP64 (of_nat (length r)) 32768) k
        else Inr (block_addr (fst b), k)) = Inr (buf_ptr blk, k')"
      "pipe_buf k' B blk r" "\<forall>c\<in>B. \<forall>x\<in>block_bytes c. km_mem k' x = km_mem k x"
proof (cases small)
  case False
  then have eq: "ROUND_UP (length r) 32768 = ROUND_UP l 32768"
    using ROUND_UP_mono [of "length r" l 32768] rest(2) by (simp add: small_def)
  then have "r \<noteq> []"
    using ROUND_UP_eq_0_iff [of 32768 l] rest(2) by auto
  then show ?thesis
    using shrunk [of "Some b" k] False inv rest(1) eq by (simp add: pipe_buf_def buf_ptr_def)
next
  case True
  let ?sz = "ROUND_UP64 (of_nat (length r)) 32768 :: u64"
  have nz: "block_addr (fst b) \<noteq> 0"
    using kheap.ptr_nonnull [OF inv(1) insertI1] .
  show ?thesis
  proof (cases "r = []")
    case True
    have "insert b B - {b} = B"
      using inv(2) by blast
    moreover obtain i n where b: "b = (i, n)"
      by (cases b)
    ultimately obtain k' where k': "kfree (block_addr (fst b)) k = Inr k'" "heap_inv k' B" "km_mem k' = km_mem k"
      using kfree_ok [OF inv(1), of i n] by auto
    then have "krealloc (block_addr (fst b)) ?sz k = Inr (buf_ptr None, k')"
      using nz True by (simp add: krealloc_def ROUND_UP64_def buf_ptr_def)
    then show ?thesis
      using shrunk [of None k'] k' True \<open>small\<close> by (simp add: pipe_buf_def)
  next
    case False
    let ?q = "bytes_at (km_mem k) ((fst b + 1) * 4096) l"
    have "pipe_buf k B (Some b) ?q"
      using inv rest(2) by (auto simp: pipe_buf_def)
    moreover have "unat (of_nat (length r) :: u64) = length r"
      using rest(2,3) by (intro unat_of_nat_u64) simp
    then have sz: "unat ?sz = ROUND_UP (length r) 32768" "unat ?sz \<le> 35184372088832"
      using ROUND_UP64_step [of "of_nat (length r)"] rest(2,3) by (simp_all only:)
    have ge: "length r \<le> unat ?sz"
      unfolding sz(1) by (rule ROUND_UP_ge) simp
    then have "?sz \<noteq> 0"
      using False by auto
    ultimately obtain p k' where r: "krealloc (buf_ptr (Some b)) ?sz k = Inr (p, k')" "p \<noteq> 0 \<longrightarrow>
        (\<exists>b. p = block_addr (fst b) \<and> b \<notin> B \<and> heap_inv k' (insert b B) \<and> block_size k' (fst b) = unat ?sz \<and>
         (\<forall>n. n \<le> length ?q \<longrightarrow> n \<le> unat ?sz \<longrightarrow> bytes_at (km_mem k') ((fst b + 1) * 4096) n = take n ?q) \<and>
         (\<forall>c\<in>B. \<forall>x\<in>block_bytes c. km_mem k' x = km_mem k x))"
      using krealloc_buf [of k B "Some b" ?q ?sz] sz(2) by blast
    show ?thesis
    proof (cases "p = 0")
      case True
      then show ?thesis
        using oom r(1) False \<open>small\<close> by (simp add: buf_ptr_def)
    next
      case False
      then obtain b' where b': "p = block_addr (fst b')" "b' \<notin> B" "heap_inv k' (insert b' B)" "block_size k' (fst b') = unat ?sz"
          "\<forall>n. n \<le> length ?q \<longrightarrow> n \<le> unat ?sz \<longrightarrow> bytes_at (km_mem k') ((fst b' + 1) * 4096) n = take n ?q"
          "\<forall>c\<in>B. \<forall>x\<in>block_bytes c. km_mem k' x = km_mem k x"
        using r(2) by blast
      have "bytes_at (km_mem k') ((fst b' + 1) * 4096) (length r) = r"
        using b'(5) ge rest(1,2) bytes_at_take [of "length r" l "km_mem k" "(fst b + 1) * 4096"] by simp
      then show ?thesis
        using shrunk [of "Some b'" k'] r(1) b' \<open>small\<close> \<open>r \<noteq> []\<close> sz(1) by (simp add: pipe_buf_def buf_ptr_def)
    qed
  qed
qed


section \<open>Reading takes the oldest bytes\<close>

text \<open>When a read does not wait: enough bytes are there, the pipe is non-blocking or the other end is closed.\<close>

definition no_wait :: "'x pipes_scheme \<Rightarrow> u64 \<Rightarrow> u64 \<Rightarrow> bool" where
  "no_wait h node sz \<longleftrightarrow> (case vf_nodes h node of None \<Rightarrow> False | Some N \<Rightarrow>
     (case pp_pipes h (vn_data N) of None \<Rightarrow> False | Some D \<Rightarrow>
        sz \<le> pd_size D \<or> pd_flags D AND O_NONBLOCK \<noteq> 0 \<or> pd_reference_count D = 1))"

lemma read_wait_now:
  assumes "load (pp_pipes h) data = Inr D"
    and "sz \<le> pd_size D \<or> pd_flags D AND O_NONBLOCK \<noteq> 0 \<or> pd_reference_count D = 1"
  shows "read_wait resched cpu l1 l2 data sz h = Some (Inr (Some (min sz (pd_size D)), h))"
  using assms by (subst read_wait.simps) (auto simp: min_def)

lemma event_reset_low:
  assumes "e \<noteq> 0" "ts_events h e = Some c" "unat c < 65536"
  shows "event_reset e h = Inr (h\<lparr>ts_events := (ts_events h)(e \<mapsto> 0)\<rparr>)"
  using assms reset_loop_low [OF assms(3)] by (simp add: event_reset_def)

lemma pipe_take_spec:
  assumes D: "data \<noteq> 0" "pp_pipes h data = Some D" "pd_buffer D = buf_ptr blk" "pd_size D = of_nat (length q)"
      "pipe_buf (lh_k h) B blk q" "pd_poll_status D \<noteq> 0" "vf_nodes h (pd_poll_status D) = Some R"
      "pipe_event data \<noteq> 0" "ts_events h (pipe_event data) = Some e" "unat e < 65536"
    and n: "unat sz \<le> length q" "sz \<noteq> 0" "length q \<le> 17592186044416" "buffer \<noteq> 0"
    and dst: "c \<in> B" "{phys_of buffer ..< phys_of buffer + unat sz} \<subseteq> block_data c"
  defines "r \<equiv> drop (unat sz) q"
  obtains (lost) h' k' where "r \<noteq> []" "ROUND_UP (length r) 32768 < ROUND_UP (length q) 32768"
      "kmalloc (ROUND_UP64 (of_nat (length r)) 32768) (lh_k h) = Inr (0, k')"
      "pipe_take data buffer sz h = Inr h'"
      "pp_pipes h' = (pp_pipes h)(data \<mapsto> D\<lparr>pd_buffer := 0, pd_size := of_nat (length r)\<rparr>)"
  | (taken) blk' k' where "pipe_buf k' B blk' r" "bytes_at (km_mem k') (phys_of buffer) (unat sz) = take (unat sz) q"
      "\<forall>e\<in>B. \<forall>x\<in>block_bytes e. x \<notin> {phys_of buffer ..< phys_of buffer + unat sz} \<longrightarrow> km_mem k' x = km_mem (lh_k h) x"
      "pipe_take data buffer sz h = Inr (h\<lparr>ts_events := (ts_events h)(pipe_event data \<mapsto> 0), lh_k := k',
         pp_pipes := (pp_pipes h)(data \<mapsto> D\<lparr>pd_buffer := buf_ptr blk', pd_size := of_nat (length r)\<rparr>),
         vf_nodes := if r = [] then (vf_nodes h)(pd_poll_status D \<mapsto> R\<lparr>vn_status := 0\<rparr>) else vf_nodes h\<rparr>)"
proof -
  let ?n = "unat sz" and ?d = "phys_of buffer"
  have n0: "0 < ?n"
    using n(2) by (simp add: unat_gt_0)
  then have "q \<noteq> []"
    using n(1) by auto
  then obtain b where blk: "blk = Some b"
    using D(5) by (cases blk) (simp_all add: pipe_buf_def)
  have inv: "heap_inv (lh_k h) (insert b B)" "b \<notin> B" "block_size (lh_k h) (fst b) = ROUND_UP (length q) 32768"
      and qb: "bytes_at (km_mem (lh_k h)) ((fst b + 1) * 4096) (length q) = q"
    using D(5) blk by (simp_all add: pipe_buf_def)
  have i: "fst b < 34359738368"
    using heap_inv_bounds(2) [OF inv(1) insertI1] by simp
  have nz: "block_addr (fst b) \<noteq> 0"
    by (rule kheap.ptr_nonnull [OF inv(1) insertI1])
  have "length q \<le> block_size (lh_k h) (fst b)"
    unfolding inv(3) by (rule ROUND_UP_ge) simp
  note tk = buf_take [OF inv(1,2) this qb n(1) n0 dst]
  let ?a = "(fst b + 1) * 4096"
  define m where "m = memmove (memcpy (km_mem (lh_k h)) ?d ?a ?n) ?a (?a + ?n) (length q - ?n)"
  define k where "k = (lh_k h)\<lparr>km_mem := m\<rparr>"
  have lr: "length r = length q - ?n" "length r < length q" "length r \<le> 17592186044416"
    using n0 n(1,3) by (simp_all add: r_def)
  have new: "pd_size D - sz = of_nat (length r)"
    unfolding lr(1) D(4) using n(1) by (simp add: of_nat_diff)
  have ul: "unat (of_nat (length q) :: u64) = length q" "unat (of_nat (length r) :: u64) = length r"
    using n(3) lr(3) by (intro unat_of_nat_u64, simp)+
  have sm: "ROUND_UP64 (of_nat (length r)) PIPE_BUFFER_STEP < ROUND_UP64 (pd_size D) PIPE_BUFFER_STEP \<longleftrightarrow>
      ROUND_UP (length r) 32768 < ROUND_UP (length q) 32768"
    unfolding D(4) using step_less_iff [of "of_nat (length r)" "of_nat (length q)", unfolded ul] n(3) lr(3) by linarith
  have at: "phys_of (block_addr (fst b)) = ?a" "phys_of (block_addr (fst b) + sz) = ?a + ?n"
    using phys_of_block [OF i] phys_of_inside [OF i, of ?n] n(1,3) by simp_all
  have nil: "(of_nat (length r) :: u64) = 0 \<longleftrightarrow> r = []"
    unfolding unat_eq_0 [symmetric] ul(2) by simp
  have eqs: "pd_size D = sz \<longleftrightarrow> r = []"
    unfolding nil [symmetric] new [symmetric] by simp
  let ?h1 = "h\<lparr>ts_events := (ts_events h)(pipe_event data \<mapsto> 0), lh_k := k\<rparr>"
  have run: "pipe_take data buffer sz h =
      bindr (if ROUND_UP (length r) 32768 < ROUND_UP (length q) 32768
         then resize data (ROUND_UP64 (of_nat (length r)) PIPE_BUFFER_STEP) ?h1 else Inr ?h1) (\<lambda>h.
      bindr (set_pipe data (\<lambda>D. D\<lparr>pd_size := of_nat (length r)\<rparr>) h) (\<lambda>h.
      if r = [] then set_vnode (pd_poll_status D) (\<lambda>N. N\<lparr>vn_status := 0\<rparr>) h else Inr h))"
    using D(1-3) n(2,4) nz
    by (simp add: pipe_take_def event_reset_low [OF D(8-10)] Let_def new sm nil eqs checked_def set_mem_def blk buf_ptr_def at ul(2)
        lr(1) [symmetric] m_def k_def split del: if_split cong: if_cong)
  have kb: "heap_inv k (insert b B)" "block_size k (fst b) = ROUND_UP (length q) 32768"
      "bytes_at (km_mem k) ?a (length r) = r" "bytes_at m ?d ?n = take ?n q"
      "\<forall>e\<in>B. \<forall>x\<in>block_bytes e. x \<notin> {?d ..< ?d + ?n} \<longrightarrow> m x = km_mem (lh_k h) x"
    using tk inv(3) by (simp_all add: m_def k_def lr(1)) (simp_all add: r_def)
  show thesis
    using kb(1) inv(2) kb(2,3) lr(2) n(3)
  proof (cases rule: shrink_ok)
    case (oom k')
    have small: "ROUND_UP (length r) 32768 < ROUND_UP (length q) 32768"
      using oom(1) by simp
    let ?h2 = "?h1\<lparr>lh_k := k', pp_pipes := (pp_pipes h)(data \<mapsto> D\<lparr>pd_buffer := 0, pd_size := of_nat (length r)\<rparr>)\<rparr>"
    have "pipe_take data buffer sz h = Inr ?h2"
      unfolding run using small oom(2,3) D(1-3) blk
      by (simp add: resize_def set_pipe_def PIPE_BUFFER_STEP_def buf_ptr_def)
    moreover have "ROUND_UP64 (of_nat (length r)) 32768 \<noteq> (0 :: u64)"
    proof
      assume "ROUND_UP64 (of_nat (length r)) 32768 = (0 :: u64)"
      then have "ROUND_UP (length r) 32768 = 0"
        using ROUND_UP64_step [of "of_nat (length r)"] lr(3) ul(2) by (metis unsigned_0)
      then show False
        using oom(2) ROUND_UP_ge [of 32768 "length r"] by simp
    qed
    then obtain k2 where "kmalloc (ROUND_UP64 (of_nat (length r)) 32768) (lh_k h) = Inr (0, k2)"
      using krealloc_null_kmalloc [OF oom(3) nz] kmalloc_null_mem [where k = "lh_k h" and m = m] by (auto simp: k_def)
    ultimately show thesis
      using lost oom(2) small by simp
  next
    case (shrunk blk' k')
    let ?h2 = "?h1\<lparr>lh_k := k', pp_pipes := (pp_pipes h)(data \<mapsto> D\<lparr>pd_buffer := buf_ptr blk'\<rparr>)\<rparr>"
    let ?small = "ROUND_UP (length r) 32768 < ROUND_UP (length q) 32768"
    have keep: "D\<lparr>pd_buffer := block_addr (fst b)\<rparr> = D"
      using D(3) blk by (simp add: buf_ptr_def)
    have res: "(if ?small then resize data (ROUND_UP64 (of_nat (length r)) PIPE_BUFFER_STEP) ?h1 else Inr ?h1) = Inr ?h2"
    proof (cases ?small)
      case True
      then show ?thesis
        using shrunk(1) D(1-3) blk by (simp add: resize_def set_pipe_def PIPE_BUFFER_STEP_def buf_ptr_def)
    next
      case False
      then have "buf_ptr blk' = block_addr (fst b)" "k' = k"
        using shrunk(1) by simp_all
      moreover have "(pp_pipes h)(data \<mapsto> D) = pp_pipes h"
        using D(2) by (simp add: fun_upd_idem)
      ultimately show ?thesis
        using False by (simp add: keep)
    qed
    have "pipe_take data buffer sz h = Inr (h\<lparr>ts_events := (ts_events h)(pipe_event data \<mapsto> 0), lh_k := k',
         pp_pipes := (pp_pipes h)(data \<mapsto> D\<lparr>pd_buffer := buf_ptr blk', pd_size := of_nat (length r)\<rparr>),
         vf_nodes := if r = [] then (vf_nodes h)(pd_poll_status D \<mapsto> R\<lparr>vn_status := 0\<rparr>) else vf_nodes h\<rparr>)"
      unfolding run res using D(1,6,7) by (simp add: set_pipe_def set_vnode_def)
    moreover have "bytes_at (km_mem k') ?d ?n = bytes_at (km_mem k) ?d ?n"
    proof (rule bytes_at_cong)
      fix x
      assume "?d \<le> x" "x < ?d + ?n"
      then have "x \<in> block_bytes c"
        using subsetD [OF dst(2), of x] by (auto simp: block_data_def block_bytes_def)
      then show "km_mem k' x = km_mem k x"
        using shrunk(3) dst(1) by blast
    qed
    then have "bytes_at (km_mem k') ?d ?n = take ?n q"
      using kb(4) by (simp add: k_def)
    moreover have "\<forall>e\<in>B. \<forall>x\<in>block_bytes e. x \<notin> {?d ..< ?d + ?n} \<longrightarrow> km_mem k' x = km_mem (lh_k h) x"
      using shrunk(3) kb(5) by (simp add: k_def)
    ultimately show thesis
      using taken shrunk(2) by blast
  qed
qed

lemma min_word: "unat (min a b :: u64) = min (unat a) (unat b)"
  by (simp add: min_def word_le_nat_alt)

lemma pipe_read_spec:
  assumes rep: "pipe_rep h node B q" "no_wait h node sz"
    and sz: "q \<noteq> []" "sz \<noteq> 0" "length q \<le> 17592186044416"
    and dst: "buffer \<noteq> 0" "c \<in> B" "{phys_of buffer ..< phys_of buffer + min (unat sz) (length q)} \<subseteq> block_data c"
  defines "n \<equiv> min (unat sz) (length q)"
  shows "(\<exists>k' h' N D. drop n q \<noteq> [] \<and> ROUND_UP (length q - n) 32768 < ROUND_UP (length q) 32768 \<and>
       kmalloc (ROUND_UP64 (of_nat (length q - n)) 32768) (lh_k h) = Inr (0, k') \<and>
       pipe_read resched cpu l1 l2 node buffer sz h = Inr (of_nat n, h') \<and> vf_nodes h node = Some N \<and>
       pp_pipes h' (vn_data N) = Some D \<and> pd_buffer D = 0 \<and> pd_size D = of_nat (length q - n)) \<or>
    (\<exists>h'. pipe_read resched cpu l1 l2 node buffer sz h = Inr (of_nat n, h') \<and> pipe_rep h' node B (drop n q) \<and>
       bytes_at (km_mem (lh_k h')) (phys_of buffer) n = take n q \<and>
       (\<forall>e\<in>B. \<forall>x\<in>block_bytes e. x \<notin> {phys_of buffer ..< phys_of buffer + n} \<longrightarrow>
          km_mem (lh_k h') x = km_mem (lh_k h) x))"
proof -
  from rep(1) obtain N D e blk where nd: "node \<noteq> 0" "vf_nodes h node = Some N" "vn_data N \<noteq> 0"
      "pp_pipes h (vn_data N) = Some D" "pd_lock D" "pd_buffer D = buf_ptr blk" "pd_size D = of_nat (length q)"
      "pipe_buf (lh_k h) B blk q" "pd_poll_status D \<noteq> 0" "pd_poll_status D \<in> dom (vf_nodes h)"
      "pipe_event (vn_data N) \<noteq> 0" "ts_events h (pipe_event (vn_data N)) = Some e" "unat e < 65536"
    unfolding pipe_rep_def by blast
  obtain R where R: "vf_nodes h (pd_poll_status D) = Some R"
    using nd(10) by blast
  have "unat (of_nat (length q) :: u64) = length q"
    using sz(3) by (intro unat_of_nat_u64) simp
  then have un: "unat (min sz (pd_size D)) = n"
    unfolding nd(7) by (simp only: min_word n_def)
  have w: "min sz (pd_size D) = of_nat n" and un': "unat (of_nat n :: u64) = n"
    unfolding un [symmetric] by simp_all
  have n: "0 < n" "n \<le> length q"
    using sz(1,2) by (simp_all add: n_def unat_gt_0)
  then have "(of_nat n :: u64) \<noteq> 0"
    using un' by (metis less_irrefl unat_0)
  let ?data = "vn_data N" and ?Dl = "D\<lparr>pd_lock := False\<rparr>"
  define hl where "hl = h\<lparr>pp_pipes := (pp_pipes h)(?data \<mapsto> ?Dl)\<rparr>"
  have lock: "pipe_lock ?data h = Inr hl" and ld: "load (pp_pipes hl) ?data = Inr ?Dl"
    using nd(3-5) by (simp_all add: pipe_lock_def set_pipe_def hl_def)
  have "sz \<le> pd_size ?Dl \<or> pd_flags ?Dl AND O_NONBLOCK \<noteq> 0 \<or> pd_reference_count ?Dl = 1"
    using rep(2) nd(2,4) by (simp add: no_wait_def)
  from read_wait_now [OF ld this] have run: "pipe_read resched cpu l1 l2 node buffer sz h =
      bindr (pipe_take ?data buffer (of_nat n) hl) (\<lambda>h. bindr (pipe_unlock ?data h) (\<lambda>h. Inr (of_nat n, h)))"
    using nd(1-3) by (simp add: pipe_read_def pipe_of_def lock w)
  have upd: "D\<lparr>pd_lock := False, pd_buffer := x, pd_size := y, pd_lock := True\<rparr> = D\<lparr>pd_buffer := x, pd_size := y\<rparr>" for x y
    using nd(5) by (simp add: pipe_data_t.equality)
  have hl: "pp_pipes hl ?data = Some ?Dl" "pd_buffer ?Dl = buf_ptr blk" "pd_size ?Dl = of_nat (length q)"
      "pipe_buf (lh_k hl) B blk q" "pd_poll_status ?Dl \<noteq> 0" "vf_nodes hl (pd_poll_status ?Dl) = Some R"
      "ts_events hl (pipe_event ?data) = Some e"
    using nd R by (simp_all add: hl_def)
  have args: "unat (of_nat n :: u64) \<le> length q" "{phys_of buffer ..< phys_of buffer + unat (of_nat n :: u64)} \<subseteq> block_data c"
    using n(2) dst(3) unfolding un' by (simp_all add: n_def)
  show ?thesis
    using nd(3) hl(1-6) nd(11) hl(7) nd(13) args(1) \<open>of_nat n \<noteq> 0\<close> sz(3) dst(1,2) args(2)
  proof (cases rule: pipe_take_spec)
    case (lost h' k')
    have "pipe_read resched cpu l1 l2 node buffer sz h = Inr (of_nat n, h'\<lparr>pp_pipes := (pp_pipes h')(?data \<mapsto>
        ?Dl\<lparr>pd_buffer := 0, pd_size := of_nat (length q - n), pd_lock := True\<rparr>)\<rparr>)"
      unfolding run using lost(4,5) nd(3) un' by (simp add: pipe_unlock_def set_pipe_def)
    then show ?thesis
      using lost(1-3) nd(2) un' by (auto simp: hl_def)
  next
    case (taken blk' k')
    let ?D = "D\<lparr>pd_buffer := buf_ptr blk', pd_size := of_nat (length q - n)\<rparr>"
    let ?h = "h\<lparr>ts_events := (ts_events h)(pipe_event ?data \<mapsto> 0), lh_k := k', pp_pipes := (pp_pipes h)(?data \<mapsto> ?D),
         vf_nodes := if drop n q = [] then (vf_nodes h)(pd_poll_status D \<mapsto> R\<lparr>vn_status := 0\<rparr>) else vf_nodes h\<rparr>"
    have "pipe_read resched cpu l1 l2 node buffer sz h = Inr (of_nat n, ?h)"
      unfolding run using taken(4) nd(3) un' upd by (simp add: pipe_unlock_def set_pipe_def hl_def)
    moreover have "pipe_rep ?h node B (drop n q)"
      unfolding pipe_rep_def using nd taken(1) R un'
      by (intro exI [of _ "if drop n q = [] \<and> node = pd_poll_status D then R\<lparr>vn_status := 0\<rparr> else N"] exI [of _ ?D]
          exI [of _ "0 :: u32"] exI [of _ blk']) auto
    ultimately show ?thesis
      using taken(2,3) un' by (simp add: hl_def)
  qed
qed

text \<open>
  C8. Reading takes the oldest bytes out of a pipe. On a pipe that holds \<open>q\<close>, a read of \<open>sz\<close> bytes that need not
  wait (enough bytes are there, or the pipe is non-blocking, or the other end is closed) returns
  \<open>n = min sz |q|\<close>, puts the first \<open>n\<close> bytes of \<open>q\<close> into the buffer, leaves the rest of \<open>q\<close> in the pipe and
  touches no other byte of a live block. There is one other outcome. It needs a rest that fits in a smaller buffer than
  \<open>q\<close> and a heap that, at the time of the call, has no block of that size for \<^verbatim>\<open>kmalloc\<close>: the number \<open>n\<close> is
  returned, but the pipe is left with a null buffer and the size of the rest.
\<close>

theorem pipe_read_takes:
  assumes "pipe_rep h node B q" "no_wait h node sz" "q \<noteq> []" "sz \<noteq> 0" "length q \<le> 17592186044416"
    and "buffer \<noteq> 0" "c \<in> B" "{phys_of buffer ..< phys_of buffer + min (unat sz) (length q)} \<subseteq> block_data c"
    and "n = min (unat sz) (length q)"
  shows "(\<exists>k' h' N D. drop n q \<noteq> [] \<and> ROUND_UP (length q - n) 32768 < ROUND_UP (length q) 32768 \<and>
       kmalloc (ROUND_UP64 (of_nat (length q - n)) 32768) (lh_k h) = Inr (0, k') \<and>
       pipe_read resched cpu l1 l2 node buffer sz h = Inr (of_nat n, h') \<and> vf_nodes h node = Some N \<and>
       pp_pipes h' (vn_data N) = Some D \<and> pd_buffer D = 0 \<and> pd_size D = of_nat (length q - n)) \<or>
    (\<exists>h'. pipe_read resched cpu l1 l2 node buffer sz h = Inr (of_nat n, h') \<and> pipe_rep h' node B (drop n q) \<and>
       bytes_at (km_mem (lh_k h')) (phys_of buffer) n = take n q \<and>
       (\<forall>e\<in>B. \<forall>x\<in>block_bytes e. x \<notin> {phys_of buffer ..< phys_of buffer + n} \<longrightarrow>
          km_mem (lh_k h') x = km_mem (lh_k h) x))"
  using pipe_read_spec [OF assms(1-8)] unfolding assms(9) .

text \<open>
  A pipe that holds the bytes 7 and 9 in the block at page 1, beside a block of 100 bytes at page 10. No page is free.
\<close>

definition two_blocks :: kmem where
  "two_blocks = small_heap\<lparr>km_pmm := (km_pmm small_heap)\<lparr>PmmBitmap := \<lambda>_. True\<rparr>,
     km_mem := write64 (write64 (write64 (write64 ((\<lambda>_. 0)(8192 := 7, 8193 := 9)) 4096 8) 4104 32768) 40960 1) 40968 100\<rparr>"

definition two_byte_pipe :: pipes where
  "two_byte_pipe = (empty_pipe two_blocks)\<lparr>pp_pipes := [0x9000 \<mapsto> \<lparr>pd_buffer = block_addr 1, pd_size = 2, pd_reference_count = 2,
     pd_poll_status = 0x8000, pd_lock = UNLOCKED, pd_flags = 0, pd_readFirstData = False\<rparr>]\<rparr>"

lemma two_blocks_inv: "heap_inv two_blocks {(10, 2), (1, 9)}"
  by (simp add: two_blocks_def small_heap_def heap_inv_def blocks_disjoint_def block_ok_def block_size_def size_pages_def)

lemma two_blocks_buf: "pipe_buf two_blocks {(10, 2)} (Some (1, 9)) [7, 9]"
proof -
  have "km_mem two_blocks 8192 = 7" "km_mem two_blocks 8193 = 9"
    by (simp_all add: two_blocks_def write64_outside)
  moreover have "block_size two_blocks 1 = 32768"
    by (simp add: two_blocks_def block_size_def)
  ultimately show ?thesis
    using two_blocks_inv by (simp add: pipe_buf_def insert_commute ROUND_UP_def bytes_at_def)
qed

lemma two_byte_pipe_rep: "pipe_rep two_byte_pipe 0x8000 {(10, 2)} [7, 9]"
  using two_blocks_buf
  by (simp add: pipe_rep_def two_byte_pipe_def empty_pipe_def vfs.defs pipes.defs trees.defs pipe_event_def buf_ptr_def
    exI [of _ "Some (1, 9)"])

theorem pipe_read_takes_witness:
  "\<exists>h'. pipe_read Inr 0 0 0 0x8000 (block_addr 10) 1 two_byte_pipe = Inr (1, h') \<and> pipe_rep h' 0x8000 {(10, 2)} [9] \<and>
     bytes_at (km_mem (lh_k h')) 45056 1 = [7]"
proof -
  have at: "phys_of (block_addr 10) = 45056" "block_addr 10 \<noteq> 0"
    using phys_of_block [of 10] kheap.ptr_nonnull [OF two_blocks_inv, of "(10, 2)"] by simp_all
  have pre: "no_wait two_byte_pipe 0x8000 1" "[7, 9 :: u8] \<noteq> []" "(1 :: u64) \<noteq> 0" "length [7, 9 :: u8] \<le> 17592186044416"
      "(10, 2) \<in> {(10, 2 :: nat)}" "{phys_of (block_addr 10)..<phys_of (block_addr 10) + min (unat (1 :: u64)) (length [7, 9 :: u8])} \<subseteq> block_data (10, 2)"
      "1 = min (unat (1 :: u64)) (length [7, 9 :: u8])"
    by (simp_all add: no_wait_def two_byte_pipe_def empty_pipe_def vfs.defs pipes.defs trees.defs at block_data_def)
  have "\<not> ROUND_UP (length [7, 9 :: u8] - 1) 32768 < ROUND_UP (length [7, 9 :: u8]) 32768"
    by (simp add: ROUND_UP_def)
  then have "\<exists>h'. pipe_read Inr 0 0 0 0x8000 (block_addr 10) 1 two_byte_pipe = Inr (of_nat 1, h') \<and>
      pipe_rep h' 0x8000 {(10, 2)} (drop 1 [7, 9]) \<and> bytes_at (km_mem (lh_k h')) (phys_of (block_addr 10)) 1 = take 1 [7, 9]"
    using pipe_read_takes [OF two_byte_pipe_rep pre(1-4) at(2) pre(5-7), of Inr 0 0 0] by blast
  then show ?thesis
    unfolding at(1) by simp
qed

end
