(* ===== verification/Modules.thy ===== *)
theory Modules
  imports Ext2 PipeRead
begin

text \<open>
  Programs and kernel modules, \<^verbatim>\<open>kernel/modules/modules.c\<close>: the ELF loader, \<^verbatim>\<open>exec\<close> and \<^verbatim>\<open>execve\<close>, and the loader of
  relocatable kernel modules with its symbol tables. ELF tables are the bytes the code reads into memory; a typed view
  of them is computed where the code looks through a pointer. The local \<^verbatim>\<open>header\<close> is at the address \<open>fr\<close>. What a
  module does when its \<^verbatim>\<open>init\<close> function is called is an argument.
\<close>

section \<open>Data\<close>

record elf64_header_t =
  eh_magic :: u32
  eh_x86_64_flag :: u8
  eh_big_endian_flag :: u8
  eh_instruction_set :: u16
  eh_entry_address :: u64
  eh_program_header_table_address :: u64
  eh_section_header_table_address :: u64
  eh_program_header_entry_size :: u16
  eh_program_header_entry_count :: u16
  eh_section_header_entry_size :: u16
  eh_section_header_entry_count :: u16
  eh_section_names_index :: u16

record elf64_program_header_t =
  ph_type :: u32
  ph_flags :: u32
  ph_file_offset :: u64
  ph_virtual_address :: u64
  ph_file_size :: u64
  ph_memory_size :: u64

record elf64_section_header_t =
  sh_name :: u32
  sh_type :: u32
  sh_flags :: u64
  sh_address :: u64
  sh_file_offset :: u64
  sh_size :: u64
  sh_info :: u32

record elf64_symbol_t =
  sy_name :: u32
  sy_info :: u8
  sy_section_table_index :: u16
  sy_value :: u64

record elf64_rela_t =
  ra_offset :: u64
  ra_info :: u64
  ra_addend :: u64

record mods = exts +
  KernelSymbolsHashmap :: u64

definition read16 :: "bytes \<Rightarrow> nat \<Rightarrow> u16" where
  "read16 m a = ucast (read_le m a 2)"

definition elf_header :: "bytes \<Rightarrow> nat \<Rightarrow> elf64_header_t" where
  "elf_header m a = \<lparr>eh_magic = read32 m a, eh_x86_64_flag = m (a + 4), eh_big_endian_flag = m (a + 5),
     eh_instruction_set = read16 m (a + 18), eh_entry_address = read64 m (a + 24),
     eh_program_header_table_address = read64 m (a + 32), eh_section_header_table_address = read64 m (a + 40),
     eh_program_header_entry_size = read16 m (a + 54), eh_program_header_entry_count = read16 m (a + 56),
     eh_section_header_entry_size = read16 m (a + 58), eh_section_header_entry_count = read16 m (a + 60),
     eh_section_names_index = read16 m (a + 62)\<rparr>"

definition program_header :: "bytes \<Rightarrow> nat \<Rightarrow> elf64_program_header_t" where
  "program_header m a = \<lparr>ph_type = read32 m a, ph_flags = read32 m (a + 4), ph_file_offset = read64 m (a + 8),
     ph_virtual_address = read64 m (a + 16), ph_file_size = read64 m (a + 32), ph_memory_size = read64 m (a + 40)\<rparr>"

definition section_header :: "bytes \<Rightarrow> nat \<Rightarrow> elf64_section_header_t" where
  "section_header m a = \<lparr>sh_name = read32 m a, sh_type = read32 m (a + 4), sh_flags = read64 m (a + 8),
     sh_address = read64 m (a + 16), sh_file_offset = read64 m (a + 24), sh_size = read64 m (a + 32), sh_info = read32 m (a + 44)\<rparr>"

definition symbol_at :: "bytes \<Rightarrow> nat \<Rightarrow> elf64_symbol_t" where
  "symbol_at m a = \<lparr>sy_name = read32 m a, sy_info = m (a + 4), sy_section_table_index = read16 m (a + 6), sy_value = read64 m (a + 8)\<rparr>"

definition rela_at :: "bytes \<Rightarrow> nat \<Rightarrow> elf64_rela_t" where
  "rela_at m a = \<lparr>ra_offset = read64 m a, ra_info = read64 m (a + 8), ra_addend = read64 m (a + 16)\<rparr>"

text \<open>The test of the header that both loaders make.\<close>

definition elf_ok :: "elf64_header_t \<Rightarrow> bool" where
  "elf_ok H \<longleftrightarrow> \<not> (eh_magic H \<noteq> 0x464C457F \<or> eh_x86_64_flag H \<noteq> 2 \<or> eh_big_endian_flag H \<noteq> 1 \<or> eh_instruction_set H \<noteq> 0x3E)"

text \<open>The product of two 16-bit numbers is computed as an \<^verbatim>\<open>int\<close>.\<close>

definition table_size :: "u16 \<Rightarrow> u16 \<Rightarrow> u64" where
  "table_size n sz = scast (ucast n * ucast sz :: u32)"

text \<open>Bytes behind a pointer: only the upper half of the address space is the kernel's.\<close>

definition kernel_ptr :: "u64 \<Rightarrow> bool" where
  "kernel_ptr p \<longleftrightarrow> p AND 0x800000000000 \<noteq> 0"

definition via :: "u64 \<Rightarrow> 'a \<Rightarrow> 'a exec" where
  "via p x = (if p = 0 then Inl NullDeref else if kernel_ptr p then Inr x else Inl WildAccess)"

definition c_string :: "bytes \<Rightarrow> u64 \<Rightarrow> u8 list exec" where
  "c_string m p = bindr (via p ()) (\<lambda>_. case strlen m (phys_of p) of None \<Rightarrow> Inl HaltLoop
     | Some n \<Rightarrow> Inr (bytes_at m (phys_of p) n))"

text \<open>\<^verbatim>\<open>!strcmp(p, lit)\<close> for a literal.\<close>

definition str_is :: "bytes \<Rightarrow> u64 \<Rightarrow> u8 list \<Rightarrow> bool exec" where
  "str_is m p lit = via p (bytes_at m (phys_of p) (length lit + 1) = lit @ [0])"

text \<open>\<^verbatim>\<open>vfs_lseek(node, offset, SEEK_SET); vfs_read(node, buffer, size);\<close> and \<^verbatim>\<open>vfs_close(node); kfree(node);\<close>.\<close>

definition read_at :: "'x vfs_scheme vfs_code \<Rightarrow> u64 \<Rightarrow> u64 \<Rightarrow> u64 \<Rightarrow> u64 \<Rightarrow> 'x vfs_scheme \<Rightarrow> 'x vfs_scheme exec" where
  "read_at code node offset buffer sz h =
     bindr (vfs_lseek code node offset SEEK_SET h) (\<lambda>(_, h).
     bindr (vfs_read code node buffer sz h) (\<lambda>(_, h). Inr h))"

definition node_drop :: "'x vfs_scheme vfs_code \<Rightarrow> u64 \<Rightarrow> 'x vfs_scheme \<Rightarrow> 'x vfs_scheme exec" where
  "node_drop code node h =
     bindr (vfs_close code node h) (\<lambda>h.
     bindr (release node h) (\<lambda>h. Inr (h\<lparr>vf_nodes := (vf_nodes h)(node := None)\<rparr>)))"

definition grab :: "u64 \<Rightarrow> 'x lheap_scheme \<Rightarrow> (u64 \<times> 'x lheap_scheme) exec" where
  "grab sz h = bindr (kmalloc sz (lh_k h)) (\<lambda>(p, k). Inr (p, h\<lparr>lh_k := k\<rparr>))"

section \<open>Loading a program\<close>

text \<open>
  One program header. The flag of the result is false when the page allocator had no pages. An interpreter path is read
  and then mapped like a loadable segment, since there is no \<^verbatim>\<open>continue\<close> behind it; the same holds for the segment of
  the program headers.
\<close>

definition load_segment ::
    "'x vfs_scheme vfs_code \<Rightarrow> u64 \<Rightarrow> u64 \<Rightarrow> u64 \<Rightarrow> bool \<Rightarrow> elf64_program_header_t \<Rightarrow> u64 \<times> u64 \<times> 'x vfs_scheme \<Rightarrow>
     (bool \<times> u64 \<times> u64 \<times> 'x vfs_scheme) exec" where
  "load_segment code node pml4 base want_ld P = (\<lambda>(phd, ldPath, h).
     if ph_type P = 3 \<and> \<not> want_ld \<or> ph_type P \<notin> {1, 3, 6} then Inr (True, phd, ldPath, h)
     else
       bindr (if ph_type P = 3 then
                bindr (grab (ph_file_size P + 1) h) (\<lambda>(ldPath, h).
                if ldPath = 0 then Inl NullDeref
                else bindr (read_at code node (ph_file_offset P) ldPath (ph_file_size P) h) (\<lambda>h.
                  Inr (ldPath, set_mem (\<lambda>m. m(phys_of (ldPath + ph_file_size P) := 0)) h)))
              else Inr (ldPath, h)) (\<lambda>(ldPath, h).
       let phd = (if ph_type P = 6 then base + ph_virtual_address P else phd);
           misalign = ph_virtual_address P AND 0xFFF;
           pageCount = (misalign + ph_memory_size P + 0xFFF) div 4096
       in
         bindr (pmm_alloc (unat pageCount) (lh_k h)) (\<lambda>(address, k).
         if address = 0 then bindr (kfree 0 k) (\<lambda>k. Inr (False, phd, ldPath, h\<lparr>lh_k := k\<rparr>))
         else
           bindr (vmm_map pml4 (base + ph_virtual_address P) address pageCount (if ph_flags P AND 2 \<noteq> 0 then 7 else 5)
                    (h\<lparr>lh_k := k\<rparr>)) (\<lambda>(_, h).
           bindr (read_at code node (ph_file_offset P) (address + MEM_PHYS_OFFSET + misalign) (ph_file_size P) h) (\<lambda>h.
             Inr (True, phd, ldPath, h))))))"

fun load_segments ::
    "'x vfs_scheme vfs_code \<Rightarrow> u64 \<Rightarrow> u64 \<Rightarrow> u64 \<Rightarrow> bool \<Rightarrow> u64 \<Rightarrow> nat \<Rightarrow> nat \<Rightarrow> u64 \<times> u64 \<times> 'x vfs_scheme \<Rightarrow>
     (bool \<times> u64 \<times> u64 \<times> 'x vfs_scheme) exec" where
  "load_segments code node pml4 base want_ld table i 0 s = Inr (True, s)"
| "load_segments code node pml4 base want_ld table i (Suc n) s =
     bindr (via table ()) (\<lambda>_.
     bindr (load_segment code node pml4 base want_ld
              (program_header (km_mem (lh_k (snd (snd s)))) (phys_of table + 56 * i)) s) (\<lambda>(ok, s).
       if ok then load_segments code node pml4 base want_ld table (Suc i) n s else Inr (False, s)))"

definition zero_value :: elf_value_t where
  "zero_value = \<lparr>phdr = 0, phent = 0, phnum = 0, ev_entry = 0\<rparr>"

definition elf_load ::
    "'x vfs_scheme vfs_code \<Rightarrow> u64 \<Rightarrow> u64 \<Rightarrow> u64 \<Rightarrow> u64 \<Rightarrow> bool \<Rightarrow> 'x vfs_scheme \<Rightarrow>
     (bool \<times> elf_value_t \<times> u64 \<times> 'x vfs_scheme) exec" where
  "elf_load code fr node pml4 base want_ld h =
     bindr (read_at code node 0 fr 64 h) (\<lambda>h.
     let H = elf_header (km_mem (lh_k h)) (phys_of fr) in
     if \<not> elf_ok H then Inr (False, zero_value, 0, h)
     else
       let sz = table_size (eh_program_header_entry_count H) (eh_program_header_entry_size H);
           value = zero_value\<lparr>phent := 56, phnum := ucast (eh_program_header_entry_count H)\<rparr>
       in
         bindr (grab sz h) (\<lambda>(program_table, h).
         bindr (read_at code node (eh_program_header_table_address H) program_table sz h) (\<lambda>h.
         bindr (load_segments code node pml4 base want_ld program_table 0 (unat (eh_program_header_entry_count H)) (0, 0, h))
           (\<lambda>(ok, phd, ldPath, h).
         bindr (release program_table h) (\<lambda>h.
           if ok then Inr (True, value\<lparr>phdr := phd, ev_entry := base + eh_entry_address H\<rparr>, if want_ld then ldPath else 0, h)
           else Inr (False, value\<lparr>phdr := phd\<rparr>, 0, h))))))"

section \<open>Starting a program\<close>

text \<open>
  What \<^verbatim>\<open>exec\<close> and \<^verbatim>\<open>execve\<close> do with an opened program: a new address space, the program and, when it names one, its
  linker, and the kernel half of the first process. The results of both calls of \<^verbatim>\<open>elf_load\<close> are ignored.
\<close>

definition load_linker ::
    "'x vfs_scheme vfs_code \<Rightarrow> u64 \<Rightarrow> u64 \<Rightarrow> u64 \<Rightarrow> u64 \<Rightarrow> 'x vfs_scheme \<Rightarrow> (u64 \<times> 'x vfs_scheme) exec" where
  "load_linker code fr pml4 ldPath entry h =
     (if ldPath = 0 then Inr (entry, h)
      else
        bindr (c_string (km_mem (lh_k h)) ldPath) (\<lambda>ld.
        bindr (kopen code ld 0 h) (\<lambda>(programNode, h).
        bindr (say (str ''Linker: '' @ ld @ [10]) h) (\<lambda>h.
        bindr (elf_load code fr programNode pml4 0x40000000 False h) (\<lambda>(_, ld_value, _, h).
        bindr (node_drop code programNode h) (\<lambda>h.
        bindr (release ldPath h) (\<lambda>h. Inr (ev_entry ld_value, h))))))))"

definition copy_kernel_half :: "u64 \<Rightarrow> 'x tasks_scheme \<Rightarrow> 'x tasks_scheme exec" where
  "copy_kernel_half pml4 h =
     bindr (load (vm_pts h) pml4) (\<lambda>N.
     bindr (elem (SchedulerProcesses h) 0) (\<lambda>first_process.
     bindr (load (ts_processes h) first_process) (\<lambda>P0.
     bindr (load (vm_pts h) (page_table P0)) (\<lambda>K.
     for_exec 256 256 (\<lambda>i h. Inr (set_mem (\<lambda>m. pt_set m (pt_entries N + MEM_PHYS_OFFSET) (of_nat i)
       (pt_get m (pt_entries K + MEM_PHYS_OFFSET) (of_nat i))) h)) h))))"

definition load_program ::
    "'x vfs_scheme vfs_code \<Rightarrow> u64 \<Rightarrow> u64 \<Rightarrow> 'x vfs_scheme \<Rightarrow> (u64 \<times> u64 \<times> elf_value_t \<times> 'x vfs_scheme) exec" where
  "load_program code fr programNode h =
     bindr (vmm_setup_pml4 h) (\<lambda>(pml4, h).
     bindr (elf_load code fr programNode pml4 0 True h) (\<lambda>(_, value, ldPath, h).
     bindr (node_drop code programNode h) (\<lambda>h.
     bindr (load_linker code fr pml4 ldPath (ev_entry value) h) (\<lambda>(entry, h).
     bindr (copy_kernel_half pml4 h) (\<lambda>h. Inr (pml4, entry, value, h))))))"

text \<open>An array of strings: its address and, for each element, its address and its characters.\<close>

type_synonym strings = "u64 \<times> (u64 \<times> u8 list) list"

definition call_data :: "u64 \<Rightarrow> strings \<Rightarrow> strings \<Rightarrow> elf_value_t \<Rightarrow> thread_data" where
  "call_data entry argv envp value = ExecData \<lparr>ed_entry = entry, ed_argv = fst argv, ed_args = snd argv,
     ed_envp = fst envp, ed_envs = snd envp, ed_value = value\<rparr>"

definition exec ::
    "'x vfs_scheme vfs_code \<Rightarrow> u64 \<Rightarrow> u64 \<Rightarrow> u8 list \<Rightarrow> strings \<Rightarrow> strings \<Rightarrow> 'x vfs_scheme \<Rightarrow> (bool \<times> 'x vfs_scheme) exec" where
  "exec code fr pid filename argv envp h =
     bindr (elem (SchedulerProcesses h) (unat pid)) (\<lambda>process.
     bindr (load (ts_processes h) process) (\<lambda>P.
     bindr (kopen code filename 0 h) (\<lambda>(programNode, h).
     if programNode = 0 then Inr (False, h)
     else
       bindr (load_program code fr programNode h) (\<lambda>(pml4, entry, value, h).
       bindr (upd_process process (\<lambda>P. P\<lparr>page_table := pml4\<rparr>) h) (\<lambda>h.
       bindr (vmm_free_pml4 (page_table P) h) (\<lambda>h.
       bindr (thread_create pid (call_data entry argv envp value) h) (\<lambda>(tid, h).
       bindr (scheduler_add_task pid tid h) (\<lambda>(_, h). Inr (True, h)))))))))"

text \<open>
  The threads of a process that starts another program: all of them leave the task table, and those after the first
  are released.
\<close>

definition retire_thread :: "u64 \<Rightarrow> nat \<Rightarrow> 'x tasks_scheme \<Rightarrow> 'x tasks_scheme exec" where
  "retire_thread threads tid h =
     bindr (arr_get (ts_arrays h) threads tid) (\<lambda>thread.
     if thread = 0 \<or> thread = -1 then Inr h
     else
       bindr (load (ts_threads h) thread) (\<lambda>T.
       bindr (if taskID T = -1 then Inr (ActiveTasks h) else put (ActiveTasks h) (unat (taskID T)) 0) (\<lambda>tasks.
         upd_thread thread (\<lambda>T. T\<lparr>taskID := -1\<rparr>) (h\<lparr>ActiveTasks := tasks\<rparr>))))"

definition delete_thread :: "u64 \<Rightarrow> nat \<Rightarrow> 'x tasks_scheme \<Rightarrow> 'x tasks_scheme exec" where
  "delete_thread threads tid h =
     bindr (arr_get (ts_arrays h) threads tid) (\<lambda>thread.
     if thread = 0 \<or> thread = -1 then Inr h
     else
       bindr (arr_set (ts_arrays h) threads tid 0) (\<lambda>arrays.
       bindr (load (ts_threads h) thread) (\<lambda>T.
       bindr (kfree (fxstate T) (lh_k h)) (\<lambda>k.
       bindr (if kstack_address T \<noteq> 0 then kfree (kstack_address T) k else Inr k) (\<lambda>k.
       bindr (if memoryStackPhys T \<noteq> 0
              then bindr (pmm_free (memoryStackPhys T) 4 (km_pmm k)) (\<lambda>p. Inr (k\<lparr>km_pmm := p\<rparr>)) else Inr k) (\<lambda>k.
       bindr (kfree thread k) (\<lambda>k.
         Inr (h\<lparr>ts_arrays := arrays, lh_k := k, ts_threads := (ts_threads h)(thread := None)\<rparr>))))))))"

definition execve ::
    "'x vfs_scheme vfs_code \<Rightarrow> ('x vfs_scheme \<Rightarrow> 'x vfs_scheme exec) \<Rightarrow> nat \<Rightarrow> u64 \<Rightarrow> u64 \<Rightarrow> u64 \<times> u8 list \<Rightarrow>
     strings \<Rightarrow> strings \<Rightarrow> 'x vfs_scheme \<Rightarrow> (bool \<times> 'x vfs_scheme) exec" where
  "execve code resched cpu fr pid filename argv envp h =
     bindr (elem (SchedulerProcesses h) (unat pid)) (\<lambda>process.
     bindr (load (ts_processes h) process) (\<lambda>P.
     bindr (spin_acquire_exec (p_lock P)) (\<lambda>b.
     bindr (upd_process process (\<lambda>P. P\<lparr>p_lock := b\<rparr>) h) (\<lambda>h.
     bindr (kopen code (snd filename) 0 h) (\<lambda>(programNode, h).
     if programNode = 0 then bindr (upd_process process (\<lambda>P. P\<lparr>p_lock := UNLOCKED\<rparr>) h) (\<lambda>h. Inr (False, h))
     else
       bindr (load_program code fr programNode h) (\<lambda>(pml4, entry, value, h).
       bindr (for_exec 0 MAX_THREADS (retire_thread (p_threads P)) h) (\<lambda>h.
       bindr (for_exec 1 (MAX_THREADS - 1) (delete_thread (p_threads P)) h) (\<lambda>h.
       bindr (upd_process process (\<lambda>P. P\<lparr>page_table := pml4, current_alloc_address := BASE_ALLOC_ADDRESS\<rparr>) h) (\<lambda>h.
       bindr (release (fst filename) h) (\<lambda>h.
       bindr (upd_process process (\<lambda>P. P\<lparr>p_lock := UNLOCKED\<rparr>) h) (\<lambda>h.
       bindr (thread_recreate pid 0 (call_data entry argv envp value) True h) (\<lambda>(tid, h).
       bindr (scheduler_add_task pid tid h) (\<lambda>(_, h).
       bindr (vmm_free_pml4 (page_table P) h) (\<lambda>h.
       bindr (say (str ''Reached rescheduling'' @ [10]) h) (\<lambda>h.
       bindr (upd_cpu cpu (\<lambda>c. c\<lparr>currentTaskID := -1\<rparr>) h) (\<lambda>h.
       bindr (resched h) (\<lambda>h. Inr (True, h))))))))))))))))))"

section \<open>Kernel modules\<close>

definition section_at :: "u64 \<Rightarrow> nat \<Rightarrow> 'x lheap_scheme \<Rightarrow> elf64_section_header_t exec" where
  "section_at table i h = via table (section_header (km_mem (lh_k h)) (phys_of table + 64 * i))"

text \<open>The first pass over the sections: the string table of the symbols and the header of the symbol table.\<close>

definition find_tables ::
    "'x vfs_scheme vfs_code \<Rightarrow> u64 \<Rightarrow> u64 \<Rightarrow> u64 \<Rightarrow> nat \<Rightarrow> u64 \<times> elf64_section_header_t \<times> 'x vfs_scheme \<Rightarrow>
     (u64 \<times> elf64_section_header_t \<times> 'x vfs_scheme) exec" where
  "find_tables code elfNode section_table shstrtab i = (\<lambda>(symstrtab, symShdr, h).
     bindr (section_at section_table i h) (\<lambda>S.
     bindr (if sh_type S = 3 then str_is (km_mem (lh_k h)) (shstrtab + ucast (sh_name S)) (str ''.strtab'') else Inr False) (\<lambda>b.
     if b then
       bindr (grab (sh_size S) h) (\<lambda>(symstrtab, h).
       bindr (read_at code elfNode (sh_file_offset S) symstrtab (sh_size S) h) (\<lambda>h. Inr (symstrtab, symShdr, h)))
     else Inr (symstrtab, if sh_type S = 2 then S else symShdr, h))))"

partial_function (option) deps_loop :: "u64 \<Rightarrow> u64 \<Rightarrow> u64 \<Rightarrow> 'x vfs_scheme \<Rightarrow> 'x vfs_scheme exec option" where
  "deps_loop deps sz j h =
     (if \<not> j < sz then Some (Inr h)
      else case c_string (km_mem (lh_k h)) (deps + j) of Inl e \<Rightarrow> Some (Inl e) | Inr s \<Rightarrow>
       (case say (str ''Module dependecy: '' @ s @ [10]) h of Inl e \<Rightarrow> Some (Inl e) | Inr h \<Rightarrow>
          deps_loop deps sz (j + of_nat (length s + 1)) h))"

definition print_deps :: "'x vfs_scheme vfs_code \<Rightarrow> u64 \<Rightarrow> u64 \<Rightarrow> u64 \<Rightarrow> nat \<Rightarrow> 'x vfs_scheme \<Rightarrow> 'x vfs_scheme exec" where
  "print_deps code elfNode section_table shstrtab i h =
     bindr (section_at section_table i h) (\<lambda>S.
     bindr (if sh_type S = 1 then str_is (km_mem (lh_k h)) (shstrtab + ucast (sh_name S)) (str ''moddeps'') else Inr False) (\<lambda>b.
     if b then
       bindr (grab (sh_size S) h) (\<lambda>(deps, h).
       bindr (read_at code elfNode (sh_file_offset S) deps (sh_size S) h) (\<lambda>h.
       bindr (run_loop (deps_loop deps (sh_size S) 0 h)) (release deps)))
     else Inr h))"

text \<open>Sections get memory of their own, and the table the address of it.\<close>

definition place_section :: "'x vfs_scheme vfs_code \<Rightarrow> u64 \<Rightarrow> u64 \<Rightarrow> nat \<Rightarrow> 'x vfs_scheme \<Rightarrow> 'x vfs_scheme exec" where
  "place_section code elfNode section_table i h =
     (let set_address = (\<lambda>p h. set_mem (\<lambda>m. write64 m (phys_of section_table + 64 * i + 16) p) h) in
      bindr (section_at section_table i h) (\<lambda>S.
      if sh_type S = 8 then bindr (grab (sh_size S) h) (\<lambda>(p, h). Inr (set_address p h))
      else if sh_type S = 1 \<and> sh_flags S AND 7 \<noteq> 0 then
        bindr (grab (sh_size S) h) (\<lambda>(dataPointer, h).
        bindr (read_at code elfNode (sh_file_offset S) dataPointer (sh_size S) h) (\<lambda>h. Inr (set_address dataPointer h)))
      else Inr h))"

text \<open>Global symbols of the module go to its own table and to that of the kernel.\<close>

definition add_symbol :: "u64 \<Rightarrow> u64 \<Rightarrow> u16 \<Rightarrow> u64 \<Rightarrow> elf64_symbol_t \<Rightarrow> 'x mods_scheme \<Rightarrow> 'x mods_scheme exec" where
  "add_symbol section_table symstrtab shnum local_symbols Y h =
     (if sy_name Y \<noteq> 0 \<and> drop_bit 4 (sy_info Y) = 1 \<and> sy_section_table_index Y \<noteq> 0 \<and> sy_section_table_index Y < shnum then
        bindr (section_at section_table (unat (sy_section_table_index Y)) h) (\<lambda>S.
        bindr (c_string (km_mem (lh_k h)) (symstrtab + ucast (sy_name Y))) (\<lambda>name.
        let finalAddress = sh_address S + sy_value Y in
        bindr (hashmap_set local_symbols name finalAddress h) (\<lambda>(_, h).
        bindr (hashmap_set (KernelSymbolsHashmap h) name finalAddress h) (\<lambda>(_, h). Inr h))))
      else Inr h)"

partial_function (option) symbols_loop ::
    "u64 \<Rightarrow> u64 \<Rightarrow> u16 \<Rightarrow> u64 \<Rightarrow> u64 \<Rightarrow> u64 \<Rightarrow> u64 \<Rightarrow> 'x mods_scheme \<Rightarrow> 'x mods_scheme exec option" where
  "symbols_loop section_table symstrtab shnum local_symbols symbolTable sz off h =
     (if \<not> off < sz then Some (Inr h)
      else case bindr (via symbolTable (symbol_at (km_mem (lh_k h)) (phys_of (symbolTable + off))))
                 (\<lambda>Y. add_symbol section_table symstrtab shnum local_symbols Y h) of
          Inl e \<Rightarrow> Some (Inl e)
        | Inr h \<Rightarrow> symbols_loop section_table symstrtab shnum local_symbols symbolTable sz (off + 24) h)"

text \<open>The address a relocation refers to, and the name for messages.\<close>

definition symbol_address ::
    "u64 \<Rightarrow> u64 \<Rightarrow> u64 \<Rightarrow> u64 \<Rightarrow> elf64_symbol_t \<Rightarrow> 'x mods_scheme \<Rightarrow> (u64 \<times> u64 \<times> 'x mods_scheme) exec" where
  "symbol_address section_table shstrtab symstrtab local_symbols Y h =
     (if sy_info Y AND 0xF = 3 then
        bindr (section_at section_table (unat (sy_section_table_index Y)) h) (\<lambda>S.
          Inr (shstrtab + ucast (sh_name S), sh_address S, h))
      else
        let name = symstrtab + ucast (sy_name Y) in
        bindr (c_string (km_mem (lh_k h)) name) (\<lambda>key.
        bindr (hashmap_get local_symbols key h) (\<lambda>(a, h).
        if a \<noteq> 0 then Inr (name, a, h)
        else bindr (hashmap_get (KernelSymbolsHashmap h) key h) (\<lambda>(a, h). Inr (name, a, h)))))"

datatype rela_outcome = Stored64 u64 | Stored32 u32 | Mismatch32 | Mismatch32S | Unknown

text \<open>What the switch over the relocation type stores at \<^verbatim>\<open>ptr\<close>.\<close>

definition relocate :: "elf64_rela_t \<Rightarrow> u64 \<Rightarrow> u64 \<Rightarrow> rela_outcome" where
  "relocate R ptr symbolAddress =
     (let type = ra_info R AND 0xFFFFFFFF;
          val = ra_addend R + symbolAddress;
          truncatedValue = (ucast val :: u32)
      in if type = 1 then Stored64 val
      else if type = 2 then Stored32 (ucast (val - ptr))
      else if type = 10 then (if val \<noteq> ucast truncatedValue then Mismatch32 else Stored32 truncatedValue)
      else if type = 11 then (if val \<noteq> scast truncatedValue then Mismatch32S else Stored32 truncatedValue)
      else Unknown)"

definition write32 :: "bytes \<Rightarrow> nat \<Rightarrow> u32 \<Rightarrow> bytes" where
  "write32 m a v = write_le m a 4 (ucast v)"

text \<open>One entry of a relocation section; the flag of the result is false when loading the module fails.\<close>

definition apply_rela :: "u64 \<Rightarrow> elf64_rela_t \<Rightarrow> u64 \<Rightarrow> u64 \<Rightarrow> 'x vfs_scheme \<Rightarrow> (bool \<times> 'x vfs_scheme) exec" where
  "apply_rela name R ptr symbolAddress h =
     (let m = km_mem (lh_k h) in
      case relocate R ptr symbolAddress of
        Stored64 v \<Rightarrow> via ptr (True, set_mem (\<lambda>m. write64 m (phys_of ptr) v) h)
      | Stored32 v \<Rightarrow> via ptr (True, set_mem (\<lambda>m. write32 m (phys_of ptr) v) h)
      | Mismatch32 \<Rightarrow>
          bindr (c_string m name) (\<lambda>s.
          bindr (say (str ''Relocation R_AMD64_32 doesn't match the original value: '' @ s @ str '' '' @
                    hex (ra_addend R + symbolAddress) @ str '' '' @ hex (ucast (ucast (ra_addend R + symbolAddress) :: u32)) @ [10]) h) (\<lambda>h.
            Inr (False, h)))
      | Mismatch32S \<Rightarrow>
          bindr (c_string m name) (\<lambda>s.
          bindr (say (str ''Relocation R_AMD64_32S doesn't match the original value: '' @ s @ [10]) h) (\<lambda>h. Inr (False, h)))
      | Unknown \<Rightarrow> bindr (say (str ''Unknown relocation type 0x'' @ hex (ra_info R AND 0xFFFFFFFF) @ [10]) h) (\<lambda>h. Inr (True, h)))"

definition rela_step ::
    "u64 \<Rightarrow> u64 \<Rightarrow> u64 \<Rightarrow> u64 \<Rightarrow> u64 \<Rightarrow> nat \<Rightarrow> elf64_rela_t \<Rightarrow> 'x mods_scheme \<Rightarrow> (bool \<times> 'x mods_scheme) exec" where
  "rela_step section_table shstrtab symstrtab local_symbols symbolTable i R h =
     bindr (section_at section_table i h) (\<lambda>S.
     bindr (via symbolTable (symbol_at (km_mem (lh_k h)) (phys_of (symbolTable + 24 * drop_bit 32 (ra_info R))))) (\<lambda>Y.
     bindr (section_at section_table (unat (sh_info S)) h) (\<lambda>T.
     bindr (symbol_address section_table shstrtab symstrtab local_symbols Y h) (\<lambda>(name, symbolAddress, h).
     if sy_info Y AND 0xF \<noteq> 3 \<and> symbolAddress = 0 then
       bindr (c_string (km_mem (lh_k h)) name) (\<lambda>s.
       bindr (say (str ''Symbol '' @ s @ str '' not found'' @ [10]) h) (\<lambda>h. Inr (False, h)))
     else apply_rela name R (sh_address T + ra_offset R) symbolAddress h))))"

partial_function (option) rela_loop ::
    "(elf64_rela_t \<Rightarrow> 'x mods_scheme \<Rightarrow> (bool \<times> 'x mods_scheme) exec) \<Rightarrow> u64 \<Rightarrow> nat \<Rightarrow> u64 \<Rightarrow> u64 \<Rightarrow> 'x mods_scheme \<Rightarrow>
     (bool \<times> 'x mods_scheme) exec option" where
  "rela_loop step section_table i symbol_rela off h =
     (case section_at section_table i h of Inl e \<Rightarrow> Some (Inl e) | Inr S \<Rightarrow>
      if \<not> off < sh_size S then Some (Inr (True, h))
      else (case bindr (via symbol_rela (rela_at (km_mem (lh_k h)) (phys_of (symbol_rela + off)))) (\<lambda>R. step R h) of
          Inl e \<Rightarrow> Some (Inl e)
        | Inr r \<Rightarrow> if fst r then rela_loop step section_table i symbol_rela (off + 24) (snd r) else Some (Inr r)))"

text \<open>The buffer for the entries of a relocation section is one entry long, whatever the size of the section.\<close>

definition relocate_section ::
    "'x mods_scheme vfs_code \<Rightarrow> (nat \<Rightarrow> elf64_rela_t \<Rightarrow> 'x mods_scheme \<Rightarrow> (bool \<times> 'x mods_scheme) exec) \<Rightarrow> u64 \<Rightarrow> u64 \<Rightarrow> nat \<Rightarrow>
     'x mods_scheme \<Rightarrow> (bool \<times> 'x mods_scheme) exec" where
  "relocate_section code step elfNode section_table i h =
     bindr (section_at section_table i h) (\<lambda>S.
     if sh_type S \<noteq> 4 then Inr (True, h)
     else
       bindr (grab 24 h) (\<lambda>(symbol_rela, h).
       bindr (read_at code elfNode (sh_file_offset S) symbol_rela (sh_size S) h) (\<lambda>h.
       bindr (run_loop (rela_loop (step i) section_table i symbol_rela 0 h)) (\<lambda>(ok, h).
       bindr (release symbol_rela h) (\<lambda>h. Inr (ok, h))))))"

fun relocate_sections ::
    "(nat \<Rightarrow> 's \<Rightarrow> (bool \<times> 's) exec) \<Rightarrow> nat \<Rightarrow> nat \<Rightarrow> 's \<Rightarrow> (bool \<times> 's) exec" where
  "relocate_sections f i 0 h = Inr (True, h)"
| "relocate_sections f i (Suc n) h = bindr (f i h) (\<lambda>(ok, h). if ok then relocate_sections f (Suc i) n h else Inr (False, h))"

text \<open>The search for the description of the module among its symbols, and the call of its \<^verbatim>\<open>init\<close>.\<close>

partial_function (option) info_loop :: "'x hheap_scheme \<Rightarrow> u64 \<Rightarrow> u8 list option exec option" where
  "info_loop h ch =
     (if ch = 0 then Some (Inr None)
      else case load (lh_nodes h) ch of Inl e \<Rightarrow> Some (Inl e) | Inr N \<Rightarrow>
       (case load (hh_strs h) (n_value N) of Inl e \<Rightarrow> Some (Inl e) | Inr key \<Rightarrow>
        if take 12 key = str ''module_info_'' then Some (Inr (Some key)) else info_loop h (n_next N)))"

definition start_module :: "(u64 \<Rightarrow> 'x mods_scheme \<Rightarrow> 'x mods_scheme exec) \<Rightarrow> u64 \<Rightarrow> 'x mods_scheme \<Rightarrow> (bool \<times> 'x mods_scheme) exec" where
  "start_module init local_symbols h =
     bindr (hashmap_to_list local_symbols h) (\<lambda>(keys, h).
     bindr (load (lh_lists h) keys) (\<lambda>L.
     bindr (run_loop (info_loop h (l_root L))) (\<lambda>key.
     bindr (case key of None \<Rightarrow> Inr (0, h) | Some k \<Rightarrow> hashmap_get local_symbols k h) (\<lambda>(module_info, h).
     bindr (list_destroy keys h) (\<lambda>h.
     bindr (hashmap_delete local_symbols h) (\<lambda>h.
     if module_info \<noteq> 0 then
       bindr (via module_info (read64 (km_mem (lh_k h)) (phys_of module_info + 8))) (\<lambda>f.
       bindr (say (str ''Module base 0x'' @ hex f @ [10]) h) (\<lambda>h.
       bindr (init f h) (\<lambda>h.
       bindr (c_string (km_mem (lh_k h)) (read64 (km_mem (lh_k h)) (phys_of module_info))) (\<lambda>name.
       bindr (say (str ''Module '' @ name @ str '' loaded'' @ [10]) h) (\<lambda>h. Inr (key \<noteq> None, h))))))
     else bindr (say (str ''[Module] Failed to locate module_info_ structure'' @ [10]) h) (\<lambda>h. Inr (key \<noteq> None, h))))))))"

definition zero_section :: elf64_section_header_t where
  "zero_section = \<lparr>sh_name = 0, sh_type = 0, sh_flags = 0, sh_address = 0, sh_file_offset = 0, sh_size = 0, sh_info = 0\<rparr>"

text \<open>The part behind the two string tables: placing, symbols, relocation, start.\<close>

definition link_module ::
    "'x mods_scheme vfs_code \<Rightarrow> (u64 \<Rightarrow> 'x mods_scheme \<Rightarrow> 'x mods_scheme exec) \<Rightarrow> u64 \<Rightarrow> u16 \<Rightarrow> u64 \<Rightarrow> u64 \<Rightarrow> u64 \<Rightarrow>
     elf64_section_header_t \<Rightarrow> 'x mods_scheme \<Rightarrow> (bool \<times> 'x mods_scheme) exec" where
  "link_module code init elfNode shnum section_table shstrtab symstrtab symShdr h =
     bindr (for_exec 1 (unat shnum - 1) (place_section code elfNode section_table) h) (\<lambda>h.
     bindr (grab (sh_size symShdr) h) (\<lambda>(symbolTable, h).
     bindr (read_at code elfNode (sh_file_offset symShdr) symbolTable (sh_size symShdr) h) (\<lambda>h.
     bindr (hashmap_create 20 h) (\<lambda>(local_symbols, h).
     bindr (run_loop (symbols_loop section_table symstrtab shnum local_symbols symbolTable (sh_size symShdr) 0 h)) (\<lambda>h.
     bindr (relocate_sections (relocate_section code
              (\<lambda>i. rela_step section_table shstrtab symstrtab local_symbols symbolTable i) elfNode section_table)
              1 (unat shnum - 1) h) (\<lambda>(ok, h).
     bindr (if ok then start_module init local_symbols h else Inr (False, h)) (\<lambda>(ok, h).
     bindr (release symbolTable h) (\<lambda>h. Inr (ok, h)))))))))"

definition module_load_node ::
    "'x mods_scheme vfs_code \<Rightarrow> (u64 \<Rightarrow> 'x mods_scheme \<Rightarrow> 'x mods_scheme exec) \<Rightarrow> u64 \<Rightarrow> u64 \<Rightarrow> 'x mods_scheme \<Rightarrow> (bool \<times> 'x mods_scheme) exec" where
  "module_load_node code init fr elfNode h =
     bindr (read_at code elfNode 0 fr 64 h) (\<lambda>h.
     let H = elf_header (km_mem (lh_k h)) (phys_of fr) in
     if \<not> elf_ok H then
       bindr (node_drop code elfNode h) (\<lambda>h. bindr (say (str ''asa2'' @ [10]) h) (\<lambda>h. Inr (False, h)))
     else
       let shnum = eh_section_header_entry_count H; sz = table_size shnum (eh_section_header_entry_size H) in
       bindr (grab sz h) (\<lambda>(section_table, h).
       bindr (read_at code elfNode (eh_section_header_table_address H) section_table sz h) (\<lambda>h.
       bindr (section_at section_table (unat (eh_section_names_index H)) h) (\<lambda>N.
       bindr (grab (sh_size N) h) (\<lambda>(shstrtab, h).
       bindr (read_at code elfNode (sh_file_offset N) shstrtab (sh_size N) h) (\<lambda>h.
       bindr (for_exec 1 (unat shnum - 1) (find_tables code elfNode section_table shstrtab) (0, zero_section, h)) (\<lambda>(symstrtab, symShdr, h).
       bindr (for_exec 1 (unat shnum - 1) (print_deps code elfNode section_table shstrtab) h) (\<lambda>h.
       bindr (link_module code init elfNode shnum section_table shstrtab symstrtab symShdr h) (\<lambda>(ok, h).
       bindr (release symstrtab h) (\<lambda>h.
       bindr (release shstrtab h) (\<lambda>h.
       bindr (release section_table h) (\<lambda>h. Inr (ok, h)))))))))))))"

definition module_load ::
    "'x mods_scheme vfs_code \<Rightarrow> (u64 \<Rightarrow> 'x mods_scheme \<Rightarrow> 'x mods_scheme exec) \<Rightarrow> u64 \<Rightarrow> u8 list \<Rightarrow> 'x mods_scheme \<Rightarrow> (bool \<times> 'x mods_scheme) exec" where
  "module_load code init fr path h =
     bindr (kopen code path 0 h) (\<lambda>(elfNode, h).
     if elfNode = 0 then bindr (say (str ''asa1'' @ [10]) h) (\<lambda>h. Inr (False, h))
     else
       bindr (module_load_node code init fr elfNode h) (\<lambda>(result, h).
       bindr (node_drop code elfNode h) (\<lambda>h. Inr (result, h))))"

text \<open>
  The symbols of the kernel are in its image, between two addresses the linker provides; the image is mapped at
  \<^verbatim>\<open>KernelBase\<close>.
\<close>

definition image :: "'x vheap_scheme \<Rightarrow> u64 \<Rightarrow> nat" where
  "image h a = unat (a - KernelBase h + PhysicalKernelBase h)"

partial_function (option) kernel_symbols_loop :: "u64 \<Rightarrow> u64 \<Rightarrow> 'x mods_scheme \<Rightarrow> 'x mods_scheme exec option" where
  "kernel_symbols_loop symbols_end symbol h =
     (if \<not> symbol < symbols_end then Some (Inr h)
      else case strlen (km_mem (lh_k h)) (image h symbol + 16) of None \<Rightarrow> None | Some n \<Rightarrow>
       (case hashmap_set (KernelSymbolsHashmap h) (bytes_at (km_mem (lh_k h)) (image h symbol + 16) n)
               (read64 (km_mem (lh_k h)) (image h symbol)) h of
          Inl e \<Rightarrow> Some (Inl e)
        | Inr r \<Rightarrow> kernel_symbols_loop symbols_end (ROUND_UP64 (symbol + 16 + of_nat n + 1) 8) (snd r)))"

definition modules_init :: "u64 \<Rightarrow> u64 \<Rightarrow> 'x mods_scheme \<Rightarrow> 'x mods_scheme exec" where
  "modules_init symbols_start symbols_end h =
     bindr (hashmap_create 20 h) (\<lambda>(mp, h).
     bindr (run_loop (kernel_symbols_loop symbols_end symbols_start (h\<lparr>KernelSymbolsHashmap := mp\<rparr>))) (\<lambda>h.
     bindr (hashmap_set (KernelSymbolsHashmap h) (str ''kernel_symbols_start'') symbols_start h) (\<lambda>(_, h).
     bindr (hashmap_set (KernelSymbolsHashmap h) (str ''kernel_symbols_end'') symbols_end h) (\<lambda>(_, h). Inr h))))"

section \<open>Relocations\<close>

definition rtype :: "elf64_rela_t \<Rightarrow> u64" where
  "rtype R = ra_info R AND 0xFFFFFFFF"

lemma read_write32 [simp]: "read32 (write32 m a v) a = v"
  unfolding read32_def write32_def read_write_le by (rule bit_word_eqI) (simp add: bit_simps)

lemma write32_outside: "x < a \<or> a + 4 \<le> x \<Longrightarrow> write32 m a v x = m x"
  by (simp add: write32_def write_le_outside)

text \<open>A word survives the cut to 32 bits exactly when its value is one of 32 bits, without or with sign.\<close>

lemma ucast_ucast_eq_iff: "ucast (ucast v :: u32) = (v :: u64) \<longleftrightarrow> unat v < 2 ^ 32"
proof -
  have "unat (ucast (ucast v :: u32) :: u64) = take_bit 32 (unat v)"
    by (simp add: unsigned_ucast_eq unsigned_take_bit_eq)
  moreover have "ucast (ucast v :: u32) = v \<longleftrightarrow> unat (ucast (ucast v :: u32) :: u64) = unat v"
    by (metis unsigned_word_eqI)
  ultimately show ?thesis
    by (simp only: take_bit_nat_eq_self_iff)
qed

lemma scast_ucast_eq_iff: "scast (ucast v :: u32) = (v :: u64) \<longleftrightarrow> - (2 ^ 31) \<le> sint v \<and> sint v < 2 ^ 31"
proof -
  have "sint v = signed_take_bit 63 (uint v)"
    by (simp add: sint_uint)
  then have "sint (scast (ucast v :: u32) :: u64) = signed_take_bit 31 (sint v)"
    by (simp add: bit_eq_iff bit_simps min_def)
  moreover have "scast (ucast v :: u32) = v \<longleftrightarrow> sint (scast (ucast v :: u32) :: u64) = sint v"
    by (metis signed_word_eqI)
  ultimately show ?thesis
    by (simp only: signed_take_bit_int_eq_self_iff)
qed

definition same_but :: "bytes \<Rightarrow> bytes \<Rightarrow> nat \<Rightarrow> nat \<Rightarrow> bool" where
  "same_but m m' a n \<longleftrightarrow> (\<forall>x. x < a \<or> a + n \<le> x \<longrightarrow> m' x = m x)"

lemma same_but_writes: "same_but m (write64 m a v) a 8" "same_but m (write32 m a w) a 4"
  by (simp_all add: same_but_def write64_outside write32_outside)

lemma relocate_simps:
  assumes "v = ra_addend R + symbolAddress"
  shows "rtype R = 1 \<Longrightarrow> relocate R ptr symbolAddress = Stored64 v"
    "rtype R = 2 \<Longrightarrow> relocate R ptr symbolAddress = Stored32 (ucast (v - ptr))"
    "rtype R = 10 \<Longrightarrow> relocate R ptr symbolAddress = (if unat v < 2 ^ 32 then Stored32 (ucast v) else Mismatch32)"
    "rtype R = 11 \<Longrightarrow> relocate R ptr symbolAddress =
       (if - (2 ^ 31) \<le> sint v \<and> sint v < 2 ^ 31 then Stored32 (ucast v) else Mismatch32S)"
  unfolding assms ucast_ucast_eq_iff [symmetric] scast_ucast_eq_iff [symmetric]
  by (auto simp: relocate_def rtype_def Let_def)

lemma pc_relative: "p + scast (ucast (v - p) :: u32) = (v :: u64) \<longleftrightarrow> - (2 ^ 31) \<le> sint (v - p) \<and> sint (v - p) < 2 ^ 31"
  unfolding scast_ucast_eq_iff [symmetric] by (auto simp: algebra_simps)

lemma apply_rela_refuses:
  "relocate R ptr s \<in> {Mismatch32, Mismatch32S} \<Longrightarrow> apply_rela name R ptr s h = Inr (ok, h') \<Longrightarrow> \<not> ok"
  by (auto simp: apply_rela_def Let_def)

text \<open>
  C24. Relocations of a module. For a place \<open>ptr\<close> in kernel memory and \<open>v\<close> the address of the symbol plus the addend:
  type 1 stores \<open>v\<close>; type 10 stores a word that is \<open>v\<close> when extended by zeros if \<open>v\<close> has 32 bits, and refuses any
  other \<open>v\<close>; type 11 does the same for \<open>v\<close> as a signed number of 32 bits; nothing outside the place changes. Type 2
  always stores: what it stores leads from \<open>ptr\<close> to \<open>v\<close> exactly when the distance is a signed number of 32 bits, which
  the code does not test.
\<close>

theorem apply_rela_patches:
  assumes "kernel_ptr ptr" "v = ra_addend R + symbolAddress"
  shows "(rtype R = 1 \<longrightarrow> (\<exists>h'. apply_rela name R ptr symbolAddress h = Inr (True, h') \<and>
      read64 (km_mem (lh_k h')) (phys_of ptr) = v \<and> same_but (km_mem (lh_k h)) (km_mem (lh_k h')) (phys_of ptr) 8)) \<and>
    (rtype R = 2 \<longrightarrow> (\<exists>h'. apply_rela name R ptr symbolAddress h = Inr (True, h') \<and>
      (ptr + scast (read32 (km_mem (lh_k h')) (phys_of ptr)) = v \<longleftrightarrow> - (2 ^ 31) \<le> sint (v - ptr) \<and> sint (v - ptr) < 2 ^ 31) \<and>
      same_but (km_mem (lh_k h)) (km_mem (lh_k h')) (phys_of ptr) 4)) \<and>
    (rtype R = 10 \<longrightarrow> (if unat v < 2 ^ 32
      then \<exists>h'. apply_rela name R ptr symbolAddress h = Inr (True, h') \<and> ucast (read32 (km_mem (lh_k h')) (phys_of ptr)) = v \<and>
        same_but (km_mem (lh_k h)) (km_mem (lh_k h')) (phys_of ptr) 4
      else \<forall>ok h'. apply_rela name R ptr symbolAddress h = Inr (ok, h') \<longrightarrow> \<not> ok)) \<and>
    (rtype R = 11 \<longrightarrow> (if - (2 ^ 31) \<le> sint v \<and> sint v < 2 ^ 31
      then \<exists>h'. apply_rela name R ptr symbolAddress h = Inr (True, h') \<and> scast (read32 (km_mem (lh_k h')) (phys_of ptr)) = v \<and>
        same_but (km_mem (lh_k h)) (km_mem (lh_k h')) (phys_of ptr) 4
      else \<forall>ok h'. apply_rela name R ptr symbolAddress h = Inr (ok, h') \<longrightarrow> \<not> ok))"
proof -
  have nz: "ptr \<noteq> 0"
    using assms(1) by (auto simp: kernel_ptr_def)
  have ok: "apply_rela name R ptr symbolAddress h = Inr (True, set_mem (\<lambda>m. write64 m (phys_of ptr) x) h)"
    if "relocate R ptr symbolAddress = Stored64 x" for x
    using that assms(1) nz by (simp add: apply_rela_def via_def)
  have ok32: "apply_rela name R ptr symbolAddress h = Inr (True, set_mem (\<lambda>m. write32 m (phys_of ptr) x) h)"
    if "relocate R ptr symbolAddress = Stored32 x" for x
    using that assms(1) nz by (simp add: apply_rela_def via_def)
  note run = relocate_simps [OF assms(2), of ptr] and refuse = apply_rela_refuses [of R ptr symbolAddress name h]
  show ?thesis
  proof (intro conjI impI)
    assume "rtype R = 1"
    then show "\<exists>h'. apply_rela name R ptr symbolAddress h = Inr (True, h') \<and>
      read64 (km_mem (lh_k h')) (phys_of ptr) = v \<and> same_but (km_mem (lh_k h)) (km_mem (lh_k h')) (phys_of ptr) 8"
      using ok run(1) by (simp add: set_mem_def same_but_writes)
  next
    assume "rtype R = 2"
    then show "\<exists>h'. apply_rela name R ptr symbolAddress h = Inr (True, h') \<and>
      (ptr + scast (read32 (km_mem (lh_k h')) (phys_of ptr)) = v \<longleftrightarrow> - (2 ^ 31) \<le> sint (v - ptr) \<and> sint (v - ptr) < 2 ^ 31) \<and>
      same_but (km_mem (lh_k h)) (km_mem (lh_k h')) (phys_of ptr) 4"
      using ok32 run(2) pc_relative [of ptr v] by (simp add: set_mem_def same_but_writes)
  next
    assume "rtype R = 10"
    then show "if unat v < 2 ^ 32
      then \<exists>h'. apply_rela name R ptr symbolAddress h = Inr (True, h') \<and> ucast (read32 (km_mem (lh_k h')) (phys_of ptr)) = v \<and>
        same_but (km_mem (lh_k h)) (km_mem (lh_k h')) (phys_of ptr) 4
      else \<forall>ok h'. apply_rela name R ptr symbolAddress h = Inr (ok, h') \<longrightarrow> \<not> ok"
      using ok32 run(3) ucast_ucast_eq_iff [of v] refuse
      by (auto simp: set_mem_def same_but_writes)
  next
    assume "rtype R = 11"
    then show "if - (2 ^ 31) \<le> sint v \<and> sint v < 2 ^ 31
      then \<exists>h'. apply_rela name R ptr symbolAddress h = Inr (True, h') \<and> scast (read32 (km_mem (lh_k h')) (phys_of ptr)) = v \<and>
        same_but (km_mem (lh_k h)) (km_mem (lh_k h')) (phys_of ptr) 4
      else \<forall>ok h'. apply_rela name R ptr symbolAddress h = Inr (ok, h') \<longrightarrow> \<not> ok"
      using ok32 run(4) scast_ucast_eq_iff [of v] refuse
      by (auto simp: set_mem_def same_but_writes)
  qed
qed

text \<open>A call 12284 bytes ahead, as compilers emit it.\<close>

definition call_rela :: elf64_rela_t where
  "call_rela = \<lparr>ra_offset = 0, ra_info = 2, ra_addend = - 4\<rparr>"

theorem apply_rela_patches_witness:
  "\<exists>h'. apply_rela 0 call_rela 0xFFFF800000002000 0xFFFF800000005000 small_vfs = Inr (True, h') \<and>
     0xFFFF800000002000 + scast (read32 (km_mem (lh_k h')) 0x2000) = (0xFFFF800000004FFC :: u64)"
proof -
  have "kernel_ptr 0xFFFF800000002000" "rtype call_rela = 2" "(0xFFFF800000004FFC :: u64) = ra_addend call_rela + 0xFFFF800000005000"
    by (simp_all add: kernel_ptr_def rtype_def call_rela_def)
  moreover have "sint (0xFFFF800000004FFC - 0xFFFF800000002000 :: u64) = 0x2FFC" "phys_of 0xFFFF800000002000 = 0x2000"
    by (simp_all add: sint_uint phys_of_def MEM_PHYS_OFFSET_def)
  ultimately show ?thesis
    using apply_rela_patches [of "0xFFFF800000002000" "0xFFFF800000004FFC" call_rela "0xFFFF800000005000" 0 small_vfs] by fastforce
qed

end
