(* ===== verification/Syscalls.thy ===== *)
theory Syscalls
  imports Modules
begin

text \<open>
  The system calls, \<^verbatim>\<open>kernel/tasking/syscalls.c\<close>, and the dispatch of \<^verbatim>\<open>syscalls.asm\<close>. A handler gets the saved
  registers and returns the value for \<^verbatim>\<open>rax\<close>. Pointers of the calling program are read through the page tables
  that \<^verbatim>\<open>cr3\<close> points to; an address that is not mapped there is a wild access. What the functions behind file
  nodes, module initialisers and installed system calls do are arguments, as is what happens while a thread
  does not run.
\<close>

section \<open>State\<close>

record sys = mods +
  syscall_function_lock :: lock
  syscall_module_functions :: "nat \<Rightarrow> u64"

abbreviation MAX_MODULE_SYSCALLS :: nat where "MAX_MODULE_SYSCALLS \<equiv> 0x10000"

text \<open>The code around the handlers, the processor they run on and the address of the loader's header.\<close>

record 's sys_env =
  env_code :: "'s vfs_code"
  env_cpu :: nat
  env_resched :: "'s \<Rightarrow> 's exec"
  env_save_simd :: "u64 \<Rightarrow> bytes \<Rightarrow> bytes"
  env_frame :: u64
  env_init :: "u64 \<Rightarrow> 's \<Rightarrow> 's exec"
  env_call :: "u64 \<Rightarrow> irq_regs_t \<Rightarrow> 's \<Rightarrow> (u64 \<times> 's) exec"

section \<open>Memory of the caller\<close>

definition user_byte :: "'x vheap_scheme \<Rightarrow> u64 \<Rightarrow> u8 exec" where
  "user_byte h v =
     (let m = km_mem (lh_k h) in
      if kernel_ptr v then Inr (m (phys_of v))
      else case pt_abs m (unat (vm_cr3 h)) (vpn v) of
        None \<Rightarrow> Inl WildAccess
      | Some e \<Rightarrow> Inr (m (frame e + unat v mod 4096)))"

partial_function (option) user_string :: "'x vheap_scheme \<Rightarrow> u64 \<Rightarrow> u8 list exec option" where
  "user_string h v =
     (case user_byte h v of
        Inl e \<Rightarrow> Some (Inl e)
      | Inr c \<Rightarrow> if c = 0 then Some (Inr [])
          else Option.bind (user_string h (v + 1)) (\<lambda>r. Some (bindr r (\<lambda>s. Inr (c # s)))))"

definition user_str :: "u64 \<Rightarrow> 'x vheap_scheme \<Rightarrow> u8 list exec" where
  "user_str v h = run_loop (user_string h v)"

fun user_word :: "'x vheap_scheme \<Rightarrow> u64 \<Rightarrow> nat \<Rightarrow> u64 exec" where
  "user_word h v 0 = Inr 0"
| "user_word h v (Suc n) = bindr (user_byte h v) (\<lambda>b. bindr (user_word h (v + 1) n) (\<lambda>w. Inr (ucast b OR push_bit 8 w)))"

text \<open>The elements of a zero-terminated array of pointers.\<close>

partial_function (option) user_pointers :: "'x vheap_scheme \<Rightarrow> u64 \<Rightarrow> u64 list exec option" where
  "user_pointers h v =
     (case user_word h v 8 of
        Inl e \<Rightarrow> Some (Inl e)
      | Inr p \<Rightarrow> if p = 0 then Some (Inr [])
          else Option.bind (user_pointers h (v + 8)) (\<lambda>r. Some (bindr r (\<lambda>ps. Inr (p # ps)))))"

section \<open>Helpers\<close>

definition syscall_privilege_check :: "u64 \<Rightarrow> u64 \<Rightarrow> bool" where
  "syscall_privilege_check base sz \<longleftrightarrow> base AND 0x800000000000 \<noteq> 0 \<or> (base + sz) AND 0x800000000000 \<noteq> 0"

definition current_process :: "nat \<Rightarrow> 'x tasks_scheme \<Rightarrow> u64 exec" where
  "current_process cpu h =
     bindr (spin_acquire_exec (SchedulerLock h)) (\<lambda>_.
     bindr (current_cpu cpu h) (\<lambda>c. elem (SchedulerProcesses h) (unat (currentPid c))))"

definition handles_lock :: "u64 \<Rightarrow> 'x tasks_scheme \<Rightarrow> 'x tasks_scheme exec" where
  "handles_lock process h = bindr (load (ts_processes h) process) (\<lambda>P.
     bindr (spin_acquire_exec (file_handles_lock P)) (\<lambda>b. upd_process process (\<lambda>P. P\<lparr>file_handles_lock := b\<rparr>) h))"

definition handles_unlock :: "u64 \<Rightarrow> 'x tasks_scheme \<Rightarrow> 'x tasks_scheme exec" where
  "handles_unlock process h = upd_process process (\<lambda>P. P\<lparr>file_handles_lock := UNLOCKED\<rparr>) h"

definition bad_fd :: "u64 \<Rightarrow> bool" where
  "bad_fd rdi = (let fd = (ucast rdi :: u32) in sint fd \<ge> int MAX_FILE_HANDLES \<or> sint fd < 0)"

definition get_handle :: "u64 \<Rightarrow> nat \<Rightarrow> 'x tasks_scheme \<Rightarrow> u64 exec" where
  "get_handle process fd h = bindr (load (ts_processes h) process) (\<lambda>P. arr_get (ts_arrays h) (file_handles P) fd)"

definition set_handle :: "u64 \<Rightarrow> nat \<Rightarrow> u64 \<Rightarrow> 'x tasks_scheme \<Rightarrow> 'x tasks_scheme exec" where
  "set_handle process fd node h = bindr (load (ts_processes h) process) (\<lambda>P.
     bindr (arr_set (ts_arrays h) (file_handles P) fd node) (\<lambda>m. Inr (h\<lparr>ts_arrays := m\<rparr>)))"

text \<open>
  What six of the handlers have in common: find the node behind the descriptor, with the table of the process locked
  for as long as the node is used.
\<close>

definition on_handle ::
    "nat \<Rightarrow> u64 \<Rightarrow> (u64 \<Rightarrow> u64 \<Rightarrow> 'x tasks_scheme \<Rightarrow> (u64 \<times> 'x tasks_scheme) exec) \<Rightarrow> 'x tasks_scheme \<Rightarrow> (u64 \<times> 'x tasks_scheme) exec" where
  "on_handle cpu rdi act h =
     bindr (current_process cpu h) (\<lambda>process.
     bindr (handles_lock process h) (\<lambda>h.
     bindr (get_handle process (unat (ucast rdi :: u32)) h) (\<lambda>node.
     bindr (if node = 0 \<or> node = -1 then Inr (-1, h) else act process node h) (\<lambda>(r, h).
     bindr (handles_unlock process h) (\<lambda>h. Inr (r, h))))))"

definition dec :: "u64 \<Rightarrow> u8 list" where
  "dec v = (let i = sint (ucast v :: u32) in
     (if i < 0 then [0x2D] else []) @ rev (ntoa_loop (of_int \<bar>i\<bar>) 10 []))"

section \<open>The handlers\<close>

definition syscall_debug :: "'x console_scheme sys_env \<Rightarrow> irq_regs_t \<Rightarrow> 'x console_scheme \<Rightarrow> (u64 \<times> 'x console_scheme) exec" where
  "syscall_debug E regs h =
     bindr (user_str (rg_rdi regs) h) (\<lambda>s.
     if syscall_privilege_check (rg_rdi regs) (of_nat (length s) + 1) then Inr (-1, h)
     else
       bindr (spin_acquire_exec (SchedulerLock h)) (\<lambda>_.
       bindr (current_cpu (env_cpu E) h) (\<lambda>c.
       bindr (say (str ''[Debug pid: '' @ dec (currentPid c) @ str '', tid: '' @ dec (currentTid c) @ str ''] '' @ s @ [10]) h) (\<lambda>h.
         Inr (0, h)))))"

text \<open>The loop of \<^verbatim>\<open>read\<close> and \<^verbatim>\<open>write\<close>; the whole length is passed in every round.\<close>

partial_function (option) transfer_loop ::
    "(u64 \<Rightarrow> u64 \<Rightarrow> 's \<Rightarrow> (u64 \<times> 's) exec) \<Rightarrow> u64 \<Rightarrow> u64 \<Rightarrow> u64 \<Rightarrow> 's \<Rightarrow> (u64 \<times> 's) exec option" where
  "transfer_loop io buffer len currentIndex h =
     (if \<not> currentIndex < len then Some (Inr (currentIndex, h))
      else case io (buffer + currentIndex) len h of
          Inl e \<Rightarrow> Some (Inl e)
        | Inr r \<Rightarrow>
            if fst r < (if currentIndex + 16777216 > len then len mod 16777216 else 16777216)
            then Some (Inr (currentIndex + fst r, snd r))
            else transfer_loop io buffer len (currentIndex + fst r) (snd r))"

definition syscall_read :: "'x vfs_scheme sys_env \<Rightarrow> irq_regs_t \<Rightarrow> 'x vfs_scheme \<Rightarrow> (u64 \<times> 'x vfs_scheme) exec" where
  "syscall_read E regs h =
     (if bad_fd (rg_rdi regs) then Inr (-1, h)
      else if syscall_privilege_check (rg_rsi regs) (rg_rdx regs) then Inr (-1, h)
      else on_handle (env_cpu E) (rg_rdi regs)
        (\<lambda>process node h. run_loop (transfer_loop (vfs_read (env_code E) node) (rg_rsi regs) (rg_rdx regs) 0 h)) h)"

definition syscall_write :: "'x vfs_scheme sys_env \<Rightarrow> irq_regs_t \<Rightarrow> 'x vfs_scheme \<Rightarrow> (u64 \<times> 'x vfs_scheme) exec" where
  "syscall_write E regs h =
     (if bad_fd (rg_rdi regs) then Inr (-1, h)
      else if syscall_privilege_check (rg_rsi regs) (rg_rdx regs) then Inr (-1, h)
      else on_handle (env_cpu E) (rg_rdi regs)
        (\<lambda>process node h. run_loop (transfer_loop (vfs_write (env_code E) node) (rg_rsi regs) (rg_rdx regs) 0 h)) h)"

text \<open>The handler returns an \<^verbatim>\<open>int\<close>: the upper half of the result is zero.\<close>

definition syscall_open :: "'x vfs_scheme sys_env \<Rightarrow> irq_regs_t \<Rightarrow> 'x vfs_scheme \<Rightarrow> (u32 \<times> 'x vfs_scheme) exec" where
  "syscall_open E regs h =
     bindr (user_str (rg_rdi regs) h) (\<lambda>path.
     if syscall_privilege_check (rg_rdi regs) (of_nat (length path) + 1) then Inr (-1, h)
     else
       bindr (current_process (env_cpu E) h) (\<lambda>process.
       bindr (handles_lock process h) (\<lambda>h.
       bindr (load (ts_processes h) process) (\<lambda>P.
       bindr (load (ts_arrays h) (file_handles P)) (\<lambda>handles.
       let file_fd = find_slot (\<lambda>n. n = -1) (take MAX_FILE_HANDLES handles) in
       if length handles < MAX_FILE_HANDLES \<and> file_fd = length handles then Inl WildAccess
       else if file_fd = MAX_FILE_HANDLES then bindr (handles_unlock process h) (\<lambda>h. Inr (-1, h))
       else
         bindr (kopen (env_code E) path (ucast (rg_rsi regs)) h) (\<lambda>(node, h).
         if node = 0 then bindr (handles_unlock process h) (\<lambda>h. Inr (-1, h))
         else
           bindr (set_handle process file_fd node h) (\<lambda>h.
           bindr (handles_unlock process h) (\<lambda>h. Inr (of_nat file_fd, h)))))))))"

definition syscall_close :: "'x vfs_scheme sys_env \<Rightarrow> irq_regs_t \<Rightarrow> 'x vfs_scheme \<Rightarrow> (u32 \<times> 'x vfs_scheme) exec" where
  "syscall_close E regs h =
     (if bad_fd (rg_rdi regs) then Inr (-1, h)
      else
        bindr (on_handle (env_cpu E) (rg_rdi regs) (\<lambda>process node h.
          bindr (node_drop (env_code E) node h) (\<lambda>h.
          bindr (set_handle process (unat (ucast (rg_rdi regs) :: u32)) 0 h) (\<lambda>h. Inr (0, h)))) h) (\<lambda>(r, h).
        Inr (ucast r, h)))"

text \<open>
  The check of a requested address multiplies the address itself by the page size instead of the number of pages.
\<close>

definition syscall_alloc :: "'x tasks_scheme sys_env \<Rightarrow> irq_regs_t \<Rightarrow> 'x tasks_scheme \<Rightarrow> (u64 \<times> 'x tasks_scheme) exec" where
  "syscall_alloc E regs h =
     (let requestedAddress = rg_rdi regs; requestedPages = rg_rsi regs in
      bindr (current_process (env_cpu E) h) (\<lambda>process.
      bindr (load (ts_processes h) process) (\<lambda>P.
      bindr (if requestedAddress \<noteq> 0 then
               (if syscall_privilege_check requestedAddress (rg_rdi regs * 4096) then Inr (None, h) else Inr (Some requestedAddress, h))
             else
               bindr (spin_acquire_exec (alloc_lock P)) (\<lambda>_.
               let mapAddress = current_alloc_address P in
               if syscall_privilege_check mapAddress (requestedPages * 4096) then Inr (None, h)
               else bindr (upd_process process (\<lambda>P. P\<lparr>current_alloc_address := mapAddress + requestedPages * 4096\<rparr>) h) (\<lambda>h.
                 Inr (Some mapAddress, h)))) (\<lambda>(mapAddress, h).
      case mapAddress of
        None \<Rightarrow> Inr (0, h)
      | Some a \<Rightarrow>
          bindr (pmm_alloc (unat requestedPages) (lh_k h)) (\<lambda>(memory, k).
          if memory = 0 then Inr (0, h\<lparr>lh_k := k\<rparr>)
          else
            bindr (vmm_map (page_table P) a memory requestedPages 7 (h\<lparr>lh_k := k\<rparr>)) (\<lambda>(ok, h).
            if ok then Inr (a, h)
            else bindr (pmm_free memory (unat requestedPages) (km_pmm (lh_k h))) (\<lambda>p.
              Inr (0, h\<lparr>lh_k := (lh_k h)\<lparr>km_pmm := p\<rparr>\<rparr>))))))))"

definition syscall_seek :: "'x vfs_scheme sys_env \<Rightarrow> irq_regs_t \<Rightarrow> 'x vfs_scheme \<Rightarrow> (u64 \<times> 'x vfs_scheme) exec" where
  "syscall_seek E regs h =
     (if bad_fd (rg_rdi regs) then Inr (-1, h)
      else on_handle (env_cpu E) (rg_rdi regs)
        (\<lambda>process node h. vfs_lseek (env_code E) node (rg_rsi regs) (rg_rdx regs) h) h)"

definition syscall_tcb_set :: "'x tasks_scheme sys_env \<Rightarrow> irq_regs_t \<Rightarrow> 'x tasks_scheme \<Rightarrow> (u64 \<times> 'x tasks_scheme) exec" where
  "syscall_tcb_set E regs h =
     bindr (spin_acquire_exec (SchedulerLock h)) (\<lambda>_.
     bindr (current_thread (env_cpu E) h) (\<lambda>thread.
     bindr (upd_thread thread (\<lambda>T. T\<lparr>fs_base := rg_rdi regs\<rparr>) h) (\<lambda>h.
       Inr (0, h\<lparr>ts_fs_base := (ts_fs_base h)(env_cpu E := rg_rdi regs)\<rparr>))))"

definition syscall_ioctl :: "'x vfs_scheme sys_env \<Rightarrow> irq_regs_t \<Rightarrow> 'x vfs_scheme \<Rightarrow> (u64 \<times> 'x vfs_scheme) exec" where
  "syscall_ioctl E regs h =
     (if bad_fd (rg_rdi regs) then Inr (-1, h)
      else on_handle (env_cpu E) (rg_rdi regs)
        (\<lambda>process node h. vfs_ioctl (env_code E) node (rg_rsi regs) (rg_rdx regs) h) h)"

text \<open>
  The child shares the open files of its parent and starts with a copy of its address space and of the saved
  registers, except that it sees the result 0.
\<close>

definition share_handle :: "u64 \<Rightarrow> u64 \<Rightarrow> nat \<Rightarrow> 'x tasks_scheme \<Rightarrow> 'x tasks_scheme exec" where
  "share_handle old_process new_process i h = bindr (get_handle old_process i h) (\<lambda>n. set_handle new_process i n h)"

definition fork_thread :: "u64 \<Rightarrow> irq_regs_t \<Rightarrow> u64 \<Rightarrow> u64 \<Rightarrow> thread_t \<Rightarrow> thread_t" where
  "fork_thread new_pid regs fx kstack T = (new_thread new_pid 0 fx kstack)
     \<lparr>cpu_number := -1, fs_base := fs_base T, saved_regs := regs\<lparr>rg_rax := 0\<rparr>\<rparr>"

definition syscall_fork :: "'x tasks_scheme sys_env \<Rightarrow> irq_regs_t \<Rightarrow> 'x tasks_scheme \<Rightarrow> (u64 \<times> 'x tasks_scheme) exec" where
  "syscall_fork E regs h =
     bindr (spin_acquire_exec (SchedulerLock h)) (\<lambda>_.
     bindr (current_cpu (env_cpu E) h) (\<lambda>c.
     bindr (current_thread (env_cpu E) h) (\<lambda>old_thread.
     bindr (elem (SchedulerProcesses h) (unat (currentPid c))) (\<lambda>old_process.
     bindr (load (ts_processes h) old_process) (\<lambda>P.
     bindr (vmm_copy_pml4 (page_table P) h) (\<lambda>(new_pagemap, h).
     bindr (process_create new_pagemap h) (\<lambda>(new_pid, h).
     bindr (elem (SchedulerProcesses h) (unat new_pid)) (\<lambda>new_process.
     bindr (load (ts_threads h) old_thread) (\<lambda>T.
     bindr (upd_process new_process (\<lambda>N. N\<lparr>parent_pid := t_pid T, current_alloc_address := current_alloc_address P\<rparr>) h) (\<lambda>h.
     bindr (for_exec 0 MAX_FILE_HANDLES (share_handle old_process new_process) h) (\<lambda>h.
     bindr (load (ts_processes h) new_process) (\<lambda>N.
     bindr (grab 332 h) (\<lambda>(thread, h).
     bindr (arr_set (ts_arrays h) (p_threads N) 0 thread) (\<lambda>arrays.
     if thread = 0 then Inl NullDeref
     else
       bindr (grab 0x8000 (h\<lparr>ts_arrays := arrays\<rparr>)) (\<lambda>(stack, h).
       bindr (grab (CpuSimdRegionSize h) h) (\<lambda>(fx, h).
       let h = set_mem (env_save_simd E fx) (h\<lparr>ts_threads := (ts_threads h)(thread \<mapsto> fork_thread new_pid regs fx (stack + 0x8000) T)\<rparr>) in
       bindr (scheduler_add_task new_pid 0 h) (\<lambda>(_, h). Inr (new_pid, h))))))))))))))))))"

text \<open>\<^verbatim>\<open>strdup\<close> of a string of the caller, and the copy of an array of strings.\<close>

definition user_strdup :: "u64 \<Rightarrow> 'x vheap_scheme \<Rightarrow> (u64 \<times> u8 list \<times> 'x vheap_scheme) exec" where
  "user_strdup v h =
     bindr (user_str v h) (\<lambda>s.
     bindr (grab (of_nat (length s + 1)) h) (\<lambda>(p, h).
     if p = 0 then Inl NullDeref
     else Inr (p, s, set_mem (\<lambda>m. write_bytes m (phys_of p) (s @ [0])) h)))"

fun copy_strings :: "u64 \<Rightarrow> nat \<Rightarrow> u64 list \<Rightarrow> 'x vheap_scheme \<Rightarrow> ((u64 \<times> u8 list) list \<times> 'x vheap_scheme) exec" where
  "copy_strings array i [] h = Inr ([], h)"
| "copy_strings array i (v # vs) h =
     bindr (user_strdup v h) (\<lambda>(p, s, h).
     bindr (copy_strings array (Suc i) vs (set_mem (\<lambda>m. write64 m (phys_of array + 8 * i) p) h)) (\<lambda>(ps, h).
       Inr ((p, s) # ps, h)))"

definition copy_array :: "u64 \<Rightarrow> 'x vheap_scheme \<Rightarrow> (strings \<times> 'x vheap_scheme) exec" where
  "copy_array v h =
     bindr (run_loop (user_pointers h v)) (\<lambda>ps.
     bindr (kcalloc (of_nat (length ps) + 1) 8 (lh_k h)) (\<lambda>(array, k).
     if array = 0 then Inl NullDeref
     else
       bindr (copy_strings array 0 ps (set_mem (\<lambda>m. write64 m (phys_of array + 8 * length ps) 0) (h\<lparr>lh_k := k\<rparr>))) (\<lambda>(ss, h).
         Inr ((array, ss), h))))"

definition syscall_execve :: "'x vfs_scheme sys_env \<Rightarrow> irq_regs_t \<Rightarrow> 'x vfs_scheme \<Rightarrow> (u64 \<times> 'x vfs_scheme) exec" where
  "syscall_execve E regs h =
     (if syscall_privilege_check (rg_rdi regs) 1 \<or> syscall_privilege_check (rg_rsi regs) 1 \<or> syscall_privilege_check (rg_rdx regs) 1
      then Inr (-1, h)
      else
        bindr (user_strdup (rg_rdi regs) h) (\<lambda>(copyPath, path, h).
        bindr (copy_array (rg_rdx regs) h) (\<lambda>(copyNenv, h).
        bindr (copy_array (rg_rsi regs) h) (\<lambda>(copyArgv, h).
        bindr (spin_acquire_exec (SchedulerLock h)) (\<lambda>b.
        bindr (current_cpu (env_cpu E) h) (\<lambda>c.
        bindr (execve (env_code E) (env_resched E) (env_cpu E) (env_frame E) (currentPid c) (copyPath, path) copyArgv copyNenv
                 (h\<lparr>SchedulerLock := b\<rparr>)) (\<lambda>(r, h).
          Inr (if r then 1 else 0, h\<lparr>SchedulerLock := UNLOCKED\<rparr>))))))))"

definition syscall_load_module :: "'x mods_scheme sys_env \<Rightarrow> irq_regs_t \<Rightarrow> 'x mods_scheme \<Rightarrow> (u64 \<times> 'x mods_scheme) exec" where
  "syscall_load_module E regs h =
     (if bad_fd (rg_rdi regs) then Inr (-1, h)
      else on_handle (env_cpu E) (rg_rdi regs) (\<lambda>process node h.
        bindr (module_load_node (env_code E) (env_init E) (env_frame E) node h) (\<lambda>(r, h). Inr (if r then 0 else -1, h))) h)"

section \<open>System calls of modules\<close>

text \<open>An index out of range returns with the lock held.\<close>

definition syscall_install :: "u64 \<Rightarrow> u64 \<Rightarrow> 'x sys_scheme \<Rightarrow> (bool \<times> 'x sys_scheme) exec" where
  "syscall_install func i h =
     bindr (spin_acquire_exec (syscall_function_lock h)) (\<lambda>b.
     if unat i \<ge> MAX_MODULE_SYSCALLS then Inr (False, h\<lparr>syscall_function_lock := b\<rparr>)
     else if syscall_module_functions h (unat i) \<noteq> 0 then Inr (False, h\<lparr>syscall_function_lock := UNLOCKED\<rparr>)
     else Inr (True, h\<lparr>syscall_module_functions := (syscall_module_functions h)(unat i := func), syscall_function_lock := UNLOCKED\<rparr>))"

definition syscall_module_or_invalid :: "'x sys_scheme sys_env \<Rightarrow> irq_regs_t \<Rightarrow> 'x sys_scheme \<Rightarrow> (u64 \<times> 'x sys_scheme) exec" where
  "syscall_module_or_invalid E regs h =
     (if unat (rg_rax regs) \<ge> MAX_MODULE_SYSCALLS then Inr (-1, h)
      else
        bindr (spin_acquire_exec (syscall_function_lock h)) (\<lambda>_.
        let func = syscall_module_functions h (unat (rg_rax regs)) in
        if func = 0 then
          bindr (say (str ''[Syscall] Unknown syscall 0x'' @ hex (rg_rax regs) @ [10]) h) (\<lambda>h. Inr (-1, h))
        else env_call E func regs h))"

section \<open>Dispatch\<close>

datatype handler = Debug | Read | Write | Open | Close | Alloc | Seek | Tcb_set | Fork | Ioctl | Execve | Load_module | Module_or_invalid

definition syscall_table :: "handler list" where
  "syscall_table = [Debug, Read, Write, Open, Close, Alloc, Seek, Tcb_set, Fork, Ioctl, Execve, Load_module, Module_or_invalid]"

definition syscall_entry :: "'x sys_scheme sys_env \<Rightarrow> irq_regs_t \<Rightarrow> 'x sys_scheme \<Rightarrow> (u64 \<times> 'x sys_scheme) exec" where
  "syscall_entry E regs h =
     (case (if unat (rg_rax regs) < length syscall_table then syscall_table ! unat (rg_rax regs) else Module_or_invalid) of
        Debug \<Rightarrow> syscall_debug E regs h
      | Read \<Rightarrow> syscall_read E regs h
      | Write \<Rightarrow> syscall_write E regs h
      | Open \<Rightarrow> bindr (syscall_open E regs h) (\<lambda>(r, h). Inr (ucast r, h))
      | Close \<Rightarrow> bindr (syscall_close E regs h) (\<lambda>(r, h). Inr (ucast r, h))
      | Alloc \<Rightarrow> syscall_alloc E regs h
      | Seek \<Rightarrow> syscall_seek E regs h
      | Tcb_set \<Rightarrow> syscall_tcb_set E regs h
      | Fork \<Rightarrow> syscall_fork E regs h
      | Ioctl \<Rightarrow> syscall_ioctl E regs h
      | Execve \<Rightarrow> syscall_execve E regs h
      | Load_module \<Rightarrow> syscall_load_module E regs h
      | Module_or_invalid \<Rightarrow> syscall_module_or_invalid E regs h)"

section \<open>The privilege check\<close>

text \<open>For 48-bit addresses and sizes up to half of that space, the check is exactly whether the range leaves the lower half.\<close>

lemma bit47_iff:
  fixes x :: u64
  assumes "unat x < 2 ^ 48"
  shows "x AND 0x800000000000 \<noteq> 0 \<longleftrightarrow> 2 ^ 47 \<le> unat x"
proof -
  have "(0x800000000000 :: u64) = 2 ^ 47"
    by simp
  then have "x AND 0x800000000000 \<noteq> 0 \<longleftrightarrow> bit x 47"
    by (simp only: and_exp_eq_0_iff_not_bit not_not)
  also have "\<dots> \<longleftrightarrow> bit (unat x) 47"
    by (simp add: bit_unsigned_iff)
  also have "\<dots> \<longleftrightarrow> odd (unat x div 2 ^ 47)"
    by (rule bit_iff_odd)
  also have "unat x div 2 ^ 47 = (if 2 ^ 47 \<le> unat x then 1 else 0)"
    using assms by (auto intro!: div_nat_eqI)
  also have "odd \<dots> \<longleftrightarrow> 2 ^ 47 \<le> unat x"
    by simp
  finally show ?thesis .
qed

lemma kernel_ptr_ge: "kernel_ptr a \<Longrightarrow> 2 ^ 47 \<le> unat a"
  using bit47_iff [of a] by (cases "unat a < 2 ^ 48") (simp_all add: kernel_ptr_def)

lemma privilege_check_iff:
  assumes "unat base < 2 ^ 48" "unat sz \<le> 2 ^ 47"
  shows "syscall_privilege_check base sz \<longleftrightarrow> 2 ^ 47 \<le> unat base + unat sz"
proof (cases "2 ^ 47 \<le> unat base")
  case True
  then show ?thesis
    using bit47_iff [OF assms(1)] by (simp add: syscall_privilege_check_def)
next
  case False
  have "unat (base + sz) = unat base + unat sz"
    using assms False by (intro unat_add_lem [THEN iffD1]) simp
  moreover from this have "unat (base + sz) < 2 ^ 48"
    using assms False by simp
  ultimately show ?thesis
    using bit47_iff [of base] bit47_iff [of "base + sz"] assms(1) False by (simp add: syscall_privilege_check_def)
qed

text \<open>The canonical addresses of the upper half are those from \<open>0xFFFF800000000000\<close> on.\<close>

lemma privilege_check_upper:
  assumes "0xFFFF800000000000 \<le> base"
  shows "syscall_privilege_check base sz"
proof -
  have ge: "2 ^ 64 - 2 ^ 47 \<le> unat base"
    using assms by (simp add: word_le_nat_alt)
  have "unat base < 2 ^ 64"
    using unat_u64_less [of base] by simp
  with ge have "unat base div 2 ^ 47 = 2 ^ 17 - 1"
    by (intro div_nat_eqI) simp_all
  then have "bit (unat base) 47"
    by (simp add: bit_iff_odd)
  then have "bit base 47"
    by (simp add: bit_unsigned_iff)
  moreover have "(0x800000000000 :: u64) = 2 ^ 47"
    by simp
  ultimately show ?thesis
    unfolding syscall_privilege_check_def by (simp only: and_exp_eq_0_iff_not_bit simp_thms)
qed

text \<open>
  C14. Kernel memory is out of reach of \<^verbatim>\<open>read\<close> and \<^verbatim>\<open>write\<close>: both return -1 and change nothing when the buffer starts at a
  canonical address of the upper half, whatever its size, and when a buffer of at most \<open>2 ^ 47\<close> bytes at a 48-bit
  address reaches into the upper half or up to it. (The addresses in between are not canonical, no memory can be accessed
  there.) Buffers inside the lower half pass the check. The check is made on the first byte and the byte behind the last
  one only, so without the bound on the size it does not protect: a buffer that wraps around the address space passes it,
  though it contains every kernel address.
\<close>

theorem syscall_buffers_stay_in_user_half:
  shows "(0xFFFF800000000000 \<le> rg_rsi regs \<or>
      unat (rg_rsi regs) < 2 ^ 48 \<and> unat (rg_rdx regs) \<le> 2 ^ 47 \<and> 2 ^ 47 \<le> unat (rg_rsi regs) + unat (rg_rdx regs) \<longrightarrow>
      syscall_read E regs h = Inr (-1, h) \<and> syscall_write E regs h = Inr (-1, h)) \<and>
    (unat (rg_rsi regs) + unat (rg_rdx regs) < 2 ^ 47 \<longrightarrow> \<not> syscall_privilege_check (rg_rsi regs) (rg_rdx regs)) \<and>
    \<not> syscall_privilege_check 0x1000 (- 0x1000) \<and>
    (\<forall>a. kernel_ptr a \<longrightarrow> unat (0x1000 :: u64) \<le> unat a \<and> unat a < unat (0x1000 :: u64) + unat (- 0x1000 :: u64))"
proof -
  let ?a = "rg_rsi regs" and ?n = "rg_rdx regs"
  have refused: "syscall_read E regs h = Inr (-1, h) \<and> syscall_write E regs h = Inr (-1, h)" if "syscall_privilege_check ?a ?n"
    using that by (simp add: syscall_read_def syscall_write_def)
  have "(- 0x1000 :: u64) = 0xFFFFFFFFFFFFF000"
    by simp
  then have "unat (0x1000 :: u64) + unat (- 0x1000 :: u64) = 2 ^ 64"
    by (simp only:) simp
  moreover have "unat (0x1000 :: u64) \<le> unat a" if "kernel_ptr a" for a
    using kernel_ptr_ge [OF that] by simp
  moreover have "\<not> syscall_privilege_check 0x1000 (- 0x1000)"
    by (simp add: syscall_privilege_check_def)
  moreover have "\<not> syscall_privilege_check ?a ?n" if "unat ?a + unat ?n < 2 ^ 47"
    using privilege_check_iff [of ?a ?n] that by simp
  ultimately show ?thesis
    using refused privilege_check_upper [of ?a ?n] privilege_check_iff [of ?a ?n] by auto
qed

theorem syscall_buffers_stay_in_user_half_witness:
  "(\<forall>(E :: 'a vfs_scheme sys_env) h. syscall_read E (zero_regs\<lparr>rg_rsi := 0x7FFFFFFFF000, rg_rdx := 0x2000\<rparr>) h = Inr (-1, h) \<and>
      syscall_write E (zero_regs\<lparr>rg_rsi := 0x7FFFFFFFF000, rg_rdx := 0x2000\<rparr>) h = Inr (-1, h) \<and>
      syscall_read E (zero_regs\<lparr>rg_rsi := 0xFFFF800000001000, rg_rdx := 8\<rparr>) h = Inr (-1, h)) \<and>
   \<not> syscall_privilege_check 0x1000 (- 0x1000)"
proof (rule conjI, intro allI)
  fix E :: "'a vfs_scheme sys_env" and h :: "'a vfs_scheme"
  show "syscall_read E (zero_regs\<lparr>rg_rsi := 0x7FFFFFFFF000, rg_rdx := 0x2000\<rparr>) h = Inr (-1, h) \<and>
      syscall_write E (zero_regs\<lparr>rg_rsi := 0x7FFFFFFFF000, rg_rdx := 0x2000\<rparr>) h = Inr (-1, h) \<and>
      syscall_read E (zero_regs\<lparr>rg_rsi := 0xFFFF800000001000, rg_rdx := 8\<rparr>) h = Inr (-1, h)"
    using syscall_buffers_stay_in_user_half [of "zero_regs\<lparr>rg_rsi := 0x7FFFFFFFF000, rg_rdx := 0x2000\<rparr>" E h]
      syscall_buffers_stay_in_user_half [of "zero_regs\<lparr>rg_rsi := 0xFFFF800000001000, rg_rdx := 8\<rparr>" E h] by simp
qed (use syscall_buffers_stay_in_user_half in blast)

section \<open>File descriptors\<close>

text \<open>
  The descriptor table of the process that runs on a processor: nobody holds its lock or the scheduler lock. An
  operation that keeps what this depends on keeps the table.
\<close>

definition fd_table :: "nat \<Rightarrow> 'x tasks_scheme \<Rightarrow> u64 \<Rightarrow> u64 list \<Rightarrow> bool" where
  "fd_table cpu h process hs \<longleftrightarrow> SchedulerLock h \<and> cpu < length (CPULocals h) \<and>
     unat (currentPid (CPULocals h ! cpu)) < length (SchedulerProcesses h) \<and>
     SchedulerProcesses h ! unat (currentPid (CPULocals h ! cpu)) = process \<and> process \<noteq> 0 \<and>
     (\<exists>P. ts_processes h process = Some P \<and> file_handles_lock P \<and> file_handles P \<noteq> 0 \<and>
        ts_arrays h (file_handles P) = Some hs) \<and> length hs = MAX_FILE_HANDLES"

definition tables_kept :: "'x tasks_scheme \<Rightarrow> 'x tasks_scheme \<Rightarrow> bool" where
  "tables_kept h h' \<longleftrightarrow> SchedulerLock h' = SchedulerLock h \<and> CPULocals h' = CPULocals h \<and>
     SchedulerProcesses h' = SchedulerProcesses h \<and> ts_processes h' = ts_processes h \<and> ts_arrays h' = ts_arrays h"

text \<open>The state in which a handler works on the table: its lock is held.\<close>

definition table_locked :: "u64 \<Rightarrow> 'x tasks_scheme \<Rightarrow> 'x tasks_scheme" where
  "table_locked process h = h\<lparr>ts_processes := (ts_processes h)(process \<mapsto> (the (ts_processes h process))\<lparr>file_handles_lock := False\<rparr>)\<rparr>"

lemma current_process_fd: "fd_table cpu h process hs \<Longrightarrow> current_process cpu h = Inr process"
  by (auto simp: fd_table_def current_process_def current_cpu_def elem_def)

lemma handles_lock_fd: "fd_table cpu h process hs \<Longrightarrow> handles_lock process h = Inr (table_locked process h)"
  by (auto simp: fd_table_def handles_lock_def table_locked_def upd_process_def)

lemma locked_handles:
  assumes "fd_table cpu h process hs" "tables_kept (table_locked process h) h'"
  obtains P where "ts_processes h process = Some P" "load (ts_processes h') process = Inr (P\<lparr>file_handles_lock := False\<rparr>)"
    "file_handles P \<noteq> 0" "ts_arrays h' (file_handles P) = Some hs"
  using assms by (auto simp: fd_table_def tables_kept_def table_locked_def)

lemma tables_kept_refl: "tables_kept h h"
  by (simp add: tables_kept_def)

text \<open>Storing into the table and releasing its lock.\<close>

lemma store_and_unlock:
  assumes "fd_table cpu h process hs" "tables_kept (table_locked process h) h2" "fd < MAX_FILE_HANDLES"
  shows "\<exists>h3 h4. set_handle process fd node h2 = Inr h3 \<and> handles_unlock process h3 = Inr h4 \<and>
    fd_table cpu h4 process (hs[fd := node])"
proof -
  from assms(1,2) obtain P where P: "ts_processes h process = Some P"
      "load (ts_processes h2) process = Inr (P\<lparr>file_handles_lock := False\<rparr>)" "file_handles P \<noteq> 0"
      "ts_arrays h2 (file_handles P) = Some hs"
    by (rule locked_handles)
  let ?h3 = "h2\<lparr>ts_arrays := (ts_arrays h2)(file_handles P \<mapsto> hs[fd := node])\<rparr>"
  have "length hs = MAX_FILE_HANDLES"
    using assms(1) by (simp add: fd_table_def)
  then have "set_handle process fd node h2 = Inr ?h3"
    using P assms(3) by (simp add: set_handle_def arr_set_def put_def)
  moreover have "handles_unlock process ?h3 = Inr (?h3\<lparr>ts_processes := (ts_processes h2)(process \<mapsto> P\<lparr>file_handles_lock := True\<rparr>)\<rparr>)"
    using P(2) by (simp add: handles_unlock_def upd_process_def load_eq_Inr)
  moreover have "fd_table cpu (?h3\<lparr>ts_processes := (ts_processes h2)(process \<mapsto> P\<lparr>file_handles_lock := True\<rparr>)\<rparr>) process (hs[fd := node])"
    using assms(1,2) P by (auto simp: fd_table_def tables_kept_def table_locked_def)
  ultimately show ?thesis by blast
qed

text \<open>A call that finds a node under its descriptor works on it with the table locked and then unlocks the table.\<close>

lemma on_handle_node:
  assumes "fd_table cpu h process hs" "fd = unat (ucast rdi :: u32)" "fd < MAX_FILE_HANDLES" "hs ! fd \<noteq> 0" "hs ! fd \<noteq> -1"
  shows "on_handle cpu rdi act h = bindr (act process (hs ! fd) (table_locked process h)) (\<lambda>(r, h).
    bindr (handles_unlock process h) (\<lambda>h. Inr (r, h)))"
proof -
  from assms(1) tables_kept_refl obtain P where P: "load (ts_processes (table_locked process h)) process = Inr (P\<lparr>file_handles_lock := False\<rparr>)"
      "file_handles P \<noteq> 0" "ts_arrays (table_locked process h) (file_handles P) = Some hs"
    by (rule locked_handles)
  moreover have "length hs = MAX_FILE_HANDLES"
    using assms(1) by (simp add: fd_table_def)
  ultimately have "get_handle process fd (table_locked process h) = Inr (hs ! fd)"
    using assms(3) by (simp add: get_handle_def arr_get_def elem_def)
  then show ?thesis
    using assms(2,4,5) by (simp add: on_handle_def current_process_fd [OF assms(1)] handles_lock_fd [OF assms(1)])
qed

lemma open_runs:
  assumes tab: "fd_table (env_cpu E) h process hs"
    and path: "user_str (rg_rdi regs) h = Inr path" "\<not> syscall_privilege_check (rg_rdi regs) (of_nat (length path) + 1)"
  defines "fd \<equiv> find_slot (\<lambda>n. n = -1) hs"
  shows "syscall_open E regs h =
    (if fd = MAX_FILE_HANDLES then bindr (handles_unlock process (table_locked process h)) (\<lambda>h. Inr (-1, h))
     else bindr (kopen (env_code E) path (ucast (rg_rsi regs)) (table_locked process h)) (\<lambda>(node, h).
       if node = 0 then bindr (handles_unlock process h) (\<lambda>h. Inr (-1, h))
       else bindr (set_handle process fd node h) (\<lambda>h. bindr (handles_unlock process h) (\<lambda>h. Inr (of_nat fd, h)))))"
proof -
  from assms(1) tables_kept_refl obtain P where P: "load (ts_processes (table_locked process h)) process = Inr (P\<lparr>file_handles_lock := False\<rparr>)"
      "file_handles P \<noteq> 0" "ts_arrays (table_locked process h) (file_handles P) = Some hs"
    by (rule locked_handles)
  moreover have "length hs = MAX_FILE_HANDLES"
    using tab by (simp add: fd_table_def)
  ultimately show ?thesis
    using path by (simp add: syscall_open_def current_process_fd [OF tab] handles_lock_fd [OF tab] fd_def Let_def cong: if_cong)
qed

lemma good_fd:
  assumes "\<not> bad_fd rdi"
  shows "unat (ucast rdi :: u32) < MAX_FILE_HANDLES"
proof -
  let ?x = "ucast rdi :: u32"
  have b: "0 \<le> sint ?x" "sint ?x < 256"
    using assms by (simp_all add: bad_fd_def Let_def)
  have "uint ?x = take_bit 32 (sint ?x)"
    using uint_sint [of ?x] by simp
  also have "\<dots> = sint ?x"
    using b by (simp add: take_bit_int_eq_self)
  finally show ?thesis
    using b(2) unfolding unat_eq_nat_uint by linarith
qed

lemma find_slot_all: "find_slot P xs = length xs \<longleftrightarrow> (\<forall>x\<in>set xs. \<not> P x)"
  by (induction xs) auto

text \<open>Locking and unlocking the table changes nothing.\<close>

lemma unlock_locked: "fd_table cpu h process hs \<Longrightarrow> handles_unlock process (table_locked process h) = Inr h"
  by (auto simp: fd_table_def handles_unlock_def table_locked_def upd_process_def fun_upd_idem)

text \<open>
  C15. Opening a file. While the process has a descriptor that was never used, \<^verbatim>\<open>open\<close> returns the lowest such
  descriptor, enters the node that \<^verbatim>\<open>kopen\<close> found there and leaves every other descriptor alone; every later call
  on that descriptor works on exactly this node. (\<^verbatim>\<open>kopen\<close> and the file systems behind it are assumed not to touch the
  tables of the processes.)
\<close>

theorem syscall_open_lowest_free:
  assumes tab: "fd_table (env_cpu E) h process hs" "-1 \<in> set hs"
    and path: "user_str (rg_rdi regs) h = Inr path" "\<not> syscall_privilege_check (rg_rdi regs) (of_nat (length path) + 1)"
    and found: "kopen (env_code E) path (ucast (rg_rsi regs)) (table_locked process h) = Inr (node, h2)" "node \<noteq> 0" "node \<noteq> -1"
      "tables_kept (table_locked process h) h2"
  shows "\<exists>fd h'. syscall_open E regs h = Inr (of_nat fd, h') \<and> fd < MAX_FILE_HANDLES \<and> hs ! fd = -1 \<and> (\<forall>i<fd. hs ! i \<noteq> -1) \<and>
    fd_table (env_cpu E) h' process (hs[fd := node]) \<and>
    (\<forall>act. on_handle (env_cpu E) (of_nat fd) act h' =
       bindr (act process node (table_locked process h')) (\<lambda>(r, h). bindr (handles_unlock process h) (\<lambda>h. Inr (r, h))))"
proof -
  let ?fd = "find_slot (\<lambda>n. n = -1) hs"
  have len: "length hs = MAX_FILE_HANDLES"
    using tab(1) by (simp add: fd_table_def)
  then have fd: "?fd < MAX_FILE_HANDLES"
    using find_slot_all [of "\<lambda>n. n = -1" hs] find_slot_le [of "\<lambda>n. n = -1" hs] tab(2) by auto
  from store_and_unlock [OF tab(1) found(4) fd, of node] obtain h3 h4 where
      h4: "set_handle process ?fd node h2 = Inr h3" "handles_unlock process h3 = Inr h4" "fd_table (env_cpu E) h4 process (hs[?fd := node])"
    by blast
  then have run: "syscall_open E regs h = Inr (of_nat ?fd, h4)"
    using open_runs [OF tab(1) path] found(1,2) fd by simp
  have "unat (of_nat ?fd :: u64) = ?fd"
    using fd by (intro unat_of_nat_u64) simp
  then have "unat (ucast (of_nat ?fd :: u64) :: u32) = ?fd"
    using fd unfolding unsigned_ucast_eq by (simp add: take_bit_nat_eq_self)
  then have "on_handle (env_cpu E) (of_nat ?fd) act h4 =
       bindr (act process node (table_locked process h4)) (\<lambda>(r, h). bindr (handles_unlock process h) (\<lambda>h. Inr (r, h)))" for act
    using on_handle_node [OF h4(3), of ?fd "of_nat ?fd" act] fd len found(2,3) by simp
  then show ?thesis
    using run fd h4(3) find_slot_hit [of "\<lambda>n. n = -1" hs] find_slot_before [of _ "\<lambda>n. n = -1" hs] len
    by (intro exI [of _ ?fd] exI [of _ h4]) simp
qed

text \<open>
  C35. Closing loses the descriptor. \<^verbatim>\<open>close\<close> on an open descriptor returns 0 and stores \<^verbatim>\<open>NULL\<close> in the table, but
  \<^verbatim>\<open>open\<close> looks for -1: once a process has used each of its 256 descriptors, every later \<^verbatim>\<open>open\<close> fails, whatever
  it has closed.
\<close>

theorem syscall_close_loses_descriptor:
  assumes tab: "fd_table (env_cpu E) h process hs" "fd = unat (ucast (rg_rdi regs) :: u32)" "\<not> bad_fd (rg_rdi regs)"
      "hs ! fd \<noteq> 0" "-1 \<notin> set hs"
    and gone: "node_drop (env_code E) (hs ! fd) (table_locked process h) = Inr h2" "tables_kept (table_locked process h) h2"
  shows "\<exists>h'. syscall_close E regs h = Inr (0, h') \<and> fd_table (env_cpu E) h' process (hs[fd := 0]) \<and>
    (\<forall>regs' path. user_str (rg_rdi regs') h' = Inr path \<and> \<not> syscall_privilege_check (rg_rdi regs') (of_nat (length path) + 1) \<longrightarrow>
       syscall_open E regs' h' = Inr (-1, h'))"
proof -
  have len: "length hs = MAX_FILE_HANDLES"
    using tab(1) by (simp add: fd_table_def)
  have fd: "fd < MAX_FILE_HANDLES"
    using good_fd [OF tab(3)] tab(2) by simp
  then have node: "hs ! fd \<noteq> -1"
    using tab(5) len by (metis nth_mem)
  from store_and_unlock [OF tab(1) gone(2) fd, of 0] obtain h3 h4 where
      h4: "set_handle process fd 0 h2 = Inr h3" "handles_unlock process h3 = Inr h4" "fd_table (env_cpu E) h4 process (hs[fd := 0])"
    by blast
  have "syscall_close E regs h = Inr (0, h4)"
    using on_handle_node [OF tab(1,2) fd tab(4) node] gone(1) h4(1,2) tab(2,3) by (simp add: syscall_close_def)
  moreover have "find_slot (\<lambda>n. n = -1) (hs[fd := 0]) = MAX_FILE_HANDLES"
    using find_slot_all [of "\<lambda>n. n = -1" "hs[fd := 0]"] tab(5) len set_update_subset_insert [of hs fd 0] by auto
  then have "syscall_open E regs' h4 = Inr (-1, h4)"
    if "user_str (rg_rdi regs') h4 = Inr path" "\<not> syscall_privilege_check (rg_rdi regs') (of_nat (length path) + 1)" for regs' path
    using open_runs [OF h4(3) that] unlock_locked [OF h4(3)] by simp
  ultimately show ?thesis
    using h4(3) by blast
qed

text \<open>
  A machine with one process whose address space maps the page at \<^verbatim>\<open>0x1000\<close>, where the string \<^verbatim>\<open>/\<close> is, and with
  the given table of descriptors.
\<close>

definition no_code :: "vfs vfs_code" where
  "no_code = \<lparr>call_open = \<lambda>_ _ _ _. Inl WildAccess, call_close = \<lambda>_ _ _. Inl WildAccess, call_read = \<lambda>_ _ _ _ _. Inl WildAccess,
     call_write = \<lambda>_ _ _ _ _. Inl WildAccess, call_lseek = \<lambda>_ _ _ _ _. Inl WildAccess, call_ioctl = \<lambda>_ _ _ _ _. Inl WildAccess,
     call_finddir = \<lambda>_ _ _ _ _. Inl WildAccess, call_readdir = \<lambda>_ _ _ _. Inl WildAccess, call_create = \<lambda>_ _ _ _ _. Inl WildAccess,
     call_mount = \<lambda>_ _ _ _ _ _ _. Inl WildAccess, call_print_tree = \<lambda>_ _ _ _. Inl WildAccess\<rparr>"

definition plain_env :: "vfs sys_env" where
  "plain_env = \<lparr>env_code = no_code, env_cpu = 0, env_resched = Inr, env_save_simd = \<lambda>_ m. m, env_frame = 0,
     env_init = \<lambda>_. Inr, env_call = \<lambda>_ _ h. Inr (0, h)\<rparr>"

definition one_process :: "kmem \<Rightarrow> u64 \<Rightarrow> u64 list \<Rightarrow> vfs" where
  "one_process k node hs = small_vfs\<lparr>lh_k := k, vm_cr3 := 0x1000, SchedulerLock := UNLOCKED,
     CPULocals := [(idle_cpu 0)\<lparr>currentPid := 0\<rparr>], SchedulerProcesses := [0xC000],
     ts_processes := [0xC000 \<mapsto> \<lparr>p_pid = 0, page_table = 0, p_threads = 0, p_lock = UNLOCKED, current_alloc_address = 0,
       alloc_lock = UNLOCKED, file_handles = 0xD000, file_handles_lock = UNLOCKED, parent_pid = 0, shm_map = 0, shm_alloc = 0\<rparr>],
     ts_arrays := [0xD000 \<mapsto> hs], vf_nodes := [node \<mapsto> zero_node]\<rparr>"

lemma one_process_fd: "length hs = MAX_FILE_HANDLES \<Longrightarrow> fd_table 0 (one_process k node hs) 0xC000 hs"
  by (simp add: fd_table_def one_process_def)

definition paged_heap :: kmem where
  "paged_heap = \<lparr>km_pmm = \<lparr>PmmBitmap = (\<lambda>j. j < 10), PmmLength = 64, PmmFreePages = 54, PmmLock = True\<rparr>,
     km_mem = write64 (write64 (write64 (write64 ((\<lambda>_. 0)(0x5000 := 47)) 0x1000 0x2007) 0x2000 0x3007) 0x3000 0x4007) 0x4008 0x5007\<rparr>"

lemma paged_heap_string: "user_str 0x1000 (one_process paged_heap node hs) = Inr (str ''/'')"
proof -
  let ?h = "one_process paged_heap node hs" and ?m = "km_mem paged_heap"
  have "ent ?m 0x1000 0 = 0x2007" "ent ?m 0x2000 0 = 0x3007" "ent ?m 0x3000 0 = 0x4007" "ent ?m 0x4000 1 = 0x5007"
    by (simp_all add: ent_def paged_heap_def)
  then have "pt_abs ?m 0x1000 1 = Some 0x5007"
    by (simp add: pt_abs_def vpath_def child_def present_def large_def frame_def VMM_PRESENT_def VMM_LARGE_def VMM_ADDR_MASK_def VMM_FLAG_MASK_def)
  moreover have "?m 0x5000 = 47" "?m 0x5001 = 0"
    by (simp_all add: paged_heap_def write64_outside)
  moreover have "vpn 0x1000 = 1" "vpn 0x1001 = 1" "frame 0x5007 = 0x5000"
    by (simp_all add: vpn_def frame_def VMM_ADDR_MASK_def VMM_FLAG_MASK_def)
  ultimately have "user_byte ?h 0x1000 = Inr 47" "user_byte ?h 0x1001 = Inr 0"
    by (simp_all add: user_byte_def one_process_def kernel_ptr_def)
  then have "user_string ?h 0x1001 = Some (Inr [])" "user_string ?h 0x1000 = Some (Inr [47])"
    by (subst user_string.simps, simp)+
  then show ?thesis
    by (simp add: user_str_def str_def)
qed

lemma paged_heap_inv: "heap_inv paged_heap {}"
  by (simp add: paged_heap_def heap_inv_def blocks_disjoint_def)

text \<open>Two blocks for the copies of the path, released again.\<close>

lemma paged_heap_blocks:
  obtains p1 k1 p2 k2 k3 k4 where "kmalloc 2 paged_heap = Inr (p1, k1)" "p1 \<noteq> 0" "kmalloc 2 k1 = Inr (p2, k2)" "p2 \<noteq> 0"
    "kfree p2 k2 = Inr k3" "kfree p1 k3 = Inr k4"
proof -
  obtain p1 k1 where r1: "kmalloc 2 paged_heap = Inr (p1, k1)"
    using kmalloc_total [OF paged_heap_inv] by blast
  have n1: "p1 \<noteq> 0"
    using kmalloc_null_full [OF paged_heap_inv, of 2 k1 20] r1 by (auto simp: paged_heap_def size_pages_def)
  from paged_heap_inv r1 n1 obtain i where i: "p1 = block_addr i" "PmmLength (km_pmm k1) = PmmLength (km_pmm paged_heap)"
      "PmmBitmap (km_pmm k1) = (\<lambda>j. (i \<le> j \<and> j < i + (size_pages (unat (2 :: u64)) + 1)) \<or> PmmBitmap (km_pmm paged_heap) j)"
    by (rule kmalloc_nonnullE) simp
  let ?n = "size_pages (unat (2 :: u64)) + 1"
  from paged_heap_inv r1 n1 obtain i' where i': "p1 = block_addr i'" "heap_inv k1 {(i', ?n)}"
    by (rule kmalloc_fresh) simp_all
  obtain p2 k2 where r2: "kmalloc 2 k1 = Inr (p2, k2)"
    using kmalloc_total [OF i'(2)] by blast
  have n2: "p2 \<noteq> 0"
  proof
    assume "p2 = 0"
    then have "\<exists>x. j \<le> x \<and> x < j + 2 \<and> (i \<le> x \<and> x < i + 2 \<or> x < 10)" if "j < 64" for j
      using kmalloc_null_full [OF i'(2), of 2 k2 j] r2 that i by (auto simp: paged_heap_def size_pages_def)
    from this [of 20] this [of 40] show False by auto
  qed
  from i'(2) r2 n2 obtain j where j: "p2 = block_addr j" "(j, ?n) \<notin> {(i', ?n)}" "heap_inv k2 {(j, ?n), (i', ?n)}"
    by (rule kmalloc_fresh) simp_all
  from kfree_ok [OF j(3), of j ?n] j(2) obtain k3 where k3: "kfree p2 k2 = Inr k3" "heap_inv k3 {(i', ?n)}"
    unfolding j(1) by auto
  from kfree_ok [OF k3(2), of i' ?n] obtain k4 where "kfree p1 k3 = Inr k4"
    unfolding i'(1) by auto
  then show thesis
    using that r1 n1 r2 n2 k3(1) by blast
qed

lemma kopen_root:
  assumes "h = table_locked 0xC000 (one_process paged_heap 0xA000 hs)"
  shows "\<exists>k. kopen no_code (str ''/'') 0 h = Inr (0xA000, h\<lparr>lh_k := k\<rparr>)"
proof -
  obtain p1 k1 p2 k2 k3 k4 where r: "kmalloc 2 paged_heap = Inr (p1, k1)" "p1 \<noteq> 0" "kmalloc 2 k1 = Inr (p2, k2)" "p2 \<noteq> 0"
      "kfree p2 k2 = Inr k3" "kfree p1 k3 = Inr k4"
    by (rule paged_heap_blocks)
  have h: "lh_k h = paged_heap" "VFSTree h = 0x2000" "tr_trees h 0x2000 = Some \<lparr>gt_root = 0x3000, gt_lock = True\<rparr>"
      "tr_nodes h 0x3000 = Some \<lparr>gn_value = 0x7000, gn_children = 0x4000\<rparr>"
      "vf_entries h 0x7000 = Some \<lparr>ve_name = str ''root'', ve_node = 0xA000\<rparr>" "vf_nodes h 0xA000 = Some zero_node"
    by (simp_all add: assms table_locked_def one_process_def small_vfs_def small_tree_def trees.defs console.defs)
  have "dup (str ''/'') h = Inr (p1, h\<lparr>lh_k := k1\<rparr>)" "dup (str ''/'') (h\<lparr>lh_k := k1\<rparr>) = Inr (p2, h\<lparr>lh_k := k2\<rparr>)"
    using r h(1) by (simp_all add: dup_def str_def)
  moreover have "vfs_get_mountpoint (Some (0, str ''/'')) (h\<lparr>lh_k := k2\<rparr>) = Inr (0xA000, None, h\<lparr>lh_k := k2\<rparr>)"
    using h by (simp add: vfs_get_mountpoint_def str_def entry_of_def)
  moreover have "kopen_loop no_code 0 0xA000 0 None (h\<lparr>lh_k := k2\<rparr>) = Some (Inr (True, 0xA000, 0, h\<lparr>lh_k := k2\<rparr>))"
    by (subst kopen_loop.simps) simp
  moreover have "vfs_open no_code 0xA000 0 (h\<lparr>lh_k := k2\<rparr>) = Inr (h\<lparr>lh_k := k2\<rparr>)"
    using h(6) by (simp add: vfs_open_def node_fn_def zero_node_def no_functions_def)
  ultimately show ?thesis
    using r(5,6) by (intro exI [of _ k4]) (simp add: kopen_def release_def Let_def)
qed

theorem syscall_open_lowest_free_witness:
  "\<exists>fd h'. syscall_open plain_env (zero_regs\<lparr>rg_rdi := 0x1000\<rparr>) (one_process paged_heap 0xA000 (0xA000 # replicate 255 (-1))) = Inr (of_nat fd, h') \<and>
     fd_table 0 h' 0xC000 ((0xA000 # replicate 255 (-1))[fd := 0xA000]) \<and> fd = 1"
proof -
  let ?hs = "0xA000 # replicate 255 (-1) :: u64 list"
  let ?h = "one_process paged_heap 0xA000 ?hs"
  obtain k where k: "kopen no_code (str ''/'') 0 (table_locked 0xC000 ?h) = Inr (0xA000, (table_locked 0xC000 ?h)\<lparr>lh_k := k\<rparr>)"
    using kopen_root [OF refl, of ?hs] by blast
  have env: "env_cpu plain_env = 0" "env_code plain_env = no_code"
    by (simp_all add: plain_env_def)
  have "\<exists>fd h'. syscall_open plain_env (zero_regs\<lparr>rg_rdi := 0x1000\<rparr>) ?h = Inr (of_nat fd, h') \<and> fd < MAX_FILE_HANDLES \<and>
      ?hs ! fd = -1 \<and> (\<forall>i<fd. ?hs ! i \<noteq> -1) \<and> fd_table (env_cpu plain_env) h' 0xC000 (?hs[fd := 0xA000]) \<and>
      (\<forall>act. on_handle (env_cpu plain_env) (of_nat fd) act h' =
         bindr (act 0xC000 0xA000 (table_locked 0xC000 h')) (\<lambda>(r, h). bindr (handles_unlock 0xC000 h) (\<lambda>h. Inr (r, h))))"
    by (rule syscall_open_lowest_free [where path = "str ''/''" and node = "0xA000" and ?h2.0 = "(table_locked 0xC000 ?h)\<lparr>lh_k := k\<rparr>"])
      (use k one_process_fd [of ?hs] in \<open>simp_all add: env paged_heap_string syscall_privilege_check_def str_def zero_regs_def tables_kept_def\<close>)
  then obtain fd h' where *: "syscall_open plain_env (zero_regs\<lparr>rg_rdi := 0x1000\<rparr>) ?h = Inr (of_nat fd, h')" "?hs ! fd = -1"
      "\<forall>i<fd. ?hs ! i \<noteq> -1" "fd_table 0 h' 0xC000 (?hs[fd := 0xA000])"
    unfolding env by blast
  have "fd = 1"
    using *(2) *(3) [rule_format, of 1] by (cases fd) auto
  with * show ?thesis by blast
qed

theorem syscall_close_loses_descriptor_witness:
  "\<exists>h'. syscall_close plain_env zero_regs (one_process two_blocks (block_addr 1) (block_addr 1 # replicate 255 0)) = Inr (0, h') \<and>
     fd_table 0 h' 0xC000 (replicate 256 0)"
proof -
  let ?hs = "block_addr 1 # replicate 255 0"
  let ?h = "one_process two_blocks (block_addr 1) ?hs"
  have ptr: "block_addr 1 \<noteq> 0" "block_addr 1 \<noteq> -1"
    by (simp_all add: block_addr_def MEM_PHYS_OFFSET_def)
  obtain k where "kfree (block_addr 1) two_blocks = Inr k"
    using kfree_ok [OF two_blocks_inv, of 1 9] by auto
  then have drop: "node_drop no_code (block_addr 1) (table_locked 0xC000 ?h) = Inr ((table_locked 0xC000 ?h)\<lparr>lh_k := k, vf_nodes := Map.empty\<rparr>)"
    using ptr by (simp add: node_drop_def vfs_close_def node_fn_def table_locked_def one_process_def zero_node_def no_functions_def release_def)
  have env: "env_cpu plain_env = 0" "env_code plain_env = no_code"
    by (simp_all add: plain_env_def)
  have "\<exists>h'. syscall_close plain_env zero_regs ?h = Inr (0, h') \<and> fd_table (env_cpu plain_env) h' 0xC000 (?hs[0 := 0]) \<and>
      (\<forall>regs' path. user_str (rg_rdi regs') h' = Inr path \<and> \<not> syscall_privilege_check (rg_rdi regs') (of_nat (length path) + 1) \<longrightarrow>
         syscall_open plain_env regs' h' = Inr (-1, h'))"
    by (rule syscall_close_loses_descriptor [where ?h2.0 = "(table_locked 0xC000 ?h)\<lparr>lh_k := k, vf_nodes := Map.empty\<rparr>"])
      (use drop ptr one_process_fd [of ?hs] in \<open>simp_all add: env bad_fd_def zero_regs_def tables_kept_def\<close>)
  moreover have "?hs[0 := 0] = replicate 256 0"
    by (simp flip: replicate_Suc)
  ultimately show ?thesis
    unfolding env by metis
qed

end
