(* ===== verification/Shm.thy ===== *)
theory Shm
  imports Syscalls
begin

text \<open>
  The module for shared memory, \<^verbatim>\<open>modules/shm/shm.c\<close>: named chunks of physical pages in a tree of names, mapped into
  the processes that ask for them.
\<close>

section \<open>Data\<close>

record shm_chunk_t =
  ck_parent :: u64
  ck_lock :: lock
  ck_ref_count :: u64
  ck_pageCount :: u64
  ck_phys :: u64

record shm_node_t =
  sn_name :: "u8 list"
  sn_chunk :: u64

record shm_mapping_t =
  mp_chunk :: u64
  mp_lock :: lock
  mp_virt :: u64

record shms = sys +
  SHMLock :: lock
  SHMTree :: u64
  sm_nodes :: "u64 \<rightharpoonup> shm_node_t"
  sm_chunks :: "u64 \<rightharpoonup> shm_chunk_t"
  sm_mappings :: "u64 \<rightharpoonup> shm_mapping_t"

definition set_chunk :: "u64 \<Rightarrow> (shm_chunk_t \<Rightarrow> shm_chunk_t) \<Rightarrow> 'x shms_scheme \<Rightarrow> 'x shms_scheme exec" where
  "set_chunk p f h = bindr (modify p f (sm_chunks h)) (\<lambda>m. Inr (h\<lparr>sm_chunks := m\<rparr>))"

definition set_snode :: "u64 \<Rightarrow> (shm_node_t \<Rightarrow> shm_node_t) \<Rightarrow> 'x shms_scheme \<Rightarrow> 'x shms_scheme exec" where
  "set_snode p f h = bindr (modify p f (sm_nodes h)) (\<lambda>m. Inr (h\<lparr>sm_nodes := m\<rparr>))"

section \<open>Names\<close>

text \<open>The loop over the children of a tree node: the child with the name, and its value.\<close>

partial_function (option) shm_child_loop :: "'x shms_scheme \<Rightarrow> u8 list \<Rightarrow> u64 \<Rightarrow> (u64 \<times> u64) exec option" where
  "shm_child_loop h pch node =
     (if node = 0 then Some (Inr (0, 0))
      else case load (lh_nodes h) node of Inl e \<Rightarrow> Some (Inl e) | Inr N \<Rightarrow>
       (case load (tr_nodes h) (n_value N) of Inl e \<Rightarrow> Some (Inl e) | Inr G \<Rightarrow>
        (case load (sm_nodes h) (gn_value G) of Inl e \<Rightarrow> Some (Inl e) | Inr S \<Rightarrow>
         if sn_name S = pch then Some (Inr (n_value N, gn_value G)) else shm_child_loop h pch (n_next N))))"

text \<open>
  The new node of a name. The name is copied without looking at the size of the field; the store of the null chunk
  behind it ends a longer name after 256 characters. Only names longer than the page of the block reach other memory.
\<close>

definition new_snode :: "u8 list \<Rightarrow> 'x shms_scheme \<Rightarrow> (u64 \<times> 'x shms_scheme) exec" where
  "new_snode pch h =
     bindr (grab 264 h) (\<lambda>(nsnode, h).
     if nsnode = 0 then Inl NullDeref
     else if length pch + 1 > 4096 then Inl WildAccess
     else Inr (nsnode, h\<lparr>sm_nodes := (sm_nodes h)(nsnode \<mapsto> \<lparr>sn_name = take 256 pch, sn_chunk = 0\<rparr>)\<rparr>))"

lemma tok_rest_shorter: "tok_word cs s \<noteq> [] \<Longrightarrow> length (tok_rest cs s) < length s"
proof -
  assume a: "tok_word cs s \<noteq> []"
  have "length (tok_word cs s) + length (dropWhile (\<lambda>x. x \<notin> set cs) (tok_skip cs s)) = length (tok_skip cs s)"
    unfolding tok_word_def by (metis length_append takeWhile_dropWhile_id)
  moreover have "length (tok_skip cs s) \<le> length s"
    by (simp add: tok_skip_def length_dropWhile_le)
  moreover have "0 < length (tok_word cs s)"
    using a by simp
  ultimately show ?thesis
    unfolding tok_rest_def by (simp only: length_tl)
qed

text \<open>\<^verbatim>\<open>_get_node\<close>; a path without a component makes \<^verbatim>\<open>strtok_r\<close> return \<^verbatim>\<open>NULL\<close>, which is used as a string.\<close>

function shm_walk :: "u8 list \<Rightarrow> bool \<Rightarrow> u64 \<Rightarrow> 'x shms_scheme \<Rightarrow> (u64 \<times> 'x shms_scheme) exec" where
  "shm_walk path create from h =
     (let pch = tok_word [0x2E] path; save = tok_rest [0x2E] path in
      bindr (load (tr_nodes h) from) (\<lambda>F.
      bindr (load (lh_lists h) (gn_children F)) (\<lambda>L.
      if pch = [] then (if l_root L \<noteq> 0 \<or> create then Inl NullDeref else Inr (0, h))
      else
        bindr (run_loop (shm_child_loop h pch (l_root L))) (\<lambda>(tnode, snode).
        if tnode \<noteq> 0 then (if save = [] then Inr (snode, h) else shm_walk save create tnode h)
        else if \<not> create then Inr (0, h)
        else
          bindr (new_snode pch h) (\<lambda>(nsnode, h).
          bindr (gentree_insert (SHMTree h) from nsnode h) (\<lambda>(nnode, h).
          if save = [] then Inr (nsnode, h) else shm_walk save create nnode h))))))"
  by pat_completeness auto
termination
  by (relation "measure (\<lambda>(path, _). length path)") (auto simp: tok_rest_shorter)

definition get_node :: "u8 list \<Rightarrow> bool \<Rightarrow> 'x shms_scheme \<Rightarrow> (u64 \<times> 'x shms_scheme) exec" where
  "get_node shmPath create h =
     bindr (dup shmPath h) (\<lambda>(path, h).
     bindr (load (tr_trees h) (SHMTree h)) (\<lambda>T.
     bindr (shm_walk shmPath create (gt_root T) h) (\<lambda>(node, h).
     bindr (release path h) (\<lambda>h. Inr (node, h)))))"

section \<open>Chunks and mappings\<close>

definition create_chunk :: "u64 \<Rightarrow> u64 \<Rightarrow> 'x shms_scheme \<Rightarrow> (u64 \<times> 'x shms_scheme) exec" where
  "create_chunk parent sz h =
     (if sz = 0 then Inr (0, h)
      else
        bindr (grab 64 h) (\<lambda>(chunk, h).
        if chunk = 0 then Inr (0, h)
        else
          let pageCount = ROUND_UP64 sz 4096 div 4096 in
          bindr (pmm_alloc (unat pageCount) (lh_k h)) (\<lambda>(phys, k).
            Inr (chunk, h\<lparr>lh_k := k, sm_chunks := (sm_chunks h)(chunk \<mapsto>
              \<lparr>ck_parent = parent, ck_lock = UNLOCKED, ck_ref_count = 1, ck_pageCount = pageCount, ck_phys = phys\<rparr>)\<rparr>))))"

definition shm_sbrk :: "u64 \<Rightarrow> u64 \<Rightarrow> 'x tasks_scheme \<Rightarrow> (u64 \<times> 'x tasks_scheme) exec" where
  "shm_sbrk count proc h =
     bindr (load (ts_processes h) proc) (\<lambda>P.
     let initial = shm_alloc P;
         initial = (if initial AND 0xFFF \<noteq> 0 then initial + (4096 - (initial AND 0xFFF)) else initial)
     in bindr (upd_process proc (\<lambda>P. P\<lparr>shm_alloc := initial + push_bit 12 count\<rparr>) h) (\<lambda>h. Inr (initial, h)))"

text \<open>
  The search for a hole between the mappings of a process: the node before which there is one and its address, or a
  null node and the end of the last mapping.
\<close>

partial_function (option) hole_loop :: "'x shms_scheme \<Rightarrow> u64 \<Rightarrow> u64 \<Rightarrow> u64 \<Rightarrow> (u64 \<times> u64) exec option" where
  "hole_loop h need node lastAddress =
     (if node = 0 then Some (Inr (0, lastAddress))
      else case load (lh_nodes h) node of Inl e \<Rightarrow> Some (Inl e) | Inr N \<Rightarrow>
       (case load (sm_mappings h) (n_value N) of Inl e \<Rightarrow> Some (Inl e) | Inr M \<Rightarrow>
        if mp_virt M > lastAddress \<and> mp_virt M - lastAddress \<ge> need then Some (Inr (node, lastAddress))
        else (case load (sm_chunks h) (mp_chunk M) of Inl e \<Rightarrow> Some (Inl e) | Inr C \<Rightarrow>
          hole_loop h need (n_next N) (mp_virt M + ck_pageCount C * 4096))))"

definition map_chunk :: "u64 \<Rightarrow> u64 \<Rightarrow> u64 \<Rightarrow> u64 \<Rightarrow> 'x shms_scheme \<Rightarrow> 'x shms_scheme exec" where
  "map_chunk proc chunk mapping virt h =
     bindr (load (ts_processes h) proc) (\<lambda>P.
     bindr (load (sm_chunks h) chunk) (\<lambda>C.
     bindr (vmm_map (page_table P) virt (ck_phys C) (ck_pageCount C) 7
              (h\<lparr>sm_mappings := (sm_mappings h)(mapping \<mapsto> \<lparr>mp_chunk = chunk, mp_lock = UNLOCKED, mp_virt = virt\<rparr>)\<rparr>)) (\<lambda>(_, h).
       Inr h)))"

definition map_behind :: "u64 \<Rightarrow> u64 \<Rightarrow> u64 \<Rightarrow> u64 \<Rightarrow> 'x shms_scheme \<Rightarrow> (u64 \<times> 'x shms_scheme) exec" where
  "map_behind proc chunk mapping virt h =
     bindr (map_chunk proc chunk mapping virt h) (\<lambda>h.
     bindr (load (ts_processes h) proc) (\<lambda>P.
     bindr (list_push_back (Tasks.shm_map P) mapping h) (\<lambda>(_, h). Inr (virt, h))))"

definition shm_map_chunk :: "u64 \<Rightarrow> u64 \<Rightarrow> 'x shms_scheme \<Rightarrow> (u64 \<times> 'x shms_scheme) exec" where
  "shm_map_chunk chunk proc h =
     (if chunk = 0 then Inr (0, h)
      else
        bindr (grab 48 h) (\<lambda>(mapping, h).
        if mapping = 0 then Inl NullDeref
        else
          bindr (load (ts_processes h) proc) (\<lambda>P.
          bindr (load (sm_chunks h) chunk) (\<lambda>C.
          let need = ck_pageCount C * 4096 in
          bindr (if Tasks.shm_map P = 0 then
                   bindr (list_create h) (\<lambda>(l, h).
                   bindr (upd_process proc (\<lambda>P. P\<lparr>shm_map := l\<rparr>) h) (\<lambda>h. Inr ((0, USER_SHM_LOW), h)))
                 else
                   bindr (load (lh_lists h) (Tasks.shm_map P)) (\<lambda>L.
                   bindr (run_loop (hole_loop h need (l_root L) USER_SHM_LOW)) (\<lambda>r. Inr (r, h)))) (\<lambda>((node, lastAddress), h).
          if node \<noteq> 0 then
            bindr (map_chunk proc chunk mapping lastAddress h) (\<lambda>h.
            bindr (list_push_before (Tasks.shm_map P) node mapping h) (\<lambda>(_, h). Inr (lastAddress, h)))
          else if shm_alloc P > lastAddress \<and> shm_alloc P - lastAddress \<ge> need then map_behind proc chunk mapping lastAddress h
          else bindr (shm_sbrk (ck_pageCount C) proc h) (\<lambda>(new_page, h). map_behind proc chunk mapping new_page h))))))"

text \<open>\<^verbatim>\<open>ref_count\<close> is signed.\<close>

definition shm_release_chunk :: "u64 \<Rightarrow> 'x shms_scheme \<Rightarrow> 'x shms_scheme exec" where
  "shm_release_chunk chunk h =
     (if chunk = 0 then Inr h
      else
        bindr (set_chunk chunk (\<lambda>C. C\<lparr>ck_ref_count := ck_ref_count C - 1\<rparr>) h) (\<lambda>h.
        bindr (load (sm_chunks h) chunk) (\<lambda>C.
        if sint (ck_ref_count C) \<le> 0 then
          bindr (pmm_free (ck_phys C) (unat (ck_pageCount C)) (km_pmm (lh_k h))) (\<lambda>p.
          bindr (set_snode (ck_parent C) (\<lambda>S. S\<lparr>sn_chunk := 0\<rparr>) (h\<lparr>lh_k := (lh_k h)\<lparr>km_pmm := p\<rparr>\<rparr>)) (\<lambda>h.
          bindr (release chunk h) (\<lambda>h. Inr (h\<lparr>sm_chunks := (sm_chunks h)(chunk := None)\<rparr>))))
        else Inr h)))"

section \<open>Obtaining and releasing\<close>

text \<open>Stores into memory of the caller.\<close>

definition user_put :: "u64 \<Rightarrow> u8 \<Rightarrow> 'x vheap_scheme \<Rightarrow> 'x vheap_scheme exec" where
  "user_put v b h =
     (if kernel_ptr v then Inr (set_mem (\<lambda>m. m(phys_of v := b)) h)
      else case pt_abs (km_mem (lh_k h)) (unat (vm_cr3 h)) (vpn v) of
        None \<Rightarrow> Inl WildAccess
      | Some e \<Rightarrow> Inr (set_mem (\<lambda>m. m(frame e + unat v mod 4096 := b)) h))"

fun user_store :: "u64 \<Rightarrow> nat \<Rightarrow> u64 \<Rightarrow> 'x vheap_scheme \<Rightarrow> 'x vheap_scheme exec" where
  "user_store v 0 w h = Inr h"
| "user_store v (Suc n) w h = bindr (user_put v (ucast w) h) (user_store (v + 1) n (drop_bit 8 w))"

definition shm_process :: "nat \<Rightarrow> 'x tasks_scheme \<Rightarrow> u64 exec" where
  "shm_process cpu h = bindr (scheduler_get_current_pid cpu h) (\<lambda>pid. elem (SchedulerProcesses h) (unat pid))"

definition shm_obtain :: "nat \<Rightarrow> u8 list \<Rightarrow> u64 \<Rightarrow> 'x shms_scheme \<Rightarrow> (u64 \<times> 'x shms_scheme) exec" where
  "shm_obtain cpu path sz h =
     bindr (spin_acquire_exec (SHMLock h)) (\<lambda>b.
     let h = h\<lparr>SHMLock := b\<rparr> in
     bindr (shm_process cpu h) (\<lambda>proc.
     bindr (get_node path True h) (\<lambda>(node, h).
     bindr (load (sm_nodes h) node) (\<lambda>S.
     bindr (if sn_chunk S = 0 then
              (if sz = 0 then Inr (0, h)
               else bindr (user_word h sz 8) (\<lambda>n.
                 bindr (create_chunk node n h) (\<lambda>(chunk, h).
                 if chunk = 0 then Inr (0, h)
                 else bindr (set_snode node (\<lambda>S. S\<lparr>sn_chunk := chunk\<rparr>) h) (\<lambda>h. Inr (chunk, h)))))
            else bindr (set_chunk (sn_chunk S) (\<lambda>C. C\<lparr>ck_ref_count := ck_ref_count C + 1\<rparr>) h) (\<lambda>h. Inr (sn_chunk S, h)))
       (\<lambda>(chunk, h).
     if chunk = 0 then Inr (0, h\<lparr>SHMLock := UNLOCKED\<rparr>)
     else
       bindr (shm_map_chunk chunk proc h) (\<lambda>(virtStart, h).
       bindr (load (sm_chunks h) chunk) (\<lambda>C.
       bindr (user_store sz 8 (ck_pageCount C * 4096) h) (\<lambda>h. Inr (virtStart, h\<lparr>SHMLock := UNLOCKED\<rparr>)))))))))"

partial_function (option) mapping_loop :: "'x shms_scheme \<Rightarrow> u64 \<Rightarrow> u64 \<Rightarrow> u64 exec option" where
  "mapping_loop h chunk node =
     (if node = 0 then Some (Inr 0)
      else case load (lh_nodes h) node of Inl e \<Rightarrow> Some (Inl e) | Inr N \<Rightarrow>
       (case load (sm_mappings h) (n_value N) of Inl e \<Rightarrow> Some (Inl e) | Inr M \<Rightarrow>
        if mp_chunk M = chunk then Some (Inr node) else mapping_loop h chunk (n_next N)))"

definition shm_release :: "nat \<Rightarrow> u8 list \<Rightarrow> 'x shms_scheme \<Rightarrow> (u64 \<times> 'x shms_scheme) exec" where
  "shm_release cpu path h =
     bindr (spin_acquire_exec (SHMLock h)) (\<lambda>b.
     let h = h\<lparr>SHMLock := b\<rparr> in
     bindr (shm_process cpu h) (\<lambda>proc.
     bindr (get_node path False h) (\<lambda>(shmNode, h).
     if shmNode = 0 then Inr (-1, h\<lparr>SHMLock := UNLOCKED\<rparr>)
     else
       bindr (load (sm_nodes h) shmNode) (\<lambda>S.
       bindr (load (ts_processes h) proc) (\<lambda>P.
       bindr (load (lh_lists h) (Tasks.shm_map P)) (\<lambda>L.
       bindr (run_loop (mapping_loop h (sn_chunk S) (l_root L))) (\<lambda>node.
       if node = 0 then Inr (-1, h\<lparr>SHMLock := UNLOCKED\<rparr>)
       else
         bindr (load (lh_nodes h) node) (\<lambda>N.
         bindr (load (sm_mappings h) (n_value N)) (\<lambda>M.
         bindr (load (sm_chunks h) (mp_chunk M)) (\<lambda>C.
         bindr (vmm_unmap (page_table P) (mp_virt M) (ck_pageCount C) h) (\<lambda>(_, h).
         bindr (shm_release_chunk (sn_chunk S) h) (\<lambda>h.
         bindr (list_remove (Tasks.shm_map P) node h) (\<lambda>(_, h).
         bindr (release (n_value N) h) (\<lambda>h.
           Inr (0, h\<lparr>sm_mappings := (sm_mappings h)(n_value N := None), SHMLock := UNLOCKED\<rparr>)))))))))))))))"

definition syscall_shm_obtain :: "nat \<Rightarrow> irq_regs_t \<Rightarrow> 'x shms_scheme \<Rightarrow> (u64 \<times> 'x shms_scheme) exec" where
  "syscall_shm_obtain cpu regs h =
     bindr (user_str (rg_rdi regs) h) (\<lambda>path.
     if syscall_privilege_check (rg_rdi regs) (of_nat (length path) + 1) then Inr (-1, h)
     else if syscall_privilege_check (rg_rsi regs) 8 then Inr (-1, h)
     else shm_obtain cpu path (rg_rsi regs) h)"

definition syscall_shm_release :: "nat \<Rightarrow> irq_regs_t \<Rightarrow> 'x shms_scheme \<Rightarrow> (u64 \<times> 'x shms_scheme) exec" where
  "syscall_shm_release cpu regs h =
     bindr (user_str (rg_rdi regs) h) (\<lambda>path.
     if syscall_privilege_check (rg_rdi regs) (of_nat (length path) + 1) then Inr (-1, h)
     else shm_release cpu path h)"

text \<open>The initialiser of the module; the two arguments are the addresses of the handlers.\<close>

definition SYSCALL_ID :: "u64 \<Rightarrow> u64 \<Rightarrow> u64" where
  "SYSCALL_ID module i = push_bit 8 (module AND 0xFF) OR (i AND 0xFF)"

definition shm_init :: "u64 \<Rightarrow> u64 \<Rightarrow> 'x shms_scheme \<Rightarrow> (u64 \<times> 'x shms_scheme) exec" where
  "shm_init obtain_fn release_fn h =
     bindr (say (str ''Initing shm module'' @ [10]) h) (\<lambda>h.
     bindr (gentree_create h) (\<lambda>(tree, h).
     bindr (gentree_insert tree 0 0 (h\<lparr>SHMTree := tree\<rparr>)) (\<lambda>(_, h).
     bindr (syscall_install obtain_fn (SYSCALL_ID 0x53 0) h) (\<lambda>(ok, h).
     bindr (if ok then syscall_install release_fn (SYSCALL_ID 0x53 1) h else Inr (False, h)) (\<lambda>(ok, h).
     bindr (if ok then Inr h else say (str ''[SHM] Failed to assign syscalls'' @ [10]) h) (\<lambda>h. Inr (0, h)))))))"

section \<open>Lemmas\<close>

lemma shm_sbrk_aligned:
  assumes "ts_processes h proc = Some P" "proc \<noteq> 0"
  shows "\<exists>a h'. shm_sbrk count proc h = Inr (a, h') \<and> a AND 0xFFF = 0 \<and>
    ts_processes h' proc = Some (P\<lparr>shm_alloc := a + push_bit 12 count\<rparr>)"
proof -
  let ?i = "shm_alloc P"
  have m: "x AND 0xFFF = take_bit 12 x" for x :: u64
    by (simp add: take_bit_eq_mask mask_eq_exp_minus_1)
  have "?i + (4096 - take_bit 12 ?i) = push_bit 12 (?i div 4096 + 1)"
    using div_mult_mod_eq [of ?i 4096] by (simp add: take_bit_eq_mod push_bit_eq_mult algebra_simps)
  then have "(?i + (4096 - (?i AND 0xFFF))) AND 0xFFF = 0"
    unfolding m by (simp add: take_bit_push_bit)
  then show ?thesis
    using assms by (simp add: shm_sbrk_def upd_process_def Let_def)
qed

text \<open>The search depends only on the chain of next pointers and on the mappings, and it stops at a node of the chain.\<close>

lemma hole_loop_chain:
  assumes "fchain (lh_nodes h) ns" "fchain (lh_nodes h') ns" "sm_mappings h' = sm_mappings h" "sm_chunks h' = sm_chunks h"
  shows "hole_loop h' need (first ns 0) a = hole_loop h need (first ns 0) a"
  using assms(1,2)
proof (induction ns arbitrary: a)
  case Nil
  show ?case by (subst (1 2) hole_loop.simps) simp
next
  case (Cons x ns)
  obtain n v where x: "x = (n, v)" by (cases x)
  from Cons.prems x obtain N N' where N: "lh_nodes h n = Some N" "lh_nodes h' n = Some N'" "n_value N = v" "n_value N' = v"
      "n_next N = first ns 0" "n_next N' = first ns 0" "n \<noteq> 0" "fchain (lh_nodes h) ns" "fchain (lh_nodes h') ns"
    by auto
  show ?case
    using Cons.IH [OF N(8,9)] N(1-7) assms(3,4) x
    by (subst (1 2) hole_loop.simps) (simp add: load_def split: option.split sum.split)
qed

lemma hole_loop_node:
  assumes "fchain (lh_nodes h) ns" "hole_loop h need (first ns 0) a = Some (Inr (node, b))" "node \<noteq> 0"
  shows "node \<in> fst ` set ns"
  using assms(1,2)
proof (induction ns arbitrary: a)
  case Nil
  then show ?case
    using assms(3) by (simp add: hole_loop.simps)
next
  case (Cons x ns)
  obtain n v where x: "x = (n, v)" by (cases x)
  from Cons.prems x obtain N where N: "lh_nodes h n = Some N" "n_value N = v" "n_next N = first ns 0" "n \<noteq> 0" "fchain (lh_nodes h) ns"
    by auto
  show ?case
    using Cons.prems(2) Cons.IH [OF N(5)] N(1-4) x
    by (subst (asm) hole_loop.simps) (auto simp: load_def split: option.splits sum.splits if_splits)
qed

text \<open>
  C34. Holes between shared mappings are handed out again. When \<^verbatim>\<open>shm_map\<close> finds a hole before a mapping of the list of
  a process, it enters the new mapping with \<^verbatim>\<open>list_push_before\<close>, which does not link it: the next search for a hole of
  that size finds the same place again, so the next chunk is mapped over the first one.
\<close>

theorem shm_hole_found_again:
  assumes wf: "lheap_wf X h A" "A l = Some ns" "\<not> list_oom h" "lh_lists h l = Some L"
    and hole: "hole_loop h need (l_root L) USER_SHM_LOW = Some (Inr (node, a))" "node \<noteq> 0"
  shows "\<exists>n h' L'. list_push_before l node mapping h = Inr (n, h') \<and> lh_lists h' l = Some L' \<and>
    hole_loop h' need (l_root L') USER_SHM_LOW = Some (Inr (node, a))"
proof -
  have "list_ok h l ns"
    by (rule lheap_wf_list [OF wf(1,2)])
  then have ns: "l_root L = first ns 0" "fchain (lh_nodes h) ns"
    using wf(4) dseg_fchain by (auto simp: list_ok_def)
  have "node \<in> fst ` set ns"
    using hole_loop_node [OF ns(2)] hole unfolding ns(1) by blast
  from wf(1,2) this wf(3) obtain n k m L' where run:
      "list_push_before l node mapping h = Inr (n, h\<lparr>lh_k := k, lh_nodes := m, lh_lists := (lh_lists h)(l \<mapsto> L')\<rparr>)"
      and m: "fchain m ns" and L': "l_root L' = first ns 0"
    by (rule list_push_before_run)
  let ?h' = "h\<lparr>lh_k := k, lh_nodes := m, lh_lists := (lh_lists h)(l \<mapsto> L')\<rparr>"
  have "hole_loop ?h' need (first ns 0) USER_SHM_LOW = hole_loop h need (first ns 0) USER_SHM_LOW"
    by (rule hole_loop_chain [OF ns(2)]) (use m in simp_all)
  then have "hole_loop ?h' need (l_root L') USER_SHM_LOW = Some (Inr (node, a))"
    using hole(1) by (simp only: ns(1) L')
  then show ?thesis
    using run by (intro exI [of _ n] exI [of _ ?h'] exI [of _ L']) simp
qed

text \<open>A process whose first mapping starts five pages above the bottom of the shared area.\<close>

definition small_shm :: shms where
  "small_shm = sys.extend (mods.extend (exts.extend (fats.extend (parts.extend (pipes.extend
     ((empty_pipe (lh_k three_lheap))\<lparr>lh_lists := lh_lists three_lheap, lh_nodes := lh_nodes three_lheap\<rparr>)
     (parts.fields Map.empty)) (fats.fields Map.empty Map.empty)) (exts.fields Map.empty Map.empty)) (mods.fields 0))
     (sys.fields UNLOCKED (\<lambda>_. 0)))
     (shms.fields UNLOCKED 0 Map.empty Map.empty
       [11 \<mapsto> \<lparr>mp_chunk = 1, mp_lock = UNLOCKED, mp_virt = USER_SHM_LOW + 0x5000\<rparr>])"

lemma small_shm_sel:
  "lh_k small_shm = lh_k three_lheap" "lh_lists small_shm = lh_lists three_lheap" "lh_nodes small_shm = lh_nodes three_lheap"
  "sm_mappings small_shm = [11 \<mapsto> \<lparr>mp_chunk = 1, mp_lock = UNLOCKED, mp_virt = USER_SHM_LOW + 0x5000\<rparr>]"
  by (simp_all add: small_shm_def sys.defs mods.defs exts.defs fats.defs parts.defs pipes.defs shms.defs empty_pipe_def vfs.defs trees.defs)

theorem shm_hole_found_again_witness:
  "\<exists>n h' L'. list_push_before (block_addr 4) (block_addr 6) 99 small_shm = Inr (n, h') \<and> lh_lists h' (block_addr 4) = Some L' \<and>
     hole_loop h' 0x1000 (l_root L') USER_SHM_LOW = Some (Inr (block_addr 6, USER_SHM_LOW))"
proof -
  have bl: "block_addr 6 \<noteq> 0" "block_addr 6 \<noteq> block_addr 8" "block_addr 6 \<noteq> block_addr 10"
    by (simp_all add: block_addr_def MEM_PHYS_OFFSET_def)
  have "lheap_wf {} small_shm three_abs" "\<not> list_oom small_shm"
    using three_wf three_room by (simp_all add: lheap_wf_def list_ok_def list_oom_def small_shm_sel)
  moreover have L: "lh_lists small_shm (block_addr 4) = Some \<lparr>l_length = 3, l_root = block_addr 6, l_tail = block_addr 10, l_lock = True\<rparr>"
    by (simp add: small_shm_sel three_lheap_def)
  moreover have "hole_loop small_shm 0x1000 (block_addr 6) USER_SHM_LOW = Some (Inr (block_addr 6, USER_SHM_LOW))"
    using bl by (subst hole_loop.simps) (simp add: small_shm_sel three_lheap_def USER_SHM_LOW_def)
  ultimately show ?thesis
    using shm_hole_found_again [of "{}" small_shm three_abs "block_addr 4" _ _ "0x1000" "block_addr 6" USER_SHM_LOW 99] bl
    by (auto simp: three_abs_def)
qed

end
