(* ===== verification/Packetfs.thy ===== *)
theory Packetfs
  imports Shm
begin

text \<open>
  The packet manager, \<^verbatim>\<open>modules/packetfs/packetfs.c\<close>: a server and its clients exchange packets through pipes. The
  first argument of the operations is the code behind nodes, as for the file systems; the local that
  \<^verbatim>\<open>packetfs_receive_packet\<close> reads the head of a packet into is at \<open>fr\<close>, the local array of two nodes at \<open>pl\<close>.
\<close>

section \<open>Data\<close>

record pmgr_t =
  pm_filesystem :: u64
  pm_lock :: lock

record pmgr_instance_t =
  pi_lock :: lock
  pi_name :: "u8 list"
  pi_new :: bool
  pi_server_pipe :: u64
  pi_clients :: u64

record pmgr_client_t =
  pc_pipe :: u64
  pc_parent :: u64

record packets = shms +
  pk_managers :: "u64 \<rightharpoonup> pmgr_t"
  pk_instances :: "u64 \<rightharpoonup> pmgr_instance_t"
  pk_clients :: "u64 \<rightharpoonup> pmgr_client_t"

definition MAX_PACKET_SIZE :: u64 where "MAX_PACKET_SIZE = 1024"

text \<open>The functions this module installs in nodes.\<close>

definition Packetfs_open :: fs_fn where "Packetfs_open = Other_fn 1"
definition Packetfs_server_read :: fs_fn where "Packetfs_server_read = Other_fn 2"
definition Packetfs_server_write :: fs_fn where "Packetfs_server_write = Other_fn 3"
definition Packetfs_client_read :: fs_fn where "Packetfs_client_read = Other_fn 4"
definition Packetfs_client_write :: fs_fn where "Packetfs_client_write = Other_fn 5"
definition Packetfs_finddir :: fs_fn where "Packetfs_finddir = Other_fn 6"
definition Packetfs_create :: fs_fn where "Packetfs_create = Other_fn 7"

definition negative :: "u64 \<Rightarrow> bool" where
  "negative r \<longleftrightarrow> sint r < 0"

section \<open>Packets\<close>

text \<open>A packet is its source, its size and its data, one after the other.\<close>

definition packet_source :: "u64 \<Rightarrow> 'x lheap_scheme \<Rightarrow> u64" where
  "packet_source p h = read64 (km_mem (lh_k h)) (phys_of p)"

definition packet_size :: "u64 \<Rightarrow> 'x lheap_scheme \<Rightarrow> u64" where
  "packet_size p h = read64 (km_mem (lh_k h)) (phys_of p + 8)"

definition packetfs_receive_packet ::
    "'x vfs_scheme vfs_code \<Rightarrow> u64 \<Rightarrow> u64 \<Rightarrow> 'x vfs_scheme \<Rightarrow> (u64 \<times> u64 \<times> 'x vfs_scheme) exec" where
  "packetfs_receive_packet code fr socket h =
     bindr (vfs_read code socket fr 16 h) (\<lambda>(r, h).
     if negative r then Inr (-1, 0, h)
     else
       let n = packet_size fr h in
       bindr (grab (n + 16) h) (\<lambda>(out, h).
       if out = 0 then Inl NullDeref
       else
         let h = set_mem (\<lambda>m. memcpy m (phys_of out) (phys_of fr) 16) h in
         bindr (if n \<noteq> 0 then vfs_read code socket (out + 16) n h else Inr (r, h)) (\<lambda>(r, h).
         if negative r then Inr (-1, out, h) else Inr (16 + n, out, h))))"

definition send_packet ::
    "'x vfs_scheme vfs_code \<Rightarrow> u64 \<Rightarrow> u64 \<Rightarrow> u64 \<Rightarrow> u64 \<Rightarrow> 'x vfs_scheme \<Rightarrow> (u64 \<times> 'x vfs_scheme) exec" where
  "send_packet code pipe source sz data h =
     bindr (grab (sz + 16) h) (\<lambda>(packet, h).
     if packet = 0 then Inl NullDeref
     else
       bindr (checked sz [data] ()) (\<lambda>_.
       bindr (vfs_write code pipe packet (sz + 16) (set_mem (\<lambda>m.
           memcpy (write64 (write64 m (phys_of packet) source) (phys_of packet + 8) sz) (phys_of packet + 16) (phys_of data) (unat sz)) h)) (\<lambda>(r, h).
       bindr (release packet h) (\<lambda>h. Inr (r, h)))))"

definition packetfs_send_to_server ::
    "'x packets_scheme vfs_code \<Rightarrow> u64 \<Rightarrow> u64 \<Rightarrow> u64 \<Rightarrow> u64 \<Rightarrow> 'x packets_scheme \<Rightarrow> (u64 \<times> 'x packets_scheme) exec" where
  "packetfs_send_to_server code instance client sz data h =
     bindr (load (pk_instances h) instance) (\<lambda>I. send_packet code (pi_server_pipe I) client sz data h)"

definition packetfs_send_to_client ::
    "'x packets_scheme vfs_code \<Rightarrow> u64 \<Rightarrow> u64 \<Rightarrow> u64 \<Rightarrow> 'x packets_scheme \<Rightarrow> (u64 \<times> 'x packets_scheme) exec" where
  "packetfs_send_to_client code client sz data h =
     bindr (load (pk_clients h) client) (\<lambda>C. send_packet code (pc_pipe C) 0 sz data h)"

section \<open>The functions of a node\<close>

definition packetfs_server_read ::
    "'x packets_scheme vfs_code \<Rightarrow> u64 \<Rightarrow> u64 \<Rightarrow> u64 \<Rightarrow> u64 \<Rightarrow> 'x packets_scheme \<Rightarrow> (u64 \<times> 'x packets_scheme) exec" where
  "packetfs_server_read code fr node buffer sz h =
     bindr (load (vf_nodes h) node) (\<lambda>N.
     if vn_data N = 0 then Inr (-1, h)
     else
       bindr (load (pk_instances h) (vn_data N)) (\<lambda>I.
       bindr (packetfs_receive_packet code fr (pi_server_pipe I) h) (\<lambda>(r, packet, h).
       if negative r then
         bindr (say (str ''[PaketFS] Failed to read Packet: Generic Error'' @ [10]) h) (\<lambda>h. Inr (-1, h))
       else
         let n = packet_size packet h + 16 in
         if n > sz then
           bindr (say (str ''[PaketFS] Failed to read Packet: Size mismatch'' @ [10]) h) (\<lambda>h. Inr (-1, h))
         else
           bindr (checked n [buffer] (set_mem (\<lambda>m. memcpy m (phys_of buffer) (phys_of packet) (unat n)) h)) (\<lambda>h.
           bindr (release packet h) (\<lambda>h. Inr (n, h))))))"

text \<open>A packet for all clients goes to one after the other, with the instance locked.\<close>

partial_function (option) broadcast_loop ::
    "'x packets_scheme vfs_code \<Rightarrow> u64 \<Rightarrow> u64 \<Rightarrow> u64 \<Rightarrow> 'x packets_scheme \<Rightarrow> 'x packets_scheme exec option" where
  "broadcast_loop code sz data cnode h =
     (if cnode = 0 then Some (Inr h)
      else case load (lh_nodes h) cnode of Inl e \<Rightarrow> Some (Inl e) | Inr N \<Rightarrow>
       (case packetfs_send_to_client code (n_value N) sz data h of Inl e \<Rightarrow> Some (Inl e) | Inr r \<Rightarrow>
        (case load (lh_nodes (snd r)) cnode of Inl e \<Rightarrow> Some (Inl e) | Inr N \<Rightarrow>
          broadcast_loop code sz data (n_next N) (snd r))))"

definition set_instance ::
    "u64 \<Rightarrow> (pmgr_instance_t \<Rightarrow> pmgr_instance_t) \<Rightarrow> 'x packets_scheme \<Rightarrow> 'x packets_scheme exec" where
  "set_instance p f h = bindr (modify p f (pk_instances h)) (\<lambda>m. Inr (h\<lparr>pk_instances := m\<rparr>))"

definition packetfs_server_write ::
    "'x packets_scheme vfs_code \<Rightarrow> u64 \<Rightarrow> u64 \<Rightarrow> u64 \<Rightarrow> 'x packets_scheme \<Rightarrow> (u64 \<times> 'x packets_scheme) exec" where
  "packetfs_server_write code node buffer sz h =
     bindr (load (vf_nodes h) node) (\<lambda>N.
     let instance = vn_data N in
     if instance = 0 \<or> buffer = 0 then Inr (-1, h)
     else if sz - 8 > MAX_PACKET_SIZE then Inr (-1, h)
     else
       let target = read64 (km_mem (lh_k h)) (phys_of buffer) in
       if target = 0 then
         bindr (load (pk_instances h) instance) (\<lambda>I.
         bindr (spin_acquire_exec (pi_lock I)) (\<lambda>b.
         bindr (set_instance instance (\<lambda>I. I\<lparr>pi_lock := b\<rparr>) h) (\<lambda>h.
         bindr (load (lh_lists h) (pi_clients I)) (\<lambda>L.
         bindr (run_loop (broadcast_loop code (sz - 8) (buffer + 8) (l_root L) h)) (\<lambda>h.
         bindr (set_instance instance (\<lambda>I. I\<lparr>pi_lock := UNLOCKED\<rparr>) h) (\<lambda>h. Inr (sz, h)))))))
       else
         bindr (load (pk_clients h) target) (\<lambda>C.
         if pc_parent C \<noteq> instance then Inr (-1, h)
         else packetfs_send_to_client code target (sz - 8) (buffer + 8) h))"

text \<open>The client behind a node, if it belongs to the instance of the node.\<close>

definition client_of :: "vfs_node_t \<Rightarrow> 'x packets_scheme \<Rightarrow> (u64 \<times> pmgr_client_t) option exec" where
  "client_of N h = (if vn_internIndex N = 0 then Inr None
     else bindr (load (pk_clients h) (vn_internIndex N)) (\<lambda>C.
       Inr (if pc_parent C \<noteq> vn_data N then None else Some (vn_internIndex N, C))))"

definition packetfs_client_read ::
    "'x packets_scheme vfs_code \<Rightarrow> u64 \<Rightarrow> u64 \<Rightarrow> u64 \<Rightarrow> u64 \<Rightarrow> 'x packets_scheme \<Rightarrow> (u64 \<times> 'x packets_scheme) exec" where
  "packetfs_client_read code fr node buffer sz h =
     bindr (load (vf_nodes h) node) (\<lambda>N.
     bindr (client_of N h) (\<lambda>c. case c of None \<Rightarrow> Inr (-1, h) | Some (_, C) \<Rightarrow>
       bindr (packetfs_receive_packet code fr (pc_pipe C) h) (\<lambda>(r, packet, h).
       if negative r then Inr (-1, h)
       else
         let n = packet_size packet h in
         if n > sz then Inr (-1, h)
         else
           bindr (checked n [buffer] (set_mem (\<lambda>m. memcpy m (phys_of buffer) (phys_of packet + 16) (unat n)) h)) (\<lambda>h.
           bindr (release packet h) (\<lambda>h. Inr (n, h))))))"

definition packetfs_client_write ::
    "'x packets_scheme vfs_code \<Rightarrow> u64 \<Rightarrow> u64 \<Rightarrow> u64 \<Rightarrow> 'x packets_scheme \<Rightarrow> (u64 \<times> 'x packets_scheme) exec" where
  "packetfs_client_write code node buffer sz h =
     bindr (load (vf_nodes h) node) (\<lambda>N.
     bindr (client_of N h) (\<lambda>c. case c of None \<Rightarrow> Inr (-1, h) | Some (client, _) \<Rightarrow>
       if sz > MAX_PACKET_SIZE then Inr (-1, h)
       else
         bindr (packetfs_send_to_server code (vn_data N) client sz buffer h) (\<lambda>(r, h).
           Inr (if negative r then -1 else sz, h))))"

text \<open>A new pipe, of which only the reading node is kept.\<close>

definition one_pipe :: "u64 \<Rightarrow> 'x pipes_scheme \<Rightarrow> (u64 \<times> 'x pipes_scheme) exec" where
  "one_pipe pl h =
     bindr (pipe_create pl (h\<lparr>ts_arrays := (ts_arrays h)(pl \<mapsto> [0, 0])\<rparr>)) (\<lambda>(_, h).
     bindr (arr_get (ts_arrays h) pl 0) (\<lambda>r.
     bindr (arr_get (ts_arrays h) pl 1) (\<lambda>w.
     bindr (release w h) (\<lambda>h. Inr (r, h\<lparr>vf_nodes := (vf_nodes h)(w := None)\<rparr>)))))"

definition packetfs_open :: "u64 \<Rightarrow> u64 \<Rightarrow> u32 \<Rightarrow> 'x packets_scheme \<Rightarrow> (u64 \<times> 'x packets_scheme) exec" where
  "packetfs_open pl node flags h =
     bindr (load (vf_nodes h) node) (\<lambda>N.
     bindr (if flags AND O_CREAT \<noteq> 0 then bindr (load (pk_instances h) (vn_data N)) (\<lambda>I. Inr (pi_new I)) else Inr False) (\<lambda>new.
     if new then
       bindr (set_instance (vn_data N) (\<lambda>I. I\<lparr>pi_new := False\<rparr>) h) (\<lambda>h.
       bindr (set_vnode node (\<lambda>N. N\<lparr>vn_functions := (vn_functions N)\<lparr>fn_read := Packetfs_server_read, fn_write := Packetfs_server_write\<rparr>\<rparr>) h) (\<lambda>h.
         Inr (0, h)))
     else if flags AND O_CREAT = 0 then
       bindr (grab 16 h) (\<lambda>(client, h).
       if client = 0 then Inl NullDeref
       else
         bindr (one_pipe pl h) (\<lambda>(p, h).
         bindr (set_vnode node (\<lambda>N. N\<lparr>vn_internIndex := client,
             vn_functions := (vn_functions N)\<lparr>fn_read := Packetfs_client_read, fn_write := Packetfs_client_write\<rparr>\<rparr>)
             (h\<lparr>pk_clients := (pk_clients h)(client \<mapsto> \<lparr>pc_pipe = p, pc_parent = vn_data N\<rparr>)\<rparr>)) (\<lambda>h.
         bindr (load (pk_instances h) (vn_data N)) (\<lambda>I.
         bindr (list_push_back (pi_clients I) client h) (\<lambda>(_, h). Inr (0, h))))))
     else Inr (-1, h)))"

section \<open>The directory of the packet manager\<close>

text \<open>The loop over the instances: the one with the name, or null.\<close>

partial_function (option) instance_loop :: "'x packets_scheme \<Rightarrow> u8 list \<Rightarrow> u64 \<Rightarrow> u64 exec option" where
  "instance_loop h name fnode =
     (if fnode = 0 then Some (Inr 0)
      else case load (lh_nodes h) fnode of Inl e \<Rightarrow> Some (Inl e) | Inr N \<Rightarrow>
       (case load (pk_instances h) (n_value N) of Inl e \<Rightarrow> Some (Inl e) | Inr I \<Rightarrow>
        if pi_name I = name then Some (Inr (n_value N)) else instance_loop h name (n_next N)))"

definition set_manager ::
    "u64 \<Rightarrow> (pmgr_t \<Rightarrow> pmgr_t) \<Rightarrow> 'x packets_scheme \<Rightarrow> 'x packets_scheme exec" where
  "set_manager p f h = bindr (modify p f (pk_managers h)) (\<lambda>m. Inr (h\<lparr>pk_managers := m\<rparr>))"

text \<open>
  The node of an instance. The block is asked for with the size of a pointer; the heap gives whole pages, so that the
  node fits all the same. A name that does not fit in the field of the node overwrites the fields behind it, which is
  outside this model.
\<close>

definition instance_node :: "u64 \<Rightarrow> 'x packets_scheme \<Rightarrow> (u64 \<times> 'x packets_scheme) exec" where
  "instance_node instance h =
     bindr (grab 8 h) (\<lambda>(inode, h).
     if inode = 0 then Inl NullDeref
     else
       bindr (load (pk_instances h) instance) (\<lambda>I.
       if length (pi_name I) + 1 > 1024 then Inl WildAccess
       else Inr (inode, h\<lparr>vf_nodes := (vf_nodes h)(inode \<mapsto>
         zero_node\<lparr>vn_name := pi_name I, vn_functions := no_functions\<lparr>fn_open := Packetfs_open\<rparr>, vn_data := instance\<rparr>)\<rparr>)))"

text \<open>
  The part both operations start with: the manager of the node is locked and searched. Names are never \<^verbatim>\<open>NULL\<close> here, since the
  path resolution only hands on components.
\<close>

definition search_instance ::
    "u64 \<Rightarrow> u8 list \<Rightarrow> 'x packets_scheme \<Rightarrow> (u64 \<times> u64 \<times> 'x packets_scheme) exec" where
  "search_instance node name h =
     bindr (load (vf_nodes h) node) (\<lambda>N.
     bindr (load (pk_managers h) (vn_data N)) (\<lambda>M.
     bindr (spin_acquire_exec (pm_lock M)) (\<lambda>b.
     bindr (set_manager (vn_data N) (\<lambda>M. M\<lparr>pm_lock := b\<rparr>) h) (\<lambda>h.
     bindr (load (lh_lists h) (pm_filesystem M)) (\<lambda>L.
     bindr (run_loop (instance_loop h name (l_root L))) (\<lambda>i. Inr (vn_data N, i, h)))))))"

definition pmgr_unlock :: "u64 \<Rightarrow> 'x packets_scheme \<Rightarrow> 'x packets_scheme exec" where
  "pmgr_unlock pmgr = set_manager pmgr (\<lambda>M. M\<lparr>pm_lock := UNLOCKED\<rparr>)"

definition packetfs_finddir ::
    "u64 \<Rightarrow> u8 list \<Rightarrow> u8 list option \<Rightarrow> 'x packets_scheme \<Rightarrow> (u64 \<times> u8 list option \<times> 'x packets_scheme) exec" where
  "packetfs_finddir node name path h =
     bindr (search_instance node name h) (\<lambda>(pmgr, i, h).
     if i = 0 then bindr (pmgr_unlock pmgr h) (\<lambda>h. Inr (0, path, h))
     else
       bindr (instance_node i h) (\<lambda>(inode, h).
       bindr (pmgr_unlock pmgr h) (\<lambda>h. Inr (inode, path, h))))"

definition packetfs_create :: "u64 \<Rightarrow> u64 \<Rightarrow> u8 list \<Rightarrow> u32 \<Rightarrow> 'x packets_scheme \<Rightarrow> (u64 \<times> 'x packets_scheme) exec" where
  "packetfs_create pl node name flags h =
     bindr (search_instance node name h) (\<lambda>(pmgr, i, h).
     if i \<noteq> 0 then bindr (pmgr_unlock pmgr h) (\<lambda>h. Inr (0, h))
     else
       bindr (grab 64 h) (\<lambda>(instance, h).
       if instance = 0 then Inl NullDeref
       else
         bindr (dup name h) (\<lambda>(_, h).
         bindr (list_create h) (\<lambda>(clients, h).
         bindr (one_pipe pl h) (\<lambda>(server_pipe, h).
         bindr (instance_node instance (h\<lparr>pk_instances := (pk_instances h)(instance \<mapsto>
             \<lparr>pi_lock = UNLOCKED, pi_name = name, pi_new = True, pi_server_pipe = server_pipe, pi_clients = clients\<rparr>)\<rparr>)) (\<lambda>(inode, h).
         bindr (load (pk_managers h) pmgr) (\<lambda>M.
         bindr (list_push_back (pm_filesystem M) instance h) (\<lambda>(_, h).
         bindr (pmgr_unlock pmgr h) (\<lambda>h. Inr (inode, h))))))))))"

definition packetfs_init :: "'x packets_scheme \<Rightarrow> (u64 \<times> 'x packets_scheme) exec" where
  "packetfs_init h =
     bindr (grab 1136 h) (\<lambda>(node, h).
     if node = 0 then Inl NullDeref
     else
       bindr (grab 40 h) (\<lambda>(pmgr, h).
       if pmgr = 0 then Inl NullDeref
       else
         bindr (list_create h) (\<lambda>(l, h).
         bindr (vfs_mount (str ''/dev/pmgr'') node (h\<lparr>
             pk_managers := (pk_managers h)(pmgr \<mapsto> \<lparr>pm_filesystem = l, pm_lock = UNLOCKED\<rparr>),
             vf_nodes := (vf_nodes h)(node \<mapsto> zero_node\<lparr>vn_name := str ''Packet manager'', vn_flags := VFS_DIRECTORY,
               vn_functions := no_functions\<lparr>fn_create := Packetfs_create, fn_finddir := Packetfs_finddir\<rparr>, vn_data := pmgr\<rparr>)\<rparr>)) (\<lambda>h.
           Inr (0, h)))))"

definition packetfs_exit :: "u64" where "packetfs_exit = 0"

section \<open>Lemmas\<close>

text \<open>
  Foreign packets: the server side of an instance sends a packet only to its own clients. Note that
  the address of the client comes from the buffer of the writing process and is read before it is checked.
\<close>

lemma packetfs_server_write_foreign:
  assumes "vf_nodes h node = Some N" "node \<noteq> 0" "vn_data N \<noteq> 0" "buffer \<noteq> 0" "sz - 8 \<le> MAX_PACKET_SIZE"
    and "t = read64 (km_mem (lh_k h)) (phys_of buffer)" "t \<noteq> 0" "pk_clients h t = Some C" "pc_parent C \<noteq> vn_data N"
  shows "packetfs_server_write code node buffer sz h = Inr (-1, h)"
  using assms by (simp add: packetfs_server_write_def load_def Let_def not_less)

lemma packetfs_client_write_foreign:
  assumes "vf_nodes h node = Some N" "node \<noteq> 0" "vn_internIndex N \<noteq> 0"
    and "pk_clients h (vn_internIndex N) = Some C" "pc_parent C \<noteq> vn_data N"
  shows "packetfs_client_write code node buffer sz h = Inr (-1, h)"
  using assms by (simp add: packetfs_client_write_def client_of_def load_def)

end
