(* ===== verification/Spec2Isabelle.thy ===== *)
theory Spec2Isabelle
  imports Packetfs
begin

text \<open>
  A verification development for the kernel of WivOS (\<^verbatim>\<open>src/kernel\<close>): physical and virtual memory, the kernel heap,
  the utility library, processes, threads and the scheduler, formatted output, the file systems, the loader of
  programs and modules, the system calls, and two of the loadable modules (\<^verbatim>\<open>src/modules\<close>).

  \<^bold>\<open>How the code is modelled.\<close> A C function is a HOL function with the same name that takes the state it touches and
  returns the new state, inside the type \<open>'a exec\<close>: \<open>Inl\<close> says how the call fails to return (a null or wild access, a
  division by zero, a loop that never ends, a lock nobody releases), \<open>Inr\<close> carries the result. Machine integers are
  words of the width the code uses. Byte memory is a function from physical addresses to bytes, reached through the
  direct map (\<open>phys_of\<close>); structures that the code only uses through typed pointers are records in a map from addresses,
  while their allocation and release go through the modelled heap. The state grows with the components, as a chain of
  extensible records: \<open>pmm\<close> and \<open>kmem\<close> (pages and bytes), \<open>lheap\<close> (lists), \<open>hheap\<close> (hash maps), \<open>vheap\<close> (page
  tables), \<open>tasks\<close>, \<open>console\<close>, \<open>trees\<close>, \<open>vfs\<close>, \<open>pipes\<close>, \<open>parts\<close>, \<open>fats\<close>, \<open>exts\<close>, \<open>mods\<close>, \<open>sys\<close>,
  \<open>shms\<close>, \<open>packets\<close>. Loops are structural recursion or functions
  with a termination proof where they end, and \<^theory_text>\<open>partial_function\<close> in the option type where they may not
  (walks over pointer chains, waiting loops); \<open>run_loop\<close> turns not returning into \<open>Inl HaltLoop\<close>. No fuel is used.

  \<^bold>\<open>Theories, in the order they build on each other.\<close>
    \<^item> \<open>WivOS_Prelude\<close>: the type \<open>stuck\<close>, sequencing, pointers, rounding macros and shared word lemmas.
    \<^item> \<open>Spinlock\<close> (\<^verbatim>\<open>utils/spinlock.h\<close>): the atomic operations and, as a step relation, any number of processors
      competing for a lock; mutual exclusion for all reachable states.
    \<^item> \<open>ByteMem\<close> (\<^verbatim>\<open>utils/common.c\<close>): memset, memcpy, memmove, memcmp and little-endian words.
    \<^item> \<open>Pmm\<close> (\<^verbatim>\<open>mem/pmm.c\<close>): the page bitmap; first fit, alloc/free round trip, which pages \<^verbatim>\<open>pmm_init\<close> frees.
    \<^item> \<open>Kmalloc\<close> (\<^verbatim>\<open>utils/kmalloc.c\<close>): the heap on top of it; blocks are fresh, disjoint and keep their contents. The
      locales \<open>heap_allocator\<close> and \<open>block_pool\<close> state what clients rely on, interpreted on \<open>kmalloc\<close> and \<open>kfree\<close>.
    \<^item> \<open>Lists\<close>, \<open>Hashmap\<close> (\<^verbatim>\<open>utils/lists.c\<close>): doubly linked lists and hash maps refine sequences and finite maps (locales
      \<open>sequence_store\<close>, \<open>keyed_store\<close>). \<open>Gentree\<close>: the general trees of the same file.
    \<^item> \<open>CString\<close> (\<^verbatim>\<open>utils/string.c\<close>), \<open>Crc32\<close> (\<^verbatim>\<open>utils/common.c\<close>): string routines against functions on lists, the
      table-driven checksum against polynomial division.
    \<^item> \<open>Vmm\<close> (\<^verbatim>\<open>mem/vmm.c\<close>): four-level page tables in physical memory refine a map from pages to frames (locale
      \<open>paging\<close>).
    \<^item> \<open>Tasks\<close>, \<open>Thread\<close>, \<open>Scheduler\<close> (\<^verbatim>\<open>tasking/\<close>): process table, events, thread creation with the start-up stack,
      and the scheduler; an invariant of all reachable states gives that no two processors run the same task.
    \<^item> \<open>Printf\<close> (\<^verbatim>\<open>utils/system.c\<close>): the formatted output routines; numbers can be read back.
    \<^item> \<open>Vfs\<close>, \<open>Devfs\<close>, \<open>Pipe\<close>, \<open>PipeRead\<close> (\<^verbatim>\<open>fs/\<close>): the mount tree and path resolution against a tree of names, the device list,
      pipes as byte queues for writing and for reading.
    \<^item> \<open>Partfs\<close>, \<open>Fat32\<close>, \<open>FatFile\<close>, \<open>Ext2\<close> (\<^verbatim>\<open>fs/partfs\<close>, \<^verbatim>\<open>fs/fat32\<close>, \<^verbatim>\<open>fs/ext2\<close>): partitions as slices of a disk (locale \<open>byte_source\<close>) and
      files as chains of clusters; what a read of an ext2 file returns, and what a read of a partition returns when
      another reader has moved the disk.
    \<^item> \<open>Modules\<close> (\<^verbatim>\<open>modules/modules.c\<close>): the ELF loader, \<^verbatim>\<open>exec\<close> and \<^verbatim>\<open>execve\<close>, and kernel modules with their symbols; what a
      relocation stores and which ones are refused.
    \<^item> \<open>Syscalls\<close> (\<^verbatim>\<open>tasking/syscalls.c\<close>): every handler and the dispatch; the memory of the caller is read through the
      page tables. Which buffers are refused, and how descriptors are handed out and lost.
    \<^item> \<open>Shm\<close> (\<^verbatim>\<open>src/modules/shm\<close>): named chunks of shared memory, their mappings and the system calls of the module; an
      address between two mappings is handed out more than once.
    \<^item> \<open>Packetfs\<close> (\<^verbatim>\<open>src/modules/packetfs\<close>): packets between a server and its clients over pipes, and the directory of
      the packet manager; packets for clients of another instance are refused.

  \<^bold>\<open>Parameters.\<close> Code outside the model is an argument of the definitions that call it: the driver and file system
  functions behind a node (\<open>vfs_code\<close>, with the contract \<open>disk_ok\<close> where a property needs one), the rescheduling
  interrupt (\<open>resched\<close>), saving the vector registers (\<open>sv\<close>), the memory map of the boot loader. The address of a
  local variable that is handed to such code is an argument as well, and so are the addresses of the functions a module
  installs as system calls.

  \<^bold>\<open>Bounds.\<close> Heap properties hold for sizes up to 32 TiB, far above the direct map; physical pages are bounded by the
  length of the bitmap; pipe contents by 16 TiB, so that no size computation wraps. Where the code wraps below its
  bounds, that is stated as a property.

  \<^bold>\<open>Strings in structures.\<close> From \<open>Vfs\<close> on, a name stored behind a pointer is the list of its characters before the
  terminating zero, and printing is the effect on the debug port.

  \<^bold>\<open>Not modelled.\<close> Code that is mostly device registers, descriptor tables or assembly (\<^verbatim>\<open>cpu/\<close>, \<^verbatim>\<open>devices/\<close>,
  \<^verbatim>\<open>kmain.c\<close>, \<^verbatim>\<open>utils/lai_host.c\<close>, \<^verbatim>\<open>utils/ubsan.c\<close>); the loadable drivers for graphics and USB, their
  bus code and the test module (\<^verbatim>\<open>virtio\<close>, \<^verbatim>\<open>virtiogpu\<close>, \<^verbatim>\<open>xhci\<close>, \<^verbatim>\<open>usb\<close>, \<^verbatim>\<open>usbhid\<close>, \<^verbatim>\<open>test\<close> under \<^verbatim>\<open>src/modules\<close>); and the
  user programs under \<^verbatim>\<open>src/apps\<close> and \<^verbatim>\<open>src/libs\<close>. Of the entry code in \<^verbatim>\<open>syscalls.asm\<close> only the choice of the handler is
  modelled. A page fault of a handler on an unmapped address of the caller is \<open>Inl WildAccess\<close>.
\<close>

end
